(* ===== verification/Mcu_Prelude.thy ===== *)
theory Mcu_Prelude
  imports Main "HOL-Library.Word"
begin

text \<open>
  Shared vocabulary of the development: the fixed-width integer types of the firmware, the
  kernel's error codes, the C arithmetic that differs from HOL's, copying between byte arrays,
  and the list and word lemmas that several components use.

  Function pointers that are stored in kernel or driver structures (device callbacks, pin
  interrupt handlers, thread entries) are represented by the name of the linked symbol
  (\<open>fnptr\<close>): the code only compares them, clears them and calls them.
\<close>

unbundle bit_operations_syntax

section \<open>Types and constants\<close>

type_synonym u8 = "8 word"
type_synonym u16 = "16 word"
type_synonym u32 = "32 word"
type_synonym u64 = "64 word"
type_synonym rt_err = int
type_synonym fnptr = string

named_theorems reg_simps \<open>unfolding of register-level helper definitions\<close>
named_theorems dev_simps \<open>behaviour of the device framework on each branch\<close>
named_theorems app_simps \<open>field-wise effect of the application's operations\<close>

text \<open>Error codes (\<open>src/smart-building-mcu/rt-thread/include/rtdef.h\<close>, lines 279 to 289).\<close>

abbreviation (input) RT_EOK :: int where "RT_EOK \<equiv> 0"
abbreviation (input) RT_ERROR :: int where "RT_ERROR \<equiv> 1"
abbreviation (input) RT_ETIMEOUT :: int where "RT_ETIMEOUT \<equiv> 2"
abbreviation (input) RT_EFULL :: int where "RT_EFULL \<equiv> 3"
abbreviation (input) RT_EEMPTY :: int where "RT_EEMPTY \<equiv> 4"
abbreviation (input) RT_ENOSYS :: int where "RT_ENOSYS \<equiv> 6"
abbreviation (input) RT_EBUSY :: int where "RT_EBUSY \<equiv> 7"
abbreviation (input) RT_EIO :: int where "RT_EIO \<equiv> 8"
abbreviation (input) RT_EINVAL :: int where "RT_EINVAL \<equiv> 10"

section \<open>C arithmetic\<close>

text \<open>Conversion of an integer value to a signed or unsigned 32-bit object, and division and
  remainder that truncate towards zero.\<close>

definition to_s32 :: "int \<Rightarrow> int" where
  "to_s32 x = (x + 2 ^ 31) mod 2 ^ 32 - 2 ^ 31"

definition to_s16 :: "int \<Rightarrow> int" where
  "to_s16 x = (x + 2 ^ 15) mod 2 ^ 16 - 2 ^ 15"

definition c_div :: "int \<Rightarrow> int \<Rightarrow> int" where
  "c_div a b = sgn a * sgn b * (\<bar>a\<bar> div \<bar>b\<bar>)"

definition c_mod :: "int \<Rightarrow> int \<Rightarrow> int" where
  "c_mod a b = a - b * c_div a b"

text \<open>Subtraction of two \<open>rt_size_t\<close> values (32 bits), with its wrap-around.\<close>

definition sub_u32 :: "nat \<Rightarrow> nat \<Rightarrow> nat" where
  "sub_u32 a b = nat ((int a - int b) mod 2 ^ 32)"

lemma sub_u32_le [simp]: "b \<le> a \<Longrightarrow> a < 2 ^ 32 \<Longrightarrow> sub_u32 a b = a - b"
  by (simp add: sub_u32_def nat_diff_distrib')

lemma to_s32_id [simp]: "- (2 ^ 31) \<le> x \<Longrightarrow> x < 2 ^ 31 \<Longrightarrow> to_s32 x = x"
  by (simp add: to_s32_def)

lemma to_s16_id [simp]: "- (2 ^ 15) \<le> x \<Longrightarrow> x < 2 ^ 15 \<Longrightarrow> to_s16 x = x"
  by (simp add: to_s16_def)

lemma to_s32_range: "- (2 ^ 31) \<le> to_s32 x \<and> to_s32 x < 2 ^ 31"
  by (simp add: to_s32_def)

lemma c_div_nonneg [simp]: "0 \<le> a \<Longrightarrow> 0 < b \<Longrightarrow> c_div a b = a div b"
  by (cases "a = 0") (simp_all add: c_div_def)

lemma c_mod_nonneg [simp]: "0 \<le> a \<Longrightarrow> 0 < b \<Longrightarrow> c_mod a b = a mod b"
  by (simp add: c_mod_def minus_mult_div_eq_mod)

section \<open>Byte arrays\<close>

text \<open>\<open>memcpy(&dst[off], src, n)\<close> for a range that lies inside \<open>dst\<close>.\<close>

definition memcpy_at :: "'a list \<Rightarrow> nat \<Rightarrow> 'a list \<Rightarrow> nat \<Rightarrow> 'a list" where
  "memcpy_at dst off src n = take off dst @ take n src @ drop (off + n) dst"

lemma length_memcpy_at [simp]:
  "off + n \<le> length dst \<Longrightarrow> n \<le> length src \<Longrightarrow> length (memcpy_at dst off src n) = length dst"
  by (simp add: memcpy_at_def)

text \<open>The elements of \<open>xs\<close> at positions \<open>a\<close> to \<open>b - 1\<close>.\<close>

definition segm :: "nat \<Rightarrow> nat \<Rightarrow> 'a list \<Rightarrow> 'a list" where
  "segm a b xs = take (b - a) (drop a xs)"

lemma length_segm [simp]: "b \<le> length xs \<Longrightarrow> length (segm a b xs) = b - a"
  by (simp add: segm_def)

lemma segm_empty [simp]: "b \<le> a \<Longrightarrow> segm a b xs = []"
  by (simp add: segm_def)

lemma segm_0 [simp]: "segm 0 b xs = take b xs"
  by (simp add: segm_def)

lemma segm_append:
  assumes "a \<le> b" "b \<le> c"
  shows "segm a b xs @ segm b c xs = segm a c xs"
proof -
  have "segm a c xs = take ((b - a) + (c - b)) (drop a xs)"
    using assms by (simp add: segm_def)
  also have "\<dots> = take (b - a) (drop a xs) @ take (c - b) (drop (b - a) (drop a xs))"
    by (rule take_add)
  also have "\<dots> = segm a b xs @ segm b c xs"
    using assms by (simp add: segm_def)
  finally show ?thesis by simp
qed

text \<open>A copied block is read back, and the bytes on either side of it are unchanged.\<close>

lemma segm_memcpy_same:
  "off + n \<le> length dst \<Longrightarrow> n \<le> length src \<Longrightarrow>
   segm off (off + n) (memcpy_at dst off src n) = take n src"
  by (simp add: segm_def memcpy_at_def)

lemma segm_memcpy_below:
  "b \<le> off \<Longrightarrow> off \<le> length dst \<Longrightarrow> segm a b (memcpy_at dst off src n) = segm a b dst"
  by (cases "a \<le> b") (simp_all add: segm_def memcpy_at_def drop_take)

lemma segm_memcpy_above:
  "off + n \<le> a \<Longrightarrow> off + n \<le> length dst \<Longrightarrow> n \<le> length src \<Longrightarrow>
   segm a b (memcpy_at dst off src n) = segm a b dst"
  by (simp add: segm_def memcpy_at_def)

lemmas segm_memcpy = segm_memcpy_same segm_memcpy_below segm_memcpy_above

section \<open>Step systems\<close>

text \<open>What a step relation must keep for an invariant to hold in every state it reaches.\<close>

locale step_system =
  fixes step :: "'s \<Rightarrow> 's \<Rightarrow> bool" and good :: "'s \<Rightarrow> bool"
  assumes step_good: "step s s' \<Longrightarrow> good s \<Longrightarrow> good s'"
begin

lemma steps_good: "step\<^sup>*\<^sup>* s s' \<Longrightarrow> good s \<Longrightarrow> good s'"
  by (induction rule: rtranclp_induct) (auto intro: step_good)

text \<open>Every state on a path, not only its end, is good.\<close>

lemma path_good: "step\<^sup>*\<^sup>* s m \<Longrightarrow> step\<^sup>*\<^sup>* m s' \<Longrightarrow> good s \<Longrightarrow> good m \<and> good s'"
  using steps_good by blast

end

end
