(* ===== verification/Ringbuffer.thy ===== *)
theory Ringbuffer
  imports Mcu_Prelude
begin

text \<open>
  The kernel's mirrored ring buffer
  (\<open>src/smart-building-mcu/rt-thread/components/drivers/src/ringbuffer.c\<close>).
  The structure's bit-fields are a one-bit mirror and a 15-bit index for each side; every
  assignment to an index is reduced modulo \<open>2 ^ 15\<close> as the bit-field does. The abstract view
  is the list of bytes between the read and the write position, and every operation is shown
  to be the corresponding operation of a bounded FIFO.
\<close>

section \<open>The structure and its operations\<close>

record rt_ringbuffer =
  buffer_ptr :: "u8 list"
  read_mirror :: bool
  read_index :: nat
  write_mirror :: bool
  write_index :: nat
  buffer_size :: nat

datatype rt_ringbuffer_state =
  RT_RINGBUFFER_EMPTY | RT_RINGBUFFER_FULL | RT_RINGBUFFER_HALFFULL

abbreviation idx15 :: "nat \<Rightarrow> nat" where "idx15 n \<equiv> n mod 2 ^ 15"
abbreviation len16 :: "nat \<Rightarrow> nat" where "len16 n \<equiv> n mod 2 ^ 16"

definition rt_ringbuffer_status :: "rt_ringbuffer \<Rightarrow> rt_ringbuffer_state" where
  "rt_ringbuffer_status rb =
     (if read_index rb = write_index rb then
        (if read_mirror rb = write_mirror rb then RT_RINGBUFFER_EMPTY else RT_RINGBUFFER_FULL)
      else RT_RINGBUFFER_HALFFULL)"

text \<open>\<open>None\<close> is the assertion \<open>size > 0\<close> failing. \<open>RT_ALIGN_DOWN(size, 4)\<close> clears the two
  low bits.\<close>

definition rt_ringbuffer_init :: "u8 list \<Rightarrow> int \<Rightarrow> rt_ringbuffer option" where
  "rt_ringbuffer_init pool sz =
     (if sz > 0 then
        Some \<lparr>buffer_ptr = pool, read_mirror = False, read_index = 0,
              write_mirror = False, write_index = 0, buffer_size = nat sz - nat sz mod 4\<rparr>
      else None)"

definition rt_ringbuffer_data_len :: "rt_ringbuffer \<Rightarrow> nat" where
  "rt_ringbuffer_data_len rb =
     (case rt_ringbuffer_status rb of
        RT_RINGBUFFER_EMPTY \<Rightarrow> 0
      | RT_RINGBUFFER_FULL \<Rightarrow> buffer_size rb
      | RT_RINGBUFFER_HALFFULL \<Rightarrow>
          (if write_index rb > read_index rb then write_index rb - read_index rb
           else sub_u32 (buffer_size rb) (read_index rb - write_index rb)))"

definition rt_ringbuffer_space_len :: "rt_ringbuffer \<Rightarrow> nat" where
  "rt_ringbuffer_space_len rb = sub_u32 (buffer_size rb) (rt_ringbuffer_data_len rb)"

text \<open>The two halves of a block write that both put operations share: the write that stays
  below the end of the buffer, and the one that crosses it.\<close>

definition rb_write_straight :: "rt_ringbuffer \<Rightarrow> u8 list \<Rightarrow> nat \<Rightarrow> rt_ringbuffer" where
  "rb_write_straight rb p n =
     rb\<lparr>buffer_ptr := memcpy_at (buffer_ptr rb) (write_index rb) p n,
        write_index := idx15 (write_index rb + n)\<rparr>"

definition rb_write_wrap :: "rt_ringbuffer \<Rightarrow> u8 list \<Rightarrow> nat \<Rightarrow> rt_ringbuffer" where
  "rb_write_wrap rb p n =
     (let k = buffer_size rb - write_index rb
      in rb\<lparr>buffer_ptr := memcpy_at (memcpy_at (buffer_ptr rb) (write_index rb) p k) 0 (drop k p) (n - k),
            write_mirror := \<not> write_mirror rb,
            write_index := idx15 (n - k)\<rparr>)"

definition rt_ringbuffer_put :: "rt_ringbuffer \<Rightarrow> u8 list \<Rightarrow> nat \<Rightarrow> nat \<times> rt_ringbuffer" where
  "rt_ringbuffer_put rb p len0 =
     (let sz = len16 (rt_ringbuffer_space_len rb)
      in if sz = 0 then (0, rb)
         else let n = (if sz < len0 then sz else len0)
              in if buffer_size rb - write_index rb > n
                 then (n, rb_write_straight rb p n)
                 else (n, rb_write_wrap rb p n))"

definition rt_ringbuffer_put_force :: "rt_ringbuffer \<Rightarrow> u8 list \<Rightarrow> nat \<Rightarrow> nat \<times> rt_ringbuffer" where
  "rt_ringbuffer_put_force rb p0 len0 =
     (let space_length = len16 (rt_ringbuffer_space_len rb);
          p = (if len0 > buffer_size rb then drop (len0 - buffer_size rb) p0 else p0);
          n = (if len0 > buffer_size rb then buffer_size rb else len0)
      in if buffer_size rb - write_index rb > n
         then (let rb1 = rb_write_straight rb p n
               in (n, if n > space_length then rb1\<lparr>read_index := write_index rb1\<rparr> else rb1))
         else (let rb1 = rb_write_wrap rb p n
               in (n, if n > space_length
                      then rb1\<lparr>read_mirror := \<not> read_mirror rb1, read_index := write_index rb1\<rparr>
                      else rb1)))"

text \<open>\<open>rt_ringbuffer_get\<close> returns the number of bytes and the bytes it stores at \<open>ptr\<close>.\<close>

definition rt_ringbuffer_get :: "rt_ringbuffer \<Rightarrow> nat \<Rightarrow> (nat \<times> u8 list) \<times> rt_ringbuffer" where
  "rt_ringbuffer_get rb len0 =
     (let sz = rt_ringbuffer_data_len rb
      in if sz = 0 then ((0, []), rb)
         else let n = (if sz < len0 then sz else len0);
                  k = buffer_size rb - read_index rb
              in if k > n
                 then ((n, segm (read_index rb) (read_index rb + n) (buffer_ptr rb)),
                       rb\<lparr>read_index := idx15 (read_index rb + n)\<rparr>)
                 else ((n, segm (read_index rb) (read_index rb + k) (buffer_ptr rb)
                             @ take (n - k) (buffer_ptr rb)),
                       rb\<lparr>read_mirror := \<not> read_mirror rb, read_index := idx15 (n - k)\<rparr>))"

text \<open>\<open>rt_ringbuffer_peak\<close> returns the size of the linear block and, as \<open>Some\<close> offset into the
  buffer, the pointer it stores through \<open>ptr\<close>.\<close>

definition rt_ringbuffer_peak :: "rt_ringbuffer \<Rightarrow> (nat \<times> nat option) \<times> rt_ringbuffer" where
  "rt_ringbuffer_peak rb =
     (let sz = rt_ringbuffer_data_len rb
      in if sz = 0 then ((0, None), rb)
         else if buffer_size rb - read_index rb > sz
              then ((sz, Some (read_index rb)), rb\<lparr>read_index := idx15 (read_index rb + sz)\<rparr>)
              else ((buffer_size rb - read_index rb, Some (read_index rb)),
                    rb\<lparr>read_mirror := \<not> read_mirror rb, read_index := 0\<rparr>))"

definition rt_ringbuffer_putchar :: "rt_ringbuffer \<Rightarrow> u8 \<Rightarrow> nat \<times> rt_ringbuffer" where
  "rt_ringbuffer_putchar rb ch =
     (if rt_ringbuffer_space_len rb = 0 then (0, rb)
      else let rb1 = rb\<lparr>buffer_ptr := (buffer_ptr rb)[write_index rb := ch]\<rparr>
           in (1, if int (write_index rb1) = int (buffer_size rb1) - 1
                  then rb1\<lparr>write_mirror := \<not> write_mirror rb1, write_index := 0\<rparr>
                  else rb1\<lparr>write_index := idx15 (write_index rb1 + 1)\<rparr>))"

definition rt_ringbuffer_putchar_force :: "rt_ringbuffer \<Rightarrow> u8 \<Rightarrow> nat \<times> rt_ringbuffer" where
  "rt_ringbuffer_putchar_force rb ch =
     (let old_state = rt_ringbuffer_status rb;
          rb1 = rb\<lparr>buffer_ptr := (buffer_ptr rb)[write_index rb := ch]\<rparr>
      in (1, if int (write_index rb1) = int (buffer_size rb1) - 1
             then (let rb2 = rb1\<lparr>write_mirror := \<not> write_mirror rb1, write_index := 0\<rparr>
                   in if old_state = RT_RINGBUFFER_FULL
                      then rb2\<lparr>read_mirror := \<not> read_mirror rb2, read_index := write_index rb2\<rparr>
                      else rb2)
             else (let rb2 = rb1\<lparr>write_index := idx15 (write_index rb1 + 1)\<rparr>
                   in if old_state = RT_RINGBUFFER_FULL
                      then rb2\<lparr>read_index := write_index rb2\<rparr>
                      else rb2)))"

text \<open>The byte stored through \<open>ch\<close> is \<open>Some\<close> byte; \<open>None\<close> leaves \<open>*ch\<close> alone.\<close>

definition rt_ringbuffer_getchar :: "rt_ringbuffer \<Rightarrow> (nat \<times> u8 option) \<times> rt_ringbuffer" where
  "rt_ringbuffer_getchar rb =
     (if rt_ringbuffer_data_len rb = 0 then ((0, None), rb)
      else ((1, Some (buffer_ptr rb ! read_index rb)),
            if int (read_index rb) = int (buffer_size rb) - 1
            then rb\<lparr>read_mirror := \<not> read_mirror rb, read_index := 0\<rparr>
            else rb\<lparr>read_index := idx15 (read_index rb + 1)\<rparr>))"

definition rt_ringbuffer_reset :: "rt_ringbuffer \<Rightarrow> rt_ringbuffer" where
  "rt_ringbuffer_reset rb =
     rb\<lparr>read_mirror := False, read_index := 0, write_mirror := False, write_index := 0\<rparr>"

text \<open>Creating a buffer on the heap. \<open>rb_ok\<close> says whether the structure is allocated and \<open>alloc\<close> is
  what \<open>rt_malloc\<close> returns for the bytes; the size is 16 bits unsigned here and signed in
  \<open>rt_ringbuffer_init\<close>. The outer \<open>None\<close> is a failed assertion, the inner one the null pointer, and
  the number is how many blocks stay allocated. Destroying gives both back.\<close>

definition rt_ringbuffer_create :: "bool \<Rightarrow> (nat \<Rightarrow> u8 list option) \<Rightarrow> nat \<Rightarrow> (rt_ringbuffer option \<times> nat) option" where
  "rt_ringbuffer_create rb_ok alloc sz0 =
     (if sz0 > 0 then
        (let sz = sz0 - sz0 mod 4
         in if rb_ok then
              (case alloc sz of
                 None \<Rightarrow> Some (None, 0)
               | Some pool \<Rightarrow> map_option (\<lambda>rb. (Some rb, 2)) (rt_ringbuffer_init pool (to_s16 (int sz))))
            else Some (None, 0))
      else None)"

definition rt_ringbuffer_destroy :: "rt_ringbuffer option \<Rightarrow> nat \<Rightarrow> nat option" where
  "rt_ringbuffer_destroy rb blocks = (if rb \<noteq> None then Some (blocks - 1 - 1) else None)"

section \<open>Invariant and abstraction\<close>

definition rb_wf :: "rt_ringbuffer \<Rightarrow> bool" where
  "rb_wf rb \<longleftrightarrow>
     0 < buffer_size rb \<and> buffer_size rb < 2 ^ 15 \<and> buffer_size rb \<le> length (buffer_ptr rb) \<and>
     read_index rb < buffer_size rb \<and> write_index rb < buffer_size rb \<and>
     (if read_mirror rb = write_mirror rb then read_index rb \<le> write_index rb
      else write_index rb \<le> read_index rb)"

definition rb_bytes :: "rt_ringbuffer \<Rightarrow> u8 list" where
  "rb_bytes rb =
     (if read_mirror rb = write_mirror rb then segm (read_index rb) (write_index rb) (buffer_ptr rb)
      else segm (read_index rb) (buffer_size rb) (buffer_ptr rb) @ take (write_index rb) (buffer_ptr rb))"

lemma data_len_bytes:
  "rb_wf rb \<Longrightarrow> rt_ringbuffer_data_len rb = length (rb_bytes rb)"
  by (auto simp: rt_ringbuffer_data_len_def rt_ringbuffer_status_def rb_bytes_def rb_wf_def
      split: if_splits)

lemma rb_bytes_bound: "rb_wf rb \<Longrightarrow> length (rb_bytes rb) \<le> buffer_size rb"
  by (auto simp: rb_bytes_def rb_wf_def split: if_splits)

lemma space_len_bytes:
  "rb_wf rb \<Longrightarrow> rt_ringbuffer_space_len rb = buffer_size rb - length (rb_bytes rb)"
  using rb_bytes_bound [of rb]
  by (simp add: rt_ringbuffer_space_len_def data_len_bytes rb_wf_def)

section \<open>Each operation is its FIFO counterpart\<close>

text \<open>The buffer after each kind of block write, seen through the segments that matter.\<close>

lemma straight_buffer:
  assumes "w + n \<le> length b" "n \<le> length p" "a \<le> w"
  shows "segm a (w + n) (memcpy_at b w p n) = segm a w b @ take n p"
  using assms segm_append [of a w "w + n" "memcpy_at b w p n"] by (simp add: segm_memcpy)

lemma wrap_buffer:
  assumes "w < N" "N \<le> length b" "N - w \<le> n" "n \<le> length p" "n - (N - w) \<le> a" "a \<le> w"
  defines "b2 \<equiv> memcpy_at (memcpy_at b w p (N - w)) 0 (drop (N - w) p) (n - (N - w))"
  shows "segm a N b2 = segm a w b @ take (N - w) p"
    and "segm a N b2 @ take (n - (N - w)) b2 = segm a w b @ take n p"
    and "length b2 = length b"
proof -
  define k where "k = N - w"
  have k: "w + k = N" "k \<le> n" using assms by (auto simp: k_def)
  show len: "length b2 = length b" using assms k by (simp add: b2_def)
  have "segm a N b2 = segm a N (memcpy_at b w p k)"
    unfolding b2_def k_def [symmetric] using assms k by (intro segm_memcpy_above) (auto simp: k_def)
  also have "\<dots> = segm a w b @ take k p"
    using assms k straight_buffer [of w k b p a] by simp
  finally show tail: "segm a N b2 = segm a w b @ take (N - w) p" by (simp add: k_def)
  have "take (n - k) b2 = take (n - k) (drop k p)"
    using assms by (simp add: b2_def memcpy_at_def k_def)
  moreover have "take k p @ take (n - k) (drop k p) = take n p"
    using k by (simp flip: take_add)
  ultimately show "segm a N b2 @ take (n - (N - w)) b2 = segm a w b @ take n p"
    by (simp add: tail flip: k_def)
qed

lemma write_straight_bytes:
  assumes wf: "rb_wf rb" and n: "n \<le> length p" "n \<le> buffer_size rb - length (rb_bytes rb)"
    and fits: "buffer_size rb - write_index rb > n"
  shows "rb_wf (rb_write_straight rb p n)"
    and "rb_bytes (rb_write_straight rb p n) = rb_bytes rb @ take n p"
proof -
  let ?w = "write_index rb" and ?r = "read_index rb" and ?b = "buffer_ptr rb"
  have idx: "?w + n < 2 ^ 15" "?w + n < buffer_size rb" "?w + n \<le> length ?b"
    using wf fits by (auto simp: rb_wf_def)
  have room: "read_mirror rb \<noteq> write_mirror rb \<Longrightarrow> ?w + n \<le> ?r"
    using wf n by (auto simp: rb_wf_def rb_bytes_def)
  show "rb_wf (rb_write_straight rb p n)"
    using wf n idx room by (auto simp: rb_wf_def rb_write_straight_def)
  show "rb_bytes (rb_write_straight rb p n) = rb_bytes rb @ take n p"
    using wf n idx room straight_buffer [of ?w n ?b p ?r] straight_buffer [of ?w n ?b p 0]
    by (auto simp: rb_bytes_def rb_write_straight_def rb_wf_def segm_memcpy)
qed

lemma write_wrap_bytes:
  assumes wf: "rb_wf rb" and n: "n \<le> length p" "n \<le> buffer_size rb - length (rb_bytes rb)"
    and cross: "buffer_size rb - write_index rb \<le> n"
  shows "rb_wf (rb_write_wrap rb p n)"
    and "rb_bytes (rb_write_wrap rb p n) = rb_bytes rb @ take n p"
proof -
  let ?w = "write_index rb" and ?r = "read_index rb" and ?N = "buffer_size rb"
  have same: "read_mirror rb = write_mirror rb" and behind: "n - (?N - ?w) \<le> ?r" "?r \<le> ?w"
    using wf n cross by (auto simp: rb_wf_def rb_bytes_def split: if_splits)
  have idx: "?w < ?N" "?N \<le> length (buffer_ptr rb)" "?r < ?N" "?N < 2 ^ 15"
    using wf by (auto simp: rb_wf_def)
  note buf = wrap_buffer [OF idx(1,2) cross n(1) behind]
  show "rb_wf (rb_write_wrap rb p n)"
    using wf idx behind buf(3) same by (auto simp: rb_write_wrap_def rb_wf_def Let_def)
  show "rb_bytes (rb_write_wrap rb p n) = rb_bytes rb @ take n p"
    using idx behind buf(2) same by (simp add: rb_write_wrap_def rb_bytes_def Let_def)
qed

lemma put_bytes:
  assumes wf: "rb_wf rb" and len: "len0 \<le> length p" "len0 < 2 ^ 16"
    and put: "rt_ringbuffer_put rb p len0 = (n, rb')"
  shows "rb_wf rb'" and "n = min len0 (buffer_size rb - length (rb_bytes rb))"
    and "rb_bytes rb' = rb_bytes rb @ take n p" and "buffer_size rb' = buffer_size rb"
proof -
  have sp: "rt_ringbuffer_space_len rb mod 65536 = buffer_size rb - length (rb_bytes rb)"
    using wf by (auto simp: space_len_bytes rb_wf_def)
  have n: "n = min len0 (buffer_size rb - length (rb_bytes rb))"
    using put by (auto simp: rt_ringbuffer_put_def sp Let_def split: if_splits)
  have small: "n \<le> length p" "n \<le> buffer_size rb - length (rb_bytes rb)"
    using n len by auto
  have cases: "rb' = rb \<and> n = 0 \<or>
      buffer_size rb - write_index rb > n \<and> rb' = rb_write_straight rb p n \<or>
      buffer_size rb - write_index rb \<le> n \<and> rb' = rb_write_wrap rb p n"
    using put by (auto simp: rt_ringbuffer_put_def sp Let_def split: if_splits)
  show "rb_wf rb'" "rb_bytes rb' = rb_bytes rb @ take n p" "buffer_size rb' = buffer_size rb"
    using cases wf write_straight_bytes [OF wf small] write_wrap_bytes [OF wf small]
    by (auto simp: rb_write_straight_def rb_write_wrap_def Let_def)
  show "n = min len0 (buffer_size rb - length (rb_bytes rb))" by (rule n)
qed

lemma get_bytes:
  assumes wf: "rb_wf rb" and get: "rt_ringbuffer_get rb len0 = ((n, d), rb')"
  shows "rb_wf rb'" and "n = min len0 (length (rb_bytes rb))" and "d = take n (rb_bytes rb)"
    and "rb_bytes rb' = drop n (rb_bytes rb)" and "buffer_size rb' = buffer_size rb"
proof -
  let ?r = "read_index rb" and ?w = "write_index rb" and ?b = "buffer_ptr rb" and ?N = "buffer_size rb"
  define m where "m = min len0 (length (rb_bytes rb))"
  have eq: "rt_ringbuffer_get rb len0 =
      (if rb_bytes rb = [] then ((0, []), rb)
       else if ?N - ?r > m then ((m, segm ?r (?r + m) ?b), rb\<lparr>read_index := idx15 (?r + m)\<rparr>)
       else ((m, segm ?r ?N ?b @ take (m - (?N - ?r)) ?b),
             rb\<lparr>read_mirror := \<not> read_mirror rb, read_index := idx15 (m - (?N - ?r))\<rparr>))"
    using wf by (simp add: rt_ringbuffer_get_def data_len_bytes m_def min_def Let_def rb_wf_def)
  have n: "n = min len0 (length (rb_bytes rb))"
    using get by (auto simp: eq m_def split: if_splits)
  consider (none) "rb_bytes rb = []"
    | (straight) "rb_bytes rb \<noteq> []" "?N - ?r > m" | (cross) "rb_bytes rb \<noteq> []" "?N - ?r \<le> m"
    by linarith
  then have "rb_wf rb' \<and> d = take n (rb_bytes rb) \<and> rb_bytes rb' = drop n (rb_bytes rb) \<and> buffer_size rb' = ?N"
  proof cases
    case none
    then show ?thesis using wf get by (simp add: eq)
  next
    case straight
    have lim: "read_mirror rb = write_mirror rb \<Longrightarrow> ?r + m \<le> ?w"
      using wf by (auto simp: m_def rb_bytes_def rb_wf_def)
    have "n = m" "d = segm ?r (?r + m) ?b" "rb' = rb\<lparr>read_index := ?r + m\<rparr>" "m \<le> length (rb_bytes rb)"
      using get straight wf by (auto simp: eq rb_wf_def m_def)
    then show ?thesis
      using wf lim straight(2)
      by (cases "read_mirror rb = write_mirror rb")
         (auto simp: rb_wf_def rb_bytes_def segm_def drop_take add.commute)
  next
    case cross
    have diff: "read_mirror rb \<noteq> write_mirror rb" and lim: "m - (?N - ?r) \<le> ?w"
      using wf cross(2) by (auto simp: m_def rb_bytes_def rb_wf_def split: if_splits)
    have "n = m" "d = segm ?r ?N ?b @ take (m - (?N - ?r)) ?b"
      "rb' = rb\<lparr>read_mirror := \<not> read_mirror rb, read_index := m - (?N - ?r)\<rparr>"
      using get cross wf lim by (auto simp: eq rb_wf_def)
    then show ?thesis
      using wf lim diff cross(2) by (auto simp: rb_wf_def rb_bytes_def segm_def drop_take add.commute)
  qed
  then show "rb_wf rb'" "d = take n (rb_bytes rb)" "rb_bytes rb' = drop n (rb_bytes rb)"
    "buffer_size rb' = ?N" by simp_all
  show "n = min len0 (length (rb_bytes rb))" by (rule n)
qed

text \<open>A single byte is a block of length one, in both directions.\<close>

lemma last_slot_iff:
  "i < buffer_size rb \<Longrightarrow> int i = int (buffer_size rb) - 1 \<longleftrightarrow> buffer_size rb = Suc i"
  by auto

lemma putchar_is_put:
  assumes wf: "rb_wf rb"
  shows "rt_ringbuffer_putchar rb ch = rt_ringbuffer_put rb [ch] 1"
proof -
  have w: "write_index rb < buffer_size rb" "buffer_size rb \<le> length (buffer_ptr rb)" "buffer_size rb < 2 ^ 15"
    using wf by (auto simp: rb_wf_def)
  have upd: "(buffer_ptr rb)[write_index rb := ch] = memcpy_at (buffer_ptr rb) (write_index rb) [ch] 1"
    using w by (simp add: memcpy_at_def upd_conv_take_nth_drop)
  have end_: "memcpy_at xs 0 (drop 1 [ch]) 0 = xs" for xs
    by (simp add: memcpy_at_def)
  show ?thesis
  proof (cases "buffer_size rb = Suc (write_index rb)")
    case True
    then show ?thesis
      using w rb_bytes_bound [OF wf] end_
      by (simp add: rt_ringbuffer_putchar_def rt_ringbuffer_put_def rb_write_wrap_def Let_def upd
          space_len_bytes [OF wf] last_slot_iff)
  next
    case False
    then have "buffer_size rb - write_index rb > 1" using w by linarith
    with False show ?thesis
      using w rb_bytes_bound [OF wf]
      by (simp add: rt_ringbuffer_putchar_def rt_ringbuffer_put_def rb_write_straight_def Let_def upd
          space_len_bytes [OF wf] last_slot_iff)
  qed
qed

lemma getchar_is_get:
  assumes wf: "rb_wf rb" and get: "rt_ringbuffer_getchar rb = ((n, c), rb')"
  shows "rt_ringbuffer_get rb 1 = ((n, case c of None \<Rightarrow> [] | Some b \<Rightarrow> [b]), rb')"
proof -
  have r: "read_index rb < buffer_size rb" "buffer_size rb \<le> length (buffer_ptr rb)"
    using wf by (auto simp: rb_wf_def)
  have one: "segm (read_index rb) (Suc (read_index rb)) (buffer_ptr rb) = [buffer_ptr rb ! read_index rb]"
    using r by (simp add: segm_def take_Suc hd_drop_conv_nth)
  show ?thesis
  proof (cases "buffer_size rb = Suc (read_index rb)")
    case True
    then show ?thesis
      using get r one
      by (auto simp: rt_ringbuffer_getchar_def rt_ringbuffer_get_def Let_def data_len_bytes [OF wf]
          last_slot_iff split: if_splits)
  next
    case False
    then have "buffer_size rb - read_index rb > 1" using r by linarith
    with False show ?thesis
      using get r one
      by (auto simp: rt_ringbuffer_getchar_def rt_ringbuffer_get_def Let_def data_len_bytes [OF wf]
          last_slot_iff split: if_splits)
  qed
qed

text \<open>The overwriting single-byte put drops the oldest byte exactly when the buffer is full.\<close>

lemma putchar_force_bytes:
  assumes wf: "rb_wf rb" and put: "rt_ringbuffer_putchar_force rb ch = (n, rb')"
  shows "rb_wf rb'" and "n = 1"
    and "rb_bytes rb' =
         (if length (rb_bytes rb) = buffer_size rb then tl (rb_bytes rb) else rb_bytes rb) @ [ch]"
proof -
  let ?w = "write_index rb" and ?N = "buffer_size rb" and ?b = "buffer_ptr rb"
  have w: "?w < ?N" "?N \<le> length ?b" "?N < 2 ^ 15"
    using wf by (auto simp: rb_wf_def)
  have full: "rt_ringbuffer_status rb = RT_RINGBUFFER_FULL \<longleftrightarrow> length (rb_bytes rb) = ?N"
    using wf by (auto simp: rt_ringbuffer_status_def rb_bytes_def rb_wf_def)
  have "rb_wf rb' \<and> n = 1 \<and> rb_bytes rb' =
      (if length (rb_bytes rb) = ?N then tl (rb_bytes rb) else rb_bytes rb) @ [ch]"
  proof (cases "length (rb_bytes rb) = ?N")
    case False
    then have "rt_ringbuffer_putchar rb ch = (n, rb')"
      using put rb_bytes_bound [OF wf] w full
      by (auto simp: rt_ringbuffer_putchar_force_def rt_ringbuffer_putchar_def space_len_bytes [OF wf] Let_def)
    then have "rt_ringbuffer_put rb [ch] 1 = (n, rb')"
      by (simp add: putchar_is_put [OF wf])
    from put_bytes [OF wf _ _ this] show ?thesis
      using False rb_bytes_bound [OF wf] by (simp add: min_def split: if_splits)
  next
    case True
    then have eq: "read_index rb = ?w" "read_mirror rb = (\<not> write_mirror rb)"
      using wf by (auto simp: rb_bytes_def rb_wf_def split: if_splits)
    show ?thesis
      using put eq True w full
      by (auto simp: rt_ringbuffer_putchar_force_def rb_wf_def rb_bytes_def Let_def segm_def
          last_slot_iff upd_conv_take_nth_drop take_Suc_conv_app_nth drop_Suc tl_drop tl_take
          split: if_splits)
  qed
  then show "rb_wf rb'" "n = 1" "rb_bytes rb' =
      (if length (rb_bytes rb) = ?N then tl (rb_bytes rb) else rb_bytes rb) @ [ch]"
    by simp_all
qed

text \<open>\<open>rt_ringbuffer_peak\<close> consumes the linear block it returns.\<close>

lemma peak_bytes:
  assumes wf: "rb_wf rb" and peak: "rt_ringbuffer_peak rb = ((n, p), rb')"
  shows "rb_wf rb'" and "rb_bytes rb' = drop n (rb_bytes rb)"
    and "n = 0 \<longleftrightarrow> rb_bytes rb = []"
    and "p = Some i \<Longrightarrow> segm i (i + n) (buffer_ptr rb) = take n (rb_bytes rb)"
proof -
  have r: "read_index rb < buffer_size rb" "buffer_size rb \<le> length (buffer_ptr rb)" "buffer_size rb < 2 ^ 15"
    using wf by (auto simp: rb_wf_def)
  show "rb_wf rb'" "rb_bytes rb' = drop n (rb_bytes rb)" "n = 0 \<longleftrightarrow> rb_bytes rb = []"
    "p = Some i \<Longrightarrow> segm i (i + n) (buffer_ptr rb) = take n (rb_bytes rb)"
    using peak wf r
    by (auto simp: rt_ringbuffer_peak_def data_len_bytes [OF wf] Let_def rb_wf_def rb_bytes_def
        segm_def split: if_splits)
qed

lemma init_bytes:
  assumes "rt_ringbuffer_init pool sz = Some rb" and "4 \<le> sz" and "sz < 2 ^ 15" and "nat sz \<le> length pool"
  shows "rb_wf rb" and "rb_bytes rb = []"
  using assms by (auto simp: rt_ringbuffer_init_def rb_wf_def rb_bytes_def split: if_splits)

text \<open>A buffer of 4 to 32767 bytes is created empty and well-formed, or not at all and then without
  keeping a block; destroying it gives back what it took.\<close>

lemma ringbuffer_create:
  assumes "4 \<le> sz" "sz < 2 ^ 15" "\<And>n pool. alloc n = Some pool \<Longrightarrow> length pool = n"
  shows "(\<exists>rb. rt_ringbuffer_create ok alloc sz = Some (Some rb, 2) \<and> rb_wf rb \<and> rb_bytes rb = [] \<and>
            buffer_size rb = sz - sz mod 4 \<and> rt_ringbuffer_destroy (Some rb) 2 = Some 0) \<or>
         rt_ringbuffer_create ok alloc sz = Some (None, 0)"
proof -
  define n where "n = sz - sz mod 4"
  have n: "0 < n" "n < 2 ^ 15" "n mod 4 = 0" using assms(1,2) by (auto simp: n_def minus_mod_eq_mult_div)
  have s: "to_s16 (int n) = int n" using n(2) by (intro to_s16_id) auto
  show ?thesis
  proof (cases "ok \<and> alloc n \<noteq> None")
    case True
    then obtain pool where p: "alloc n = Some pool" by auto
    with assms(3) have "length pool = n" by blast
    with True p n s assms(1) show ?thesis
      by (simp add: rt_ringbuffer_create_def rt_ringbuffer_init_def rt_ringbuffer_destroy_def rb_wf_def rb_bytes_def flip: n_def)
  qed (use assms(1) in \<open>auto simp: rt_ringbuffer_create_def simp flip: n_def\<close>)
qed

section \<open>The FIFO contract\<close>

text \<open>What a client of a byte queue relies on: \<open>put\<close> accepts as many bytes as there is room for
  and appends them, \<open>get\<close> removes a prefix. From these two laws the client gets that every
  byte that was accepted comes out once and in order.\<close>

datatype 'a fifo_op = Put "'a list" | Get nat

fun fifo_run :: "('q \<Rightarrow> 'a list \<Rightarrow> nat \<Rightarrow> nat \<times> 'q) \<Rightarrow> ('q \<Rightarrow> nat \<Rightarrow> (nat \<times> 'a list) \<times> 'q) \<Rightarrow>
    'q \<Rightarrow> 'a fifo_op list \<Rightarrow> ('a list \<times> 'a list) \<times> 'q" where
  "fifo_run put get q [] = (([], []), q)"
| "fifo_run put get q (Put p # ops) =
     (let (n, q1) = put q p (length p); ((sent, recv), q2) = fifo_run put get q1 ops
      in ((take n p @ sent, recv), q2))"
| "fifo_run put get q (Get k # ops) =
     (let ((n, d), q1) = get q k; ((sent, recv), q2) = fifo_run put get q1 ops
      in ((sent, d @ recv), q2))"

fun put_len_ok :: "'a fifo_op \<Rightarrow> bool" where
  "put_len_ok (Put p) = (length p < 2 ^ 16)"
| "put_len_ok (Get k) = True"

locale byte_fifo =
  fixes put :: "'q \<Rightarrow> 'a list \<Rightarrow> nat \<Rightarrow> nat \<times> 'q"
    and get :: "'q \<Rightarrow> nat \<Rightarrow> (nat \<times> 'a list) \<times> 'q"
    and bytes :: "'q \<Rightarrow> 'a list"
    and cap :: "'q \<Rightarrow> nat"
    and inv :: "'q \<Rightarrow> bool"
  assumes put_law: "inv q \<Longrightarrow> len \<le> length p \<Longrightarrow> len < 2 ^ 16 \<Longrightarrow> put q p len = (n, q') \<Longrightarrow>
      inv q' \<and> n = min len (cap q - length (bytes q)) \<and> bytes q' = bytes q @ take n p \<and> cap q' = cap q"
    and get_law: "inv q \<Longrightarrow> get q len = ((n, d), q') \<Longrightarrow>
      inv q' \<and> n = min len (length (bytes q)) \<and> d = take n (bytes q) \<and> bytes q' = drop n (bytes q) \<and> cap q' = cap q"
begin

lemma put_get:
  assumes "inv q" "bytes q = []" "length p \<le> cap q" "length p < 2 ^ 16"
    and "put q p (length p) = (n, q1)" "get q1 (length p) = ((m, d), q2)"
  shows "n = length p \<and> m = length p \<and> d = p \<and> bytes q2 = []"
  using put_law [OF assms(1) _ assms(4,5)] get_law [OF _ assms(6)] assms(2,3) by auto

lemma run_conserves:
  assumes "inv q" "list_all put_len_ok ops" "fifo_run put get q ops = ((sent, recv), q')"
  shows "inv q' \<and> bytes q @ sent = recv @ bytes q' \<and> cap q' = cap q"
  using assms
proof (induction ops arbitrary: q sent recv q')
  case Nil
  then show ?case by simp
next
  case (Cons op ops)
  show ?case
  proof (cases op)
    case (Put p)
    obtain n q1 where 1: "put q p (length p) = (n, q1)" by fastforce
    obtain s r q2 where 2: "fifo_run put get q1 ops = ((s, r), q2)" by (metis surj_pair)
    have law: "inv q1" "bytes q1 = bytes q @ take n p" "cap q1 = cap q"
      using put_law [OF Cons.prems(1) _ _ 1] Cons.prems(2) Put by auto
    have "sent = take n p @ s" "recv = r" "q' = q2"
      using Cons.prems(3) Put 1 2 by auto
    with Cons.IH [OF law(1) _ 2] Cons.prems(2) law show ?thesis by simp
  next
    case (Get k)
    obtain n d q1 where 1: "get q k = ((n, d), q1)" by (metis surj_pair)
    obtain s r q2 where 2: "fifo_run put get q1 ops = ((s, r), q2)" by (metis surj_pair)
    have law: "inv q1" "bytes q = d @ bytes q1" "cap q1 = cap q"
      using get_law [OF Cons.prems(1) 1] by auto
    have "sent = s" "recv = d @ r" "q' = q2"
      using Cons.prems(3) Get 1 2 by auto
    with Cons.IH [OF law(1) _ 2] Cons.prems(2) law show ?thesis by simp
  qed
qed

end

interpretation rb: byte_fifo rt_ringbuffer_put rt_ringbuffer_get rb_bytes buffer_size rb_wf
proof (unfold_locales, goal_cases)
  case (1 q len p n q')
  then show ?case using put_bytes [OF 1(1-4)] by simp
next
  case (2 q len n d q')
  then show ?case using get_bytes [OF 2] by simp
qed

section \<open>The overwriting block put\<close>

text \<open>When the buffer has room, \<open>rt_ringbuffer_put_force\<close> is \<open>rt_ringbuffer_put\<close>.\<close>

lemma put_force_room:
  assumes wf: "rb_wf rb" and len: "len0 \<le> length p" "len0 < 2 ^ 16"
    and room: "0 < len0" "len0 \<le> buffer_size rb - length (rb_bytes rb)"
  shows "rt_ringbuffer_put_force rb p len0 = rt_ringbuffer_put rb p len0"
  using wf len room
  by (auto simp: rt_ringbuffer_put_force_def rt_ringbuffer_put_def Let_def space_len_bytes rb_wf_def)

text \<open>When the write position is already in the mirrored half and the block is too long for the
  free space, the oldest bytes are dropped and the buffer ends up full.\<close>

lemma put_force_overwrite:
  assumes wf: "rb_wf rb" and mir: "read_mirror rb \<noteq> write_mirror rb"
    and len: "n \<le> length p" "n \<le> buffer_size rb" "buffer_size rb - length (rb_bytes rb) < n"
    and put: "rt_ringbuffer_put_force rb p n = (m, rb')"
  shows "rb_wf rb'" and "m = n"
    and "length (rb_bytes rb') = buffer_size rb"
    and "rb_bytes rb' = drop (length (rb_bytes rb) + n - buffer_size rb) (rb_bytes rb @ take n p)"
proof -
  let ?w = "write_index rb" and ?r = "read_index rb" and ?N = "buffer_size rb" and ?b = "buffer_ptr rb"
  have idx: "?w \<le> ?r" "?r < ?N" "?N \<le> length ?b" "?N < 2 ^ 15"
    using wf mir by (auto simp: rb_wf_def)
  have old: "rb_bytes rb = segm ?r ?N ?b @ take ?w ?b" "length (rb_bytes rb) = ?N - ?r + ?w"
    using mir idx by (auto simp: rb_bytes_def)
  have sp: "len16 (rt_ringbuffer_space_len rb) = ?r - ?w"
    using idx old(2) by (simp add: space_len_bytes [OF wf])
  have "rb_wf rb' \<and> m = n \<and> length (rb_bytes rb') = ?N \<and>
      rb_bytes rb' = drop (length (rb_bytes rb) + n - ?N) (rb_bytes rb @ take n p)"
  proof (cases "?N - ?w > n")
    case True
    have new: "m = n" "rb' = rb\<lparr>buffer_ptr := memcpy_at ?b ?w p n, write_index := ?w + n, read_index := ?w + n\<rparr>"
      using put True len idx sp old(2) by (auto simp: rt_ringbuffer_put_force_def rb_write_straight_def Let_def)
    have "rb_bytes rb' = segm (?w + n) ?N ?b @ take ?w ?b @ take n p"
      using new mir True idx len straight_buffer [of ?w n ?b p 0]
      by (simp add: rb_bytes_def segm_memcpy)
    moreover have "drop (?w + n - ?r) (segm ?r ?N ?b) = segm (?w + n) ?N ?b"
      using idx len(3) old(2) by (simp add: segm_def drop_take)
    moreover have "length (rb_bytes rb) + n - ?N = ?w + n - ?r" "?w + n - ?r \<le> ?N - ?r"
      using idx True old(2) by auto
    ultimately show ?thesis
      using wf new True mir idx len by (auto simp: old(1) rb_wf_def)
  next
    case False
    let ?w' = "n - (?N - ?w)"
    have le: "?w' \<le> ?w" using len idx by simp
    note buf = wrap_buffer [of ?w ?N ?b n p ?w']
    have new: "m = n" "rb' = rb\<lparr>buffer_ptr := memcpy_at (memcpy_at ?b ?w p (?N - ?w)) 0 (drop (?N - ?w) p) ?w',
        write_mirror := \<not> write_mirror rb, write_index := ?w', read_mirror := \<not> read_mirror rb, read_index := ?w'\<rparr>"
      using put False len idx sp old(2) le
      by (auto simp: rt_ringbuffer_put_force_def rb_write_wrap_def Let_def)
    have bytes: "rb_bytes rb' = segm ?w' ?w ?b @ take n p"
      using new mir False idx len le buf(2) by (simp add: rb_bytes_def)
    have "drop ?w' (take ?w ?b) = segm ?w' ?w ?b"
      using idx by (simp add: segm_def drop_take)
    moreover have "length (rb_bytes rb) + n - ?N = ?N - ?r + ?w'"
      using idx False old(2) by auto
    ultimately have "rb_bytes rb' = drop (length (rb_bytes rb) + n - ?N) (rb_bytes rb @ take n p)"
      using idx le by (simp add: bytes old(1))
    moreover have "length (rb_bytes rb') = ?N"
      using bytes idx le len False by simp
    moreover have "rb_wf rb'"
      using wf new mir False idx len le buf(3) by (auto simp: rb_wf_def)
    ultimately show ?thesis using new(1) by simp
  qed
  then show "rb_wf rb'" "m = n" "length (rb_bytes rb') = ?N"
    "rb_bytes rb' = drop (length (rb_bytes rb) + n - ?N) (rb_bytes rb @ take n p)"
    by blast+
qed

section \<open>Properties\<close>

text \<open>C1. Stream integrity: from a freshly initialised ring buffer, any sequence of block puts and
  gets delivers exactly the bytes that the puts accepted, once each and in order; what has not
  been delivered yet is still in the buffer.\<close>

theorem ringbuffer_stream:
  assumes "rt_ringbuffer_init pool sz = Some rb" and "4 \<le> sz" and "sz < 2 ^ 15"
    and "nat sz \<le> length pool" and "list_all put_len_ok ops"
    and "fifo_run rt_ringbuffer_put rt_ringbuffer_get rb ops = ((sent, recv), rb')"
  shows "sent = recv @ rb_bytes rb' \<and> length (rb_bytes rb') \<le> buffer_size rb"
  using rb.run_conserves [OF init_bytes(1) [OF assms(1-4)] assms(5,6)] init_bytes(2) [OF assms(1-4)]
    rb_bytes_bound [of rb'] by simp

definition ring8 :: rt_ringbuffer where
  "ring8 = the (rt_ringbuffer_init [0, 0, 0, 0, 0, 0, 0, 0] 8)"

lemmas rb_eval = ring8_def rt_ringbuffer_init_def rt_ringbuffer_put_def rt_ringbuffer_get_def
  rt_ringbuffer_putchar_force_def rt_ringbuffer_put_force_def rb_write_straight_def rb_write_wrap_def
  rt_ringbuffer_space_len_def rt_ringbuffer_data_len_def rt_ringbuffer_status_def memcpy_at_def
  segm_def rb_bytes_def rb_wf_def Let_def

theorem ringbuffer_stream_witness:
  "\<exists>rb'. fifo_run rt_ringbuffer_put rt_ringbuffer_get ring8 [Put [1, 2, 3, 4, 5, 6], Get 4, Put [7, 8, 9, 10], Get 3]
        = (([1, 2, 3, 4, 5, 6, 7, 8, 9, 10], [1, 2, 3, 4, 5, 6, 7]), rb')
     \<and> [1, 2, 3, 4, 5, 6, 7, 8, 9, 10] = [1, 2, 3, 4, 5, 6, 7] @ rb_bytes rb' \<and> length (rb_bytes rb') \<le> buffer_size ring8"
proof -
  have init: "rt_ringbuffer_init [0, 0, 0, 0, 0, 0, 0, 0] 8 = Some ring8" by (simp add: rb_eval)
  obtain rb' where run: "fifo_run rt_ringbuffer_put rt_ringbuffer_get ring8
      [Put [1, 2, 3, 4, 5, 6], Get 4, Put [7, 8, 9, 10], Get 3]
        = (([1, 2, 3, 4, 5, 6, 7, 8, 9, 10], [1, 2, 3, 4, 5, 6, 7]), rb')"
    by (simp add: rb_eval)
  show ?thesis
    using ringbuffer_stream [OF init _ _ _ _ run] run by auto
qed

text \<open>A full buffer never blocks \<open>rt_ringbuffer_putchar_force\<close>: the byte is always stored, and
  only the oldest byte is given up, exactly when the buffer is full.\<close>

theorem ringbuffer_putchar_force:
  assumes "rb_wf rb" and "rt_ringbuffer_putchar_force rb ch = (n, rb')"
  shows "rb_wf rb' \<and> n = 1 \<and> rb_bytes rb' =
     (if length (rb_bytes rb) = buffer_size rb then tl (rb_bytes rb) else rb_bytes rb) @ [ch]"
  using putchar_force_bytes [OF assms] by simp

theorem ringbuffer_putchar_force_witness:
  "rb_bytes (snd (rt_ringbuffer_putchar_force (snd (rt_ringbuffer_put ring8 [1, 2, 3, 4, 5, 6, 7, 8] 8)) 9)) =
     [2, 3, 4, 5, 6, 7, 8, 9]"
proof -
  have "rb_wf (snd (rt_ringbuffer_put ring8 [1, 2, 3, 4, 5, 6, 7, 8] 8))" by (simp add: rb_eval)
  from ringbuffer_putchar_force [OF this prod.collapse [symmetric], of 9] show ?thesis
    by (simp add: rb_eval)
qed

text \<open>\<open>rt_ringbuffer_put_force\<close> is documented to discard the old data when the buffer is full.
  When both positions are in the same half and the block is longer than the free space, the
  code flips the read mirror as well and leaves the buffer empty: the new block is lost with
  the old data although the call reports that it was stored.\<close>

theorem ringbuffer_put_force_loses_block:
  assumes wf: "rb_wf rb" and same: "read_mirror rb = write_mirror rb"
    and len: "n \<le> length p" "n \<le> buffer_size rb" "buffer_size rb - length (rb_bytes rb) < n"
  shows "fst (rt_ringbuffer_put_force rb p n) = n \<and> rb_bytes (snd (rt_ringbuffer_put_force rb p n)) = []"
proof -
  have idx: "read_index rb \<le> write_index rb" "write_index rb < buffer_size rb"
      "buffer_size rb \<le> length (buffer_ptr rb)" "buffer_size rb < 2 ^ 15"
    using wf same by (auto simp: rb_wf_def)
  have used: "length (rb_bytes rb) = write_index rb - read_index rb"
    using same idx by (simp add: rb_bytes_def)
  have cross: "buffer_size rb - write_index rb \<le> n" using len(3) idx used by simp
  have sp: "rt_ringbuffer_space_len rb mod 65536 = buffer_size rb - length (rb_bytes rb)"
    using idx by (simp add: space_len_bytes [OF wf])
  show ?thesis
    using same len cross
    by (simp add: rt_ringbuffer_put_force_def sp rb_write_wrap_def rb_bytes_def Let_def)
qed

theorem ringbuffer_put_force_loses_block_witness:
  "rb_bytes (snd (rt_ringbuffer_put ring8 [1, 2, 3, 4, 5, 6] 6)) = [1, 2, 3, 4, 5, 6] \<and>
   rb_bytes (snd (rt_ringbuffer_put_force (snd (rt_ringbuffer_put ring8 [1, 2, 3, 4, 5, 6] 6)) [7, 8, 9] 3)) = []"
proof -
  have "rb_wf (snd (rt_ringbuffer_put ring8 [1, 2, 3, 4, 5, 6] 6))" by (simp add: rb_eval)
  moreover have "rb_bytes (snd (rt_ringbuffer_put ring8 [1, 2, 3, 4, 5, 6] 6)) = [1, 2, 3, 4, 5, 6]"
    by (simp add: rb_eval)
  moreover have "read_mirror (snd (rt_ringbuffer_put ring8 [1, 2, 3, 4, 5, 6] 6)) =
      write_mirror (snd (rt_ringbuffer_put ring8 [1, 2, 3, 4, 5, 6] 6))" by (simp add: rb_eval)
  moreover have "buffer_size (snd (rt_ringbuffer_put ring8 [1, 2, 3, 4, 5, 6] 6)) = 8" by (simp add: rb_eval)
  ultimately show ?thesis
    using ringbuffer_put_force_loses_block
      [of "snd (rt_ringbuffer_put ring8 [1, 2, 3, 4, 5, 6] 6)" 3 "[7, 8, 9]"] by simp
qed

end
