(* ===== verification/Device.thy ===== *)
theory Device
  imports Mcu_Prelude
begin

text \<open>
  The I/O device framework of the kernel (\<open>src/smart-building-mcu/rt-thread/src/device.c\<close>).
  A device is its header (\<open>struct rt_device\<close>) together with the state of the driver that embeds
  it (\<open>priv\<close>) and the error number that \<open>rt_set_errno\<close> leaves for the calling thread. The
  driver's entry points are passed as a record of optional functions, as the function pointers
  of the header are: \<open>None\<close> is a null pointer. A result \<open>None\<close> of \<open>rt_device_open\<close> is the
  reference-count assertion firing, and of \<open>rt_device_write\<close> a driver that does not return.

  The locale \<open>standalone_driver\<close> states what the framework needs from a driver of a stand-alone
  device, and proves the open/close discipline once for all of them.
\<close>

section \<open>Headers and entry points\<close>

record 's rt_device =
  dev_name :: string
  dev_flag :: u16
  open_flag :: u16
  ref_count :: u8
  rx_indicate :: "fnptr option"
  tx_complete :: "fnptr option"
  dev_errno :: rt_err
  priv :: 's

record ('s, 'a) rt_device_ops =
  dop_init :: "('s rt_device \<Rightarrow> rt_err \<times> 's rt_device) option"
  dop_open :: "(u16 \<Rightarrow> 's rt_device \<Rightarrow> rt_err \<times> 's rt_device) option"
  dop_close :: "('s rt_device \<Rightarrow> rt_err \<times> 's rt_device) option"
  dop_read :: "(int \<Rightarrow> nat \<Rightarrow> 's rt_device \<Rightarrow> (nat \<times> 'a option) \<times> 's rt_device) option"
  dop_write :: "(int \<Rightarrow> 'a \<Rightarrow> nat \<Rightarrow> 's rt_device \<Rightarrow> (nat \<times> 's rt_device) option) option"
  dop_control :: "(int \<Rightarrow> 'a option \<Rightarrow> 's rt_device \<Rightarrow> (rt_err \<times> 'a option) \<times> 's rt_device) option"

abbreviation (input) RT_DEVICE_FLAG_RDWR :: u16 where "RT_DEVICE_FLAG_RDWR \<equiv> 0x003"
abbreviation (input) RT_DEVICE_FLAG_STANDALONE :: u16 where "RT_DEVICE_FLAG_STANDALONE \<equiv> 0x008"
abbreviation (input) RT_DEVICE_FLAG_ACTIVATED :: u16 where "RT_DEVICE_FLAG_ACTIVATED \<equiv> 0x010"
abbreviation (input) RT_DEVICE_OFLAG_RDWR :: u16 where "RT_DEVICE_OFLAG_RDWR \<equiv> 0x003"
abbreviation (input) RT_DEVICE_OFLAG_CLOSE :: u16 where "RT_DEVICE_OFLAG_CLOSE \<equiv> 0x000"
abbreviation (input) RT_DEVICE_OFLAG_OPEN :: u16 where "RT_DEVICE_OFLAG_OPEN \<equiv> 0x008"
abbreviation (input) RT_DEVICE_OFLAG_MASK :: u16 where "RT_DEVICE_OFLAG_MASK \<equiv> 0xf0f"

section \<open>Registration and lookup\<close>

text \<open>The device container is a list of registered objects, found by comparing at most
  \<open>RT_NAME_MAX = 8\<close> characters; registration stores the name truncated to that length.
  \<open>rt_device_register\<close> is given the device, the name and the flags, and the container.\<close>

abbreviation (input) RT_NAME_MAX :: nat where "RT_NAME_MAX \<equiv> 8"

definition rt_device_find :: "(string \<times> 'd) list \<Rightarrow> string \<Rightarrow> 'd option" where
  "rt_device_find container name =
     map_option snd (find (\<lambda>(n, d). take RT_NAME_MAX n = take RT_NAME_MAX name) container)"

definition rt_device_register ::
  "'s rt_device option \<Rightarrow> string \<Rightarrow> u16 \<Rightarrow> (string \<times> 's rt_device) list \<Rightarrow>
   rt_err \<times> (string \<times> 's rt_device) list" where
  "rt_device_register dev name flags container =
     (case dev of
        None \<Rightarrow> (- RT_ERROR, container)
      | Some d \<Rightarrow>
          (if rt_device_find container name \<noteq> None then (- RT_ERROR, container)
           else (RT_EOK,
                 (take RT_NAME_MAX name,
                  d\<lparr>dev_name := take RT_NAME_MAX name, dev_flag := flags, ref_count := 0, open_flag := 0\<rparr>)
                 # container)))"

definition rt_device_unregister ::
  "string \<Rightarrow> (string \<times> 'd) list \<Rightarrow> rt_err \<times> (string \<times> 'd) list" where
  "rt_device_unregister name container =
     (RT_EOK, filter (\<lambda>(n, d). n \<noteq> take RT_NAME_MAX name) container)"

section \<open>Operations\<close>

definition rt_device_init :: "('s, 'a) rt_device_ops \<Rightarrow> 's rt_device \<Rightarrow> rt_err \<times> 's rt_device" where
  "rt_device_init ops dev =
     (case dop_init ops of
        None \<Rightarrow> (RT_EOK, dev)
      | Some device_init \<Rightarrow>
          (if dev_flag dev AND RT_DEVICE_FLAG_ACTIVATED = 0 then
             (let (result, d1) = device_init dev
              in if result \<noteq> RT_EOK then (result, d1)
                 else (result, d1\<lparr>dev_flag := dev_flag d1 OR RT_DEVICE_FLAG_ACTIVATED\<rparr>))
           else (RT_EOK, dev)))"

text \<open>The three stages of \<open>rt_device_open\<close>: activation, which may return early (\<open>Inl\<close>); the
  driver's open entry; the bookkeeping after a successful open.\<close>

definition device_activate ::
  "('s, 'a) rt_device_ops \<Rightarrow> 's rt_device \<Rightarrow> (rt_err \<times> 's rt_device) + 's rt_device" where
  "device_activate ops dev =
     (if dev_flag dev AND RT_DEVICE_FLAG_ACTIVATED = 0 then
        (case dop_init ops of
           None \<Rightarrow> Inr (dev\<lparr>dev_flag := dev_flag dev OR RT_DEVICE_FLAG_ACTIVATED\<rparr>)
         | Some device_init \<Rightarrow>
             (let (result, d1) = device_init dev
              in if result \<noteq> RT_EOK then Inl (result, d1)
                 else Inr (d1\<lparr>dev_flag := dev_flag d1 OR RT_DEVICE_FLAG_ACTIVATED\<rparr>)))
      else Inr dev)"

definition device_mark_open :: "rt_err \<Rightarrow> 's rt_device \<Rightarrow> (rt_err \<times> 's rt_device) option" where
  "device_mark_open result d =
     (if result = RT_EOK \<or> result = - RT_ENOSYS then
        (let d1 = d\<lparr>open_flag := open_flag d OR RT_DEVICE_OFLAG_OPEN, ref_count := ref_count d + 1\<rparr>
         in if ref_count d1 \<noteq> 0 then Some (result, d1) else None)
      else Some (result, d))"

definition rt_device_open ::
  "('s, 'a) rt_device_ops \<Rightarrow> u16 \<Rightarrow> 's rt_device \<Rightarrow> (rt_err \<times> 's rt_device) option" where
  "rt_device_open ops oflag dev =
     (case device_activate ops dev of
        Inl r \<Rightarrow> Some r
      | Inr d \<Rightarrow>
          (if dev_flag d AND RT_DEVICE_FLAG_STANDALONE \<noteq> 0 \<and> open_flag d AND RT_DEVICE_OFLAG_OPEN \<noteq> 0
           then Some (- RT_EBUSY, d)
           else (case dop_open ops of
                   None \<Rightarrow> device_mark_open RT_EOK (d\<lparr>open_flag := oflag AND RT_DEVICE_OFLAG_MASK\<rparr>)
                 | Some device_open \<Rightarrow>
                     (let (result, d1) = device_open oflag d in device_mark_open result d1))))"

definition rt_device_close :: "('s, 'a) rt_device_ops \<Rightarrow> 's rt_device \<Rightarrow> rt_err \<times> 's rt_device" where
  "rt_device_close ops dev =
     (if ref_count dev = 0 then (- RT_ERROR, dev)
      else let d = dev\<lparr>ref_count := ref_count dev - 1\<rparr>
           in if ref_count d \<noteq> 0 then (RT_EOK, d)
              else let (result, d1) = (case dop_close ops of
                                         None \<Rightarrow> (RT_EOK, d)
                                       | Some device_close \<Rightarrow> device_close d)
                   in (result,
                       if result = RT_EOK \<or> result = - RT_ENOSYS
                       then d1\<lparr>open_flag := RT_DEVICE_OFLAG_CLOSE\<rparr> else d1))"

definition rt_device_read ::
  "('s, 'a) rt_device_ops \<Rightarrow> int \<Rightarrow> nat \<Rightarrow> 's rt_device \<Rightarrow> (nat \<times> 'a option) \<times> 's rt_device" where
  "rt_device_read ops pos sz dev =
     (if ref_count dev = 0 then ((0, None), dev\<lparr>dev_errno := - RT_ERROR\<rparr>)
      else case dop_read ops of
             Some device_read \<Rightarrow> device_read pos sz dev
           | None \<Rightarrow> ((0, None), dev\<lparr>dev_errno := - RT_ENOSYS\<rparr>))"

definition rt_device_write ::
  "('s, 'a) rt_device_ops \<Rightarrow> int \<Rightarrow> 'a \<Rightarrow> nat \<Rightarrow> 's rt_device \<Rightarrow> (nat \<times> 's rt_device) option" where
  "rt_device_write ops pos buffer sz dev =
     (if ref_count dev = 0 then Some (0, dev\<lparr>dev_errno := - RT_ERROR\<rparr>)
      else case dop_write ops of
             Some device_write \<Rightarrow> device_write pos buffer sz dev
           | None \<Rightarrow> Some (0, dev\<lparr>dev_errno := - RT_ENOSYS\<rparr>))"

definition rt_device_control ::
  "('s, 'a) rt_device_ops \<Rightarrow> int \<Rightarrow> 'a option \<Rightarrow> 's rt_device \<Rightarrow> (rt_err \<times> 'a option) \<times> 's rt_device" where
  "rt_device_control ops cmd arg dev =
     (case dop_control ops of
        Some device_control \<Rightarrow> device_control cmd arg dev
      | None \<Rightarrow> ((- RT_ENOSYS, arg), dev))"

definition rt_device_set_rx_indicate :: "fnptr option \<Rightarrow> 's rt_device \<Rightarrow> rt_err \<times> 's rt_device" where
  "rt_device_set_rx_indicate rx_ind dev = (RT_EOK, dev\<lparr>rx_indicate := rx_ind\<rparr>)"

definition rt_device_set_tx_complete :: "fnptr option \<Rightarrow> 's rt_device \<Rightarrow> rt_err \<times> 's rt_device" where
  "rt_device_set_tx_complete tx_done dev = (RT_EOK, dev\<lparr>tx_complete := tx_done\<rparr>)"

section \<open>Registry lemmas\<close>

lemma find_unregistered:
  "rt_device_find ((take 8 n, d) # c) name =
     (if take 8 n = take 8 name then Some d else rt_device_find c name)"
  by (simp add: rt_device_find_def)

lemma register_find:
  assumes "rt_device_register (Some d) name flags c = (RT_EOK, c')"
  shows "rt_device_find c' name =
      Some (d\<lparr>dev_name := take 8 name, dev_flag := flags, ref_count := 0, open_flag := 0\<rparr>)"
    and "take 8 other \<noteq> take 8 name \<Longrightarrow> rt_device_find c' other = rt_device_find c other"
  using assms by (auto simp: rt_device_register_def rt_device_find_def split: if_splits option.splits)

section \<open>The discipline of stand-alone devices\<close>

text \<open>The header bits and the reference count of a stand-alone device agree: it is either closed
  with count 0 or open with count 1.\<close>

definition standalone_inv :: "'s rt_device \<Rightarrow> bool" where
  "standalone_inv d \<longleftrightarrow> bit (dev_flag d) 3 \<and>
     (ref_count d = 0 \<and> \<not> bit (open_flag d) 3 \<or> ref_count d = 1 \<and> bit (open_flag d) 3)"

lemma flag_bits [simp]:
  fixes x :: u16
  shows "x AND 8 = 0 \<longleftrightarrow> \<not> bit x 3" and "x AND 16 = 0 \<longleftrightarrow> \<not> bit x 4"
    and "bit (x OR 8) n \<longleftrightarrow> n = 3 \<or> bit x n" and "bit (x OR 16) n \<longleftrightarrow> n = 4 \<or> bit x n"
    and "bit (x AND NOT 16) n \<longleftrightarrow> n \<noteq> 4 \<and> bit x n"
proof -
  have "bit (2 ^ 3 :: u16) n \<longleftrightarrow> n = 3" for n
    by (subst bit_exp_iff) auto
  moreover have "bit (2 ^ 4 :: u16) n \<longleftrightarrow> n = 4" for n
    by (subst bit_exp_iff) auto
  ultimately have b: "bit (8::u16) n \<longleftrightarrow> n = 3" "bit (16::u16) n \<longleftrightarrow> n = 4" for n by simp_all
  show "x AND 8 = 0 \<longleftrightarrow> \<not> bit x 3" "x AND 16 = 0 \<longleftrightarrow> \<not> bit x 4"
    using and_exp_eq_0_iff_not_bit [of x 3] and_exp_eq_0_iff_not_bit [of x 4] by simp_all
  show "bit (x OR 8) n \<longleftrightarrow> n = 3 \<or> bit x n" "bit (x OR 16) n \<longleftrightarrow> n = 4 \<or> bit x n"
    "bit (x AND NOT 16) n \<longleftrightarrow> n \<noteq> 4 \<and> bit x n"
    unfolding bit_or_iff bit_and_iff bit_not_iff b by (blast dest: bit_imp_possible_bit)+
qed

lemma flag_clear_activated [simp]: "bit ((x :: u16) AND - 17) n \<longleftrightarrow> n \<noteq> 4 \<and> bit x n"
proof -
  have "- 17 = NOT (16 :: u16)" by simp
  then show ?thesis using flag_bits(5) [of x n] by metis
qed

text \<open>A client's sequence of opens and closes; \<open>None\<close> when an assertion stops it.\<close>

datatype dev_op = Dev_open u16 | Dev_close

fun dev_run :: "('s, 'a) rt_device_ops \<Rightarrow> dev_op list \<Rightarrow> 's rt_device \<Rightarrow> 's rt_device option" where
  "dev_run ops [] d = Some d"
| "dev_run ops (Dev_open oflag # as) d =
     (case rt_device_open ops oflag d of None \<Rightarrow> None | Some (r, d') \<Rightarrow> dev_run ops as d')"
| "dev_run ops (Dev_close # as) d = dev_run ops as (snd (rt_device_close ops d))"

text \<open>What the framework relies on in the driver of a stand-alone device: its entry points leave
  the reference count and the open flag to the framework, keep the device stand-alone, and its
  close entry reports success or a missing operation.\<close>

locale standalone_driver =
  fixes ops :: "('s, 'a) rt_device_ops"
  assumes init_frame: "dop_init ops = Some f \<Longrightarrow> f d = (r, d') \<Longrightarrow>
      ref_count d' = ref_count d \<and> open_flag d' = open_flag d \<and> (bit (dev_flag d') 3 \<longleftrightarrow> bit (dev_flag d) 3)"
    and open_frame: "dop_open ops = Some g \<Longrightarrow> g oflag d = (r, d') \<Longrightarrow>
      ref_count d' = ref_count d \<and> open_flag d' = open_flag d \<and> (bit (dev_flag d') 3 \<longleftrightarrow> bit (dev_flag d) 3)"
    and close_frame: "dop_close ops = Some h \<Longrightarrow> h d = (r, d') \<Longrightarrow>
      ref_count d' = ref_count d \<and> open_flag d' = open_flag d \<and> (bit (dev_flag d') 3 \<longleftrightarrow> bit (dev_flag d) 3)
      \<and> (r = RT_EOK \<or> r = - RT_ENOSYS)"
begin

lemma activate_frame:
  assumes "device_activate ops d = Inr d'"
  shows "ref_count d' = ref_count d \<and> open_flag d' = open_flag d \<and> (bit (dev_flag d') 3 \<longleftrightarrow> bit (dev_flag d) 3)"
proof (cases "dop_init ops")
  case None
  with assms show ?thesis by (auto simp: device_activate_def split: if_splits)
next
  case (Some f)
  obtain r d1 where "f d = (r, d1)" by fastforce
  with assms Some init_frame [OF Some this] show ?thesis
    by (auto simp: device_activate_def split: if_splits)
qed

lemma activate_frame_Inl:
  assumes "device_activate ops d = Inl (r, d')"
  shows "ref_count d' = ref_count d \<and> open_flag d' = open_flag d \<and> (bit (dev_flag d') 3 \<longleftrightarrow> bit (dev_flag d) 3)"
proof -
  obtain f where f: "dop_init ops = Some f" "f d = (r, d')"
    using assms by (auto simp: device_activate_def split: if_splits option.splits prod.splits)
  show ?thesis by (rule init_frame [OF f])
qed

lemma open_keeps_inv:
  assumes "standalone_inv d"
  shows "\<exists>r d'. rt_device_open ops oflag d = Some (r, d') \<and> standalone_inv d'"
proof (cases "device_activate ops d")
  case (Inl rd)
  then show ?thesis
    using assms activate_frame_Inl [of d "fst rd" "snd rd"]
    by (cases rd) (auto simp: rt_device_open_def standalone_inv_def)
next
  case (Inr d1)
  note fr = activate_frame [OF Inr]
  show ?thesis
  proof (cases "bit (open_flag d) 3")
    case True
    then show ?thesis using assms Inr fr by (simp add: rt_device_open_def standalone_inv_def)
  next
    case False
    then have zero: "ref_count d = 0" using assms by (auto simp: standalone_inv_def)
    show ?thesis
    proof (cases "dop_open ops")
      case None
      with False zero Inr fr assms show ?thesis
        by (simp add: rt_device_open_def standalone_inv_def device_mark_open_def)
    next
      case (Some g)
      obtain r d2 where g: "g oflag d1 = (r, d2)" by fastforce
      show ?thesis
        using open_frame [OF Some g] False zero Inr fr assms Some g
        by (simp add: rt_device_open_def standalone_inv_def device_mark_open_def)
    qed
  qed
qed

lemma open_busy:
  assumes "standalone_inv d" "ref_count d = 1" "device_activate ops d = Inr d1"
  shows "rt_device_open ops oflag d = Some (- RT_EBUSY, d1)"
  using assms activate_frame [OF assms(3)] by (auto simp: rt_device_open_def standalone_inv_def)

lemma close_keeps_inv:
  assumes "standalone_inv d" "rt_device_close ops d = (r, d')"
  shows "standalone_inv d' \<and> ref_count d' = 0"
proof (cases "dop_close ops")
  case None
  with assms show ?thesis by (auto simp: rt_device_close_def standalone_inv_def Let_def split: if_splits)
next
  case (Some h)
  obtain r1 d1 where h: "h (d\<lparr>ref_count := ref_count d - 1\<rparr>) = (r1, d1)" by fastforce
  show ?thesis
    using assms close_frame [OF Some h] Some h
    by (auto simp: rt_device_close_def standalone_inv_def Let_def split: if_splits)
qed

lemma run_keeps_inv: "standalone_inv d \<Longrightarrow> \<exists>d'. dev_run ops as d = Some d' \<and> standalone_inv d'"
proof (induction as arbitrary: d)
  case (Cons a as)
  show ?case
  proof (cases a)
    case (Dev_open oflag)
    obtain r d1 where "rt_device_open ops oflag d = Some (r, d1)" "standalone_inv d1"
      using open_keeps_inv [OF Cons.prems] by blast
    with Dev_open Cons.IH show ?thesis by simp
  next
    case Dev_close
    have "standalone_inv (snd (rt_device_close ops d))"
      using close_keeps_inv [OF Cons.prems] by (cases "rt_device_close ops d") simp
    with Dev_close Cons.IH show ?thesis by simp
  qed
qed simp

end

end
