(* ===== verification/Hal_Gpio.thy ===== *)
theory Hal_Gpio
  imports Mcu_Prelude
begin

text \<open>
  The GPIO part of the STM32F4 HAL that the pin driver calls
  (\<open>src/smart-building-mcu/libraries/STM32F4xx_HAL_Driver/Src/stm32f4xx_hal_gpio.c\<close>), at the
  level of the port, EXTI and SYSCFG registers. Two registers are the hardware's own: a write
  to BSRR sets and clears bits of ODR, and IDR shows the pad level, which for a push-pull
  output is the bit of ODR and for any other mode the level applied from outside (\<open>pad_in\<close>).
\<close>

section \<open>Registers\<close>

record gpio_port =
  MODER :: u32
  OTYPER :: u32
  OSPEEDR :: u32
  PUPDR :: u32
  ODR :: u32
  AFR :: "u32 list"
  pad_in :: u32

datatype IRQn = EXTI0_IRQn | EXTI1_IRQn | EXTI2_IRQn | EXTI3_IRQn | EXTI4_IRQn
  | EXTI9_5_IRQn | EXTI15_10_IRQn

record pin_irq_hdr =
  irq_pin :: int
  irq_mode :: nat
  irq_hdr :: "fnptr option"
  irq_args :: int

text \<open>The pointer \<open>_hw_pin.ops\<close> of the pin framework: null, or the table of the STM32 driver.\<close>

datatype pin_ops = Stm32_pin_ops

record gpio =
  hw_pin_ops :: "pin_ops option"
  ports :: "nat \<Rightarrow> gpio_port"
  EXTI_IMR :: u32
  EXTI_EMR :: u32
  EXTI_RTSR :: u32
  EXTI_FTSR :: u32
  EXTI_PR :: u32
  SYSCFG_EXTICR :: "u32 list"
  nvic_enabled :: "IRQn \<Rightarrow> bool"
  nvic_priority :: "IRQn \<Rightarrow> nat"
  pin_irq_hdr_tab :: "pin_irq_hdr list"
  pin_irq_enable_mask :: u32

record GPIO_InitTypeDef =
  Init_Pin :: u32
  Init_Mode :: u32
  Init_Pull :: u32
  Init_Speed :: u32
  Init_Alternate :: u32

abbreviation (input) GPIO_MODE_INPUT :: u32 where "GPIO_MODE_INPUT \<equiv> 0x00000000"
abbreviation (input) GPIO_MODE_OUTPUT_PP :: u32 where "GPIO_MODE_OUTPUT_PP \<equiv> 0x00000001"
abbreviation (input) GPIO_MODE_OUTPUT_OD :: u32 where "GPIO_MODE_OUTPUT_OD \<equiv> 0x00000011"
abbreviation (input) GPIO_MODE_AF_PP :: u32 where "GPIO_MODE_AF_PP \<equiv> 0x00000002"
abbreviation (input) GPIO_MODE_AF_OD :: u32 where "GPIO_MODE_AF_OD \<equiv> 0x00000012"
abbreviation (input) GPIO_MODE_IT_RISING :: u32 where "GPIO_MODE_IT_RISING \<equiv> 0x10110000"
abbreviation (input) GPIO_MODE_IT_FALLING :: u32 where "GPIO_MODE_IT_FALLING \<equiv> 0x10210000"
abbreviation (input) GPIO_MODE_IT_RISING_FALLING :: u32 where "GPIO_MODE_IT_RISING_FALLING \<equiv> 0x10310000"
abbreviation (input) GPIO_NOPULL :: u32 where "GPIO_NOPULL \<equiv> 0"
abbreviation (input) GPIO_PULLUP :: u32 where "GPIO_PULLUP \<equiv> 1"
abbreviation (input) GPIO_PULLDOWN :: u32 where "GPIO_PULLDOWN \<equiv> 2"
abbreviation (input) GPIO_SPEED_FREQ_HIGH :: u32 where "GPIO_SPEED_FREQ_HIGH \<equiv> 2"

definition upd_port :: "nat \<Rightarrow> (gpio_port \<Rightarrow> gpio_port) \<Rightarrow> gpio \<Rightarrow> gpio" where
  "upd_port x f hw = hw\<lparr>ports := (ports hw)(x := f (ports hw x))\<rparr>"

text \<open>Hardware: a pin whose MODER field is 01 is an output, and its pad follows ODR when its
  OTYPER bit selects push-pull.\<close>

definition push_pull_output :: "gpio_port \<Rightarrow> nat \<Rightarrow> bool" where
  "push_pull_output g p \<longleftrightarrow> bit (MODER g) (2 * p) \<and> \<not> bit (MODER g) (2 * p + 1) \<and> \<not> bit (OTYPER g) p"

definition pad_level :: "gpio_port \<Rightarrow> nat \<Rightarrow> bool" where
  "pad_level g p = (if push_pull_output g p then bit (ODR g) p else bit (pad_in g) p)"

section \<open>Reading and writing pins\<close>

text \<open>\<open>(GPIOx->IDR & GPIO_Pin) != 0\<close>: some selected pad is high.\<close>

definition HAL_GPIO_ReadPin :: "nat \<Rightarrow> u32 \<Rightarrow> gpio \<Rightarrow> int" where
  "HAL_GPIO_ReadPin x GPIO_Pin hw =
     (if list_ex (\<lambda>p. bit GPIO_Pin p \<and> pad_level (ports hw x) p) [0..<16] then 1 else 0)"

definition HAL_GPIO_WritePin :: "nat \<Rightarrow> u32 \<Rightarrow> int \<Rightarrow> gpio \<Rightarrow> gpio" where
  "HAL_GPIO_WritePin x GPIO_Pin PinState hw =
     (if PinState \<noteq> 0 then upd_port x (\<lambda>g. g\<lparr>ODR := ODR g OR GPIO_Pin\<rparr>) hw
      else upd_port x (\<lambda>g. g\<lparr>ODR := ODR g AND NOT GPIO_Pin\<rparr>) hw)"

section \<open>Configuring pins\<close>

text \<open>A read-modify-write of a register field: clear \<open>m << s\<close>, then set \<open>v << s\<close>.\<close>

definition set_field :: "u32 \<Rightarrow> nat \<Rightarrow> u32 \<Rightarrow> u32 \<Rightarrow> u32" where
  "set_field m s v r = (r AND NOT (push_bit s m)) OR push_bit s v"

definition set_if :: "bool \<Rightarrow> u32 \<Rightarrow> u32 \<Rightarrow> u32" where
  "set_if c bits r = (if c then (r AND NOT bits) OR bits else r AND NOT bits)"

definition gpio_mode_config :: "nat \<Rightarrow> GPIO_InitTypeDef \<Rightarrow> nat \<Rightarrow> gpio \<Rightarrow> gpio" where
  "gpio_mode_config x init position hw = upd_port x (\<lambda>g.
     let g1 = (if Init_Mode init = GPIO_MODE_AF_PP \<or> Init_Mode init = GPIO_MODE_AF_OD then
                 g\<lparr>AFR := (AFR g)[position div 8 :=
                     set_field 0xF ((position mod 8) * 4) (Init_Alternate init) (AFR g ! (position div 8))]\<rparr>
               else g);
         g2 = g1\<lparr>MODER := set_field 3 (position * 2) (Init_Mode init AND 3) (MODER g1)\<rparr>;
         g3 = (if Init_Mode init = GPIO_MODE_OUTPUT_PP \<or> Init_Mode init = GPIO_MODE_AF_PP \<or>
                  Init_Mode init = GPIO_MODE_OUTPUT_OD \<or> Init_Mode init = GPIO_MODE_AF_OD then
                 g2\<lparr>OSPEEDR := set_field 3 (position * 2) (Init_Speed init) (OSPEEDR g2),
                    OTYPER := set_field 1 position (drop_bit 4 (Init_Mode init AND 0x10)) (OTYPER g2)\<rparr>
               else g2)
     in g3\<lparr>PUPDR := set_field 3 (position * 2) (Init_Pull init) (PUPDR g3)\<rparr>) hw"

definition gpio_exti_config :: "nat \<Rightarrow> GPIO_InitTypeDef \<Rightarrow> nat \<Rightarrow> gpio \<Rightarrow> gpio" where
  "gpio_exti_config x init position hw =
     (if Init_Mode init AND 0x10000000 = 0x10000000 then
        (let iocurrent = push_bit position 1
         in hw\<lparr>SYSCFG_EXTICR := (SYSCFG_EXTICR hw)[position div 4 :=
                  set_field 0xF (4 * (position mod 4)) (of_nat x) (SYSCFG_EXTICR hw ! (position div 4))],
               EXTI_IMR := set_if (Init_Mode init AND 0x00010000 = 0x00010000) iocurrent (EXTI_IMR hw),
               EXTI_EMR := set_if (Init_Mode init AND 0x00020000 = 0x00020000) iocurrent (EXTI_EMR hw),
               EXTI_RTSR := set_if (Init_Mode init AND 0x00100000 = 0x00100000) iocurrent (EXTI_RTSR hw),
               EXTI_FTSR := set_if (Init_Mode init AND 0x00200000 = 0x00200000) iocurrent (EXTI_FTSR hw)\<rparr>)
      else hw)"

definition selects :: "u32 \<Rightarrow> nat \<Rightarrow> bool" where
  "selects GPIO_Pin position \<longleftrightarrow> GPIO_Pin AND push_bit position 1 = push_bit position 1"

definition HAL_GPIO_Init :: "nat \<Rightarrow> GPIO_InitTypeDef \<Rightarrow> gpio \<Rightarrow> gpio" where
  "HAL_GPIO_Init x init hw =
     fold (\<lambda>position hw. if selects (Init_Pin init) position
                          then gpio_exti_config x init position (gpio_mode_config x init position hw)
                          else hw) [0..<16] hw"

definition gpio_deinit_position :: "nat \<Rightarrow> nat \<Rightarrow> gpio \<Rightarrow> gpio" where
  "gpio_deinit_position x position hw =
     (let s = 4 * (position mod 4);
          iocurrent = push_bit position 1 :: u32;
          cr = SYSCFG_EXTICR hw ! (position div 4);
          hw1 = (if cr AND push_bit s 0xF = push_bit s (of_nat x) then
                   hw\<lparr>SYSCFG_EXTICR := (SYSCFG_EXTICR hw)[position div 4 := cr AND NOT (push_bit s 0xF)],
                      EXTI_IMR := EXTI_IMR hw AND NOT iocurrent,
                      EXTI_EMR := EXTI_EMR hw AND NOT iocurrent,
                      EXTI_RTSR := EXTI_RTSR hw AND NOT iocurrent,
                      EXTI_FTSR := EXTI_FTSR hw AND NOT iocurrent\<rparr>
                 else hw)
      in upd_port x (\<lambda>g. g\<lparr>
           MODER := MODER g AND NOT (push_bit (position * 2) 3),
           AFR := (AFR g)[position div 8 := (AFR g ! (position div 8)) AND NOT (push_bit ((position mod 8) * 4) 0xF)],
           OSPEEDR := OSPEEDR g AND NOT (push_bit (position * 2) 3),
           OTYPER := OTYPER g AND NOT (push_bit position 1),
           PUPDR := PUPDR g AND NOT (push_bit (position * 2) 3)\<rparr>) hw1)"

definition HAL_GPIO_DeInit :: "nat \<Rightarrow> u32 \<Rightarrow> gpio \<Rightarrow> gpio" where
  "HAL_GPIO_DeInit x GPIO_Pin hw =
     fold (\<lambda>position hw. if selects GPIO_Pin position then gpio_deinit_position x position hw else hw)
       [0..<16] hw"

text \<open>The pending bit of a line is cleared by writing it, and the callback is then called: the
  result says whether it is.\<close>

definition HAL_GPIO_EXTI_IRQHandler :: "u32 \<Rightarrow> gpio \<Rightarrow> bool \<times> gpio" where
  "HAL_GPIO_EXTI_IRQHandler GPIO_Pin hw =
     (if EXTI_PR hw AND GPIO_Pin \<noteq> 0 then (True, hw\<lparr>EXTI_PR := EXTI_PR hw AND NOT GPIO_Pin\<rparr>)
      else (False, hw))"

section \<open>Register lemmas\<close>

lemma bit_one_bit [simp]: "bit (2 ^ p :: u32) n \<longleftrightarrow> n = p \<and> p < 32"
  by (auto simp: bit_exp_iff)

lemma selects_single: "p < 32 \<Longrightarrow> position < 32 \<Longrightarrow> selects (2 ^ p) position \<longleftrightarrow> position = p"
proof
  assume lt: "p < 32" "position < 32" and "selects (2 ^ p) position"
  then have "2 ^ p AND 2 ^ position = (2 ^ position :: u32)"
    by (simp add: selects_def)
  then have "bit (2 ^ p AND 2 ^ position :: u32) position"
    using lt by simp
  with lt show "position = p" by (simp add: bit_and_iff)
qed (simp add: selects_def)

lemma bit_set_field:
  "bit (set_field m s v r) n \<longleftrightarrow>
     n < 32 \<and> ((bit r n \<and> \<not> (s \<le> n \<and> bit m (n - s))) \<or> (s \<le> n \<and> bit v (n - s)))"
  unfolding set_field_def by (auto simp: bit_or_iff bit_and_iff bit_not_iff bit_push_bit_iff)

text \<open>Only the selected position is configured when one pin is named.\<close>

lemma fold_one:
  assumes "distinct xs" "p \<in> set xs" "\<And>x s. x \<in> set xs \<Longrightarrow> x \<noteq> p \<Longrightarrow> f x s = s"
  shows "fold f xs s = f p s"
proof -
  have out: "p \<notin> set ys \<Longrightarrow> set ys \<subseteq> set xs \<Longrightarrow> fold f ys t = t" for ys t
    using assms(3) by (induction ys arbitrary: t) auto
  obtain ys zs where xs: "xs = ys @ p # zs" using assms(2) by (meson split_list)
  have "fold f ys t = t" "fold f zs t = t" for t
    using assms(1) xs by (auto intro!: out)
  with xs show ?thesis by simp
qed

lemma HAL_GPIO_Init_single:
  assumes "p < 16" "Init_Pin init = 2 ^ p"
  shows "HAL_GPIO_Init x init hw = gpio_exti_config x init p (gpio_mode_config x init p hw)"
proof -
  let ?f = "\<lambda>position hw. if selects (Init_Pin init) position
              then gpio_exti_config x init position (gpio_mode_config x init position hw) else hw"
  have "fold ?f [0..<16] hw = ?f p hw"
    using assms by (intro fold_one) (auto simp: selects_single)
  then show ?thesis using assms by (simp add: HAL_GPIO_Init_def selects_single)
qed

end
