(* ===== verification/Gpio.thy ===== *)
theory Gpio
  imports Hal_Gpio
begin

text \<open>
  The STM32 pin driver (\<open>src/smart-building-mcu/drivers/drv_gpio.c\<close>) and the pin framework
  above it (\<open>rt-thread/components/drivers/misc/pin.c\<close>): the pin table, reading, writing and
  configuring pins, the table of pin interrupt handlers with the mask of enabled lines, and the
  EXTI interrupt handlers. An interrupt handler's effect on the application is the list of
  handlers it calls, in order.
\<close>

section \<open>The pin table\<close>

record pin_index =
  pi_index :: int
  pi_gpio :: nat
  pi_pin :: u32

text \<open>\<open>pins[]\<close> has sixteen consecutive entries for each port the device defines; the STM32F407 has
  ports A to I (numbered 0 to 8 here).\<close>

definition pins :: "pin_index list" where
  "pins = map (\<lambda>i. \<lparr>pi_index = int i, pi_gpio = i div 16, pi_pin = push_bit (i mod 16) 1\<rparr>) [0..<144]"

text \<open>\<open>get_pin(uint8_t pin)\<close>: the argument of the callers is converted to eight bits.\<close>

definition get_pin :: "int \<Rightarrow> pin_index option" where
  "get_pin pin =
     (let p = nat (pin mod 256)
      in if p < length pins then
           (let index = pins ! p in if pi_index index = -1 then None else Some index)
         else None)"

text \<open>\<open>GET_PIN(PORTx, PIN)\<close> of \<open>drv_common.h\<close>: the port registers are 0x400 apart.\<close>

definition GET_PIN :: "nat \<Rightarrow> int \<Rightarrow> int" where
  "GET_PIN port pin = 16 * int port + pin"

datatype port_name = PA | PB | PC | PD | PE | PF | PG | PH | PI

fun port_no :: "port_name \<Rightarrow> nat" where
  "port_no PA = 0" | "port_no PB = 1" | "port_no PC = 2" | "port_no PD = 3" | "port_no PE = 4"
| "port_no PF = 5" | "port_no PG = 6" | "port_no PH = 7" | "port_no PI = 8"

abbreviation (input) PIN_LOW :: int where "PIN_LOW \<equiv> 0"
abbreviation (input) PIN_HIGH :: int where "PIN_HIGH \<equiv> 1"
abbreviation (input) PIN_MODE_OUTPUT :: int where "PIN_MODE_OUTPUT \<equiv> 0"
abbreviation (input) PIN_MODE_INPUT :: int where "PIN_MODE_INPUT \<equiv> 1"
abbreviation (input) PIN_MODE_INPUT_PULLUP :: int where "PIN_MODE_INPUT_PULLUP \<equiv> 2"
abbreviation (input) PIN_MODE_INPUT_PULLDOWN :: int where "PIN_MODE_INPUT_PULLDOWN \<equiv> 3"
abbreviation (input) PIN_MODE_OUTPUT_OD :: int where "PIN_MODE_OUTPUT_OD \<equiv> 4"
abbreviation (input) PIN_IRQ_MODE_FALLING :: nat where "PIN_IRQ_MODE_FALLING \<equiv> 1"
abbreviation (input) PIN_IRQ_ENABLE :: nat where "PIN_IRQ_ENABLE \<equiv> 1"
abbreviation (input) PIN_IRQ_DISABLE :: nat where "PIN_IRQ_DISABLE \<equiv> 0"

section \<open>Driver operations\<close>

definition stm32_pin_write :: "int \<Rightarrow> int \<Rightarrow> gpio \<Rightarrow> gpio" where
  "stm32_pin_write pin value hw =
     (case get_pin pin of
        None \<Rightarrow> hw
      | Some index \<Rightarrow> HAL_GPIO_WritePin (pi_gpio index) (pi_pin index) value hw)"

definition stm32_pin_read :: "int \<Rightarrow> gpio \<Rightarrow> int" where
  "stm32_pin_read pin hw =
     (case get_pin pin of
        None \<Rightarrow> PIN_LOW
      | Some index \<Rightarrow> HAL_GPIO_ReadPin (pi_gpio index) (pi_pin index) hw)"

text \<open>\<open>alt\<close> is the content of the field \<open>Alternate\<close> of the local structure, which the driver does
  not set.\<close>

definition stm32_pin_mode :: "u32 \<Rightarrow> int \<Rightarrow> int \<Rightarrow> gpio \<Rightarrow> gpio" where
  "stm32_pin_mode alt pin mode hw =
     (case get_pin pin of
        None \<Rightarrow> hw
      | Some index \<Rightarrow>
          (let s = \<lparr>Init_Pin = pi_pin index, Init_Mode = GPIO_MODE_OUTPUT_PP, Init_Pull = GPIO_NOPULL,
                    Init_Speed = GPIO_SPEED_FREQ_HIGH, Init_Alternate = alt\<rparr>;
               s1 = (if mode = PIN_MODE_OUTPUT then s\<lparr>Init_Mode := GPIO_MODE_OUTPUT_PP, Init_Pull := GPIO_NOPULL\<rparr>
                     else if mode = PIN_MODE_INPUT then s\<lparr>Init_Mode := GPIO_MODE_INPUT, Init_Pull := GPIO_NOPULL\<rparr>
                     else if mode = PIN_MODE_INPUT_PULLUP then s\<lparr>Init_Mode := GPIO_MODE_INPUT, Init_Pull := GPIO_PULLUP\<rparr>
                     else if mode = PIN_MODE_INPUT_PULLDOWN then s\<lparr>Init_Mode := GPIO_MODE_INPUT, Init_Pull := GPIO_PULLDOWN\<rparr>
                     else if mode = PIN_MODE_OUTPUT_OD then s\<lparr>Init_Mode := GPIO_MODE_OUTPUT_OD, Init_Pull := GPIO_NOPULL\<rparr>
                     else s)
           in HAL_GPIO_Init (pi_gpio index) s1 hw))"

definition bit2bitno :: "u32 \<Rightarrow> int" where
  "bit2bitno b = (case find (\<lambda>i. push_bit i 1 = b) [0..<32] of None \<Rightarrow> -1 | Some i \<Rightarrow> int i)"

fun irqn_of :: "nat \<Rightarrow> IRQn" where
  "irqn_of i = (if i = 0 then EXTI0_IRQn else if i = 1 then EXTI1_IRQn else if i = 2 then EXTI2_IRQn
     else if i = 3 then EXTI3_IRQn else if i = 4 then EXTI4_IRQn else if i < 10 then EXTI9_5_IRQn
     else EXTI15_10_IRQn)"

record pin_irq_map =
  im_pinbit :: u32
  im_irqno :: IRQn

definition pin_irq_map :: "pin_irq_map list" where
  "pin_irq_map = map (\<lambda>i. \<lparr>im_pinbit = push_bit i 1, im_irqno = irqn_of i\<rparr>) [0..<16]"

definition get_pin_irq_map :: "u32 \<Rightarrow> pin_irq_map option" where
  "get_pin_irq_map pinbit =
     (let mapindex = bit2bitno pinbit
      in if mapindex < 0 \<or> mapindex \<ge> int (length pin_irq_map) then None
         else Some (pin_irq_map ! nat mapindex))"

declare irqn_of.simps [simp del]

definition free_hdr :: pin_irq_hdr where
  "free_hdr = \<lparr>irq_pin = -1, irq_mode = 0, irq_hdr = None, irq_args = 0\<rparr>"

definition stm32_pin_attach_irq :: "int \<Rightarrow> nat \<Rightarrow> fnptr option \<Rightarrow> int \<Rightarrow> gpio \<Rightarrow> rt_err \<times> gpio" where
  "stm32_pin_attach_irq pin mode hdr args hw =
     (case get_pin pin of
        None \<Rightarrow> (RT_ENOSYS, hw)
      | Some index \<Rightarrow>
          (let irqindex = bit2bitno (pi_pin index)
           in if irqindex < 0 \<or> irqindex \<ge> int (length pin_irq_map) then (RT_ENOSYS, hw)
              else let e = pin_irq_hdr_tab hw ! nat irqindex
                   in if irq_pin e = pin \<and> irq_hdr e = hdr \<and> irq_mode e = mode \<and> irq_args e = args
                      then (RT_EOK, hw)
                      else if irq_pin e \<noteq> -1 then (RT_EBUSY, hw)
                      else (RT_EOK, hw\<lparr>pin_irq_hdr_tab := (pin_irq_hdr_tab hw)[nat irqindex :=
                              \<lparr>irq_pin = to_s16 pin, irq_mode = mode mod 2 ^ 16, irq_hdr = hdr, irq_args = args\<rparr>]\<rparr>)))"

definition stm32_pin_dettach_irq :: "int \<Rightarrow> gpio \<Rightarrow> rt_err \<times> gpio" where
  "stm32_pin_dettach_irq pin hw =
     (case get_pin pin of
        None \<Rightarrow> (RT_ENOSYS, hw)
      | Some index \<Rightarrow>
          (let irqindex = bit2bitno (pi_pin index)
           in if irqindex < 0 \<or> irqindex \<ge> int (length pin_irq_map) then (RT_ENOSYS, hw)
              else if irq_pin (pin_irq_hdr_tab hw ! nat irqindex) = -1 then (RT_EOK, hw)
              else (RT_EOK, hw\<lparr>pin_irq_hdr_tab := (pin_irq_hdr_tab hw)[nat irqindex := free_hdr]\<rparr>)))"

text \<open>The two halves of \<open>stm32_pin_irq_enable\<close>. \<open>stk\<close> is the content of the local
  \<open>GPIO_InitStruct\<close> before the assignments: a handler mode other than the three edge modes
  leaves its fields \<open>Pull\<close> and \<open>Mode\<close> as they are.\<close>

definition pin_irq_switch_on :: "GPIO_InitTypeDef \<Rightarrow> pin_index \<Rightarrow> nat \<Rightarrow> gpio \<Rightarrow> gpio" where
  "pin_irq_switch_on stk index i hw =
     (let irqmap = pin_irq_map ! i;
          s = stk\<lparr>Init_Pin := pi_pin index, Init_Speed := GPIO_SPEED_FREQ_HIGH\<rparr>;
          m = irq_mode (pin_irq_hdr_tab hw ! i);
          s1 = (if m = 0 then s\<lparr>Init_Pull := GPIO_PULLDOWN, Init_Mode := GPIO_MODE_IT_RISING\<rparr>
                else if m = 1 then s\<lparr>Init_Pull := GPIO_PULLUP, Init_Mode := GPIO_MODE_IT_FALLING\<rparr>
                else if m = 2 then s\<lparr>Init_Pull := GPIO_NOPULL, Init_Mode := GPIO_MODE_IT_RISING_FALLING\<rparr>
                else s);
          hw1 = HAL_GPIO_Init (pi_gpio index) s1 hw
      in hw1\<lparr>nvic_priority := (nvic_priority hw1)(im_irqno irqmap := 5),
             nvic_enabled := (nvic_enabled hw1)(im_irqno irqmap := True),
             pin_irq_enable_mask := pin_irq_enable_mask hw1 OR im_pinbit irqmap\<rparr>)"

definition pin_irq_switch_off :: "pin_index \<Rightarrow> pin_irq_map \<Rightarrow> gpio \<Rightarrow> gpio" where
  "pin_irq_switch_off index irqmap hw =
     (let hw1 = HAL_GPIO_DeInit (pi_gpio index) (pi_pin index) hw;
          hw2 = hw1\<lparr>pin_irq_enable_mask := pin_irq_enable_mask hw1 AND NOT (im_pinbit irqmap)\<rparr>;
          off = hw2\<lparr>nvic_enabled := (nvic_enabled hw2)(im_irqno irqmap := False)\<rparr>
      in if im_pinbit irqmap \<ge> 0x20 \<and> im_pinbit irqmap \<le> 0x200 then
           (if pin_irq_enable_mask hw2 AND 0x3E0 = 0 then off else hw2)
         else if im_pinbit irqmap \<ge> 0x400 \<and> im_pinbit irqmap \<le> 0x8000 then
           (if pin_irq_enable_mask hw2 AND 0xFC00 = 0 then off else hw2)
         else off)"

definition stm32_pin_irq_enable :: "GPIO_InitTypeDef \<Rightarrow> int \<Rightarrow> nat \<Rightarrow> gpio \<Rightarrow> rt_err \<times> gpio" where
  "stm32_pin_irq_enable stk pin enabled hw =
     (case get_pin pin of
        None \<Rightarrow> (RT_ENOSYS, hw)
      | Some index \<Rightarrow>
          (if enabled = PIN_IRQ_ENABLE then
             (let irqindex = bit2bitno (pi_pin index)
              in if irqindex < 0 \<or> irqindex \<ge> int (length pin_irq_map) then (RT_ENOSYS, hw)
                 else if irq_pin (pin_irq_hdr_tab hw ! nat irqindex) = -1 then (RT_ENOSYS, hw)
                 else (RT_EOK, pin_irq_switch_on stk index (nat irqindex) hw))
           else if enabled = PIN_IRQ_DISABLE then
             (case get_pin_irq_map (pi_pin index) of
                None \<Rightarrow> (RT_ENOSYS, hw)
              | Some irqmap \<Rightarrow> (RT_EOK, pin_irq_switch_off index irqmap hw))
           else (- RT_ENOSYS, hw)))"

section \<open>Interrupts\<close>

text \<open>\<open>pin_irq_hdr\<close>: the handler to call with its argument, if one is installed. The index is the
  number of a single pin bit.\<close>

definition pin_irq_hdr_call :: "int \<Rightarrow> gpio \<Rightarrow> (fnptr \<times> int) list" where
  "pin_irq_hdr_call irqno hw =
     (let e = pin_irq_hdr_tab hw ! nat irqno
      in case irq_hdr e of None \<Rightarrow> [] | Some h \<Rightarrow> [(h, irq_args e)])"

definition HAL_GPIO_EXTI_Callback :: "u32 \<Rightarrow> gpio \<Rightarrow> (fnptr \<times> int) list" where
  "HAL_GPIO_EXTI_Callback GPIO_Pin hw = pin_irq_hdr_call (bit2bitno GPIO_Pin) hw"

definition exti_line :: "nat \<Rightarrow> gpio \<Rightarrow> (fnptr \<times> int) list \<times> gpio" where
  "exti_line i hw =
     (let (fire, hw1) = HAL_GPIO_EXTI_IRQHandler (push_bit i 1) hw
      in (if fire then HAL_GPIO_EXTI_Callback (push_bit i 1) hw1 else [], hw1))"

fun exti_lines :: "nat list \<Rightarrow> gpio \<Rightarrow> (fnptr \<times> int) list \<times> gpio" where
  "exti_lines [] hw = ([], hw)"
| "exti_lines (i # is) hw =
     (let (c1, hw1) = exti_line i hw; (c2, hw2) = exti_lines is hw1 in (c1 @ c2, hw2))"

text \<open>The seven handlers of the vector table, each with its lines in the order of the code.\<close>

fun EXTI_IRQHandler :: "IRQn \<Rightarrow> gpio \<Rightarrow> (fnptr \<times> int) list \<times> gpio" where
  "EXTI_IRQHandler EXTI0_IRQn hw = exti_lines [0] hw"
| "EXTI_IRQHandler EXTI1_IRQn hw = exti_lines [1] hw"
| "EXTI_IRQHandler EXTI2_IRQn hw = exti_lines [2] hw"
| "EXTI_IRQHandler EXTI3_IRQn hw = exti_lines [3] hw"
| "EXTI_IRQHandler EXTI4_IRQn hw = exti_lines [4] hw"
| "EXTI_IRQHandler EXTI9_5_IRQn hw = exti_lines [5, 6, 7, 8, 9] hw"
| "EXTI_IRQHandler EXTI15_10_IRQn hw = exti_lines [10, 11, 12, 13, 14, 15] hw"

section \<open>The pin framework\<close>

text \<open>\<open>None\<close> is the assertion \<open>_hw_pin.ops != RT_NULL\<close> failing. \<open>rt_hw_pin_init\<close> switches the
  port clocks on and registers the driver.\<close>

definition rt_device_pin_register :: "pin_ops \<Rightarrow> gpio \<Rightarrow> int \<times> gpio" where
  "rt_device_pin_register ops hw = (0, hw\<lparr>hw_pin_ops := Some ops\<rparr>)"

definition rt_hw_pin_init :: "gpio \<Rightarrow> int \<times> gpio" where
  "rt_hw_pin_init hw = rt_device_pin_register Stm32_pin_ops hw"

definition with_pin_ops :: "gpio \<Rightarrow> 'r \<Rightarrow> 'r option" where
  "with_pin_ops hw r = (case hw_pin_ops hw of None \<Rightarrow> None | Some Stm32_pin_ops \<Rightarrow> Some r)"

definition rt_pin_mode :: "u32 \<Rightarrow> int \<Rightarrow> int \<Rightarrow> gpio \<Rightarrow> gpio option" where
  "rt_pin_mode alt pin mode hw = with_pin_ops hw (stm32_pin_mode alt pin mode hw)"

definition rt_pin_write :: "int \<Rightarrow> int \<Rightarrow> gpio \<Rightarrow> gpio option" where
  "rt_pin_write pin value hw = with_pin_ops hw (stm32_pin_write pin value hw)"

definition rt_pin_read :: "int \<Rightarrow> gpio \<Rightarrow> int option" where
  "rt_pin_read pin hw = with_pin_ops hw (stm32_pin_read pin hw)"

definition rt_pin_attach_irq :: "int \<Rightarrow> nat \<Rightarrow> fnptr option \<Rightarrow> int \<Rightarrow> gpio \<Rightarrow> (rt_err \<times> gpio) option" where
  "rt_pin_attach_irq pin mode hdr args hw = with_pin_ops hw (stm32_pin_attach_irq pin mode hdr args hw)"

definition rt_pin_detach_irq :: "int \<Rightarrow> gpio \<Rightarrow> (rt_err \<times> gpio) option" where
  "rt_pin_detach_irq pin hw = with_pin_ops hw (stm32_pin_dettach_irq pin hw)"

definition rt_pin_irq_enable :: "GPIO_InitTypeDef \<Rightarrow> int \<Rightarrow> nat \<Rightarrow> gpio \<Rightarrow> (rt_err \<times> gpio) option" where
  "rt_pin_irq_enable stk pin enabled hw = with_pin_ops hw (stm32_pin_irq_enable stk pin enabled hw)"

text \<open>The pin device as a file: a read or write passes a \<open>struct rt_device_pin_status\<close> and the size of
  the buffer, a control a \<open>struct rt_device_pin_mode\<close>. The buffer \<open>None\<close> is a null pointer; the
  status read is stored as a 16-bit number.\<close>

record rt_device_pin_status =
  ps_pin :: u16
  ps_status :: u16

record rt_device_pin_mode =
  pm_pin :: u16
  pm_mode :: u16

abbreviation (input) sizeof_pin_status :: nat where "sizeof_pin_status \<equiv> 4"

definition pin_dev_read :: "rt_device_pin_status option \<Rightarrow> nat \<Rightarrow> gpio \<Rightarrow> (nat \<times> rt_device_pin_status option) option" where
  "pin_dev_read buffer sz hw =
     (case buffer of
        None \<Rightarrow> Some (0, None)
      | Some st \<Rightarrow>
          (if sz \<noteq> sizeof_pin_status then Some (0, Some st)
           else with_pin_ops hw (sz, Some (st\<lparr>ps_status := of_int (stm32_pin_read (uint (ps_pin st)) hw)\<rparr>))))"

definition pin_dev_write :: "rt_device_pin_status option \<Rightarrow> nat \<Rightarrow> gpio \<Rightarrow> (nat \<times> gpio) option" where
  "pin_dev_write buffer sz hw =
     (case buffer of
        None \<Rightarrow> Some (0, hw)
      | Some st \<Rightarrow>
          (if sz \<noteq> sizeof_pin_status then Some (0, hw)
           else with_pin_ops hw (sz, stm32_pin_write (uint (ps_pin st)) (uint (ps_status st)) hw)))"

definition pin_dev_control :: "u32 \<Rightarrow> int \<Rightarrow> rt_device_pin_mode option \<Rightarrow> gpio \<Rightarrow> (rt_err \<times> gpio) option" where
  "pin_dev_control alt cmd args hw =
     (case args of
        None \<Rightarrow> Some (- RT_ERROR, hw)
      | Some m \<Rightarrow> with_pin_ops hw (0, stm32_pin_mode alt (uint (pm_pin m)) (uint (pm_mode m)) hw))"

section \<open>Valid pins\<close>

definition valid_pin :: "int \<Rightarrow> bool" where
  "valid_pin pin \<longleftrightarrow> 0 \<le> pin \<and> pin < 144"

definition out_pin :: "gpio \<Rightarrow> int \<Rightarrow> bool" where
  "out_pin hw pin = push_pull_output (ports hw (nat pin div 16)) (nat pin mod 16)"

lemma get_pin_valid:
  "valid_pin pin \<Longrightarrow> get_pin pin =
     Some \<lparr>pi_index = pin, pi_gpio = nat pin div 16, pi_pin = 2 ^ (nat pin mod 16)\<rparr>"
  by (simp add: get_pin_def valid_pin_def pins_def Let_def nat_less_iff)

lemma bit2bitno_single: "p < 32 \<Longrightarrow> bit2bitno (2 ^ p) = int p"
proof -
  assume p: "p < 32"
  have ne: "(2 :: u32) ^ i = 2 ^ p \<longleftrightarrow> i = p" if "i < 32" for i
  proof
    assume "(2 :: u32) ^ i = 2 ^ p"
    then have "bit (2 ^ i :: u32) i = bit (2 ^ p :: u32) i" by simp
    with that p show "i = p" unfolding bit_one_bit by simp
  qed simp
  have "find (\<lambda>i. push_bit i 1 = (2 ^ p :: u32)) [0..<32] = Some p"
    unfolding find_Some_iff using p ne by (intro exI [of _ p]) simp
  then show ?thesis by (simp add: bit2bitno_def)
qed

lemma level_read:
  "valid_pin pin \<Longrightarrow> stm32_pin_read pin hw =
     (if pad_level (ports hw (nat pin div 16)) (nat pin mod 16) then 1 else 0)"
  by (auto simp: stm32_pin_read_def get_pin_valid HAL_GPIO_ReadPin_def list_ex_iff)

lemma valid_pin_split:
  assumes "valid_pin a" "valid_pin b" "a \<noteq> b"
  shows "nat a div 16 \<noteq> nat b div 16 \<or> nat a mod 16 \<noteq> nat b mod 16"
proof (rule ccontr)
  assume "\<not> ?thesis"
  then have "nat a = nat b" by (metis div_mult_mod_eq)
  with assms show False by (simp add: valid_pin_def eq_nat_nat_iff)
qed

lemma write_ports:
  assumes "valid_pin pin"
  shows "ports (stm32_pin_write pin v hw) x =
     (if x = nat pin div 16
      then (ports hw x)\<lparr>ODR := (if v \<noteq> 0 then ODR (ports hw x) OR 2 ^ (nat pin mod 16)
                                 else ODR (ports hw x) AND NOT (2 ^ (nat pin mod 16)))\<rparr>
      else ports hw x)"
  using assms by (simp add: stm32_pin_write_def get_pin_valid HAL_GPIO_WritePin_def upd_port_def)

lemma write_out_pin [simp]:
  "valid_pin pin \<Longrightarrow> out_pin (stm32_pin_write pin v hw) q = out_pin hw q"
  by (simp add: out_pin_def write_ports push_pull_output_def)

lemma read_write_same:
  assumes "valid_pin pin" "out_pin hw pin"
  shows "stm32_pin_read pin (stm32_pin_write pin v hw) = (if v \<noteq> 0 then 1 else 0)"
  using assms
  by (auto simp: level_read write_ports pad_level_def out_pin_def push_pull_output_def bit_or_iff bit_and_iff bit_not_iff)

lemma read_write_other:
  assumes "valid_pin pin" "valid_pin q" "q \<noteq> pin"
  shows "stm32_pin_read q (stm32_pin_write pin v hw) = stm32_pin_read q hw"
  using assms valid_pin_split [of q pin]
  by (auto simp: level_read write_ports pad_level_def push_pull_output_def bit_or_iff bit_and_iff bit_not_iff)


section \<open>Configuring a pin\<close>

lemma gpio_exti_config_ports [simp]: "ports (gpio_exti_config x init p hw) = ports hw"
  by (simp add: gpio_exti_config_def Let_def)

lemma bit_set_field_3:
  "bit (set_field 3 s v r) n \<longleftrightarrow> n < 32 \<and> ((bit r n \<and> \<not> (s \<le> n \<and> n < s + 2)) \<or> (s \<le> n \<and> bit v (n - s)))"
proof -
  have e: "(3 :: u32) = Bit_Operations.mask 2" by (simp add: mask_eq_exp_minus_1)
  show ?thesis unfolding bit_set_field unfolding e bit_mask_iff by auto
qed

lemma bit_set_field_1:
  "bit (set_field 1 s v r) n \<longleftrightarrow> n < 32 \<and> ((bit r n \<and> n \<noteq> s) \<or> (s \<le> n \<and> bit v (n - s)))"
  unfolding bit_set_field bit_1_iff by auto

lemma output_fields:
  assumes "p < 16" "q < 16"
  shows "push_pull_output (g\<lparr>MODER := set_field 3 (p * 2) 1 (MODER g), OSPEEDR := s,
            OTYPER := set_field 1 p 0 (OTYPER g), PUPDR := r\<rparr>) q \<longleftrightarrow> q = p \<or> push_pull_output g q"
proof (cases "q = p")
  case False
  then have "\<not> (p * 2 \<le> 2 * q \<and> 2 * q < p * 2 + 2)" "\<not> (p * 2 \<le> 2 * q + 1 \<and> 2 * q + 1 < p * 2 + 2)"
    "2 * q - p * 2 \<noteq> 0 \<or> \<not> p * 2 \<le> 2 * q" "2 * q + 1 - p * 2 \<noteq> 0 \<or> \<not> p * 2 \<le> 2 * q + 1"
    by presburger+
  then show ?thesis
    using assms False unfolding push_pull_output_def by (auto simp: bit_set_field_3 bit_set_field_1 bit_1_iff)
qed (use assms in \<open>simp add: push_pull_output_def bit_set_field_3 bit_set_field_1 bit_1_iff\<close>)

lemma HAL_GPIO_Init_pin:
  "p < 16 \<Longrightarrow> HAL_GPIO_Init x \<lparr>Init_Pin = 2 ^ p, Init_Mode = m, Init_Pull = u, Init_Speed = s, Init_Alternate = a\<rparr> hw =
     (let init = \<lparr>Init_Pin = 2 ^ p, Init_Mode = m, Init_Pull = u, Init_Speed = s, Init_Alternate = a\<rparr>
      in gpio_exti_config x init p (gpio_mode_config x init p hw))"
  by (simp add: HAL_GPIO_Init_single Let_def)

lemma pin_mode_output:
  assumes "valid_pin pin" "valid_pin q"
  shows "out_pin (stm32_pin_mode alt pin PIN_MODE_OUTPUT hw) q \<longleftrightarrow> q = pin \<or> out_pin hw q"
proof (cases "nat q div 16 = nat pin div 16")
  case True
  then have "nat q mod 16 = nat pin mod 16 \<longleftrightarrow> q = pin"
    using valid_pin_split [OF assms(2,1)] by auto
  with True assms show ?thesis
    by (simp add: out_pin_def stm32_pin_mode_def get_pin_valid HAL_GPIO_Init_pin gpio_mode_config_def
        upd_port_def Let_def output_fields)
next
  case False
  then have "q \<noteq> pin" by auto
  with False assms show ?thesis
    by (simp add: out_pin_def stm32_pin_mode_def get_pin_valid HAL_GPIO_Init_pin gpio_mode_config_def
        upd_port_def Let_def)
qed

section \<open>The contract of a bank of pins\<close>

text \<open>What the application relies on: an output pin reads back the level last written to it, and
  writing one pin neither disturbs another pin nor reconfigures anything.\<close>

locale pin_bank =
  fixes wr :: "int \<Rightarrow> int \<Rightarrow> 's \<Rightarrow> 's"
    and rd :: "int \<Rightarrow> 's \<Rightarrow> int"
    and ok :: "int \<Rightarrow> bool"
    and drives :: "'s \<Rightarrow> int \<Rightarrow> bool"
  assumes drives_wr: "ok p \<Longrightarrow> drives (wr p v s) q \<longleftrightarrow> drives s q"
    and rd_same: "ok p \<Longrightarrow> drives s p \<Longrightarrow> rd p (wr p v s) = (if v \<noteq> 0 then 1 else 0)"
    and rd_other: "ok p \<Longrightarrow> ok q \<Longrightarrow> q \<noteq> p \<Longrightarrow> rd q (wr p v s) = rd q s"
begin

lemma drives_fold:
  "list_all (\<lambda>w. ok (fst w)) ws \<Longrightarrow> drives (fold (\<lambda>(p, v). wr p v) ws s) q \<longleftrightarrow> drives s q"
  by (induction ws arbitrary: s) (simp_all add: drives_wr split_beta)

lemma last_write_wins:
  assumes "list_all (\<lambda>w. ok (fst w)) ws" "ok p" "drives s p"
  shows "rd p (fold (\<lambda>(p, v). wr p v) ws s) =
         (case find (\<lambda>w. fst w = p) (rev ws) of
            None \<Rightarrow> rd p s | Some w \<Rightarrow> if snd w \<noteq> 0 then 1 else 0)"
  using assms(1)
proof (induction ws rule: rev_induct)
  case (snoc w ws)
  with assms show ?case
    by (cases w) (auto simp: rd_same rd_other drives_fold)
qed simp

lemma toggle_twice:
  assumes "ok p" "drives s p"
  shows "rd p (wr p (if rd p (wr p v s) = 0 then 1 else 0) (wr p v s)) = 1 - rd p (wr p v s)"
  using assms by (simp add: rd_same drives_wr)

end

interpretation pb: pin_bank stm32_pin_write stm32_pin_read valid_pin out_pin
  by unfold_locales (simp_all add: read_write_same read_write_other)

text \<open>C4: After any sequence of writes to valid pins, an output pin reads the level of the last write
  to it, and the level it had before when the sequence does not write it.\<close>

theorem pin_last_write_wins:
  assumes "list_all (\<lambda>w. valid_pin (fst w)) ws" "valid_pin pin" "out_pin hw pin"
  shows "stm32_pin_read pin (fold (\<lambda>(p, v). stm32_pin_write p v) ws hw) =
         (case find (\<lambda>w. fst w = pin) (rev ws) of
            None \<Rightarrow> stm32_pin_read pin hw | Some w \<Rightarrow> if snd w \<noteq> 0 then 1 else 0)"
  using assms by (rule pb.last_write_wins)

definition reset_port :: gpio_port where
  "reset_port = \<lparr>MODER = 0, OTYPER = 0, OSPEEDR = 0, PUPDR = 0, ODR = 0, AFR = [0, 0], pad_in = 0\<rparr>"

definition reset_gpio :: gpio where
  "reset_gpio = \<lparr>hw_pin_ops = None, ports = (\<lambda>_. reset_port), EXTI_IMR = 0, EXTI_EMR = 0, EXTI_RTSR = 0,
     EXTI_FTSR = 0, EXTI_PR = 0, SYSCFG_EXTICR = [0, 0, 0, 0], nvic_enabled = (\<lambda>_. False),
     nvic_priority = (\<lambda>_. 0), pin_irq_hdr_tab = replicate 16 free_hdr, pin_irq_enable_mask = 0\<rparr>"

theorem pin_last_write_wins_witness:
  "stm32_pin_read 89 (fold (\<lambda>(p, v). stm32_pin_write p v) [(89, 1), (90, 0), (89, 1), (52, 1)]
     (stm32_pin_mode 0 89 PIN_MODE_OUTPUT reset_gpio)) = 1"
proof -
  have "out_pin (stm32_pin_mode 0 89 PIN_MODE_OUTPUT reset_gpio) 89"
    by (simp add: pin_mode_output valid_pin_def)
  then show ?thesis
    using pin_last_write_wins [of "[(89, 1), (90, 0), (89, 1), (52, 1)]" 89
        "stm32_pin_mode 0 89 PIN_MODE_OUTPUT reset_gpio"]
    by (simp add: valid_pin_def)
qed

lemma write_pin_ops [simp]: "hw_pin_ops (stm32_pin_write p v h) = hw_pin_ops h"
  by (simp add: stm32_pin_write_def HAL_GPIO_WritePin_def upd_port_def split: option.split)

text \<open>A level written through the device file is read back through it.\<close>

lemma pin_dev_write_read:
  assumes "hw_pin_ops hw = Some Stm32_pin_ops" "valid_pin (uint p)" "out_pin hw (uint p)"
  shows "\<exists>hw'. pin_dev_write (Some \<lparr>ps_pin = p, ps_status = v\<rparr>) 4 hw = Some (4, hw') \<and>
     pin_dev_read (Some \<lparr>ps_pin = p, ps_status = w\<rparr>) 4 hw' = Some (4, Some \<lparr>ps_pin = p, ps_status = (if v \<noteq> 0 then 1 else 0)\<rparr>)"
  using assms read_write_same [OF assms(2,3), of "uint v"]
  by (auto simp: pin_dev_write_def pin_dev_read_def with_pin_ops_def unsigned_eq_0_iff)

section \<open>Pin interrupts\<close>

lemma HAL_GPIO_DeInit_single:
  assumes "p < 16"
  shows "HAL_GPIO_DeInit x (2 ^ p) hw = gpio_deinit_position x p hw"
proof -
  have "fold (\<lambda>position hw. if selects (2 ^ p) position then gpio_deinit_position x position hw else hw) [0..<16] hw
        = (if selects (2 ^ p) p then gpio_deinit_position x p hw else hw)"
    using assms by (intro fold_one) (auto simp: selects_single)
  then show ?thesis using assms by (simp add: HAL_GPIO_DeInit_def selects_single)
qed

lemma gpio_config_frame [simp]:
  "pin_irq_enable_mask (gpio_exti_config x init p (gpio_mode_config x init p hw)) = pin_irq_enable_mask hw"
  "nvic_enabled (gpio_exti_config x init p (gpio_mode_config x init p hw)) = nvic_enabled hw"
  "pin_irq_hdr_tab (gpio_exti_config x init p (gpio_mode_config x init p hw)) = pin_irq_hdr_tab hw"
  "EXTI_PR (gpio_exti_config x init p (gpio_mode_config x init p hw)) = EXTI_PR hw"
  by (simp_all add: gpio_exti_config_def gpio_mode_config_def upd_port_def Let_def)

lemma fold_frame: "(\<And>p s. g (f p s) = g s) \<Longrightarrow> g (fold f ps s) = g s"
  by (induction ps arbitrary: s) simp_all

lemma HAL_GPIO_Init_frame [simp]:
  "pin_irq_enable_mask (HAL_GPIO_Init x init hw) = pin_irq_enable_mask hw"
  "nvic_enabled (HAL_GPIO_Init x init hw) = nvic_enabled hw"
  "pin_irq_hdr_tab (HAL_GPIO_Init x init hw) = pin_irq_hdr_tab hw"
  unfolding HAL_GPIO_Init_def by (rule fold_frame, simp)+

lemma gpio_deinit_frame [simp]:
  "pin_irq_enable_mask (gpio_deinit_position x p hw) = pin_irq_enable_mask hw"
  "nvic_enabled (gpio_deinit_position x p hw) = nvic_enabled hw"
  "pin_irq_hdr_tab (gpio_deinit_position x p hw) = pin_irq_hdr_tab hw"
  by (simp_all add: gpio_deinit_position_def upd_port_def Let_def)

text \<open>The interrupt controller has a line enabled exactly when the driver's mask has a pin of that
  line.\<close>

definition irq_consistent :: "gpio \<Rightarrow> bool" where
  "irq_consistent hw \<longleftrightarrow> (\<forall>n. nvic_enabled hw n \<longleftrightarrow> (\<exists>i<16. irqn_of i = n \<and> bit (pin_irq_enable_mask hw) i))"

lemma bit_imp_le_length_u32: "bit (m :: u32) j \<Longrightarrow> j < 32"
  using bit_imp_le_length [of m j] by simp

lemma shared_mask_low: "(m :: u32) AND 0x3E0 = 0 \<longleftrightarrow> (\<forall>j. 5 \<le> j \<and> j \<le> 9 \<longrightarrow> \<not> bit m j)"
proof -
  have e: "(0x3E0 :: u32) = push_bit 5 (Bit_Operations.mask 5)" by (simp add: mask_eq_exp_minus_1)
  have b: "bit (0x3E0 :: u32) j \<longleftrightarrow> 5 \<le> j \<and> j \<le> 9" for j
    unfolding e bit_push_bit_iff bit_mask_iff by auto
  show ?thesis
    unfolding bit_eq_iff bit_and_iff b
    by (simp, meson bit_imp_le_length_u32 order.strict_trans1)
qed

lemma shared_mask_high: "(m :: u32) AND 0xFC00 = 0 \<longleftrightarrow> (\<forall>j. 10 \<le> j \<and> j \<le> 15 \<longrightarrow> \<not> bit m j)"
proof -
  have e: "(0xFC00 :: u32) = push_bit 10 (Bit_Operations.mask 6)" by (simp add: mask_eq_exp_minus_1)
  have b: "bit (0xFC00 :: u32) j \<longleftrightarrow> 10 \<le> j \<and> j \<le> 15" for j
    unfolding e bit_push_bit_iff bit_mask_iff by auto
  show ?thesis
    unfolding bit_eq_iff bit_and_iff b
    by (simp, meson bit_imp_le_length_u32 order.strict_trans1)
qed

lemma u32_power_le: "i < 32 \<Longrightarrow> j < 32 \<Longrightarrow> (2 :: u32) ^ i \<le> 2 ^ j \<longleftrightarrow> i \<le> j"
proof -
  assume "i < 32" "j < 32"
  then have "uint ((2 :: u32) ^ i) = 2 ^ i" "uint ((2 :: u32) ^ j) = 2 ^ j"
    by (auto intro!: uint_2p simp: word_gt_0)
  then show ?thesis by (simp add: word_le_def)
qed

lemma pin_bit_ranges:
  assumes "i < 16"
  shows "(2 :: u32) ^ i \<ge> 0x20 \<and> (2 :: u32) ^ i \<le> 0x200 \<longleftrightarrow> 5 \<le> i \<and> i \<le> 9"
    and "(2 :: u32) ^ i \<ge> 0x400 \<and> (2 :: u32) ^ i \<le> 0x8000 \<longleftrightarrow> 10 \<le> i"
  using assms u32_power_le [of 5 i] u32_power_le [of i 9] u32_power_le [of 10 i] u32_power_le [of i 15]
  by simp_all

lemma switch_on_consistent:
  assumes "irq_consistent hw" "i < 16" "pi_pin index = 2 ^ i"
  shows "irq_consistent (pin_irq_switch_on stk index i hw)"
  using assms unfolding irq_consistent_def
  by (auto simp: pin_irq_switch_on_def Let_def HAL_GPIO_Init_single pin_irq_map_def bit_or_iff)

text \<open>The condition of the code under which a disabled pin switches its interrupt line off.\<close>

lemma switch_off_fields:
  assumes "i < 16" "pi_pin index = 2 ^ i"
  shows "pin_irq_enable_mask (pin_irq_switch_off index (pin_irq_map ! i) hw) = pin_irq_enable_mask hw AND NOT (2 ^ i)"
    and "nvic_enabled (pin_irq_switch_off index (pin_irq_map ! i) hw) =
      (if \<exists>j<16. irqn_of j = irqn_of i \<and> bit (pin_irq_enable_mask hw AND NOT (2 ^ i)) j
       then nvic_enabled hw else (nvic_enabled hw)(irqn_of i := False))"
proof -
  let ?m = "pin_irq_enable_mask hw AND NOT (2 ^ i)"
  have m: "im_pinbit (pin_irq_map ! i) = 2 ^ i" "im_irqno (pin_irq_map ! i) = irqn_of i"
    using assms by (simp_all add: pin_irq_map_def)
  show "pin_irq_enable_mask (pin_irq_switch_off index (pin_irq_map ! i) hw) = ?m"
    using assms m by (simp add: pin_irq_switch_off_def Let_def HAL_GPIO_DeInit_single)
  have off: "nvic_enabled (pin_irq_switch_off index (pin_irq_map ! i) hw) =
      (if (5 \<le> i \<and> i \<le> 9 \<and> ?m AND 0x3E0 \<noteq> 0) \<or> (10 \<le> i \<and> ?m AND 0xFC00 \<noteq> 0)
       then nvic_enabled hw else (nvic_enabled hw)(irqn_of i := False))"
    using pin_bit_ranges [OF assms(1)]
    unfolding pin_irq_switch_off_def Let_def m assms(2) HAL_GPIO_DeInit_single [OF assms(1)] by simp
  have "(\<exists>j<16. irqn_of j = irqn_of i \<and> bit ?m j) \<longleftrightarrow>
      (5 \<le> i \<and> i \<le> 9 \<and> ?m AND 0x3E0 \<noteq> 0) \<or> (10 \<le> i \<and> ?m AND 0xFC00 \<noteq> 0)" (is "?a \<longleftrightarrow> ?b")
  proof
    assume ?a
    then obtain j where j: "j < 16" "irqn_of j = irqn_of i" "bit ?m j" by blast
    then have "j \<noteq> i" by (auto simp: bit_and_iff bit_not_iff)
    with j assms(1) have "(5 \<le> i \<and> i \<le> 9 \<and> 5 \<le> j \<and> j \<le> 9) \<or> (10 \<le> i \<and> 10 \<le> j)"
      by (auto simp: irqn_of.simps split: if_splits)
    with j show ?b unfolding shared_mask_low shared_mask_high by auto
  next
    assume ?b
    then consider (low) j where "5 \<le> i" "i \<le> 9" "5 \<le> j" "j \<le> 9" "bit ?m j"
      | (high) j where "10 \<le> i" "10 \<le> j" "j \<le> 15" "bit ?m j"
      unfolding shared_mask_low shared_mask_high by blast
    then show ?a
    proof cases
      case low
      then show ?thesis by (intro exI [of _ j]) (simp add: irqn_of.simps)
    next
      case high
      then show ?thesis using assms(1) by (intro exI [of _ j]) (simp add: irqn_of.simps)
    qed
  qed
  then show "nvic_enabled (pin_irq_switch_off index (pin_irq_map ! i) hw) =
      (if \<exists>j<16. irqn_of j = irqn_of i \<and> bit ?m j
       then nvic_enabled hw else (nvic_enabled hw)(irqn_of i := False))"
    using off by simp
qed

lemma switched_off:
  "(q \<longleftrightarrow> e n \<and> (n = k \<longrightarrow> qk)) \<Longrightarrow> (n = k \<Longrightarrow> q = qk) \<Longrightarrow> (if qk then e else e(k := False)) n \<longleftrightarrow> q"
  by auto

lemma switch_off_consistent:
  assumes "irq_consistent hw" "i < 16" "pi_pin index = 2 ^ i"
  shows "irq_consistent (pin_irq_switch_off index (pin_irq_map ! i) hw)"
proof -
  let ?m = "pin_irq_enable_mask hw"
  have m: "bit (?m AND NOT (2 ^ i)) j \<longleftrightarrow> bit ?m j \<and> j \<noteq> i" for j
    using bit_imp_le_length_u32 assms(2) by (auto simp: bit_and_iff bit_not_iff)
  let ?Q = "\<lambda>n. \<exists>j<16. irqn_of j = n \<and> bit ?m j \<and> j \<noteq> i"
  have split: "?Q n \<longleftrightarrow> nvic_enabled hw n \<and> (n = irqn_of i \<longrightarrow> ?Q (irqn_of i))" for n
    using assms(1) unfolding irq_consistent_def by metis
  have "(if ?Q (irqn_of i) then nvic_enabled hw else (nvic_enabled hw)(irqn_of i := False)) n \<longleftrightarrow> ?Q n" for n
    by (rule switched_off [OF split]) simp
  then show ?thesis
    unfolding irq_consistent_def switch_off_fields [OF assms(2,3)] m by blast
qed

lemma get_pin_range:
  assumes "get_pin pin = Some index"
  obtains i where "i < 16" "pi_pin index = 2 ^ i"
proof -
  have "index \<in> set pins"
    using assms by (auto simp: get_pin_def Let_def split: if_splits)
  then obtain x where "pi_pin index = 2 ^ (x mod 16)" by (auto simp: pins_def)
  then show ?thesis using that [of "x mod 16"] by simp
qed

text \<open>C5: Enabling or disabling the interrupt of any pin, whatever the result code, keeps the interrupt
  controller in step with the driver's table: a line (shared by pins 5 to 9 and 10 to 15) is
  enabled exactly while some pin of it is.\<close>

theorem pin_irq_enable_consistent:
  assumes "irq_consistent hw"
  shows "irq_consistent (snd (stm32_pin_irq_enable stk pin enabled hw))"
proof (cases "get_pin pin")
  case (Some index)
  then obtain i where i: "i < 16" "pi_pin index = 2 ^ i" by (rule get_pin_range)
  then have "bit2bitno (pi_pin index) = int i" by (simp add: bit2bitno_single)
  with Some i assms show ?thesis
    by (auto simp: stm32_pin_irq_enable_def Let_def get_pin_irq_map_def switch_on_consistent switch_off_consistent)
qed (simp add: stm32_pin_irq_enable_def assms)

theorem pin_irq_enable_consistent_witness:
  "irq_consistent (snd (stm32_pin_irq_enable \<lparr>Init_Pin = 0, Init_Mode = 0, Init_Pull = 0, Init_Speed = 0,
     Init_Alternate = 0\<rparr> 68 PIN_IRQ_DISABLE reset_gpio))"
  by (rule pin_irq_enable_consistent) (simp add: irq_consistent_def reset_gpio_def)

lemma attach_entry:
  assumes "valid_pin pin" "length (pin_irq_hdr_tab hw) = 16"
    "irq_pin (pin_irq_hdr_tab hw ! (nat pin mod 16)) = -1"
  shows "stm32_pin_attach_irq pin mode hdr args hw =
     (RT_EOK, hw\<lparr>pin_irq_hdr_tab := (pin_irq_hdr_tab hw)[nat pin mod 16 :=
        \<lparr>irq_pin = pin, irq_mode = mode mod 2 ^ 16, irq_hdr = hdr, irq_args = args\<rparr>]\<rparr>)"
  using assms
  by (simp add: stm32_pin_attach_irq_def get_pin_valid bit2bitno_single pin_irq_map_def Let_def valid_pin_def)

declare exti_lines.simps [simp del]

lemma exti_line_table [simp]:
  "pin_irq_hdr_tab (snd (exti_line i hw)) = pin_irq_hdr_tab hw"
  by (simp add: exti_line_def HAL_GPIO_EXTI_IRQHandler_def)

lemma exti_line_pending:
  "bit (EXTI_PR (snd (exti_line i hw))) j \<longleftrightarrow> bit (EXTI_PR hw) j \<and> j \<noteq> i"
proof (cases "EXTI_PR hw AND 2 ^ i = 0")
  case True
  then have "\<not> bit (EXTI_PR hw AND 2 ^ i) i" by simp
  then have "\<not> bit (EXTI_PR hw) i" using bit_imp_le_length_u32 by (auto simp: bit_and_iff)
  with True show ?thesis by (auto simp: exti_line_def HAL_GPIO_EXTI_IRQHandler_def)
next
  case False
  then show ?thesis
    using bit_imp_le_length_u32 by (auto simp: exti_line_def HAL_GPIO_EXTI_IRQHandler_def bit_and_iff bit_not_iff)
qed

lemma exti_line_call:
  assumes "i < 16" "bit (EXTI_PR hw) i" "irq_hdr (pin_irq_hdr_tab hw ! i) = Some h"
  shows "fst (exti_line i hw) = [(h, irq_args (pin_irq_hdr_tab hw ! i))]"
proof -
  have "bit (EXTI_PR hw AND 2 ^ i) i" using assms by (simp add: bit_and_iff)
  then have "EXTI_PR hw AND 2 ^ i \<noteq> 0" by auto
  with assms show ?thesis
    by (simp add: exti_line_def HAL_GPIO_EXTI_IRQHandler_def HAL_GPIO_EXTI_Callback_def bit2bitno_single
        pin_irq_hdr_call_def Let_def)
qed

lemma exti_lines_state:
  "pin_irq_hdr_tab (snd (exti_lines is hw)) = pin_irq_hdr_tab hw \<and>
   (\<forall>j. bit (EXTI_PR (snd (exti_lines is hw))) j \<longleftrightarrow> bit (EXTI_PR hw) j \<and> j \<notin> set is)"
  by (induction "is" arbitrary: hw) (auto simp: exti_lines.simps split_beta Let_def exti_line_pending)

lemma exti_lines_call:
  assumes "i \<in> set is" "i < 16" "bit (EXTI_PR hw) i" "irq_hdr (pin_irq_hdr_tab hw ! i) = Some h"
  shows "(h, irq_args (pin_irq_hdr_tab hw ! i)) \<in> set (fst (exti_lines is hw))"
  using assms
proof (induction "is" arbitrary: hw)
  case (Cons k ks)
  show ?case
  proof (cases "k = i")
    case True
    with Cons show ?thesis by (simp add: exti_lines.simps split_beta Let_def exti_line_call)
  next
    case False
    with Cons.prems have "(h, irq_args (pin_irq_hdr_tab hw ! i)) \<in> set (fst (exti_lines ks (snd (exti_line k hw))))"
      using Cons.IH [of "snd (exti_line k hw)"] by (simp add: exti_line_pending)
    then show ?thesis by (simp add: exti_lines.simps split_beta Let_def)
  qed
qed simp

lemma handler_of_line:
  assumes "i < 16"
  obtains "is" where "EXTI_IRQHandler (irqn_of i) hw = exti_lines is hw" "i \<in> set is"
proof -
  have "i = 0 \<or> i = 1 \<or> i = 2 \<or> i = 3 \<or> i = 4 \<or> i \<in> set [5, 6, 7, 8, 9] \<or> i \<in> set [10, 11, 12, 13, 14, 15]"
    unfolding set_simps insert_iff empty_iff using assms by presburger
  then show thesis using that by (elim disjE) (auto simp: irqn_of.simps)
qed

text \<open>C6: A handler attached to a free line and enabled is called, with its argument, when the line's
  interrupt is taken, and taking it acknowledges the line.\<close>

theorem pin_irq_delivered:
  assumes "valid_pin pin" "length (pin_irq_hdr_tab hw) = 16"
    "irq_pin (pin_irq_hdr_tab hw ! (nat pin mod 16)) = -1"
    "stm32_pin_attach_irq pin mode (Some h) args hw = (r1, hw1)"
    "stm32_pin_irq_enable stk pin PIN_IRQ_ENABLE hw1 = (r2, hw2)"
    "EXTI_IRQHandler (irqn_of (nat pin mod 16)) (hw2\<lparr>EXTI_PR := pending\<rparr>) = (calls, hw3)"
    "bit pending (nat pin mod 16)"
  shows "r1 = RT_EOK \<and> r2 = RT_EOK \<and> nvic_enabled hw2 (irqn_of (nat pin mod 16)) \<and>
         (h, args) \<in> set calls \<and> \<not> bit (EXTI_PR hw3) (nat pin mod 16)"
proof -
  let ?i = "nat pin mod 16"
  let ?e = "\<lparr>irq_pin = pin, irq_mode = mode mod 2 ^ 16, irq_hdr = Some h, irq_args = args\<rparr>"
  have one: "r1 = RT_EOK" "hw1 = hw\<lparr>pin_irq_hdr_tab := (pin_irq_hdr_tab hw)[?i := ?e]\<rparr>"
    using assms(4) by (simp_all add: attach_entry [OF assms(1-3)])
  then have tab1: "pin_irq_hdr_tab hw1 ! ?i = ?e" using assms(2) by simp
  have "stm32_pin_irq_enable stk pin PIN_IRQ_ENABLE hw1 =
      (RT_EOK, pin_irq_switch_on stk \<lparr>pi_index = pin, pi_gpio = nat pin div 16, pi_pin = 2 ^ ?i\<rparr> ?i hw1)"
    using assms(1) tab1
    by (simp add: stm32_pin_irq_enable_def get_pin_valid bit2bitno_single pin_irq_map_def Let_def valid_pin_def)
  with assms(5) have two: "r2 = RT_EOK"
    "pin_irq_hdr_tab hw2 = pin_irq_hdr_tab hw1" "nvic_enabled hw2 (irqn_of ?i)"
    by (auto simp: pin_irq_switch_on_def Let_def pin_irq_map_def)
  obtain ls where ls: "EXTI_IRQHandler (irqn_of ?i) (hw2\<lparr>EXTI_PR := pending\<rparr>) = exti_lines ls (hw2\<lparr>EXTI_PR := pending\<rparr>)"
    "?i \<in> set ls"
    by (rule handler_of_line [of ?i]) auto
  have "(h, args) \<in> set (fst (exti_lines ls (hw2\<lparr>EXTI_PR := pending\<rparr>)))"
    using exti_lines_call [OF ls(2), of "hw2\<lparr>EXTI_PR := pending\<rparr>" h] assms(7) two tab1 by simp
  moreover have "\<not> bit (EXTI_PR (snd (exti_lines ls (hw2\<lparr>EXTI_PR := pending\<rparr>)))) ?i"
    using exti_lines_state ls(2) by blast
  moreover have "exti_lines ls (hw2\<lparr>EXTI_PR := pending\<rparr>) = (calls, hw3)" using ls(1) assms(6) by simp
  ultimately show ?thesis using one two by simp
qed

definition any_init :: GPIO_InitTypeDef where
  "any_init = \<lparr>Init_Pin = 0, Init_Mode = 0, Init_Pull = 0, Init_Speed = 0, Init_Alternate = 0\<rparr>"

theorem pin_irq_delivered_witness:
  "(''Key0_on_callback'', 7) \<in> set (fst (EXTI_IRQHandler EXTI4_IRQn ((snd (stm32_pin_irq_enable any_init 68 PIN_IRQ_ENABLE
     (snd (stm32_pin_attach_irq 68 PIN_IRQ_MODE_FALLING (Some ''Key0_on_callback'') 7 reset_gpio))))\<lparr>EXTI_PR := 16\<rparr>)))"
  (is "_ \<in> set (fst (EXTI_IRQHandler _ (snd ?e\<lparr>EXTI_PR := _\<rparr>)))")
  using pin_irq_delivered [of 68 reset_gpio PIN_IRQ_MODE_FALLING "''Key0_on_callback''" 7 _ _ any_init
      "fst ?e" "snd ?e" 16 "fst (EXTI_IRQHandler EXTI4_IRQn (snd ?e\<lparr>EXTI_PR := 16\<rparr>))"
      "snd (EXTI_IRQHandler EXTI4_IRQn (snd ?e\<lparr>EXTI_PR := 16\<rparr>))", OF _ _ _ surjective_pairing]
  by (simp add: valid_pin_def reset_gpio_def free_hdr_def irqn_of.simps)

text \<open>\<open>get_pin\<close> takes the pin number as eight bits, so a number beyond the pins of the device
  is not refused when its low byte is a pin: 256 names PA0 again, and writing it drives PA0.\<close>

theorem get_pin_truncates:
  "get_pin (pin + 256) = get_pin pin \<and> stm32_pin_write 256 v hw = stm32_pin_write (GET_PIN (port_no PA) 0) v hw"
  by (simp add: get_pin_def stm32_pin_write_def GET_PIN_def)

section \<open>Configuring one pin leaves the others alone\<close>

lemma mode_bits: "bit ((m :: u32) AND 3) k \<Longrightarrow> k < 2"
proof -
  have e: "(3 :: u32) = Bit_Operations.mask 2" by (simp add: mask_eq_exp_minus_1)
  show "bit (m AND 3) k \<Longrightarrow> k < 2" unfolding e bit_and_iff bit_mask_iff by simp
qed

lemma otype_bits: "bit (drop_bit 4 ((m :: u32) AND 0x10)) k \<Longrightarrow> k = 0"
proof -
  have e: "(0x10 :: u32) = 2 ^ 4" by simp
  show "bit (drop_bit 4 (m AND 0x10)) k \<Longrightarrow> k = 0" unfolding e bit_drop_bit_eq bit_and_iff comp_def bit_one_bit by simp
qed

lemma field3_other:
  assumes "q \<noteq> p" "q < 16" "p < 16" "c \<le> 1"
  shows "bit (set_field 3 (p * 2) (m AND 3) r) (2 * q + c) \<longleftrightarrow> bit r (2 * q + c)"
proof -
  have "\<not> (p * 2 \<le> 2 * q + c \<and> 2 * q + c < p * 2 + 2)" using assms(1,4) by presburger
  moreover have "p * 2 \<le> 2 * q + c \<Longrightarrow> 2 \<le> 2 * q + c - p * 2" using assms(1,4) by presburger
  ultimately show ?thesis
    unfolding bit_set_field_3 using assms(2,4) mode_bits [of m "2 * q + c - p * 2"] by auto
qed

lemma field1_other:
  assumes "q \<noteq> p" "q < 16"
  shows "bit (set_field 1 p (drop_bit 4 (m AND 0x10)) r) q \<longleftrightarrow> bit r q"
  unfolding bit_set_field_1 using assms otype_bits [of m "q - p"] by auto

lemma mode_config_other:
  assumes "q \<noteq> p" "q < 16" "p < 16"
  shows "push_pull_output (ports (gpio_mode_config x init p hw) x) q = push_pull_output (ports hw x) q"
  using assms field3_other [OF assms, of 0] field3_other [OF assms, of 1] field1_other [OF assms(1,2)]
  by (simp add: gpio_mode_config_def upd_port_def Let_def push_pull_output_def)

lemma mode_config_ports:
  "x' \<noteq> x \<Longrightarrow> ports (gpio_mode_config x init p hw) x' = ports hw x'"
  "ODR (ports (gpio_mode_config x init p hw) x') = ODR (ports hw x')"
  "pad_in (ports (gpio_mode_config x init p hw) x') = pad_in (ports hw x')"
  by (simp_all add: gpio_mode_config_def upd_port_def Let_def)

lemma init_other:
  assumes "valid_pin p" "valid_pin q" "q \<noteq> p" "Init_Pin init = 2 ^ (nat p mod 16)"
  shows "out_pin (HAL_GPIO_Init (nat p div 16) init hw) q = out_pin hw q"
    and "stm32_pin_read q (HAL_GPIO_Init (nat p div 16) init hw) = stm32_pin_read q hw"
proof -
  let ?hw = "HAL_GPIO_Init (nat p div 16) init hw"
  have i: "?hw = gpio_exti_config (nat p div 16) init (nat p mod 16) (gpio_mode_config (nat p div 16) init (nat p mod 16) hw)"
    using assms(4) by (intro HAL_GPIO_Init_single) simp_all
  have pp: "push_pull_output (ports ?hw (nat q div 16)) (nat q mod 16) = push_pull_output (ports hw (nat q div 16)) (nat q mod 16)"
    using valid_pin_split [OF assms(2,1,3)] unfolding i
    by (cases "nat q div 16 = nat p div 16") (simp_all add: mode_config_other mode_config_ports)
  then show "out_pin ?hw q = out_pin hw q" by (simp add: out_pin_def)
  show "stm32_pin_read q ?hw = stm32_pin_read q hw"
    using assms(2) pp unfolding i by (simp add: level_read pad_level_def mode_config_ports)
qed

lemma mode_other:
  assumes "valid_pin p" "valid_pin q" "q \<noteq> p"
  shows "out_pin (stm32_pin_mode alt p m hw) q = out_pin hw q"
    and "stm32_pin_read q (stm32_pin_mode alt p m hw) = stm32_pin_read q hw"
  using assms by (simp_all add: stm32_pin_mode_def get_pin_valid Let_def init_other)

lemma attach_other [simp]:
  "out_pin (snd (stm32_pin_attach_irq p m h a hw)) q = out_pin hw q"
  "stm32_pin_read q (snd (stm32_pin_attach_irq p m h a hw)) = stm32_pin_read q hw"
  by (simp_all add: stm32_pin_attach_irq_def out_pin_def stm32_pin_read_def HAL_GPIO_ReadPin_def Let_def split: option.split)

lemma irq_on_other:
  assumes "valid_pin p" "valid_pin q" "q \<noteq> p"
  shows "out_pin (snd (stm32_pin_irq_enable stk p PIN_IRQ_ENABLE hw)) q = out_pin hw q"
    and "stm32_pin_read q (snd (stm32_pin_irq_enable stk p PIN_IRQ_ENABLE hw)) = stm32_pin_read q hw"
proof -
  have frame: "out_pin (h\<lparr>nvic_priority := a, nvic_enabled := e, pin_irq_enable_mask := m\<rparr>) q = out_pin h q"
    "stm32_pin_read q (h\<lparr>nvic_priority := a, nvic_enabled := e, pin_irq_enable_mask := m\<rparr>) = stm32_pin_read q h" for h a e m
    by (simp_all add: out_pin_def stm32_pin_read_def HAL_GPIO_ReadPin_def split: option.split)
  show "out_pin (snd (stm32_pin_irq_enable stk p PIN_IRQ_ENABLE hw)) q = out_pin hw q"
    "stm32_pin_read q (snd (stm32_pin_irq_enable stk p PIN_IRQ_ENABLE hw)) = stm32_pin_read q hw"
    using assms by (auto simp: stm32_pin_irq_enable_def get_pin_valid pin_irq_switch_on_def Let_def frame init_other)
qed

lemma init_pin_ops [simp]: "hw_pin_ops (HAL_GPIO_Init x init hw) = hw_pin_ops hw"
  unfolding HAL_GPIO_Init_def
  by (rule fold_frame) (simp add: gpio_exti_config_def gpio_mode_config_def upd_port_def Let_def)

lemma config_pin_ops [simp]:
  "hw_pin_ops (stm32_pin_mode alt p m hw) = hw_pin_ops hw"
  "hw_pin_ops (snd (stm32_pin_attach_irq p m' h a hw)) = hw_pin_ops hw"
  "hw_pin_ops (snd (stm32_pin_irq_enable stk p PIN_IRQ_ENABLE hw)) = hw_pin_ops hw"
  by (simp_all add: stm32_pin_mode_def stm32_pin_attach_irq_def stm32_pin_irq_enable_def pin_irq_switch_on_def Let_def
      split: option.split)

end
