(* ===== verification/Softfloat.thy ===== *)
theory Softfloat
  imports Complex_Main Mcu_Prelude
begin

text \<open>
  The floating-point arithmetic of the timer framework and of the door servo: IEEE 754 numbers
  as rationals, every operation followed by rounding to nearest, ties to even, with 24
  (\<open>float\<close>) or 53 (\<open>double\<close>) significant bits. The exponent range is unbounded: the values that
  occur (seconds, hertz, nanoseconds and their quotients) are far from the limits of both
  formats. Operations are rounded one by one, without fused contraction.
\<close>

section \<open>Rounding\<close>

function ilog2 :: "int \<Rightarrow> nat" where
  "ilog2 n = (if n \<le> 1 then 0 else Suc (ilog2 (n div 2)))"
  by pat_completeness auto
termination by (relation "measure nat") auto

declare ilog2.simps [simp del]

text \<open>The exponent \<open>e\<close> of a positive rational: \<open>2 powi e \<le> x < 2 powi (e + 1)\<close>.\<close>

definition rat_exp :: "rat \<Rightarrow> int" where
  "rat_exp x =
     (let (n, d) = quotient_of x; k = int (ilog2 n) - int (ilog2 d)
      in if 2 powi k \<le> x then k else k - 1)"

definition rne :: "rat \<Rightarrow> int" where
  "rne z =
     (let f = \<lfloor>z\<rfloor>; r = z - of_int f
      in if r < 1 / 2 then f else if r > 1 / 2 then f + 1 else if even f then f else f + 1)"

definition fl :: "int \<Rightarrow> rat \<Rightarrow> rat" where
  "fl p x =
     (if x = 0 then 0
      else let u = 2 powi (rat_exp \<bar>x\<bar> - (p - 1)) in sgn x * of_int (rne (\<bar>x\<bar> / u)) * u)"

abbreviation f32 :: "rat \<Rightarrow> rat" where "f32 \<equiv> fl 24"
abbreviation f64 :: "rat \<Rightarrow> rat" where "f64 \<equiv> fl 53"

text \<open>Conversion of a floating-point value to an integer type discards the fraction.\<close>

definition fl_trunc :: "rat \<Rightarrow> int" where
  "fl_trunc x = (if x < 0 then - \<lfloor>- x\<rfloor> else \<lfloor>x\<rfloor>)"

section \<open>Properties of rounding\<close>

lemma ilog2_bounds: "0 < n \<Longrightarrow> 2 ^ ilog2 n \<le> n \<and> n < 2 * 2 ^ ilog2 n"
proof (induction n rule: ilog2.induct)
  case (1 n)
  show ?case
  proof (cases "n \<le> 1")
    case True
    with 1 show ?thesis by (simp add: ilog2.simps [of n])
  next
    case False
    then have "2 ^ ilog2 (n div 2) \<le> n div 2 \<and> n div 2 < 2 * 2 ^ ilog2 (n div 2)"
      using 1 by auto
    with False show ?thesis by (auto simp: ilog2.simps [of n])
  qed
qed

lemma rat_exp_bounds:
  assumes "0 < x"
  shows "2 powi rat_exp x \<le> x \<and> x < 2 powi (rat_exp x + 1)"
proof -
  obtain n d where q: "quotient_of x = (n, d)" by fastforce
  then have d: "0 < d" and x: "x = of_int n / of_int d"
    by (simp_all add: quotient_of_denom_pos quotient_of_div)
  with assms have n: "0 < n" by (simp add: zero_less_divide_iff)
  let ?a = "ilog2 n" and ?b = "ilog2 d"
  have "of_int (2 ^ ?a) \<le> (of_int n :: rat)" "(of_int n :: rat) < of_int (2 * 2 ^ ?a)"
    "of_int (2 ^ ?b) \<le> (of_int d :: rat)" "(of_int d :: rat) < of_int (2 * 2 ^ ?b)"
    using ilog2_bounds [OF n] ilog2_bounds [OF d] unfolding of_int_le_iff of_int_less_iff by auto
  then have b: "2 ^ ?a \<le> (of_int n :: rat)" "(of_int n :: rat) < 2 * 2 ^ ?a"
    "2 ^ ?b \<le> (of_int d :: rat)" "(of_int d :: rat) < 2 * 2 ^ ?b" by simp_all
  have k: "2 powi (int ?a - int ?b) = (2 ^ ?a / 2 ^ ?b :: rat)"
    by (simp add: power_int_diff)
  have "x < 2 * (2 ^ ?a / 2 ^ ?b)"
  proof -
    have "x < 2 * 2 ^ ?a / of_int d" unfolding x using b d by (simp add: divide_strict_right_mono)
    also have "\<dots> \<le> 2 * 2 ^ ?a / 2 ^ ?b" using b d by (intro divide_left_mono mult_pos_pos) auto
    finally show ?thesis by simp
  qed
  moreover have "(2 ^ ?a / 2 ^ ?b) / 2 < x"
  proof -
    have "(2 ^ ?a / 2 ^ ?b) / 2 = 2 ^ ?a / (2 * 2 ^ ?b :: rat)" by simp
    also have "\<dots> < 2 ^ ?a / of_int d" using b d by (intro divide_strict_left_mono) auto
    also have "\<dots> \<le> x" unfolding x using b d by (simp add: divide_right_mono)
    finally show ?thesis .
  qed
  ultimately show ?thesis
    unfolding rat_exp_def q by (simp add: Let_def k power_int_diff power_int_add mult.commute)
qed

lemma rat_exp_unique:
  assumes "2 powi e \<le> x" "x < 2 powi (e + 1)" "0 < x"
  shows "rat_exp x = e"
proof -
  have "2 powi rat_exp x < (2 :: rat) powi (e + 1)" "2 powi e < (2 :: rat) powi (rat_exp x + 1)"
    using assms rat_exp_bounds [OF assms(3)] by linarith+
  then have "rat_exp x < e + 1" "e < rat_exp x + 1"
    by (meson not_less power_int_increasing one_le_numeral)+
  then show ?thesis by simp
qed

lemma rne_bounds: "of_int (rne z) \<le> z + 1 / 2 \<and> z - 1 / 2 \<le> of_int (rne z)"
  unfolding rne_def Let_def by (auto; linarith)

lemma rne_of_int [simp]: "rne (of_int k) = k"
  by (simp add: rne_def)

lemma rne_mono: "x \<le> y \<Longrightarrow> rne x \<le> rne y"
proof -
  assume le: "x \<le> y"
  have r: "\<lfloor>z\<rfloor> \<le> rne z \<and> rne z \<le> \<lfloor>z\<rfloor> + 1" for z by (auto simp: rne_def Let_def)
  have "\<lfloor>x\<rfloor> \<le> \<lfloor>y\<rfloor>" using le by (rule floor_mono)
  then consider "\<lfloor>x\<rfloor> < \<lfloor>y\<rfloor>" | "\<lfloor>x\<rfloor> = \<lfloor>y\<rfloor>" by linarith
  then show ?thesis
  proof cases
    case 1
    then show ?thesis using r [of x] r [of y] by linarith
  next
    case 2
    then show ?thesis using le by (auto simp: rne_def Let_def)
  qed
qed

text \<open>For a positive argument, the result is within half a unit in the last place, and lies in the
  same binade or on its upper end.\<close>

lemma fl_pos:
  assumes "0 < x"
  shows "fl p x = of_int (rne (x / 2 powi (rat_exp x - (p - 1)))) * 2 powi (rat_exp x - (p - 1))"
  using assms by (simp add: fl_def Let_def)

lemma fl_0 [simp]: "fl p 0 = 0"
  by (simp add: fl_def)

lemma fl_range:
  assumes "0 < x" "1 \<le> p"
  shows "2 powi rat_exp x \<le> fl p x \<and> fl p x \<le> 2 powi (rat_exp x + 1)"
proof -
  let ?e = "rat_exp x" and ?u = "2 powi (rat_exp x - (p - 1)) :: rat"
  have u: "0 < ?u" by simp
  obtain m where m: "p = int m + 1" using assms(2) by (metis add.commute le_iff_diff_le_0 zle_iff_zadd)
  have lo: "2 powi ?e = of_int (2 ^ m) * ?u" and hi: "2 powi (?e + 1) = of_int (2 ^ (m + 1)) * ?u"
    by (simp_all add: m power_int_diff power_int_add)
  have "of_int (2 ^ m) * ?u \<le> x" "x < of_int (2 ^ (m + 1)) * ?u"
    using rat_exp_bounds [OF assms(1)] unfolding lo hi by auto
  then have "of_int (2 ^ m) \<le> x / ?u" "x / ?u \<le> of_int (2 ^ (m + 1))"
    using u by (simp_all only: pos_le_divide_eq pos_divide_le_eq less_imp_le)
  then have "2 ^ m \<le> rne (x / ?u)" "rne (x / ?u) \<le> 2 ^ (m + 1)"
    using rne_mono rne_of_int by metis+
  then have "of_int (2 ^ m) \<le> (of_int (rne (x / ?u)) :: rat)" "(of_int (rne (x / ?u)) :: rat) \<le> of_int (2 ^ (m + 1))"
    unfolding of_int_le_iff .
  then show ?thesis
    unfolding fl_pos [OF assms(1)] lo hi using u by (meson mult_right_mono less_imp_le)
qed

lemma fl_positive: "0 < x \<Longrightarrow> 1 \<le> p \<Longrightarrow> 0 < fl p x"
  by (rule less_le_trans [OF _ fl_range [THEN conjunct1]]) simp_all

lemma fl_mono:
  assumes "0 < x" "x \<le> y" "1 \<le> p"
  shows "fl p x \<le> fl p y"
proof (cases "rat_exp x = rat_exp y")
  case True
  let ?u = "2 powi (rat_exp y - (p - 1)) :: rat"
  have "x / ?u \<le> y / ?u" using assms by (simp add: divide_right_mono)
  from rne_mono [OF this] have "(of_int (rne (x / ?u)) :: rat) \<le> of_int (rne (y / ?u))" by simp
  then show ?thesis using assms True by (simp add: fl_pos)
next
  case False
  have y: "0 < y" using assms by linarith
  have "2 powi rat_exp x < (2 :: rat) powi (rat_exp y + 1)"
    using assms rat_exp_bounds [OF assms(1)] rat_exp_bounds [OF y] by linarith
  then have "rat_exp x < rat_exp y + 1"
    by (meson not_less power_int_increasing one_le_numeral)
  with False have "rat_exp x + 1 \<le> rat_exp y" by simp
  then have "(2 :: rat) powi (rat_exp x + 1) \<le> 2 powi rat_exp y" by (simp add: power_int_increasing)
  then show ?thesis using fl_range [OF assms(1,3)] fl_range [OF y assms(3)] by linarith
qed

text \<open>Relative error of one operation.\<close>

lemma fl_error:
  assumes "0 < x" "1 \<le> p"
  shows "\<bar>fl p x - x\<bar> \<le> x * 2 powi (- p)"
proof -
  define u :: rat where "u = 2 powi (rat_exp x - (p - 1))"
  have u: "0 < u" by (simp add: u_def)
  have r: "fl p x = of_int (rne (x / u)) * u" by (simp add: fl_pos assms u_def)
  have "\<bar>of_int (rne (x / u)) - x / u\<bar> \<le> 1 / 2"
    using rne_bounds [of "x / u"] by linarith
  then have "\<bar>(of_int (rne (x / u)) - x / u) * u\<bar> \<le> 1 / 2 * u"
    unfolding abs_mult abs_of_pos [OF u] using u by (intro mult_right_mono) auto
  also have "(of_int (rne (x / u)) - x / u) * u = fl p x - x"
    unfolding r left_diff_distrib using u by simp
  finally have "\<bar>fl p x - x\<bar> \<le> 1 / 2 * u" .
  also have "1 / 2 * u = 2 powi rat_exp x * 2 powi (- p)"
  proof -
    have "u = 2 powi (rat_exp x + - p + 1)" by (simp add: u_def algebra_simps)
    also have "\<dots> = 2 powi rat_exp x * 2 powi (- p) * 2" by (subst power_int_add, simp)+ simp
    finally show ?thesis by simp
  qed
  also have "2 powi rat_exp x * 2 powi (- p) \<le> x * (2 powi (- p) :: rat)"
    using rat_exp_bounds [OF assms(1)] by (intro mult_right_mono) auto
  finally show ?thesis .
qed

text \<open>Values with at most \<open>p\<close> significant bits are not changed.\<close>

lemma fl_exact:
  assumes "0 < k" "k < 2 ^ nat p" "1 \<le> p"
  shows "fl p (of_int k * 2 powi e) = of_int k * 2 powi e"
proof -
  let ?x = "of_int k * 2 powi e :: rat"
  have x: "0 < ?x" using assms by simp
  let ?r = "rat_exp ?x"
  have "2 powi ?r \<le> ?x" using rat_exp_bounds [OF x] by blast
  also have "?x < of_int (2 ^ nat p) * 2 powi e" using assms by (simp del: of_int_power)
  also have "(of_int (2 ^ nat p) :: rat) = 2 powi p" using assms by (simp add: power_int_def)
  also have "2 powi p * 2 powi e = (2 powi (p + e) :: rat)" by (simp add: power_int_add)
  finally have "?r < p + e" by (meson not_less power_int_increasing one_le_numeral)
  then obtain m where m: "e = ?r - (p - 1) + int m" by (metis add.commute diff_add_cancel zle_iff_zadd zle_diff1_eq add_diff_eq diff_diff_eq2 le_diff_eq)
  define u :: rat where "u = 2 powi (?r - (p - 1))"
  have "u * 2 ^ m = 2 powi (?r - (p - 1) + int m)"
    unfolding u_def by (subst power_int_add) simp_all
  then have "2 powi e = 2 ^ m * u" by (simp only: m [symmetric] mult.commute)
  moreover have "0 < u" by (simp add: u_def)
  ultimately have "?x / u = of_int (k * 2 ^ m)" "of_int (k * 2 ^ m) * u = ?x" by simp_all
  then show ?thesis unfolding fl_pos [OF x] u_def [symmetric] by (simp del: of_int_mult)
qed

text \<open>Rounding is idempotent.\<close>

lemma fl_idem:
  assumes "0 < x" "1 \<le> p"
  shows "fl p (fl p x) = fl p x"
proof -
  define e where "e = rat_exp x - (p - 1)"
  define u :: rat where "u = 2 powi e"
  define m where "m = rne (x / u)"
  have u: "0 < u" by (simp add: u_def)
  have r: "fl p x = of_int m * u" by (simp add: fl_pos assms m_def u_def e_def)
  have top: "2 powi (rat_exp x + 1) = of_int (2 ^ nat p) * u"
  proof -
    have "rat_exp x + 1 = p + e" by (simp add: e_def)
    then have "2 powi (rat_exp x + 1) = (2 powi p * u :: rat)" by (simp add: u_def power_int_add)
    then show ?thesis using assms(2) by (simp add: power_int_def)
  qed
  have "of_int m * u \<le> of_int (2 ^ nat p) * u" using fl_range [OF assms] unfolding r top by blast
  then have le: "m \<le> 2 ^ nat p" using u by (simp del: of_int_power)
  have "0 < of_int m * u" using fl_positive [OF assms] unfolding r .
  then have pos: "0 < m" using u by (simp add: zero_less_mult_iff)
  show ?thesis
  proof (cases "m = 2 ^ nat p")
    case True
    then have "fl p x = of_int 1 * 2 powi (rat_exp x + 1)" unfolding r top by simp
    then show ?thesis using fl_exact [of 1 p "rat_exp x + 1"] assms(2) by simp
  next
    case False
    then show ?thesis unfolding r u_def using fl_exact [of m p e] le pos assms(2) by simp
  qed
qed

end
