(* ===== verification/Hal_Tim.thy ===== *)
theory Hal_Tim
  imports Mcu_Prelude
begin

text \<open>
  The timer part of the STM32F4 HAL used by the hardware-timer and PWM drivers
  (\<open>src/smart-building-mcu/libraries/STM32F4xx_HAL_Driver/Src/stm32f4xx_hal_tim.c\<close> and the
  register macros of its header). The flag registers are words; the counter, prescaler, reload
  and compare registers of the general-purpose timers TIM3 and TIM4 hold sixteen bits, so a
  write keeps the low half. The hardware's own behaviour is the update event (\<open>tim_UG\<close>, the
  effect of setting EGR.UG) and the counter overflow (\<open>tim_overflow\<close>).
\<close>

record tim =
  tim_no :: nat
  CR1 :: u32
  SMCR :: u32
  DIER :: u32
  SR :: u32
  CCER :: u32
  CNT :: nat
  PSC :: nat
  PSC_shadow :: nat
  ARR :: nat
  CCR :: "nat list"
  Init_Prescaler :: nat
  Init_CounterMode :: u32
  Init_Period :: nat
  Init_ClockDivision :: u32
  Init_AutoReloadPreload :: u32

definition reg16 :: "nat \<Rightarrow> nat" where
  "reg16 v = v mod 2 ^ 16"

text \<open>Update event: the counter restarts and the prescaler is loaded; the update flag is set
  unless the request source is restricted to overflows (CR1.URS, bit 2).\<close>

definition tim_UG :: "tim \<Rightarrow> tim" where
  "tim_UG t = t\<lparr>CNT := 0, PSC_shadow := PSC t, SR := (if bit (CR1 t) 2 then SR t else SR t OR 1)\<rparr>"

text \<open>Counter overflow of an enabled timer (CR1.CEN): the update flag is set, and in one-pulse mode
  (CR1.OPM, bit 3) the counter stops.\<close>

definition tim_overflow :: "tim \<Rightarrow> tim" where
  "tim_overflow t =
     (if bit (CR1 t) 0 then
        t\<lparr>CNT := 0, SR := SR t OR 1, CR1 := (if bit (CR1 t) 3 then CR1 t AND NOT 1 else CR1 t)\<rparr>
      else t)"

section \<open>Register macros\<close>

definition HAL_TIM_SET_AUTORELOAD :: "nat \<Rightarrow> tim \<Rightarrow> tim" where
  "HAL_TIM_SET_AUTORELOAD v t = t\<lparr>ARR := reg16 v, Init_Period := v\<rparr>"

definition HAL_TIM_SET_COUNTER :: "nat \<Rightarrow> tim \<Rightarrow> tim" where
  "HAL_TIM_SET_COUNTER v t = t\<lparr>CNT := reg16 v\<rparr>"

definition HAL_TIM_SET_PRESCALER :: "nat \<Rightarrow> tim \<Rightarrow> tim" where
  "HAL_TIM_SET_PRESCALER v t = t\<lparr>PSC := reg16 v\<rparr>"

text \<open>\<open>channel\<close> is the HAL's channel constant: 0, 4, 8, and anything else for channel 4.\<close>

definition ccr_index :: "nat \<Rightarrow> nat" where
  "ccr_index channel = (if channel = 0 then 0 else if channel = 4 then 1 else if channel = 8 then 2 else 3)"

definition HAL_TIM_SET_COMPARE :: "nat \<Rightarrow> nat \<Rightarrow> tim \<Rightarrow> tim" where
  "HAL_TIM_SET_COMPARE channel v t = t\<lparr>CCR := (CCR t)[ccr_index channel := reg16 v]\<rparr>"

definition HAL_TIM_GET_COMPARE :: "nat \<Rightarrow> tim \<Rightarrow> nat" where
  "HAL_TIM_GET_COMPARE channel t = CCR t ! ccr_index channel"

definition HAL_TIM_ENABLE :: "tim \<Rightarrow> tim" where
  "HAL_TIM_ENABLE t = t\<lparr>CR1 := CR1 t OR 1\<rparr>"

text \<open>The counter is stopped only when no output channel is enabled.\<close>

definition HAL_TIM_DISABLE :: "tim \<Rightarrow> tim" where
  "HAL_TIM_DISABLE t =
     (if CCER t AND 0x1111 = 0 \<and> CCER t AND 0x0444 = 0 then t\<lparr>CR1 := CR1 t AND NOT 1\<rparr> else t)"

definition trigger_mode :: "tim \<Rightarrow> bool" where
  "trigger_mode t \<longleftrightarrow> SMCR t AND 7 = 6"

section \<open>HAL functions\<close>

text \<open>TIM3 and TIM4 have a counter mode selection and a clock division but no repetition counter.
  All these functions return \<open>HAL_OK\<close> for a non-null handle.\<close>

definition TIM_Base_SetConfig :: "tim \<Rightarrow> tim" where
  "TIM_Base_SetConfig t =
     (let c1 = (CR1 t AND NOT 0x70) OR Init_CounterMode t;
          c2 = (c1 AND NOT 0x300) OR Init_ClockDivision t;
          c3 = (c2 AND NOT 0x80) OR Init_AutoReloadPreload t
      in tim_UG (t\<lparr>CR1 := c3, ARR := reg16 (Init_Period t), PSC := reg16 (Init_Prescaler t)\<rparr>))"

definition HAL_TIM_Base_Init :: "tim \<Rightarrow> tim" where
  "HAL_TIM_Base_Init t = TIM_Base_SetConfig t"

definition HAL_TIM_Base_Start_IT :: "tim \<Rightarrow> tim" where
  "HAL_TIM_Base_Start_IT t =
     (let t1 = t\<lparr>DIER := DIER t OR 1\<rparr> in if trigger_mode t1 then t1 else HAL_TIM_ENABLE t1)"

definition HAL_TIM_Base_Stop_IT :: "tim \<Rightarrow> tim" where
  "HAL_TIM_Base_Stop_IT t = HAL_TIM_DISABLE (t\<lparr>DIER := DIER t AND NOT 1\<rparr>)"

definition TIM_CCxChannelCmd :: "nat \<Rightarrow> u32 \<Rightarrow> tim \<Rightarrow> tim" where
  "TIM_CCxChannelCmd channel st t =
     t\<lparr>CCER := (CCER t AND NOT (push_bit (channel mod 32) 1)) OR push_bit (channel mod 32) st\<rparr>"

text \<open>TIM4 has no break unit, so the main output is not concerned.\<close>

definition HAL_TIM_PWM_Start :: "nat \<Rightarrow> tim \<Rightarrow> tim" where
  "HAL_TIM_PWM_Start channel t =
     (let t1 = TIM_CCxChannelCmd channel 1 t in if trigger_mode t1 then t1 else HAL_TIM_ENABLE t1)"

definition HAL_TIM_PWM_Stop :: "nat \<Rightarrow> tim \<Rightarrow> tim" where
  "HAL_TIM_PWM_Stop channel t = HAL_TIM_DISABLE (TIM_CCxChannelCmd channel 0 t)"

text \<open>\<open>HAL_TIM_GenerateEvent(htim, TIM_EVENTSOURCE_UPDATE)\<close>.\<close>

definition HAL_TIM_GenerateEvent :: "tim \<Rightarrow> tim" where
  "HAL_TIM_GenerateEvent t = tim_UG t"

text \<open>The update branch of \<open>HAL_TIM_IRQHandler\<close>: whether the elapsed callback is called. The other
  branches need interrupt enables that no driver of this firmware sets.\<close>

definition HAL_TIM_IRQHandler :: "tim \<Rightarrow> bool \<times> tim" where
  "HAL_TIM_IRQHandler t =
     (if SR t AND 1 = 1 \<and> DIER t AND 1 = 1 then (True, t\<lparr>SR := SR t AND NOT 1\<rparr>) else (False, t))"

section \<open>Register lemmas\<close>

lemma and_1_bit [simp]: "(w :: u32) AND 1 = 1 \<longleftrightarrow> bit w 0"
  by (simp add: and_one_eq odd_iff_mod_2_eq_one bit_0 flip: odd_iff_mod_2_eq_one)

lemma or_1_bit [simp]: "bit ((w :: u32) OR 1) n \<longleftrightarrow> bit w n \<or> n = 0"
  by (auto simp: bit_or_iff bit_1_iff)

lemma and_not_1_bit: "bit ((w :: u32) AND NOT 1) n \<longleftrightarrow> bit w n \<and> n \<noteq> 0"
proof -
  have "bit w n \<Longrightarrow> n < 32" using bit_imp_le_length [of w n] by simp
  then show ?thesis unfolding bit_and_iff bit_not_iff bit_1_iff by auto
qed

lemma reg16_lt: "reg16 v < 2 ^ 16"
  by (simp add: reg16_def)

lemma reg16_id [simp]: "v < 2 ^ 16 \<Longrightarrow> reg16 v = v"
  by (simp add: reg16_def)

end
