(* ===== verification/Hwtimer.thy ===== *)
theory Hwtimer
  imports Softfloat Device Hal_Tim
begin

text \<open>
  The hardware-timer framework (\<open>src/smart-building-mcu/rt-thread/components/drivers/hwtimer/hwtimer.c\<close>)
  and the STM32 driver under it (\<open>drivers/drv_hwtimer.c\<close>). The framework's \<open>rt_hwtimer_t\<close> is the
  private part of an \<open>rt_device\<close> and holds the registers of its timer. The driver's entry points
  are a record of optional functions, as \<open>struct rt_hwtimer_ops\<close> is. The peripheral clock
  frequencies that the HAL reads from the clock registers are arguments of the driver.
\<close>

section \<open>Data\<close>

record rt_hwtimer_info =
  maxfreq :: int
  minfreq :: int
  maxcnt :: nat
  cntmode :: nat

record rt_hwtimer =
  ht_info :: rt_hwtimer_info
  freq :: int
  overflow :: int
  period_sec :: rat
  cycles :: int
  reload :: int
  ht_mode :: int
  ht_tim :: tim
  tim_irq_enabled :: bool

record rt_hwtimer_ops =
  hop_init :: "(nat \<Rightarrow> rt_hwtimer \<Rightarrow> rt_hwtimer) option"
  hop_start :: "(nat \<Rightarrow> int \<Rightarrow> rt_hwtimer \<Rightarrow> rt_err \<times> rt_hwtimer) option"
  hop_stop :: "(rt_hwtimer \<Rightarrow> rt_hwtimer) option"
  hop_count_get :: "(rt_hwtimer \<Rightarrow> nat) option"
  hop_control :: "(int \<Rightarrow> nat \<Rightarrow> rt_hwtimer \<Rightarrow> rt_err \<times> rt_hwtimer) option"

text \<open>What the \<open>void *\<close> arguments of the device interface point to: a 32-bit word (frequency or
  mode), an information structure or a time value. A command that reads a word reads the first
  one of the object.\<close>

datatype hwtimer_arg = Word_arg nat | Info_arg rt_hwtimer_info | Timeval_arg int int

fun arg_word :: "hwtimer_arg \<Rightarrow> nat" where
  "arg_word (Word_arg w) = w"
| "arg_word (Info_arg i) = nat (maxfreq i mod 2 ^ 32)"
| "arg_word (Timeval_arg s u) = nat (s mod 2 ^ 32)"

type_synonym hwtimer_dev = "rt_hwtimer rt_device"

abbreviation (input) HWTIMER_CTRL_FREQ_SET :: int where "HWTIMER_CTRL_FREQ_SET \<equiv> 1"
abbreviation (input) HWTIMER_CTRL_STOP :: int where "HWTIMER_CTRL_STOP \<equiv> 2"
abbreviation (input) HWTIMER_CTRL_INFO_GET :: int where "HWTIMER_CTRL_INFO_GET \<equiv> 3"
abbreviation (input) HWTIMER_CTRL_MODE_SET :: int where "HWTIMER_CTRL_MODE_SET \<equiv> 4"
abbreviation (input) HWTIMER_MODE_ONESHOT :: int where "HWTIMER_MODE_ONESHOT \<equiv> 1"
abbreviation (input) HWTIMER_MODE_PERIOD :: int where "HWTIMER_MODE_PERIOD \<equiv> 2"
abbreviation (input) HWTIMER_CNTMODE_UP :: nat where "HWTIMER_CNTMODE_UP \<equiv> 1"
abbreviation (input) HWTIMER_CNTMODE_DW :: nat where "HWTIMER_CNTMODE_DW \<equiv> 2"
abbreviation (input) sizeof_timeval :: nat where "sizeof_timeval \<equiv> 8"

definition upd_priv :: "('s \<Rightarrow> 's) \<Rightarrow> 's rt_device \<Rightarrow> 's rt_device" where
  "upd_priv f d = d\<lparr>priv := f (priv d)\<rparr>"

section \<open>Splitting a timeout into overflows\<close>

text \<open>The search loop of \<open>timeout_calc\<close>, from its counter \<open>i\<close> on. The result is the final \<open>i\<close> and
  \<open>timeout\<close>; \<open>None\<close> when \<open>i\<close> overflows, or when the best index is still 0 and the code divides
  by it.\<close>

function timeout_search :: "rat \<Rightarrow> rat \<Rightarrow> int \<Rightarrow> int \<Rightarrow> int \<Rightarrow> rat \<Rightarrow> (int \<times> rat) option" where
  "timeout_search tv_sec ovf fr i index devi_min =
     (if i \<le> 0 \<or> i \<ge> 2 ^ 31 then None
      else let timeout = f32 (tv_sec / f32 (of_int i))
           in if timeout \<le> ovf then
                (let counter = fl_trunc (f32 (timeout * f32 (of_int fr)));
                     devi = f32 (tv_sec - f32 (f32 (f32 (of_int counter) / f32 (of_int fr)) * f32 (of_int i)))
                 in if devi > devi_min then
                      (if index = 0 then None else Some (index, f32 (tv_sec / f32 (of_int index))))
                    else if devi = 0 then Some (i, timeout)
                    else if devi < devi_min then timeout_search tv_sec ovf fr (i + 1) i devi
                    else timeout_search tv_sec ovf fr (i + 1) index devi_min)
              else timeout_search tv_sec ovf fr (i + 1) index devi_min)"
  by pat_completeness auto
termination by (relation "measure (\<lambda>(t, v, f, i, x, m). nat (2 ^ 31 - i))") auto

declare timeout_search.simps [simp del]

definition timeval_sec :: "int \<Rightarrow> int \<Rightarrow> rat" where
  "timeval_sec sec usec = f32 (f32 (of_int sec) + f32 (f32 (of_int usec) / f32 1000000))"

definition timeout_calc :: "int \<Rightarrow> int \<Rightarrow> rt_hwtimer \<Rightarrow> (nat \<times> rt_hwtimer) option" where
  "timeout_calc sec usec timer =
     (let ff = f32 (of_int (freq timer));
          ovf = f32 (f32 (of_nat (maxcnt (ht_info timer))) / ff);
          tv_sec = timeval_sec sec usec;
          r = (if tv_sec < f32 (1 / ff) then Some (0, f32 (1 / ff))
               else timeout_search tv_sec ovf (freq timer) 1 0 1)
      in case r of
           None \<Rightarrow> None
         | Some (i, timeout) \<Rightarrow>
             Some (nat (fl_trunc (f32 (timeout * ff)) mod 2 ^ 32),
                   timer\<lparr>cycles := i, reload := i, period_sec := timeout\<rparr>))"

section \<open>Device entry points\<close>

definition rt_hwtimer_init :: "rt_hwtimer_ops \<Rightarrow> hwtimer_dev \<Rightarrow> rt_err \<times> hwtimer_dev" where
  "rt_hwtimer_init ops dev =
     (let dev1 = upd_priv (\<lambda>t. t\<lparr>freq := (if 1000000 \<le> maxfreq (ht_info t) \<and> 1000000 \<ge> minfreq (ht_info t)
                                          then 1000000 else minfreq (ht_info t)),
                                ht_mode := HWTIMER_MODE_ONESHOT, cycles := 0, overflow := 0\<rparr>) dev
      in case hop_init ops of
           Some f \<Rightarrow> (RT_EOK, upd_priv (f 1) dev1)
         | None \<Rightarrow> (- RT_ENOSYS, dev1))"

definition rt_hwtimer_open :: "rt_hwtimer_ops \<Rightarrow> u16 \<Rightarrow> hwtimer_dev \<Rightarrow> rt_err \<times> hwtimer_dev" where
  "rt_hwtimer_open ops oflag dev =
     (case hop_control ops of
        Some f \<Rightarrow> (RT_EOK, upd_priv (\<lambda>t. snd (f HWTIMER_CTRL_FREQ_SET (nat (freq t mod 2 ^ 32)) t)) dev)
      | None \<Rightarrow> (- RT_ENOSYS, dev))"

definition rt_hwtimer_close :: "rt_hwtimer_ops \<Rightarrow> hwtimer_dev \<Rightarrow> rt_err \<times> hwtimer_dev" where
  "rt_hwtimer_close ops dev =
     (let (result, dev1) = (case hop_init ops of
                              Some f \<Rightarrow> (RT_EOK, upd_priv (f 0) dev)
                            | None \<Rightarrow> (- RT_ENOSYS, dev))
      in (result, dev1\<lparr>dev_flag := dev_flag dev1 AND NOT RT_DEVICE_FLAG_ACTIVATED, rx_indicate := None\<rparr>))"

text \<open>The first \<open>sz\<close> bytes of the time value are copied to the caller.\<close>

definition rt_hwtimer_read ::
  "rt_hwtimer_ops \<Rightarrow> int \<Rightarrow> nat \<Rightarrow> hwtimer_dev \<Rightarrow> (nat \<times> hwtimer_arg option) \<times> hwtimer_dev" where
  "rt_hwtimer_read ops pos sz dev =
     (case hop_count_get ops of
        None \<Rightarrow> ((0, None), dev)
      | Some count_get \<Rightarrow>
          (let timer = priv dev;
               ff = f32 (of_int (freq timer));
               cnt0 = count_get timer;
               cnt = (if cntmode (ht_info timer) = HWTIMER_CNTMODE_DW
                      then nat (fl_trunc (f32 (f32 (ff * period_sec timer) - f32 (of_nat cnt0))) mod 2 ^ 32)
                      else cnt0);
               t = f32 (f32 (f32 (of_int (overflow timer)) * period_sec timer) + f32 (f32 (of_nat cnt) / ff));
               sec = fl_trunc t;
               usec = fl_trunc (f32 (f32 (t - f32 (of_int sec)) * 1000000))
           in ((min sz sizeof_timeval, Some (Timeval_arg sec usec)), dev)))"

definition rt_hwtimer_write ::
  "rt_hwtimer_ops \<Rightarrow> int \<Rightarrow> hwtimer_arg \<Rightarrow> nat \<Rightarrow> hwtimer_dev \<Rightarrow> (nat \<times> hwtimer_dev) option" where
  "rt_hwtimer_write ops pos buffer sz dev =
     (case (hop_start ops, hop_stop ops, buffer) of
        (Some start, Some stop, Timeval_arg sec usec) \<Rightarrow>
          (if sz \<noteq> sizeof_timeval then Some (0, dev)
           else let t0 = (stop (priv dev))\<lparr>overflow := 0\<rparr>
                in case timeout_calc sec usec t0 of
                     None \<Rightarrow> None
                   | Some (cnt, t1) \<Rightarrow>
                       (let opm = (if cycles t1 \<le> 1 \<and> ht_mode t1 = HWTIMER_MODE_ONESHOT
                                   then HWTIMER_MODE_ONESHOT else HWTIMER_MODE_PERIOD);
                            (r, t2) = start cnt opm t1
                        in Some (if r \<noteq> RT_EOK then 0 else sz, dev\<lparr>priv := t2\<rparr>)))
      | _ \<Rightarrow> Some (0, dev))"

definition rt_hwtimer_control ::
  "rt_hwtimer_ops \<Rightarrow> int \<Rightarrow> hwtimer_arg option \<Rightarrow> hwtimer_dev \<Rightarrow> (rt_err \<times> hwtimer_arg option) \<times> hwtimer_dev" where
  "rt_hwtimer_control ops cmd args dev =
     (if cmd = HWTIMER_CTRL_STOP then
        (case hop_stop ops of
           Some f \<Rightarrow> ((RT_EOK, args), upd_priv f dev)
         | None \<Rightarrow> ((- RT_ENOSYS, args), dev))
      else if cmd = HWTIMER_CTRL_FREQ_SET then
        (case args of
           None \<Rightarrow> ((- RT_EEMPTY, args), dev)
         | Some a \<Rightarrow>
             (let f = arg_word a; timer = priv dev
              in if f > nat (maxfreq (ht_info timer) mod 2 ^ 32) \<or> f < nat (minfreq (ht_info timer) mod 2 ^ 32)
                 then ((- RT_ERROR, args), dev)
                 else case hop_control ops of
                        None \<Rightarrow> ((- RT_ENOSYS, args), dev)
                      | Some control \<Rightarrow>
                          (let (result, t1) = control cmd f timer
                           in ((result, args),
                               dev\<lparr>priv := (if result = RT_EOK then t1\<lparr>freq := to_s32 (int f)\<rparr> else t1)\<rparr>))))
      else if cmd = HWTIMER_CTRL_INFO_GET then
        (case args of
           None \<Rightarrow> ((- RT_EEMPTY, args), dev)
         | Some a \<Rightarrow> ((RT_EOK, Some (Info_arg (ht_info (priv dev)))), dev))
      else if cmd = HWTIMER_CTRL_MODE_SET then
        (case args of
           None \<Rightarrow> ((- RT_EEMPTY, args), dev)
         | Some a \<Rightarrow>
             (let m = int (arg_word a)
              in if m \<noteq> HWTIMER_MODE_ONESHOT \<and> m \<noteq> HWTIMER_MODE_PERIOD then ((- RT_ERROR, args), dev)
                 else ((RT_EOK, args), upd_priv (\<lambda>t. t\<lparr>ht_mode := m\<rparr>) dev)))
      else ((- RT_ENOSYS, args), dev))"

definition hwtimer_ops :: "rt_hwtimer_ops \<Rightarrow> (rt_hwtimer, hwtimer_arg) rt_device_ops" where
  "hwtimer_ops ops = \<lparr>dop_init = Some (rt_hwtimer_init ops), dop_open = Some (rt_hwtimer_open ops),
     dop_close = Some (rt_hwtimer_close ops), dop_read = Some (rt_hwtimer_read ops),
     dop_write = Some (rt_hwtimer_write ops), dop_control = Some (rt_hwtimer_control ops)\<rparr>"

text \<open>\<open>rt_device_hwtimer_isr\<close>: the callback that is called, if any.\<close>

definition rt_device_hwtimer_isr :: "rt_hwtimer_ops \<Rightarrow> hwtimer_dev \<Rightarrow> fnptr option \<times> hwtimer_dev" where
  "rt_device_hwtimer_isr ops dev =
     (let t = priv dev;
          t1 = t\<lparr>overflow := to_s32 (overflow t + 1), cycles := (if cycles t \<noteq> 0 then cycles t - 1 else cycles t)\<rparr>
      in if cycles t1 = 0 then
           (let t2 = t1\<lparr>cycles := reload t1\<rparr>;
                t3 = (if ht_mode t2 = HWTIMER_MODE_ONESHOT
                      then (case hop_stop ops of Some f \<Rightarrow> f t2 | None \<Rightarrow> t2) else t2)
            in (rx_indicate dev, dev\<lparr>priv := t3\<rparr>))
         else (None, dev\<lparr>priv := t1\<rparr>))"

definition rt_device_hwtimer_register ::
  "hwtimer_dev \<Rightarrow> string \<Rightarrow> (string \<times> hwtimer_dev) list \<Rightarrow> rt_err \<times> (string \<times> hwtimer_dev) list" where
  "rt_device_hwtimer_register timer name container =
     rt_device_register (Some (timer\<lparr>rx_indicate := None, tx_complete := None\<rparr>)) name
       (RT_DEVICE_FLAG_RDWR OR RT_DEVICE_FLAG_STANDALONE) container"

section \<open>The open/close discipline\<close>

interpretation ht: standalone_driver "hwtimer_ops ops" for ops
  by unfold_locales
    (auto simp: hwtimer_ops_def rt_hwtimer_init_def rt_hwtimer_open_def rt_hwtimer_close_def upd_priv_def Let_def
      split: option.splits prod.splits)

text \<open>Whatever sequence of opens and closes clients make of a hardware timer, the assertion on the
  reference count never fires, and the timer stays a stand-alone device: closed with count 0 or
  open with count 1.\<close>

theorem hwtimer_open_close:
  assumes "standalone_inv dev"
  shows "\<exists>dev'. dev_run (hwtimer_ops ops) acts dev = Some dev' \<and> standalone_inv dev'"
  using assms by (rule ht.run_keeps_inv)

definition idle_hwtimer :: "int \<Rightarrow> hwtimer_dev" where
  "idle_hwtimer n = \<lparr>dev_name = ''timer3'', dev_flag = 0xB, open_flag = 0, ref_count = 0, rx_indicate = Some ''my_timeout_cb'',
     tx_complete = None, dev_errno = 0,
     priv = \<lparr>ht_info = \<lparr>maxfreq = 1000000, minfreq = 3000, maxcnt = 65535, cntmode = 1\<rparr>, freq = 1000000, overflow = 0,
       period_sec = 0, cycles = n, reload = n, ht_mode = 2,
       ht_tim = \<lparr>tim_no = 3, CR1 = 0, SMCR = 0, DIER = 0, SR = 0, CCER = 0, CNT = 0, PSC = 0, PSC_shadow = 0,
         ARR = 65535, CCR = [0, 0, 0, 0], Init_Prescaler = 0, Init_CounterMode = 0, Init_Period = 0,
         Init_ClockDivision = 0, Init_AutoReloadPreload = 0\<rparr>, tim_irq_enabled = False\<rparr>\<rparr>"

definition no_hwtimer_ops :: rt_hwtimer_ops where
  "no_hwtimer_ops = \<lparr>hop_init = None, hop_start = None, hop_stop = None, hop_count_get = None, hop_control = None\<rparr>"

theorem hwtimer_open_close_witness:
  "\<exists>dev'. dev_run (hwtimer_ops no_hwtimer_ops) [Dev_open 3, Dev_open 3, Dev_close, Dev_close, Dev_open 3] (idle_hwtimer 1)
     = Some dev' \<and> standalone_inv dev'"
  by (rule hwtimer_open_close) (simp add: standalone_inv_def idle_hwtimer_def bit_iff_odd)

section \<open>Counting overflows\<close>

text \<open>\<open>n\<close> overflow interrupts in a row: the callbacks made, in order.\<close>

fun isr_run :: "rt_hwtimer_ops \<Rightarrow> nat \<Rightarrow> hwtimer_dev \<Rightarrow> fnptr list \<times> hwtimer_dev" where
  "isr_run ops 0 dev = ([], dev)"
| "isr_run ops (Suc n) dev =
     (let (c, dev1) = rt_device_hwtimer_isr ops dev; (cs, dev2) = isr_run ops n dev1
      in ((case c of None \<Rightarrow> [] | Some f \<Rightarrow> [f]) @ cs, dev2))"

lemma isr_periodic:
  assumes "ht_mode (priv dev) = HWTIMER_MODE_PERIOD" "1 \<le> cycles (priv dev)" "cycles (priv dev) \<le> reload (priv dev)"
    "rt_device_hwtimer_isr ops dev = (c, dev')"
  shows "ht_mode (priv dev') = HWTIMER_MODE_PERIOD \<and> reload (priv dev') = reload (priv dev) \<and>
     rx_indicate dev' = rx_indicate dev \<and>
     (if cycles (priv dev) = 1 then c = rx_indicate dev \<and> cycles (priv dev') = reload (priv dev)
      else c = None \<and> cycles (priv dev') = cycles (priv dev) - 1)"
  using assms by (auto simp: rt_device_hwtimer_isr_def Let_def)

lemma isr_run_count:
  assumes "ht_mode (priv dev) = HWTIMER_MODE_PERIOD" "1 \<le> cycles (priv dev)" "cycles (priv dev) \<le> reload (priv dev)"
    "rx_indicate dev = Some cb"
  shows "fst (isr_run ops n dev) = replicate ((n + nat (reload (priv dev) - cycles (priv dev))) div nat (reload (priv dev))) cb"
  using assms
proof (induction n arbitrary: dev)
  case 0
  then show ?case by simp
next
  case (Suc n)
  obtain c dev1 where isr: "rt_device_hwtimer_isr ops dev = (c, dev1)" by fastforce
  note p = isr_periodic [OF Suc.prems(1-3) isr]
  let ?r = "reload (priv dev)" and ?k = "cycles (priv dev)"
  show ?case
  proof (cases "?k = 1")
    case True
    then have "fst (isr_run ops n dev1) = replicate ((n + nat (?r - ?r)) div nat ?r) cb"
      using Suc.IH [of dev1] Suc.prems p by auto
    moreover have "(Suc n + nat (?r - 1)) div nat ?r = Suc (n div nat ?r)"
    proof -
      have "Suc n + nat (?r - 1) = n + nat ?r" using Suc.prems by (simp add: Suc_nat_eq_nat_zadd1)
      moreover have "0 < nat ?r" using Suc.prems by linarith
      ultimately show ?thesis by (metis div_add_self2 Suc_eq_plus1 less_not_refl)
    qed
    ultimately show ?thesis using True p isr Suc.prems by (simp add: split_beta Let_def)
  next
    case False
    then have "fst (isr_run ops n dev1) = replicate ((n + nat (?r - (?k - 1))) div nat ?r) cb"
      using Suc.IH [of dev1] Suc.prems p by auto
    moreover have "n + nat (?r - (?k - 1)) = Suc n + nat (?r - ?k)"
      using Suc.prems by linarith
    ultimately show ?thesis using False p isr by (simp add: split_beta Let_def)
  qed
qed

text \<open>C9: A timer in periodic mode whose timeout was split into \<open>reload\<close> overflows calls its callback
  once in every \<open>reload\<close> overflow interrupts: \<open>n\<close> of them make exactly \<open>n div reload\<close> calls.\<close>

theorem hwtimer_callback_count:
  assumes "ht_mode (priv dev) = HWTIMER_MODE_PERIOD" "1 \<le> reload (priv dev)" "cycles (priv dev) = reload (priv dev)"
    "rx_indicate dev = Some cb"
  shows "fst (isr_run ops n dev) = replicate (n div nat (reload (priv dev))) cb"
  using assms isr_run_count [of dev cb ops n] by simp

theorem hwtimer_callback_count_witness:
  "fst (isr_run no_hwtimer_ops 7 (idle_hwtimer 3)) = replicate 2 ''my_timeout_cb''"
  using hwtimer_callback_count [of "idle_hwtimer 3" "''my_timeout_cb''" no_hwtimer_ops 7]
  by (simp add: idle_hwtimer_def)

end
