(* ===== verification/Drv_Hwtimer.thy ===== *)
theory Drv_Hwtimer
  imports Hwtimer
begin

text \<open>
  The STM32 hardware-timer driver (\<open>src/smart-building-mcu/drivers/drv_hwtimer.c\<close>) for the timers
  the board configures, \<open>timer3\<close> and \<open>timer4\<close>. \<open>pclk1\<close> and \<open>pclk2\<close> are the results of
  \<open>HAL_RCC_GetPCLK1Freq\<close> and \<open>HAL_RCC_GetPCLK2Freq\<close>.
\<close>

section \<open>Driver operations\<close>

definition tim_info :: rt_hwtimer_info where
  "tim_info = \<lparr>maxfreq = 1000000, minfreq = 3000, maxcnt = 0xFFFF, cntmode = HWTIMER_CNTMODE_UP\<rparr>"

definition apb_clock :: "nat \<Rightarrow> nat \<Rightarrow> tim \<Rightarrow> nat" where
  "apb_clock pclk1 pclk2 t = (if tim_no t \<in> {9, 10, 11} then pclk2 else pclk1)"

definition timer_init :: "nat \<Rightarrow> nat \<Rightarrow> nat \<Rightarrow> rt_hwtimer \<Rightarrow> rt_hwtimer" where
  "timer_init pclk1 pclk2 st timer =
     (if st \<noteq> 0 then
        (let t = ht_tim timer;
             prescaler_value = sub_u32 ((apb_clock pclk1 pclk2 t * 2 mod 2 ^ 32) div 10000) 1;
             t1 = t\<lparr>Init_Period := 10000 - 1, Init_Prescaler := prescaler_value, Init_ClockDivision := 0,
                    Init_CounterMode := (if cntmode (ht_info timer) = HWTIMER_CNTMODE_UP then 0 else 0x10)\<rparr>;
             t2 = HAL_TIM_Base_Init t1;
             t3 = t2\<lparr>SR := SR t2 AND NOT 1, CR1 := CR1 t2 OR 4\<rparr>
         in timer\<lparr>ht_tim := t3, tim_irq_enabled := True\<rparr>)
      else timer)"

definition timer_start :: "nat \<Rightarrow> int \<Rightarrow> rt_hwtimer \<Rightarrow> rt_err \<times> rt_hwtimer" where
  "timer_start t opmode timer =
     (let h1 = HAL_TIM_SET_AUTORELOAD (sub_u32 t 1) (HAL_TIM_SET_COUNTER 0 (ht_tim timer));
          h2 = (if opmode = HWTIMER_MODE_ONESHOT then h1\<lparr>CR1 := CR1 h1 OR 8\<rparr> else h1\<lparr>CR1 := CR1 h1 AND NOT 8\<rparr>)
      in (RT_EOK, timer\<lparr>ht_tim := HAL_TIM_Base_Start_IT h2\<rparr>))"

definition timer_stop :: "rt_hwtimer \<Rightarrow> rt_hwtimer" where
  "timer_stop timer = timer\<lparr>ht_tim := HAL_TIM_SET_COUNTER 0 (HAL_TIM_Base_Stop_IT (ht_tim timer))\<rparr>"

text \<open>\<open>val\<close> is a 16-bit variable; the prescaler register takes \<open>val - 1\<close>.\<close>

definition timer_ctrl :: "nat \<Rightarrow> nat \<Rightarrow> int \<Rightarrow> nat \<Rightarrow> rt_hwtimer \<Rightarrow> rt_err \<times> rt_hwtimer" where
  "timer_ctrl pclk1 pclk2 cmd arg timer =
     (if cmd = HWTIMER_CTRL_FREQ_SET then
        (let val = ((apb_clock pclk1 pclk2 (ht_tim timer) * 2 mod 2 ^ 32) div arg) mod 2 ^ 16
         in (RT_EOK, timer\<lparr>ht_tim := tim_UG (HAL_TIM_SET_PRESCALER (sub_u32 val 1) (ht_tim timer))\<rparr>))
      else (- RT_ENOSYS, timer))"

definition timer_counter_get :: "rt_hwtimer \<Rightarrow> nat" where
  "timer_counter_get timer = CNT (ht_tim timer)"

definition stm32_hwtimer_ops :: "nat \<Rightarrow> nat \<Rightarrow> rt_hwtimer_ops" where
  "stm32_hwtimer_ops pclk1 pclk2 = \<lparr>hop_init = Some (timer_init pclk1 pclk2), hop_start = Some timer_start,
     hop_stop = Some timer_stop, hop_count_get = Some timer_counter_get,
     hop_control = Some (timer_ctrl pclk1 pclk2)\<rparr>"

text \<open>The interrupt handler of a timer: \<open>HAL_TIM_IRQHandler\<close>, whose elapsed callback
  \<open>HAL_TIM_PeriodElapsedCallback\<close> dispatches to the framework.\<close>

definition TIM_IRQHandler :: "rt_hwtimer_ops \<Rightarrow> hwtimer_dev \<Rightarrow> fnptr option \<times> hwtimer_dev" where
  "TIM_IRQHandler ops dev =
     (let (elapsed, t) = HAL_TIM_IRQHandler (ht_tim (priv dev));
          dev1 = upd_priv (\<lambda>h. h\<lparr>ht_tim := t\<rparr>) dev
      in if elapsed then rt_device_hwtimer_isr ops dev1 else (None, dev1))"

text \<open>\<open>stm32_hwtimer_init\<close> registers the configured timers.\<close>

definition reset_tim :: "nat \<Rightarrow> tim" where
  "reset_tim n = \<lparr>tim_no = n, CR1 = 0, SMCR = 0, DIER = 0, SR = 0, CCER = 0, CNT = 0, PSC = 0, PSC_shadow = 0,
     ARR = 0xFFFF, CCR = [0, 0, 0, 0], Init_Prescaler = 0, Init_CounterMode = 0, Init_Period = 0,
     Init_ClockDivision = 0, Init_AutoReloadPreload = 0\<rparr>"

definition stm32_hwtimer_obj :: "nat \<Rightarrow> hwtimer_dev" where
  "stm32_hwtimer_obj n = \<lparr>dev_name = '''', dev_flag = 0, open_flag = 0, ref_count = 0, rx_indicate = None,
     tx_complete = None, dev_errno = 0,
     priv = \<lparr>ht_info = tim_info, freq = 0, overflow = 0, period_sec = 0, cycles = 0, reload = 0, ht_mode = 0,
             ht_tim = reset_tim n, tim_irq_enabled = False\<rparr>\<rparr>"

fun hwtimer_init_loop ::
  "(string \<times> hwtimer_dev) list \<Rightarrow> int \<times> (string \<times> hwtimer_dev) list \<Rightarrow> int \<times> (string \<times> hwtimer_dev) list" where
  "hwtimer_init_loop [] acc = acc"
| "hwtimer_init_loop ((name, obj) # objs) (result, container) =
     (let (r, c1) = rt_device_hwtimer_register (upd_priv (\<lambda>t. t\<lparr>ht_info := tim_info\<rparr>) obj) name container
      in hwtimer_init_loop objs (if r = RT_EOK then result else - RT_ERROR, c1))"

definition stm32_hwtimer_init :: "(string \<times> hwtimer_dev) list \<Rightarrow> int \<times> (string \<times> hwtimer_dev) list" where
  "stm32_hwtimer_init container =
     hwtimer_init_loop [(''timer3'', stm32_hwtimer_obj 3), (''timer4'', stm32_hwtimer_obj 4)] (RT_EOK, container)"

section \<open>The timer as the application opens it\<close>

text \<open>What every operation of an open timer keeps: the information structure of the board and a
  frequency inside its range.\<close>

definition timer_ok :: "rt_hwtimer \<Rightarrow> bool" where
  "timer_ok t \<longleftrightarrow> ht_info t = tim_info \<and> 3000 \<le> freq t \<and> freq t \<le> 1000000"

lemma timer_ops_frame [simp]:
  "ht_info (timer_init p1 p2 st t) = ht_info t" "freq (timer_init p1 p2 st t) = freq t"
  "ht_info (timer_stop t) = ht_info t" "freq (timer_stop t) = freq t"
  "ht_mode (timer_stop t) = ht_mode t"
  by (simp_all add: timer_init_def timer_stop_def Let_def)

lemma timer_start_frame [simp]:
  "ht_info (snd (timer_start cnt m t)) = ht_info t" "freq (snd (timer_start cnt m t)) = freq t"
  "cycles (snd (timer_start cnt m t)) = cycles t" "reload (snd (timer_start cnt m t)) = reload t"
  "ht_mode (snd (timer_start cnt m t)) = ht_mode t" "fst (timer_start cnt m t) = RT_EOK"
  by (simp_all add: timer_start_def Let_def)

lemma timer_ctrl_frame [simp]:
  "ht_info (snd (timer_ctrl p1 p2 c a t)) = ht_info t" "freq (snd (timer_ctrl p1 p2 c a t)) = freq t"
  by (simp_all add: timer_ctrl_def Let_def)

lemma timer_init_tim_no [simp]: "tim_no (ht_tim (timer_init p1 p2 st t)) = tim_no (ht_tim t)"
  by (simp add: timer_init_def Let_def HAL_TIM_Base_Init_def TIM_Base_SetConfig_def tim_UG_def)

lemma timer_ctrl_prescaler:
  assumes "tim_no (ht_tim t) = 3" "timer_ctrl 42000000 p2 HWTIMER_CTRL_FREQ_SET 1000000 t = (r, t')"
  shows "PSC (ht_tim t') = 83 \<and> PSC_shadow (ht_tim t') = 83"
proof -
  have "apb_clock 42000000 p2 (ht_tim t) = 42000000" using assms by (simp add: apb_clock_def)
  then show ?thesis
    using assms(2) by (auto simp: timer_ctrl_def Let_def tim_UG_def HAL_TIM_SET_PRESCALER_def sub_u32_def reg16_def)
qed

text \<open>Opening \<open>timer3\<close> on a 42 MHz bus sets the counter to 1 MHz: the prescaler divides the 84 MHz
  timer clock by 84.\<close>

lemma open_timer_frequency:
  assumes "\<not> bit (dev_flag dev) 4" "\<not> bit (open_flag dev) 3" "ref_count dev = 0" "ht_info (priv dev) = tim_info"
    "tim_no (ht_tim (priv dev)) = 3"
  shows "\<exists>dev'. rt_device_open (hwtimer_ops (stm32_hwtimer_ops 42000000 p2)) oflag dev = Some (RT_EOK, dev') \<and>
     freq (priv dev') = 1000000 \<and> PSC (ht_tim (priv dev')) = 83 \<and> PSC_shadow (ht_tim (priv dev')) = 83 \<and>
     ht_info (priv dev') = tim_info \<and> ref_count dev' = 1"
proof -
  define t0 where "t0 = timer_init 42000000 p2 (Suc 0) ((priv dev)\<lparr>freq := 1000000, ht_mode := 1, cycles := 0, overflow := 0\<rparr>)"
  obtain r t1 where t1: "timer_ctrl 42000000 p2 1 1000000 t0 = (r, t1)" by fastforce
  have "tim_no (ht_tim t0) = 3" "freq t0 = 1000000" "ht_info t0 = tim_info" using assms by (simp_all add: t0_def)
  then have p: "PSC (ht_tim t1) = 83 \<and> PSC_shadow (ht_tim t1) = 83" "freq t1 = 1000000" "ht_info t1 = tim_info"
    using timer_ctrl_prescaler [of t0 p2 r t1] t1 timer_ctrl_frame [of 42000000 p2 1 1000000 t0] by simp_all
  have "maxfreq tim_info = 1000000" "minfreq tim_info = 3000" by (simp_all add: tim_info_def)
  then show ?thesis
    using assms p t1 \<open>freq t0 = 1000000\<close>
    by (simp add: rt_device_open_def device_activate_def hwtimer_ops_def rt_hwtimer_init_def rt_hwtimer_open_def
        stm32_hwtimer_ops_def upd_priv_def Let_def t0_def [symmetric] device_mark_open_def)
qed

text \<open>The split of the alarm's initial timeout of 100 ms at 1 MHz, computed with the rounding of every
  operation: two overflows of 50000 counts.\<close>

lemma timeout_100ms_values:
  "timeval_sec 0 100000 = 13421773 / 134217728"
  "timeout_search (13421773 / 134217728) (f32 (f32 65535 / f32 1000000)) 1000000 1 0 1 = Some (2, 13421773 / 268435456)"
  "f32 (13421773 * f32 1000000 / 268435456) = 50000"
  "f32 (1 / f32 1000000) < 13421773 / 134217728"
  by code_simp+

lemma timeout_100ms:
  assumes "freq t = 1000000" "ht_info t = tim_info"
  shows "timeout_calc 0 100000 t = Some (50000, t\<lparr>cycles := 2, reload := 2, period_sec := 13421773 / 268435456\<rparr>)"
proof -
  have "of_nat (maxcnt tim_info) = (65535 :: rat)" by (simp add: tim_info_def)
  moreover have "\<not> 13421773 / 134217728 < f32 (1 / f32 1000000)"
    using timeout_100ms_values(4) by (simp add: not_less)
  ultimately show ?thesis
    unfolding timeout_calc_def assms Let_def timeout_100ms_values(1)
    by (simp add: timeout_100ms_values(2,3) fl_trunc_def)
qed

text \<open>Writing the alarm's timeout leaves a periodic timer running, with its update interrupt enabled.\<close>

definition tim_running :: "tim \<Rightarrow> bool" where
  "tim_running t \<longleftrightarrow> bit (CR1 t) 0 \<and> \<not> bit (CR1 t) 3 \<and> bit (DIER t) 0"

lemma write_100ms:
  assumes "freq (priv dev) = 1000000" "ht_info (priv dev) = tim_info" "ht_mode (priv dev) = HWTIMER_MODE_PERIOD"
    "\<not> trigger_mode (ht_tim (priv dev))"
  shows "\<exists>t. rt_hwtimer_write (stm32_hwtimer_ops p1 p2) 0 (Timeval_arg 0 100000) 8 dev = Some (8, dev\<lparr>priv := t\<rparr>) \<and>
     ARR (ht_tim t) + 1 = 50000 \<and> CNT (ht_tim t) = 0 \<and> tim_running (ht_tim t) \<and> cycles t = 2 \<and> reload t = 2 \<and>
     ht_mode t = HWTIMER_MODE_PERIOD \<and> freq t = 1000000 \<and> ht_info t = tim_info"
proof -
  define t1 where "t1 = ((timer_stop (priv dev))\<lparr>overflow := 0\<rparr>)\<lparr>cycles := 2, reload := 2, period_sec := 13421773 / 268435456\<rparr>"
  define t2 where "t2 = snd (timer_start 50000 HWTIMER_MODE_PERIOD t1)"
  have calc: "timeout_calc 0 100000 ((timer_stop (priv dev))\<lparr>overflow := 0\<rparr>) = Some (50000, t1)"
    unfolding t1_def by (rule timeout_100ms) (simp_all add: assms)
  have start: "timer_start 50000 HWTIMER_MODE_PERIOD t1 = (RT_EOK, t2)"
    by (simp add: t2_def prod_eq_iff)
  have t1: "cycles t1 = 2" "reload t1 = 2" "ht_mode t1 = 2" "\<not> trigger_mode (ht_tim t1)" "freq t1 = 1000000" "ht_info t1 = tim_info"
    using assms by (simp_all add: t1_def timer_stop_def HAL_TIM_Base_Stop_IT_def HAL_TIM_DISABLE_def
        HAL_TIM_SET_COUNTER_def trigger_mode_def)
  have w: "rt_hwtimer_write (stm32_hwtimer_ops p1 p2) 0 (Timeval_arg 0 100000) 8 dev = Some (8, dev\<lparr>priv := t2\<rparr>)"
    using calc start t1 by (simp add: rt_hwtimer_write_def stm32_hwtimer_ops_def Let_def)
  have cr: "bit (c AND NOT 8 OR 1) 0" "\<not> bit (c AND NOT 8 OR 1) 3" for c :: u32
    by (simp_all add: bit_simps bit_numeral_rec flip: numeral_One) (simp_all add: bit_iff_odd)
  have tim: "ARR (ht_tim t2) + 1 = 50000" "CNT (ht_tim t2) = 0" "CR1 (ht_tim t2) = CR1 (ht_tim t1) AND NOT 8 OR 1"
    "bit (DIER (ht_tim t2)) 0"
    using t1 by (simp_all add: t2_def timer_start_def Let_def HAL_TIM_SET_AUTORELOAD_def HAL_TIM_SET_COUNTER_def
        HAL_TIM_Base_Start_IT_def HAL_TIM_ENABLE_def trigger_mode_def reg16_def)
  have "tim_running (ht_tim t2)" unfolding tim_running_def tim(3) using tim(4) cr by blast
  with w tim(1,2) t1 show ?thesis by (intro exI [of _ t2]) (simp add: t2_def)
qed

text \<open>Writing the alarm's timeout of 100 ms to a periodic timer counting at 1 MHz starts the counter
  with 50000 counts per overflow and two overflows per callback, whatever the timer did before:
  \<open>n\<close> overflow interrupts then call back exactly \<open>n div 2\<close> times.\<close>

theorem hwtimer_write_100ms:
  assumes "freq (priv dev) = 1000000" "ht_info (priv dev) = tim_info" "ht_mode (priv dev) = HWTIMER_MODE_PERIOD"
    "rx_indicate dev = Some cb" "\<not> trigger_mode (ht_tim (priv dev))"
  shows "\<exists>dev'. rt_hwtimer_write (stm32_hwtimer_ops p1 p2) 0 (Timeval_arg 0 (100 * 1000)) 8 dev = Some (8, dev') \<and>
     ARR (ht_tim (priv dev')) + 1 = 50000 \<and> CNT (ht_tim (priv dev')) = 0 \<and>
     bit (CR1 (ht_tim (priv dev'))) 0 \<and> bit (DIER (ht_tim (priv dev'))) 0 \<and>
     (\<forall>n. fst (isr_run (stm32_hwtimer_ops p1 p2) n dev') = replicate (n div 2) cb)"
proof -
  obtain t where t: "rt_hwtimer_write (stm32_hwtimer_ops p1 p2) 0 (Timeval_arg 0 100000) 8 dev = Some (8, dev\<lparr>priv := t\<rparr>)"
    "ARR (ht_tim t) + 1 = 50000" "CNT (ht_tim t) = 0" "tim_running (ht_tim t)" "cycles t = 2" "reload t = 2" "ht_mode t = HWTIMER_MODE_PERIOD"
    using write_100ms [OF assms(1-3,5), of p1 p2] by blast
  have "fst (isr_run (stm32_hwtimer_ops p1 p2) n (dev\<lparr>priv := t\<rparr>)) = replicate (n div 2) cb" for n
    using isr_run_count [of "dev\<lparr>priv := t\<rparr>" cb "stm32_hwtimer_ops p1 p2" n] assms(4) t by simp
  with t show ?thesis by (intro exI [of _ "dev\<lparr>priv := t\<rparr>"]) (simp add: tim_running_def)
qed

definition alarm_timer :: hwtimer_dev where
  "alarm_timer = (upd_priv (\<lambda>t. t\<lparr>freq := 1000000, ht_mode := HWTIMER_MODE_PERIOD\<rparr>) (stm32_hwtimer_obj 3))
     \<lparr>rx_indicate := Some ''my_timeout_cb''\<rparr>"

theorem hwtimer_write_100ms_witness:
  "\<exists>dev'. rt_hwtimer_write (stm32_hwtimer_ops 42000000 84000000) 0 (Timeval_arg 0 (100 * 1000)) 8 alarm_timer = Some (8, dev') \<and>
     fst (isr_run (stm32_hwtimer_ops 42000000 84000000) 5 dev') = replicate 2 ''my_timeout_cb''"
proof -
  have "freq (priv alarm_timer) = 1000000" "ht_info (priv alarm_timer) = tim_info"
    "ht_mode (priv alarm_timer) = HWTIMER_MODE_PERIOD" "rx_indicate alarm_timer = Some ''my_timeout_cb''"
    "\<not> trigger_mode (ht_tim (priv alarm_timer))"
    by (simp_all add: alarm_timer_def stm32_hwtimer_obj_def upd_priv_def trigger_mode_def reset_tim_def)
  from hwtimer_write_100ms [OF this, of 42000000 84000000] obtain dev' where
    "rt_hwtimer_write (stm32_hwtimer_ops 42000000 84000000) 0 (Timeval_arg 0 (100 * 1000)) 8 alarm_timer = Some (8, dev')"
    "fst (isr_run (stm32_hwtimer_ops 42000000 84000000) 5 dev') = replicate (5 div 2) ''my_timeout_cb''" by blast
  then show ?thesis by simp
qed

end
