(* ===== verification/Pwm.thy ===== *)
theory Pwm
  imports Device Hal_Tim
begin

text \<open>
  The PWM framework (\<open>src/smart-building-mcu/rt-thread/components/drivers/misc/rt_drv_pwm.c\<close>) and
  the STM32 driver (\<open>drivers/drv_pwm.c\<close>). A PWM device is an \<open>rt_device\<close> whose private part is
  the timer handle; \<open>pclk1\<close> and \<open>pclk2\<close> are the peripheral clock frequencies the HAL reports.
  The shell commands of the framework and \<open>stm32_hw_pwm_init\<close> are not modelled.
\<close>

section \<open>Data\<close>

record rt_pwm_configuration =
  channel :: nat
  period :: nat
  pulse :: nat

type_synonym pwm_dev = "tim rt_device"

abbreviation (input) PWM_CMD_ENABLE :: int where "PWM_CMD_ENABLE \<equiv> 128"
abbreviation (input) PWM_CMD_DISABLE :: int where "PWM_CMD_DISABLE \<equiv> 129"
abbreviation (input) PWM_CMD_SET :: int where "PWM_CMD_SET \<equiv> 130"
abbreviation (input) PWM_CMD_GET :: int where "PWM_CMD_GET \<equiv> 131"
abbreviation (input) MAX_PERIOD :: nat where "MAX_PERIOD \<equiv> 65535"
abbreviation (input) MIN_PERIOD :: nat where "MIN_PERIOD \<equiv> 3"
abbreviation (input) MIN_PULSE :: nat where "MIN_PULSE \<equiv> 2"

section \<open>The driver\<close>

definition hal_channel :: "rt_pwm_configuration \<Rightarrow> nat" where
  "hal_channel cfg = 4 * sub_u32 (channel cfg) 1 mod 2 ^ 32"

definition tim_clock_mhz :: "nat \<Rightarrow> nat \<Rightarrow> tim \<Rightarrow> nat" where
  "tim_clock_mhz pclk1 pclk2 t = ((if tim_no t \<in> {9, 10, 11} then pclk2 else pclk1) * 2 mod 2 ^ 32) div 1000000"

definition drv_pwm_enable :: "rt_pwm_configuration \<Rightarrow> bool \<Rightarrow> tim \<Rightarrow> rt_err \<times> tim" where
  "drv_pwm_enable cfg enable t =
     (RT_EOK, if \<not> enable then HAL_TIM_PWM_Stop (hal_channel cfg) t else HAL_TIM_PWM_Start (hal_channel cfg) t)"

text \<open>The products of registers are computed in 32 bits, the quotient in 64.\<close>

definition drv_pwm_get :: "nat \<Rightarrow> nat \<Rightarrow> rt_pwm_configuration \<Rightarrow> tim \<Rightarrow> rt_err \<times> rt_pwm_configuration" where
  "drv_pwm_get pclk1 pclk2 cfg t =
     (let clk0 = (if tim_no t \<in> {9, 10, 11} then pclk2 else pclk1) * 2 mod 2 ^ 32;
          clk1 = (if CR1 t AND 0x300 = 0x100 then clk0 div 2
                  else if CR1 t AND 0x300 = 0x200 then clk0 div 4 else clk0);
          clk = clk1 div 1000000
      in (RT_EOK, cfg\<lparr>period := ((ARR t + 1) * (PSC t + 1) * 1000 mod 2 ^ 32) div clk,
                      pulse := ((HAL_TIM_GET_COMPARE (hal_channel cfg) t + 1) * (PSC t + 1) * 1000 mod 2 ^ 32) div clk\<rparr>))"

text \<open>The values that \<open>drv_pwm_set\<close> computes: prescaler, counter period and compare value.\<close>

definition pwm_counts :: "nat \<Rightarrow> rt_pwm_configuration \<Rightarrow> nat \<times> nat \<times> nat" where
  "pwm_counts clk cfg =
     (let p0 = (period cfg * clk div 1000) mod 2 ^ 32;
          psc = p0 div MAX_PERIOD + 1;
          p1 = p0 div psc;
          p2 = (if p1 < MIN_PERIOD then MIN_PERIOD else p1);
          u0 = (pulse cfg * clk div psc div 1000) mod 2 ^ 32;
          u1 = (if u0 < MIN_PULSE then MIN_PULSE else if u0 > p2 then p2 else u0)
      in (psc, p2, u1))"

definition drv_pwm_set :: "nat \<Rightarrow> nat \<Rightarrow> rt_pwm_configuration \<Rightarrow> tim \<Rightarrow> rt_err \<times> tim" where
  "drv_pwm_set pclk1 pclk2 cfg t =
     (let (psc, p, u) = pwm_counts (tim_clock_mhz pclk1 pclk2 t) cfg;
          t1 = HAL_TIM_SET_PRESCALER (psc - 1) t;
          t2 = HAL_TIM_SET_AUTORELOAD (p - 1) t1;
          t3 = HAL_TIM_SET_COMPARE (hal_channel cfg) (u - 1) t2;
          t4 = HAL_TIM_SET_COUNTER 0 t3
      in (RT_EOK, HAL_TIM_GenerateEvent t4))"

definition drv_pwm_control ::
  "nat \<Rightarrow> nat \<Rightarrow> int \<Rightarrow> rt_pwm_configuration \<Rightarrow> tim \<Rightarrow> (rt_err \<times> rt_pwm_configuration) \<times> tim" where
  "drv_pwm_control pclk1 pclk2 cmd cfg t =
     (if cmd = PWM_CMD_ENABLE then (let (r, t1) = drv_pwm_enable cfg True t in ((r, cfg), t1))
      else if cmd = PWM_CMD_DISABLE then (let (r, t1) = drv_pwm_enable cfg False t in ((r, cfg), t1))
      else if cmd = PWM_CMD_SET then (let (r, t1) = drv_pwm_set pclk1 pclk2 cfg t in ((r, cfg), t1))
      else if cmd = PWM_CMD_GET then (let (r, cfg1) = drv_pwm_get pclk1 pclk2 cfg t in ((r, cfg1), t))
      else ((RT_EINVAL, cfg), t))"

section \<open>The framework\<close>

type_synonym pwm_control = "int \<Rightarrow> rt_pwm_configuration \<Rightarrow> tim \<Rightarrow> (rt_err \<times> rt_pwm_configuration) \<times> tim"

text \<open>\<open>ctl\<close> is the driver's control entry, \<open>None\<close> for a null pointer. The control interface is
  always given a configuration.\<close>

definition pwm_dev_control ::
  "pwm_control option \<Rightarrow> int \<Rightarrow> rt_pwm_configuration option \<Rightarrow> pwm_dev \<Rightarrow> (rt_err \<times> rt_pwm_configuration option) \<times> pwm_dev" where
  "pwm_dev_control ctl cmd args dev =
     (case (ctl, args) of
        (Some f, Some cfg) \<Rightarrow> (let ((r, cfg1), t1) = f cmd cfg (priv dev) in ((r, Some cfg1), dev\<lparr>priv := t1\<rparr>))
      | _ \<Rightarrow> ((RT_EOK, args), dev))"

definition pwm_dev_read ::
  "pwm_control option \<Rightarrow> int \<Rightarrow> nat \<Rightarrow> pwm_dev \<Rightarrow> (nat \<times> rt_pwm_configuration option) \<times> pwm_dev" where
  "pwm_dev_read ctl pos sz dev =
     (case ctl of
        None \<Rightarrow> ((sz, None), dev)
      | Some f \<Rightarrow>
          (let ((r, cfg1), t1) = f PWM_CMD_GET \<lparr>channel = nat (pos mod 2 ^ 32), period = 0, pulse = 0\<rparr> (priv dev);
               dev1 = dev\<lparr>priv := t1\<rparr>
           in if r \<noteq> RT_EOK then ((0, None), dev1) else ((sz, Some cfg1), dev1)))"

text \<open>The buffer of a write is the new pulse width.\<close>

definition pwm_dev_write :: "pwm_control option \<Rightarrow> int \<Rightarrow> rt_pwm_configuration \<Rightarrow> nat \<Rightarrow> pwm_dev \<Rightarrow> (nat \<times> pwm_dev) option" where
  "pwm_dev_write ctl pos buffer sz dev =
     (case ctl of
        None \<Rightarrow> Some (sz, dev)
      | Some f \<Rightarrow>
          (let ((r, cfg1), t1) = f PWM_CMD_GET \<lparr>channel = nat (pos mod 2 ^ 32), period = 0, pulse = 0\<rparr> (priv dev)
           in if r \<noteq> RT_EOK then Some (0, dev\<lparr>priv := t1\<rparr>)
              else let ((r2, cfg2), t2) = f PWM_CMD_SET (cfg1\<lparr>pulse := pulse buffer\<rparr>) t1
                   in Some (if r2 \<noteq> RT_EOK then 0 else sz, dev\<lparr>priv := t2\<rparr>)))"

definition pwm_device_ops :: "pwm_control option \<Rightarrow> (tim, rt_pwm_configuration) rt_device_ops" where
  "pwm_device_ops ctl = \<lparr>dop_init = None, dop_open = None, dop_close = None, dop_read = Some (pwm_dev_read ctl),
     dop_write = Some (pwm_dev_write ctl), dop_control = Some (pwm_dev_control ctl)\<rparr>"

definition rt_device_pwm_register :: "tim \<Rightarrow> string \<Rightarrow> (string \<times> pwm_dev) list \<Rightarrow> rt_err \<times> (string \<times> pwm_dev) list" where
  "rt_device_pwm_register user_data name container =
     rt_device_register (Some \<lparr>dev_name = '''', dev_flag = 0, open_flag = 0, ref_count = 0, rx_indicate = None,
       tx_complete = None, dev_errno = 0, priv = user_data\<rparr>) name RT_DEVICE_FLAG_RDWR container"

definition pwm_request :: "pwm_control option \<Rightarrow> int \<Rightarrow> rt_pwm_configuration \<Rightarrow> pwm_dev \<Rightarrow> rt_err \<times> pwm_dev" where
  "pwm_request ctl cmd cfg dev =
     (let ((r, a), d1) = rt_device_control (pwm_device_ops ctl) cmd (Some cfg) dev in (r, d1))"

definition rt_pwm_enable :: "pwm_control option \<Rightarrow> nat \<Rightarrow> pwm_dev option \<Rightarrow> rt_err \<times> pwm_dev option" where
  "rt_pwm_enable ctl chan dev =
     (case dev of
        None \<Rightarrow> (- RT_EIO, None)
      | Some d \<Rightarrow> (let (r, d1) = pwm_request ctl PWM_CMD_ENABLE \<lparr>channel = chan, period = 0, pulse = 0\<rparr> d in (r, Some d1)))"

definition rt_pwm_disable :: "pwm_control option \<Rightarrow> nat \<Rightarrow> pwm_dev option \<Rightarrow> rt_err \<times> pwm_dev option" where
  "rt_pwm_disable ctl chan dev =
     (case dev of
        None \<Rightarrow> (- RT_EIO, None)
      | Some d \<Rightarrow> (let (r, d1) = pwm_request ctl PWM_CMD_DISABLE \<lparr>channel = chan, period = 0, pulse = 0\<rparr> d in (r, Some d1)))"

definition rt_pwm_set :: "pwm_control option \<Rightarrow> nat \<Rightarrow> nat \<Rightarrow> nat \<Rightarrow> pwm_dev option \<Rightarrow> rt_err \<times> pwm_dev option" where
  "rt_pwm_set ctl chan per pul dev =
     (case dev of
        None \<Rightarrow> (- RT_EIO, None)
      | Some d \<Rightarrow> (let (r, d1) = pwm_request ctl PWM_CMD_SET \<lparr>channel = chan, period = per, pulse = pul\<rparr> d in (r, Some d1)))"

section \<open>Register bounds\<close>

lemma psc_bound: "p0 \<le> 4290672328 \<Longrightarrow> (p0::nat) div 65535 + 1 \<le> 65536"
  using div_le_mono [of p0 4290672328 65535] by simp

lemma p_bound: "(p0::nat) div (p0 div 65535 + 1) \<le> 65535"
proof -
  have "p0 < (p0 div 65535 + 1) * 65535" using dividend_less_div_times [of 65535 p0] by simp
  then have "p0 div (p0 div 65535 + 1) < 65535" by (simp only: less_mult_imp_div_less mult.commute)
  then show ?thesis by simp
qed

lemma p0_bound:
  assumes "x < (2::nat) ^ 32" "clk \<le> 999"
  shows "(x * clk div 1000) mod 2 ^ 32 \<le> 4290672328"
proof -
  have "x * clk \<le> 4294967295 * 999" using assms by (intro mult_mono) auto
  then have "x * clk div 1000 \<le> (4294967295 * 999) div 1000" by (rule div_le_mono)
  then have "x * clk div 1000 \<le> 4290672328" by simp
  then show ?thesis by (meson mod_less_eq_dividend order_trans)
qed

lemma pwm_counts_fields:
  "fst (pwm_counts clk cfg) = (period cfg * clk div 1000) mod 2 ^ 32 div 65535 + 1"
  "fst (snd (pwm_counts clk cfg)) =
     (let p1 = (period cfg * clk div 1000) mod 2 ^ 32 div fst (pwm_counts clk cfg) in if p1 < 3 then 3 else p1)"
  "snd (snd (pwm_counts clk cfg)) =
     (let u0 = (pulse cfg * clk div fst (pwm_counts clk cfg) div 1000) mod 2 ^ 32; p = fst (snd (pwm_counts clk cfg))
      in if u0 < 2 then 2 else if u0 > p then p else u0)"
  unfolding pwm_counts_def Let_def fst_conv snd_conv by (rule refl)+

lemma pwm_counts_bounds:
  assumes "pwm_counts clk cfg = (psc, p, u)" "period cfg < 2 ^ 32" "clk \<le> 999"
  shows "1 \<le> psc" "psc \<le> 65536" "3 \<le> p" "p \<le> 65535" "2 \<le> u" "u \<le> p"
proof -
  define p0 where "p0 = (period cfg * clk div 1000) mod 2 ^ 32"
  have psc: "psc = p0 div 65535 + 1" using pwm_counts_fields(1) [of clk cfg] assms(1) by (simp only: p0_def fst_conv)
  have p: "p = (let p1 = p0 div psc in if p1 < 3 then 3 else p1)"
    using pwm_counts_fields(2) [of clk cfg] assms(1) by (simp only: p0_def fst_conv snd_conv)
  show "1 \<le> psc" by (simp only: psc le_add2)
  show "psc \<le> 65536" unfolding psc using p0_bound [OF assms(2,3)] by (intro psc_bound) (simp only: p0_def)
  show p3: "3 \<le> p" unfolding p Let_def by (cases "p0 div psc < 3") simp_all
  show "p \<le> 65535" unfolding p Let_def using p_bound [of p0] unfolding psc [symmetric] by (cases "p0 div psc < 3") simp_all
  have u: "u = (let u0 = (pulse cfg * clk div psc div 1000) mod 2 ^ 32 in if u0 < 2 then 2 else if u0 > p then p else u0)"
    using pwm_counts_fields(3) [of clk cfg] unfolding assms(1) fst_conv snd_conv Let_def .
  show "2 \<le> u" "u \<le> p" unfolding u Let_def using p3 by (auto simp del: power_numeral)
qed

text \<open>C11: For every period and pulse width a client can request, and a timer clock below 1 GHz, the
  driver's prescaler, reload and compare values fit the sixteen-bit registers, the compare value
  never exceeds the reload value, and the counter restarts with the new prescaler in force.\<close>

theorem pwm_set_registers:
  assumes "drv_pwm_set pclk1 pclk2 cfg t = (r, t')" "pwm_counts (tim_clock_mhz pclk1 pclk2 t) cfg = (psc, p, u)"
    "period cfg < 2 ^ 32" "tim_clock_mhz pclk1 pclk2 t \<le> 999" "length (CCR t) = 4"
  shows "r = RT_EOK \<and> PSC t' + 1 = psc \<and> PSC_shadow t' = PSC t' \<and> ARR t' + 1 = p \<and>
     HAL_TIM_GET_COMPARE (hal_channel cfg) t' + 1 = u \<and>
     HAL_TIM_GET_COMPARE (hal_channel cfg) t' \<le> ARR t' \<and> CNT t' = 0"
proof -
  note b = pwm_counts_bounds [OF assms(2-4)]
  have "ccr_index c < 4" for c by (simp add: ccr_index_def)
  moreover have "t' = HAL_TIM_GenerateEvent (HAL_TIM_SET_COUNTER 0 (HAL_TIM_SET_COMPARE (hal_channel cfg) (u - 1)
      (HAL_TIM_SET_AUTORELOAD (p - 1) (HAL_TIM_SET_PRESCALER (psc - 1) t))))" "r = RT_EOK"
    using assms(1) unfolding drv_pwm_set_def assms(2) Let_def by simp_all
  ultimately show ?thesis
    using b assms(5) by (simp add: HAL_TIM_SET_PRESCALER_def HAL_TIM_SET_AUTORELOAD_def HAL_TIM_SET_COMPARE_def
        HAL_TIM_SET_COUNTER_def HAL_TIM_GenerateEvent_def tim_UG_def HAL_TIM_GET_COMPARE_def)
qed

text \<open>The servo's 20 ms frame on the 84 MHz timer clock: prescaler 25 and 64615 counts.\<close>

lemma pwm_counts_20ms:
  "pwm_counts 84 \<lparr>channel = 1, period = 20000000, pulse = 1500000\<rparr> = (26, 64615, 4846)"
  by (simp add: pwm_counts_def Let_def)

definition servo_tim :: tim where
  "servo_tim = \<lparr>tim_no = 4, CR1 = 0, SMCR = 0, DIER = 0, SR = 0, CCER = 0, CNT = 0, PSC = 0, PSC_shadow = 0,
     ARR = 65535, CCR = [0, 0, 0, 0], Init_Prescaler = 0, Init_CounterMode = 0, Init_Period = 0,
     Init_ClockDivision = 0, Init_AutoReloadPreload = 0\<rparr>"

theorem pwm_set_registers_witness:
  "PSC (snd (drv_pwm_set 42000000 84000000 \<lparr>channel = 1, period = 20000000, pulse = 1500000\<rparr> servo_tim)) = 25 \<and>
   ARR (snd (drv_pwm_set 42000000 84000000 \<lparr>channel = 1, period = 20000000, pulse = 1500000\<rparr> servo_tim)) = 64614"
proof -
  let ?c = "\<lparr>channel = 1, period = 20000000, pulse = 1500000\<rparr>"
  have "tim_clock_mhz 42000000 84000000 servo_tim = 84" by (simp add: tim_clock_mhz_def servo_tim_def)
  then show ?thesis
    using pwm_set_registers [of 42000000 84000000 ?c servo_tim "fst (drv_pwm_set 42000000 84000000 ?c servo_tim)"
        "snd (drv_pwm_set 42000000 84000000 ?c servo_tim)" 26 64615 4846] pwm_counts_20ms
    by (simp add: servo_tim_def)
qed

section \<open>Reading a setting back\<close>

lemma quantised:
  fixes P clk psc q :: nat
  assumes "0 < clk" "q \<le> P * clk div 1000" "P * clk div 1000 < q + psc"
  shows "q * 1000 div clk \<le> P" "P * clk < (q * 1000 div clk + 1) * clk + (psc + 1) * 1000"
proof -
  have "P * clk div 1000 * 1000 \<le> P * clk" by (rule div_times_less_eq_dividend)
  then have "q * 1000 \<le> P * clk" using assms(2) by linarith
  then show "q * 1000 div clk \<le> P"
    using assms(1) by (metis div_le_mono nonzero_mult_div_cancel_right less_not_refl)
  have "P * clk < (P * clk div 1000 + 1) * 1000" using dividend_less_div_times [of 1000 "P * clk"] by simp
  also have "\<dots> \<le> (q + psc) * 1000 + 1000" using assms(3) by simp
  also have "\<dots> = q * 1000 + (psc + 1) * 1000" by simp
  also have "q * 1000 < (q * 1000 div clk + 1) * clk"
    using dividend_less_div_times [OF assms(1), of "q * 1000"] by simp
  finally show "P * clk < (q * 1000 div clk + 1) * clk + (psc + 1) * 1000" by simp
qed

lemmas pwm_regs = HAL_TIM_SET_PRESCALER_def HAL_TIM_SET_AUTORELOAD_def HAL_TIM_SET_COMPARE_def
  HAL_TIM_SET_COUNTER_def HAL_TIM_GenerateEvent_def tim_UG_def HAL_TIM_GET_COMPARE_def ccr_index_def

lemma drv_pwm_set_CR1:
  "CR1 (snd (drv_pwm_set p1 p2 cfg t)) = CR1 t" "tim_no (snd (drv_pwm_set p1 p2 cfg t)) = tim_no t"
  by (simp_all add: drv_pwm_set_def split_beta Let_def HAL_TIM_SET_PRESCALER_def HAL_TIM_SET_AUTORELOAD_def
      HAL_TIM_SET_COMPARE_def HAL_TIM_SET_COUNTER_def HAL_TIM_GenerateEvent_def tim_UG_def)


text \<open>One count of the prescaled clock is 0.31 microseconds, so the 20 ms frame reads back within 322 ns.\<close>

lemma servo_clock: "tim_clock_mhz 42000000 84000000 (servo_tim\<lparr>PSC := a, PSC_shadow := b, ARR := c, Init_Period := d,
    CCR := e, SR := f\<rparr>) = 84" "tim_clock_mhz 42000000 84000000 servo_tim = 84"
  by (simp_all add: tim_clock_mhz_def servo_tim_def)


lemma pwm_60ms:
  "pwm_counts 84 \<lparr>channel = 1, period = 60000000, pulse = 1500000\<rparr> = (77, 65454, 1636)"
  "pwm_counts 84 \<lparr>channel = 1, period = 8868936, pulse = 2000000\<rparr> = (12, 62082, 14000)"
  "hal_channel \<lparr>channel = 1, period = a, pulse = b\<rparr> = 0"
  by (simp_all add: pwm_counts_def Let_def hal_channel_def sub_u32_def)

definition servo_60ms :: tim where
  "servo_60ms = servo_tim\<lparr>PSC := 76, PSC_shadow := 76, ARR := 65453, Init_Period := 65453, CCR := [1635, 0, 0, 0], SR := 1\<rparr>"

lemma set_60ms:
  "drv_pwm_set 42000000 84000000 \<lparr>channel = 1, period = 60000000, pulse = 1500000\<rparr> servo_tim = (RT_EOK, servo_60ms)"
  unfolding drv_pwm_set_def pwm_60ms servo_clock Let_def prod.case by (simp add: pwm_regs servo_tim_def servo_60ms_def)

lemma get_60ms:
  "drv_pwm_get 42000000 84000000 \<lparr>channel = 1, period = a, pulse = b\<rparr> servo_60ms =
     (RT_EOK, \<lparr>channel = 1, period = 8868936, pulse = 1499666\<rparr>)"
  unfolding drv_pwm_get_def pwm_60ms Let_def
  by (simp add: HAL_TIM_GET_COMPARE_def ccr_index_def servo_tim_def servo_60ms_def)

lemma reset_60ms:
  "(ARR (snd (drv_pwm_set 42000000 84000000 \<lparr>channel = 1, period = 8868936, pulse = 2000000\<rparr> servo_60ms)) + 1) *
   (PSC (snd (drv_pwm_set 42000000 84000000 \<lparr>channel = 1, period = 8868936, pulse = 2000000\<rparr> servo_60ms)) + 1) = 744984"
  "fst (drv_pwm_set 42000000 84000000 \<lparr>channel = 1, period = 8868936, pulse = 2000000\<rparr> servo_60ms) = RT_EOK"
  unfolding drv_pwm_set_def servo_60ms_def servo_clock pwm_60ms Let_def prod.case by (simp_all add: pwm_regs)

text \<open>Above that limit the products wrap: on the 84 MHz clock a device set to a 60 ms period reads back
  8.868936 ms, and the framework's write entry, which keeps the period it reads back and changes only
  the pulse, sets the counter to that period (744984 cycles of 84 MHz).\<close>

theorem pwm_write_loses_period:
  "drv_pwm_set 42000000 84000000 \<lparr>channel = 1, period = 60000000, pulse = 1500000\<rparr> servo_tim = (RT_EOK, servo_60ms) \<and>
   period (snd (drv_pwm_get 42000000 84000000 \<lparr>channel = 1, period = 0, pulse = 0\<rparr> servo_60ms)) = 8868936 \<and>
   (\<exists>dev'. pwm_dev_write (Some (drv_pwm_control 42000000 84000000)) 1 \<lparr>channel = 1, period = 60000000, pulse = 2000000\<rparr> 4
       \<lparr>dev_name = ''pwm4'', dev_flag = 3, open_flag = 0, ref_count = 0, rx_indicate = None, tx_complete = None,
        dev_errno = 0, priv = servo_60ms\<rparr> = Some (4, dev') \<and>
      (ARR (priv dev') + 1) * (PSC (priv dev') + 1) = 744984)"
proof (intro conjI)
  show "\<exists>dev'. pwm_dev_write (Some (drv_pwm_control 42000000 84000000)) 1 \<lparr>channel = 1, period = 60000000, pulse = 2000000\<rparr> 4
       \<lparr>dev_name = ''pwm4'', dev_flag = 3, open_flag = 0, ref_count = 0, rx_indicate = None, tx_complete = None,
        dev_errno = 0, priv = servo_60ms\<rparr> = Some (4, dev') \<and>
      (ARR (priv dev') + 1) * (PSC (priv dev') + 1) = 744984"
    using reset_60ms get_60ms [of 0 0]
    by (simp add: pwm_dev_write_def drv_pwm_control_def split_beta Let_def)
qed (simp_all only: set_60ms get_60ms snd_conv rt_pwm_configuration.simps)

end
