(* ===== verification/Adc.thy ===== *)
theory Adc
  imports Device
begin

text \<open>
  The ADC framework (\<open>src/smart-building-mcu/rt-thread/components/drivers/misc/adc.c\<close>) and the STM32
  driver (\<open>drivers/drv_adc.c\<close>). The converter is its power bit, the selected channel and its
  data register. What it samples is an input of the model: \<open>sample ch = Some v\<close> is a conversion of
  channel \<open>ch\<close> that ends with the value \<open>v\<close>, \<open>None\<close> one that does not end within the 100 ms the
  driver polls, which leaves the data register as it was. The HAL's channel constants for 0 to
  18 are represented by the channel number.
\<close>

section \<open>Driver\<close>

record adc =
  ADON :: bool
  SQR_channel :: nat
  DR :: nat

type_synonym adc_dev = "adc rt_device"

type_synonym adc_sample = "nat \<Rightarrow> nat option"

definition stm32_adc_enabled :: "nat \<Rightarrow> bool \<Rightarrow> adc \<Rightarrow> rt_err \<times> adc" where
  "stm32_adc_enabled chan enabled a = (RT_EOK, a\<lparr>ADON := enabled\<rparr>)"

text \<open>\<open>ADC_CHANNEL_16\<close> and \<open>ADC_CHANNEL_18\<close> exist on this device, \<open>ADC_CHANNEL_19\<close> does not.\<close>

definition stm32_adc_get_channel :: "nat \<Rightarrow> nat" where
  "stm32_adc_get_channel chan = (if chan \<le> 18 then chan else 0)"

text \<open>Starting the converter powers it on. The third component is the content of \<open>*value\<close>, which
  is \<open>v\<close> before the call.\<close>

definition stm32_get_adc_value :: "adc_sample \<Rightarrow> nat \<Rightarrow> nat \<Rightarrow> adc \<Rightarrow> rt_err \<times> nat \<times> adc" where
  "stm32_get_adc_value sample chan v a =
     (if chan \<le> 18 then
        (let a1 = a\<lparr>SQR_channel := stm32_adc_get_channel chan, ADON := True\<rparr>;
             a2 = (case sample (SQR_channel a1) of None \<Rightarrow> a1 | Some x \<Rightarrow> a1\<lparr>DR := x mod 4096\<rparr>)
         in (RT_EOK, DR a2, a2))
      else (- RT_ERROR, v, a))"

section \<open>Framework\<close>

record adc_ops =
  aop_enabled :: "(nat \<Rightarrow> bool \<Rightarrow> adc \<Rightarrow> rt_err \<times> adc) option"
  aop_convert :: "nat \<Rightarrow> nat \<Rightarrow> adc \<Rightarrow> rt_err \<times> nat \<times> adc"

definition stm_adc_ops :: "adc_sample \<Rightarrow> adc_ops" where
  "stm_adc_ops sample = \<lparr>aop_enabled = Some stm32_adc_enabled, aop_convert = stm32_get_adc_value sample\<rparr>"

text \<open>The reading loop of the device interface: one value for every four bytes, from channel
  \<open>pos + i\<close>. The first list is what the buffer holds before the call.\<close>

function adc_read_loop :: "adc_ops \<Rightarrow> int \<Rightarrow> nat \<Rightarrow> nat \<Rightarrow> nat list \<Rightarrow> adc \<Rightarrow> (nat \<times> nat list) \<times> adc" where
  "adc_read_loop ops pos i sz buf a =
     (if i < sz then
        (let (r, v, a1) = aop_convert ops (nat ((pos + int i) mod 2 ^ 32)) (buf ! (i div 4)) a
         in if r \<noteq> RT_EOK then ((0, buf), a1)
            else adc_read_loop ops pos (i + 4) sz (buf[i div 4 := v]) a1)
      else ((i, buf), a))"
  by pat_completeness auto
termination by (relation "measure (\<lambda>(ops, pos, i, sz, buf, a). sz - i)") auto

definition adc_dev_read :: "adc_ops \<Rightarrow> int \<Rightarrow> nat list \<Rightarrow> nat \<Rightarrow> adc_dev \<Rightarrow> (nat \<times> nat list) \<times> adc_dev" where
  "adc_dev_read ops pos buf sz dev =
     (let (r, a1) = adc_read_loop ops pos 0 sz buf (priv dev) in (r, dev\<lparr>priv := a1\<rparr>))"

definition adc_dev_control :: "adc_ops \<Rightarrow> int \<Rightarrow> nat \<Rightarrow> adc_dev \<Rightarrow> rt_err \<times> adc_dev" where
  "adc_dev_control ops cmd args dev =
     (case aop_enabled ops of
        None \<Rightarrow> (- RT_ENOSYS, dev)
      | Some f \<Rightarrow>
          (if cmd = 0 then (let (r, a1) = f args True (priv dev) in (r, dev\<lparr>priv := a1\<rparr>))
           else if cmd = 1 then (let (r, a1) = f args False (priv dev) in (r, dev\<lparr>priv := a1\<rparr>))
           else (RT_EOK, dev)))"

definition rt_hw_adc_register :: "adc_dev \<Rightarrow> string \<Rightarrow> (string \<times> adc_dev) list \<Rightarrow> rt_err \<times> (string \<times> adc_dev) list" where
  "rt_hw_adc_register dev name container =
     rt_device_register (Some (dev\<lparr>rx_indicate := None, tx_complete := None\<rparr>)) name RT_DEVICE_FLAG_RDWR container"

text \<open>\<open>rt_adc_read\<close> returns a local variable that only a successful conversion sets: \<open>stk\<close> is its
  content before. A null device fails the assertion.\<close>

definition rt_adc_read :: "adc_ops \<Rightarrow> nat \<Rightarrow> nat \<Rightarrow> adc_dev option \<Rightarrow> (nat \<times> adc_dev) option" where
  "rt_adc_read ops stk chan dev =
     (case dev of
        None \<Rightarrow> None
      | Some d \<Rightarrow> (let (r, v, a1) = aop_convert ops chan stk (priv d) in Some (v, d\<lparr>priv := a1\<rparr>)))"

definition rt_adc_enable :: "adc_ops \<Rightarrow> nat \<Rightarrow> adc_dev option \<Rightarrow> (rt_err \<times> adc_dev) option" where
  "rt_adc_enable ops chan dev =
     (case dev of
        None \<Rightarrow> None
      | Some d \<Rightarrow> (case aop_enabled ops of
                    None \<Rightarrow> Some (- RT_ENOSYS, d)
                  | Some f \<Rightarrow> (let (r, a1) = f chan True (priv d) in Some (r, d\<lparr>priv := a1\<rparr>))))"

definition rt_adc_disable :: "adc_ops \<Rightarrow> nat \<Rightarrow> adc_dev option \<Rightarrow> (rt_err \<times> adc_dev) option" where
  "rt_adc_disable ops chan dev =
     (case dev of
        None \<Rightarrow> None
      | Some d \<Rightarrow> (case aop_enabled ops of
                    None \<Rightarrow> Some (- RT_ENOSYS, d)
                  | Some f \<Rightarrow> (let (r, a1) = f chan False (priv d) in Some (r, d\<lparr>priv := a1\<rparr>))))"

section \<open>Registering the converters\<close>

text \<open>\<open>stm32_adc_init\<close> for the configured converters, given by their numbers; \<open>hal_ok n\<close> says
  whether \<open>HAL_ADC_Init\<close> of converter \<open>n\<close> succeeds. The name is \<open>adc\<close> and the digit.\<close>

definition adc_name :: "nat \<Rightarrow> string" where
  "adc_name n = ''adc'' @ [if n = 1 then CHR ''1'' else if n = 2 then CHR ''2'' else if n = 3 then CHR ''3'' else CHR ''0'']"

fun stm32_adc_init_loop ::
  "(nat \<Rightarrow> bool) \<Rightarrow> (nat \<times> adc_dev) list \<Rightarrow> int \<times> (string \<times> adc_dev) list \<Rightarrow> int \<times> (string \<times> adc_dev) list" where
  "stm32_adc_init_loop hal_ok [] acc = acc"
| "stm32_adc_init_loop hal_ok ((n, obj) # objs) (result, container) =
     (if \<not> hal_ok n then stm32_adc_init_loop hal_ok objs (- RT_ERROR, container)
      else let (r, c1) = rt_hw_adc_register obj (adc_name n) container
           in stm32_adc_init_loop hal_ok objs (if r = RT_EOK then result else - RT_ERROR, c1))"

definition stm32_adc_obj :: adc_dev where
  "stm32_adc_obj = \<lparr>dev_name = '''', dev_flag = 0, open_flag = 0, ref_count = 0, rx_indicate = None,
     tx_complete = None, dev_errno = 0, priv = \<lparr>ADON = False, SQR_channel = 0, DR = 0\<rparr>\<rparr>"

definition stm32_adc_init :: "(nat \<Rightarrow> bool) \<Rightarrow> (string \<times> adc_dev) list \<Rightarrow> int \<times> (string \<times> adc_dev) list" where
  "stm32_adc_init hal_ok container =
     stm32_adc_init_loop hal_ok [(2, stm32_adc_obj), (3, stm32_adc_obj)] (RT_EOK, container)"

section \<open>Bounds\<close>

definition adc_ok :: "adc \<Rightarrow> bool" where
  "adc_ok a \<longleftrightarrow> DR a < 4096"

lemma convert_ok:
  assumes "adc_ok a" "chan \<le> 18" "stm32_get_adc_value sample chan v a = (r, x, a')"
  shows "r = RT_EOK \<and> x < 4096 \<and> adc_ok a' \<and> (\<forall>s. sample chan = Some s \<longrightarrow> x = s mod 4096)"
  using assms by (auto simp: stm32_get_adc_value_def stm32_adc_get_channel_def adc_ok_def Let_def split: option.splits)

lemma read_ok:
  assumes "adc_ok (priv d)" "chan \<le> 18"
  shows "\<exists>x d'. rt_adc_read (stm_adc_ops sample) stk chan (Some d) = Some (x, d') \<and> x < 4096 \<and> adc_ok (priv d')
     \<and> (\<forall>s. sample chan = Some s \<longrightarrow> x = s mod 4096)"
proof -
  obtain r x a' where c: "stm32_get_adc_value sample chan stk (priv d) = (r, x, a')" by (cases "stm32_get_adc_value sample chan stk (priv d)") auto
  then show ?thesis using convert_ok [OF assms c] by (simp add: rt_adc_read_def stm_adc_ops_def)
qed

lemma adc_init_finds:
  "rt_device_find (snd (stm32_adc_init (\<lambda>_. True) [])) ''adc2'' \<noteq> None"
  "rt_device_find (snd (stm32_adc_init (\<lambda>_. True) [])) ''adc3'' \<noteq> None"
  by (simp_all add: stm32_adc_init_def adc_name_def rt_hw_adc_register_def rt_device_register_def rt_device_find_def)

end
