(* ===== verification/App_State.thy ===== *)
theory App_State
  imports Gpio Drv_Hwtimer Pwm Adc "HOL-Library.Monad_Syntax"
begin

text \<open>
  The state of the application (\<open>src/smart-building-mcu/applications\<close>): the three property
  structures of \<open>my_data_upload.c\<close> with their accessors, the global variables of the other
  modules, the pins and the devices they drive, and the calls made to the packages that are not
  part of the repository (the MQTT client module behind \<open>my_mqtt.h\<close> and the \<open>ssd1306\<close> display):
  what is published and what is drawn is recorded, in order.

  An operation is a function \<open>app \<Rightarrow> app option\<close> or returns its result beside the new state;
  \<open>None\<close> is a thread stopped by a failed assertion of the kernel or a driver.
\<close>

section \<open>Property structures\<close>

record Devices =
  Beep_State :: bool
  Relay_State :: bool
  LED0_State :: bool
  LED1_State :: bool
  Door_State :: bool
  DHT11_Sensor_State :: bool
  Light_Sensor_State :: bool

record Environment =
  env_temp :: int
  env_humi :: int
  env_light :: int
  env_smoke :: int

record Thresholds =
  Temp_Limit :: int
  Humi_Limit :: int
  Light_Up_Limit :: int
  Light_Down_Limit :: int

datatype AlarmType = ALARM_TEMPERATURE_TOO_HIGH | ALARM_TEMPERATURE_BACK_NORMAL | ALARM_HUMIDITY_TOO_HIGH
  | ALARM_HUMIDITY_BACK_NORMAL | ALARM_LIGHT_TOO_STRONG | ALARM_LIGHT_TOO_WEAK

text \<open>Calls of the MQTT module, with the values passed.\<close>

datatype mqtt_call = Publish_Environment_Data Environment | Publish_Device_Status Devices
  | Publish_Alarm_Info AlarmType int int | Mqtt_Start

datatype oled_font = Font_11x18 | Font_7x10 | Font_6x8

datatype oled_call = ssd1306_Init | ssd1306_Fill_Black | ssd1306_SetCursor nat nat
  | ssd1306_WriteString string oled_font | ssd1306_UpdateScreen

section \<open>The application\<close>

text \<open>Pointers to devices found by name are represented by whether they are set: \<open>hw_dev\<close> points
  to the registered device \<open>timer3\<close>, \<open>pwm_dev\<close> to \<open>pwm4\<close>, \<open>adc_light_dev\<close> to \<open>adc3\<close> and
  \<open>adc_mq2_dev\<close> to \<open>adc2\<close>; a device that is not registered is \<open>None\<close>. \<open>threads\<close> are the entry
  functions of the threads that were started.\<close>

record app =
  hw :: gpio
  my_devices :: Devices
  my_environment :: Environment
  my_thresholds :: Thresholds
  published :: "mqtt_call list"
  oled :: "oled_call list"
  threads :: "string list"
  timer3 :: "hwtimer_dev option"
  pwm4 :: "pwm_dev option"
  adc2 :: "adc_dev option"
  adc3 :: "adc_dev option"
  hw_dev :: bool
  ret :: rt_err
  timeout_s :: "int \<times> int"
  tmode :: int
  my_hwtimer_temp_time :: int
  pwm_dev :: bool
  angle :: u8
  pwm_period :: u32
  pwm_pulse :: u32
  adc_light_dev :: bool
  adc_mq2_dev :: bool
  light_value :: u32
  mq2_value :: u32
  light_limit :: u32
  emergency_light_state :: u8
  light_hard_error_state :: u8
  temp :: u8
  humi :: u8
  temp_limit :: u8
  beep_state :: u8

text \<open>The board's clocks: \<open>HAL_RCC_GetPCLK1Freq\<close> and \<open>HAL_RCC_GetPCLK2Freq\<close>.\<close>

record board =
  pclk1 :: nat
  pclk2 :: nat

abbreviation timer_ops :: "board \<Rightarrow> (rt_hwtimer, hwtimer_arg) rt_device_ops" where
  "timer_ops b \<equiv> hwtimer_ops (stm32_hwtimer_ops (pclk1 b) (pclk2 b))"

abbreviation pwm_ctl :: "board \<Rightarrow> pwm_control option" where
  "pwm_ctl b \<equiv> Some (drv_pwm_control (pclk1 b) (pclk2 b))"

abbreviation (input) LED0_PIN :: int where "LED0_PIN \<equiv> 89"
abbreviation (input) LED1_PIN :: int where "LED1_PIN \<equiv> 90"
abbreviation (input) KEY0_PIN :: int where "KEY0_PIN \<equiv> 68"
abbreviation (input) KEY1_PIN :: int where "KEY1_PIN \<equiv> 67"
abbreviation (input) BEEP_PIN :: int where "BEEP_PIN \<equiv> 88"
abbreviation (input) Relay_PIN :: int where "Relay_PIN \<equiv> 52"
abbreviation (input) MQ2_D0_PIN :: int where "MQ2_D0_PIN \<equiv> 6"

lemma app_pins:
  "LED0_PIN = GET_PIN (port_no PF) 9" "LED1_PIN = GET_PIN (port_no PF) 10" "KEY0_PIN = GET_PIN (port_no PE) 4"
  "KEY1_PIN = GET_PIN (port_no PE) 3" "BEEP_PIN = GET_PIN (port_no PF) 8" "Relay_PIN = GET_PIN (port_no PD) 4"
  "MQ2_D0_PIN = GET_PIN (port_no PA) 6"
  by (simp_all add: GET_PIN_def)

section \<open>Accessors of the property structures\<close>

definition Get_Devpro_BeepState :: "app \<Rightarrow> bool" where "Get_Devpro_BeepState s = Beep_State (my_devices s)"
definition Set_Devpro_BeepState :: "bool \<Rightarrow> app \<Rightarrow> app" where
  "Set_Devpro_BeepState st s = s\<lparr>my_devices := (my_devices s)\<lparr>Beep_State := st\<rparr>\<rparr>"
definition Get_Devpro_RelayState :: "app \<Rightarrow> bool" where "Get_Devpro_RelayState s = Relay_State (my_devices s)"
definition Set_Devpro_RelayState :: "bool \<Rightarrow> app \<Rightarrow> app" where
  "Set_Devpro_RelayState st s = s\<lparr>my_devices := (my_devices s)\<lparr>Relay_State := st\<rparr>\<rparr>"
definition Get_Devpro_LED0State :: "app \<Rightarrow> bool" where "Get_Devpro_LED0State s = LED0_State (my_devices s)"
definition Set_Devpro_LED0State :: "bool \<Rightarrow> app \<Rightarrow> app" where
  "Set_Devpro_LED0State st s = s\<lparr>my_devices := (my_devices s)\<lparr>LED0_State := st\<rparr>\<rparr>"
definition Get_Devpro_LED1State :: "app \<Rightarrow> bool" where "Get_Devpro_LED1State s = LED1_State (my_devices s)"
definition Set_Devpro_LED1State :: "bool \<Rightarrow> app \<Rightarrow> app" where
  "Set_Devpro_LED1State st s = s\<lparr>my_devices := (my_devices s)\<lparr>LED1_State := st\<rparr>\<rparr>"
definition Get_Devpro_DoorState :: "app \<Rightarrow> bool" where "Get_Devpro_DoorState s = Door_State (my_devices s)"
definition Set_Devpro_DoorState :: "bool \<Rightarrow> app \<Rightarrow> app" where
  "Set_Devpro_DoorState st s = s\<lparr>my_devices := (my_devices s)\<lparr>Door_State := st\<rparr>\<rparr>"
definition Get_Devpro_DHT11_Sensor_State :: "app \<Rightarrow> bool" where
  "Get_Devpro_DHT11_Sensor_State s = DHT11_Sensor_State (my_devices s)"
definition Set_Devpro_DHT11_Sensor_State :: "bool \<Rightarrow> app \<Rightarrow> app" where
  "Set_Devpro_DHT11_Sensor_State st s = s\<lparr>my_devices := (my_devices s)\<lparr>DHT11_Sensor_State := st\<rparr>\<rparr>"
definition Get_Devpro_Light_Sensor_State :: "app \<Rightarrow> bool" where
  "Get_Devpro_Light_Sensor_State s = Light_Sensor_State (my_devices s)"
definition Set_Devpro_Light_Sensor_State :: "bool \<Rightarrow> app \<Rightarrow> app" where
  "Set_Devpro_Light_Sensor_State st s = s\<lparr>my_devices := (my_devices s)\<lparr>Light_Sensor_State := st\<rparr>\<rparr>"
definition Get_Devpro_temp :: "app \<Rightarrow> int" where "Get_Devpro_temp s = env_temp (my_environment s)"
definition Set_Devpro_temp :: "int \<Rightarrow> app \<Rightarrow> app" where
  "Set_Devpro_temp v s = s\<lparr>my_environment := (my_environment s)\<lparr>env_temp := v\<rparr>\<rparr>"
definition Get_Devpro_Temp_Limit :: "app \<Rightarrow> int" where "Get_Devpro_Temp_Limit s = Temp_Limit (my_thresholds s)"
definition Set_Devpro_Temp_Limit :: "int \<Rightarrow> app \<Rightarrow> app" where
  "Set_Devpro_Temp_Limit v s = s\<lparr>my_thresholds := (my_thresholds s)\<lparr>Temp_Limit := v\<rparr>\<rparr>"
definition Get_Devpro_humi :: "app \<Rightarrow> int" where "Get_Devpro_humi s = env_humi (my_environment s)"
definition Set_Devpro_humi :: "int \<Rightarrow> app \<Rightarrow> app" where
  "Set_Devpro_humi v s = s\<lparr>my_environment := (my_environment s)\<lparr>env_humi := v\<rparr>\<rparr>"
definition Get_Devpro_Humi_Limit :: "app \<Rightarrow> int" where "Get_Devpro_Humi_Limit s = Humi_Limit (my_thresholds s)"
definition Set_Devpro_Humi_Limit :: "int \<Rightarrow> app \<Rightarrow> app" where
  "Set_Devpro_Humi_Limit v s = s\<lparr>my_thresholds := (my_thresholds s)\<lparr>Humi_Limit := v\<rparr>\<rparr>"
definition Get_Devpro_light :: "app \<Rightarrow> int" where "Get_Devpro_light s = env_light (my_environment s)"
definition Set_Devpro_light :: "int \<Rightarrow> app \<Rightarrow> app" where
  "Set_Devpro_light v s = s\<lparr>my_environment := (my_environment s)\<lparr>env_light := v\<rparr>\<rparr>"
definition Get_Devpro_Light_Up_Limit :: "app \<Rightarrow> int" where
  "Get_Devpro_Light_Up_Limit s = Light_Up_Limit (my_thresholds s)"
definition Set_Devpro_Light_Up_Limit :: "int \<Rightarrow> app \<Rightarrow> app" where
  "Set_Devpro_Light_Up_Limit v s = s\<lparr>my_thresholds := (my_thresholds s)\<lparr>Light_Up_Limit := v\<rparr>\<rparr>"
definition Get_Devpro_Light_Down_Limit :: "app \<Rightarrow> int" where
  "Get_Devpro_Light_Down_Limit s = Light_Down_Limit (my_thresholds s)"
definition Set_Devpro_Light_Down_Limit :: "int \<Rightarrow> app \<Rightarrow> app" where
  "Set_Devpro_Light_Down_Limit v s = s\<lparr>my_thresholds := (my_thresholds s)\<lparr>Light_Down_Limit := v\<rparr>\<rparr>"
definition Get_Devpro_smoke :: "app \<Rightarrow> int" where "Get_Devpro_smoke s = env_smoke (my_environment s)"
definition Set_Devpro_smoke :: "int \<Rightarrow> app \<Rightarrow> app" where
  "Set_Devpro_smoke v s = s\<lparr>my_environment := (my_environment s)\<lparr>env_smoke := v\<rparr>\<rparr>"

lemmas accessor_defs [app_simps] =
  Get_Devpro_BeepState_def Set_Devpro_BeepState_def Get_Devpro_RelayState_def Set_Devpro_RelayState_def
  Get_Devpro_LED0State_def Set_Devpro_LED0State_def Get_Devpro_LED1State_def Set_Devpro_LED1State_def
  Get_Devpro_DoorState_def Set_Devpro_DoorState_def Get_Devpro_DHT11_Sensor_State_def
  Set_Devpro_DHT11_Sensor_State_def Get_Devpro_Light_Sensor_State_def Set_Devpro_Light_Sensor_State_def
  Get_Devpro_temp_def Set_Devpro_temp_def Get_Devpro_Temp_Limit_def Set_Devpro_Temp_Limit_def
  Get_Devpro_humi_def Set_Devpro_humi_def Get_Devpro_Humi_Limit_def Set_Devpro_Humi_Limit_def
  Get_Devpro_light_def Set_Devpro_light_def Get_Devpro_Light_Up_Limit_def Set_Devpro_Light_Up_Limit_def
  Get_Devpro_Light_Down_Limit_def Set_Devpro_Light_Down_Limit_def Get_Devpro_smoke_def Set_Devpro_smoke_def

section \<open>The application before \<open>main\<close>\<close>

definition devices_boot :: Devices where
  "devices_boot = \<lparr>Beep_State = False, Relay_State = False, LED0_State = False, LED1_State = False, Door_State = False,
     DHT11_Sensor_State = True, Light_Sensor_State = True\<rparr>"

definition environment_boot :: Environment where
  "environment_boot = \<lparr>env_temp = 0, env_humi = 0, env_light = 0, env_smoke = 0\<rparr>"

definition thresholds_boot :: Thresholds where
  "thresholds_boot = \<lparr>Temp_Limit = 50, Humi_Limit = 60, Light_Up_Limit = 2000, Light_Down_Limit = 1250\<rparr>"

text \<open>Static initialisers, the rest zero; \<open>h\<close> is the pin hardware and \<open>p\<close> the device registered as
  \<open>pwm4\<close>, if it is. The timers and converters are those that the drivers' initialisation
  functions register.\<close>

definition app_boot :: "gpio \<Rightarrow> pwm_dev option \<Rightarrow> app" where
  "app_boot h p = \<lparr>hw = h, my_devices = devices_boot, my_environment = environment_boot, my_thresholds = thresholds_boot,
     published = [], oled = [], threads = [],
     timer3 = rt_device_find (snd (stm32_hwtimer_init [])) ''timer3'', pwm4 = p,
     adc2 = rt_device_find (snd (stm32_adc_init (\<lambda>_. True) [])) ''adc2'',
     adc3 = rt_device_find (snd (stm32_adc_init (\<lambda>_. True) [])) ''adc3'',
     hw_dev = False, ret = RT_EOK, timeout_s = (0, 0), tmode = 0, my_hwtimer_temp_time = 0, pwm_dev = False, angle = 0,
     pwm_period = 0, pwm_pulse = 0, adc_light_dev = False, adc_mq2_dev = False, light_value = 0, mq2_value = 0,
     light_limit = 2500, emergency_light_state = 0, light_hard_error_state = 0, temp = 0, humi = 0, temp_limit = 50, beep_state = 0\<rparr>"

text \<open>The STM32F407 at 168 MHz: APB1 runs at 42 MHz, APB2 at 84 MHz.\<close>

definition f407_board :: board where
  "f407_board = \<lparr>pclk1 = 42000000, pclk2 = 84000000\<rparr>"

section \<open>Threads of the data upload\<close>

definition publish :: "mqtt_call \<Rightarrow> app \<Rightarrow> app" where
  "publish c s = s\<lparr>published := published s @ [c]\<rparr>"

definition Get_Device_Properties :: "app \<Rightarrow> Devices" where "Get_Device_Properties s = my_devices s"
definition Get_Environment_Properties :: "app \<Rightarrow> Environment" where "Get_Environment_Properties s = my_environment s"
definition Get_Thresholds_Properties :: "app \<Rightarrow> Thresholds" where "Get_Thresholds_Properties s = my_thresholds s"

text \<open>One iteration of \<open>my_data_upload_entry\<close>; a failed upload is only logged.\<close>

definition my_data_upload_iter :: "app \<Rightarrow> app" where
  "my_data_upload_iter s = publish (Publish_Environment_Data (my_environment s)) s"

text \<open>Starting a thread; \<open>ok\<close> says whether \<open>rt_thread_create\<close> finds memory for it.\<close>

definition thread_start :: "bool \<Rightarrow> string \<Rightarrow> app \<Rightarrow> app" where
  "thread_start ok entry s = (if ok then s\<lparr>threads := threads s @ [entry]\<rparr> else s)"

definition my_data_upload_init :: "bool \<Rightarrow> app \<Rightarrow> int \<times> app" where
  "my_data_upload_init ok s = (RT_EOK, thread_start ok ''my_data_upload_entry'' s)"

section \<open>Pins\<close>

definition pin_write :: "int \<Rightarrow> int \<Rightarrow> app \<Rightarrow> app option" where
  "pin_write pin v s = map_option (\<lambda>h. s\<lparr>hw := h\<rparr>) (rt_pin_write pin v (hw s))"

definition pin_read :: "int \<Rightarrow> app \<Rightarrow> int option" where
  "pin_read pin s = rt_pin_read pin (hw s)"

definition pin_mode :: "u32 \<Rightarrow> int \<Rightarrow> int \<Rightarrow> app \<Rightarrow> app option" where
  "pin_mode alt pin m s = map_option (\<lambda>h. s\<lparr>hw := h\<rparr>) (rt_pin_mode alt pin m (hw s))"

end
