(* ===== verification/Timeout.thy ===== *)
theory Timeout
  imports Drv_Hwtimer
begin

text \<open>
  Correctness of the search that splits a timeout into overflows (\<open>timeout_calc\<close> of
  \<open>src/smart-building-mcu/rt-thread/components/drivers/hwtimer/hwtimer.c\<close>) for a timer counting at
  1 MHz: for every timeout from 1 ms to 16 s the loop ends, with at least one overflow, a count
  that fits the sixteen-bit reload register, and a total within one part in 300 of the request.
\<close>

section \<open>The quantities of one iteration\<close>

definition t_split :: "rat \<Rightarrow> int \<Rightarrow> rat" where
  "t_split tv i = f32 (tv / f32 (of_int i))"

definition t_count :: "rat \<Rightarrow> int \<Rightarrow> int" where
  "t_count tv i = fl_trunc (f32 (t_split tv i * f32 1000000))"

definition t_total :: "rat \<Rightarrow> int \<Rightarrow> rat" where
  "t_total tv i = f32 (f32 (f32 (of_int (t_count tv i)) / f32 1000000) * f32 (of_int i))"

definition t_dev :: "rat \<Rightarrow> int \<Rightarrow> rat" where
  "t_dev tv i = f32 (tv - t_total tv i)"

definition t_ovf :: rat where
  "t_ovf = f32 (f32 65535 / f32 1000000)"

lemma search_step:
  assumes "1 \<le> i" "i < 2 ^ 31"
  shows "timeout_search tv t_ovf 1000000 i index dm =
     (if t_split tv i \<le> t_ovf then
        (if t_dev tv i > dm then (if index = 0 then None else Some (index, t_split tv index))
         else if t_dev tv i = 0 then Some (i, t_split tv i)
         else if t_dev tv i < dm then timeout_search tv t_ovf 1000000 (i + 1) i (t_dev tv i)
         else timeout_search tv t_ovf 1000000 (i + 1) index dm)
      else timeout_search tv t_ovf 1000000 (i + 1) index dm)"
  using assms
  by (subst timeout_search.simps) (simp add: Let_def t_split_def t_dev_def t_total_def t_count_def)

section \<open>Rounding bounds\<close>

lemma f32_lo: "0 < x \<Longrightarrow> x * (16777215 / 16777216) \<le> f32 x"
  and f32_hi: "0 < x \<Longrightarrow> f32 x \<le> x * (16777217 / 16777216)"
proof -
  assume "0 < x"
  then have "\<bar>f32 x - x\<bar> \<le> x * 2 powi (- 24)" by (rule fl_error) simp
  moreover have "(2 :: rat) powi (- 24) = 1 / 16777216" by (simp add: power_int_def power_one_over)
  ultimately have "\<bar>f32 x - x\<bar> \<le> x / 16777216" by simp
  then show "x * (16777215 / 16777216) \<le> f32 x" "f32 x \<le> x * (16777217 / 16777216)" by linarith+
qed

lemma f32_bounds:
  "0 < x \<Longrightarrow> x * (16777215 / 16777216) \<le> f32 x \<and> f32 x \<le> x * (16777217 / 16777216) \<and> 0 < f32 x"
  by (intro conjI f32_lo f32_hi fl_positive) simp_all

lemma rne_nonneg: "0 \<le> z \<Longrightarrow> 0 \<le> rne z"
  using rne_mono [of 0 z] rne_of_int [of 0] by simp

lemma f32_nonpos: "x \<le> 0 \<Longrightarrow> f32 x \<le> 0"
proof (cases "x = 0")
  case False
  assume "x \<le> 0"
  with False have "x < 0" by simp
  moreover have "0 \<le> of_int (rne (\<bar>x\<bar> / 2 powi (rat_exp \<bar>x\<bar> - 23))) * (2 powi (rat_exp \<bar>x\<bar> - 23) :: rat)"
    by (intro mult_nonneg_nonneg) (simp_all add: rne_nonneg)
  ultimately show ?thesis by (simp add: fl_def Let_def)
qed simp

lemma f32_int: "0 < k \<Longrightarrow> k < 16777216 \<Longrightarrow> f32 (of_int k) = of_int k"
  using fl_exact [of k 24 0] by simp

lemma f32_million: "f32 1000000 = 1000000"
  using f32_int [of 1000000] by simp

lemma ovf_value: "65 / 1000 < t_ovf" "f32 (t_ovf * 1000000) = 65535" "t_ovf < 66 / 1000"
  unfolding t_ovf_def by code_simp+

section \<open>One iteration\<close>

lemma split_bounds:
  assumes "0 < tv" "1 \<le> i" "i < 16777216"
  shows "0 < t_split tv i" "tv / of_int i * (16777215 / 16777216) \<le> t_split tv i"
    "t_split tv i \<le> tv / of_int i * (16777217 / 16777216)"
proof -
  have "f32 (of_int i) = of_int i" using assms by (intro f32_int) auto
  moreover have "0 < tv / of_int i" using assms by simp
  ultimately show "0 < t_split tv i" "tv / of_int i * (16777215 / 16777216) \<le> t_split tv i"
    "t_split tv i \<le> tv / of_int i * (16777217 / 16777216)"
    unfolding t_split_def using f32_bounds by metis+
qed

lemma count_bounds:
  assumes "0 < tv" "1 \<le> i" "i < 16777216"
  defines "P \<equiv> f32 (t_split tv i * 1000000)"
  shows "0 \<le> t_count tv i" "of_int (t_count tv i) \<le> P" "P < of_int (t_count tv i) + 1"
    "t_split tv i * 1000000 * (16777215 / 16777216) \<le> P" "P \<le> t_split tv i * 1000000 * (16777217 / 16777216)"
proof -
  have t: "0 < t_split tv i * 1000000" using split_bounds [OF assms(1-3)] by simp
  then have P: "0 < P" unfolding P_def by (rule fl_positive) simp
  have "t_count tv i = \<lfloor>P\<rfloor>" using P by (simp add: t_count_def fl_trunc_def f32_million P_def)
  with P show "0 \<le> t_count tv i" "of_int (t_count tv i) \<le> P" "P < of_int (t_count tv i) + 1"
    by (simp_all, linarith)
  show "t_split tv i * 1000000 * (16777215 / 16777216) \<le> P" "P \<le> t_split tv i * 1000000 * (16777217 / 16777216)"
    unfolding P_def using f32_bounds [OF t] by blast+
qed

text \<open>The exact duration of \<open>i\<close> overflows of the computed count.\<close>

definition t_exact :: "rat \<Rightarrow> int \<Rightarrow> rat" where
  "t_exact tv i = of_int (t_count tv i) * of_int i / 1000000"

lemma total_zero: "t_count tv i = 0 \<Longrightarrow> t_total tv i = 0"
  by (simp add: t_total_def)

lemma total_bounds:
  assumes "0 < tv" "1 \<le> i" "i < 16777216" "1 \<le> t_count tv i"
  shows "t_exact tv i * (999999 / 1000000) \<le> t_total tv i" "t_total tv i \<le> t_exact tv i * (1000001 / 1000000)"
proof -
  let ?c = "of_int (t_count tv i) :: rat" and ?i = "of_int i :: rat"
  let ?r = "16777215 / 16777216 :: rat" and ?h = "16777217 / 16777216 :: rat"
  define a where "a = f32 ?c"
  define q where "q = f32 (a / 1000000)"
  have i: "1 \<le> ?i" "f32 ?i = ?i" using assms by (auto intro: f32_int)
  have c: "0 < ?c" using assms by simp
  have a: "?c * ?r \<le> a" "a \<le> ?c * ?h" "0 < a"
    unfolding a_def using f32_bounds [OF c] by blast+
  then have "0 < a / 1000000" by simp
  then have q: "a / 1000000 * ?r \<le> q" "q \<le> a / 1000000 * ?h" "0 < q"
    unfolding q_def using f32_bounds by blast+
  then have "0 < q * ?i" using i by simp
  then have s: "q * ?i * ?r \<le> f32 (q * ?i)" "f32 (q * ?i) \<le> q * ?i * ?h"
    using f32_bounds by blast+
  have t: "t_total tv i = f32 (q * ?i)" by (simp add: t_total_def f32_million i a_def q_def)
  have "?c * ?r / 1000000 * ?r * ?i * ?r \<le> q * ?i * ?r"
  proof -
    have "?c * ?r / 1000000 * ?r \<le> q" using a(1) q(1) by linarith
    then show ?thesis using i by (intro mult_right_mono) auto
  qed
  moreover have "?c * ?r / 1000000 * ?r * ?i * ?r = t_exact tv i * (?r * ?r * ?r)" by (simp add: t_exact_def)
  moreover have e: "0 < t_exact tv i" using c i by (simp add: t_exact_def)
  moreover have "t_exact tv i * (999999 / 1000000) \<le> t_exact tv i * (?r * ?r * ?r)"
    using e by (intro mult_left_mono) auto
  ultimately show "t_exact tv i * (999999 / 1000000) \<le> t_total tv i" using s t by linarith
  have "q * ?i * ?h \<le> ?c * ?h / 1000000 * ?h * ?i * ?h"
  proof -
    have "q \<le> ?c * ?h / 1000000 * ?h" using a(2) q(2) by linarith
    then show ?thesis using i by (intro mult_right_mono) auto
  qed
  moreover have "?c * ?h / 1000000 * ?h * ?i * ?h = t_exact tv i * (?h * ?h * ?h)" by (simp add: t_exact_def)
  moreover have "t_exact tv i * (?h * ?h * ?h) \<le> t_exact tv i * (1000001 / 1000000)"
    using e by (intro mult_left_mono) auto
  ultimately show "t_total tv i \<le> t_exact tv i * (1000001 / 1000000)" using s t by linarith
qed

lemma exact_upper:
  assumes "0 < tv" "1 \<le> i" "i < 16777216"
  shows "t_exact tv i \<le> tv * (1000001 / 1000000)"
proof -
  let ?h = "16777217 / 16777216 :: rat"
  note s = split_bounds [OF assms] and c = count_bounds [OF assms]
  have i: "0 < (of_int i :: rat)" using assms by simp
  define x where "x = tv / of_int i"
  have "of_int (t_count tv i) \<le> x * ?h * 1000000 * ?h" using s(3) c(2,5) unfolding x_def [symmetric] by linarith
  then have "of_int (t_count tv i) \<le> tv / of_int i * ?h * 1000000 * ?h" by (simp only: x_def)
  then have "t_exact tv i \<le> tv / of_int i * ?h * 1000000 * ?h * of_int i / 1000000"
    unfolding t_exact_def using i by (intro divide_right_mono mult_right_mono) auto
  also have "\<dots> = tv * (?h * ?h)" using i by simp
  also have "\<dots> \<le> tv * (1000001 / 1000000)" using assms by (intro mult_left_mono) auto
  finally show ?thesis .
qed

lemma exact_lower:
  assumes "0 < tv" "1 \<le> i" "i < 16777216" "900 \<le> t_split tv i * 1000000"
  shows "tv * (898 / 900) \<le> t_exact tv i" "899 \<le> t_count tv i"
proof -
  let ?r = "16777215 / 16777216 :: rat"
  note s = split_bounds [OF assms(1-3)] and c = count_bounds [OF assms(1-3)]
  let ?c = "of_int (t_count tv i) :: rat" and ?T = "t_split tv i * 1000000"
  have "898 < ?c" using assms(4) c(3,4) by linarith
  then show "899 \<le> t_count tv i" by linarith
  have "?T * (8989 / 9000) \<le> ?c" using assms(4) c(3,4) by linarith
  moreover have i: "0 < (of_int i :: rat)" using assms by simp
  ultimately have "?T * (8989 / 9000) * of_int i / 1000000 \<le> t_exact tv i"
    unfolding t_exact_def by (intro divide_right_mono mult_right_mono) auto
  moreover have "tv * (?r * (8989 / 9000)) \<le> ?T * (8989 / 9000) * of_int i / 1000000"
  proof -
    have "tv / of_int i * ?r * (8989 / 9000) * of_int i \<le> t_split tv i * (8989 / 9000) * of_int i"
      using s(2) i by (intro mult_right_mono) auto
    then show ?thesis using i by simp
  qed
  moreover have "tv * (898 / 900) \<le> tv * (?r * (8989 / 9000))" using assms by (intro mult_left_mono) auto
  ultimately show "tv * (898 / 900) \<le> t_exact tv i" by linarith
qed

text \<open>The first split that fits the counter is already good: its deviation is at most a 400th of the
  timeout.\<close>

lemma dev_le:
  assumes "0 < tv" "tv - t_total tv i \<le> tv / 401"
  shows "t_dev tv i \<le> tv / 400"
proof (cases "tv - t_total tv i \<le> 0")
  case True
  then show ?thesis unfolding t_dev_def using f32_nonpos [OF True] assms by linarith
next
  case False
  define d where "d = tv - t_total tv i"
  have "f32 d \<le> d * (16777217 / 16777216)" "d \<le> tv / 401" using False f32_hi [of d] assms by (simp_all add: d_def)
  then show ?thesis unfolding t_dev_def d_def [symmetric] using assms(1) by linarith
qed

lemma good_split:
  assumes "0 < tv" "1 \<le> i" "i < 16777216" "900 \<le> t_split tv i * 1000000"
  shows "t_dev tv i \<le> tv / 400" "1 \<le> t_count tv i"
proof -
  note e = exact_lower [OF assms]
  show c: "1 \<le> t_count tv i" using e(2) by linarith
  have "tv * (898 / 900) * (999999 / 1000000) \<le> t_total tv i"
    using e(1) total_bounds(1) [OF assms(1-3) c] by linarith
  then have "tv - t_total tv i \<le> tv / 401" using assms(1) by linarith
  then show "t_dev tv i \<le> tv / 400" using assms(1) by (intro dev_le)
qed

text \<open>A deviation of at most a 400th means the exact duration is within a 300th.\<close>

lemma exact_of_dev:
  assumes "0 < tv" "1 \<le> i" "i < 16777216" "1 \<le> t_count tv i" "t_dev tv i \<le> tv / 400"
  shows "tv * (299 / 300) \<le> t_exact tv i"
proof -
  have "tv - t_total tv i \<le> tv / 399"
  proof (cases "0 < tv - t_total tv i")
    case True
    define d where "d = tv - t_total tv i"
    have "d * (16777215 / 16777216) \<le> f32 d" "f32 d \<le> tv / 400" using f32_lo [OF True] assms(5) by (simp_all add: d_def t_dev_def)
    then show ?thesis unfolding d_def [symmetric] using assms(1) by linarith
  next
    case False
    then show ?thesis using assms(1) by simp
  qed
  then show ?thesis using total_bounds(2) [OF assms(1-4)] assms(1) by linarith
qed

section \<open>The loop\<close>

abbreviation (input) last_i :: int where "last_i \<equiv> 16777215"

definition good_index :: "rat \<Rightarrow> int \<Rightarrow> bool" where
  "good_index tv k \<longleftrightarrow> 1 \<le> k \<and> k < 16777216 \<and> 1 \<le> t_count tv k \<and> t_dev tv k \<le> tv / 400 \<and> t_split tv k \<le> t_ovf"

lemma last_values: "f32 (16 / 16777215) \<le> t_ovf" "f32 (f32 (16 / 16777215) * 1000000) < 1"
  unfolding t_ovf_def by code_simp+

lemma last_iteration:
  assumes "0 < tv" "tv \<le> 16" "f32 tv = tv"
  shows "t_split tv last_i \<le> t_ovf" "t_count tv last_i = 0"
proof -
  have "tv / of_int last_i \<le> 16 / 16777215" using assms by (simp add: divide_right_mono)
  then have s: "t_split tv last_i \<le> f32 (16 / 16777215)"
    unfolding t_split_def using assms f32_int [of last_i] by (simp add: fl_mono)
  then show "t_split tv last_i \<le> t_ovf" using last_values by linarith
  have p: "0 < t_split tv last_i" using split_bounds(1) [of tv last_i] assms by simp
  have "f32 (t_split tv last_i * 1000000) \<le> f32 (f32 (16 / 16777215) * 1000000)"
    using s p by (intro fl_mono) auto
  then have "f32 (t_split tv last_i * 1000000) < 1" using last_values by linarith
  moreover have "0 \<le> t_count tv last_i" "of_int (t_count tv last_i) \<le> f32 (t_split tv last_i * 1000000)"
    using count_bounds(1,2) [of tv last_i] assms(1) by simp_all
  ultimately have "(of_int (t_count tv last_i) :: rat) < 1" by linarith
  with \<open>0 \<le> t_count tv last_i\<close> show "t_count tv last_i = 0" by simp
qed

lemma dev_zero_count: "f32 tv = tv \<Longrightarrow> t_count tv i = 0 \<Longrightarrow> t_dev tv i = tv"
  by (simp add: t_dev_def total_zero)

lemma improved_index:
  assumes "0 < tv" "f32 tv = tv" "1 \<le> i" "i \<le> last_i" "t_split tv i \<le> t_ovf" "t_dev tv i \<le> tv / 400"
  shows "good_index tv i"
proof -
  have "t_count tv i \<noteq> 0" using dev_zero_count [OF assms(2), of i] assms(1,6) by auto
  moreover have "0 \<le> t_count tv i" using count_bounds(1) [of tv i] assms by simp
  ultimately show ?thesis using assms by (simp add: good_index_def)
qed

lemma search_second_phase:
  assumes "0 < tv" "tv \<le> 16" "f32 tv = tv" "1 \<le> i" "i \<le> last_i" "good_index tv index" "dm \<le> tv / 400"
  shows "\<exists>k. timeout_search tv t_ovf 1000000 i index dm = Some (k, t_split tv k) \<and> good_index tv k"
  using assms(4-7)
proof (induction "nat (last_i - i)" arbitrary: i index dm rule: less_induct)
  case less
  have step: "\<exists>k. timeout_search tv t_ovf 1000000 (i + 1) x m = Some (k, t_split tv k) \<and> good_index tv k"
    if "i \<noteq> last_i" "good_index tv x" "m \<le> tv / 400" for x m
    using less.hyps [of "i + 1" x m] less.prems that by simp
  have idx: "index \<noteq> 0" using less.prems by (auto simp: good_index_def)
  show ?case
  proof (cases "i = last_i")
    case True
    then have "t_split tv i \<le> t_ovf" "t_dev tv i = tv"
      using last_iteration [OF assms(1-3)] dev_zero_count [OF assms(3)] by simp_all
    then show ?thesis using less.prems idx assms(1) by (subst search_step) auto
  next
    case False
    have imp: "good_index tv i" if "t_split tv i \<le> t_ovf" "t_dev tv i \<le> dm"
      using improved_index [OF assms(1,3) less.prems(1,2) that(1)] that(2) less.prems(4) by linarith
    show ?thesis
      using less.prems idx imp step [OF False] by (subst search_step) auto
  qed
qed

lemma first_fit:
  assumes "1 / 1000 \<le> tv" "f32 tv = tv" "1 \<le> i" "i \<le> last_i" "\<forall>j. 1 \<le> j \<and> j < i \<longrightarrow> t_ovf < t_split tv j"
  shows "900 \<le> t_split tv i * 1000000"
proof (cases "i = 1")
  case True
  then show ?thesis using assms f32_int [of 1] by (simp add: t_split_def)
next
  case False
  then have i: "2 \<le> i" using assms by linarith
  define x where "x = tv / of_int (i - 1)"
  define y where "y = tv / of_int i"
  have "t_ovf < t_split tv (i - 1)" using assms(5) i by simp
  also have "\<dots> \<le> x * (16777217 / 16777216)" using split_bounds(3) [of tv "i - 1"] assms i by (simp add: x_def)
  finally have x: "64 / 1000 < x" using ovf_value(1) by linarith
  have "x / 2 \<le> y"
  proof -
    have "of_int i \<le> (2 :: rat) * of_int (i - 1)" using i by simp
    then have "tv / (2 * of_int (i - 1)) \<le> y" unfolding y_def using assms i by (intro divide_left_mono mult_pos_pos) auto
    then show ?thesis by (simp add: x_def mult.commute)
  qed
  moreover have "y * (16777215 / 16777216) \<le> t_split tv i" using split_bounds(2) [of tv i] assms by (simp add: y_def)
  ultimately show ?thesis using x by linarith
qed

lemma search_first_phase:
  assumes "1 / 1000 \<le> tv" "tv \<le> 16" "f32 tv = tv" "1 \<le> i" "i \<le> last_i" "\<forall>j. 1 \<le> j \<and> j < i \<longrightarrow> t_ovf < t_split tv j"
  shows "\<exists>k. timeout_search tv t_ovf 1000000 i 0 1 = Some (k, t_split tv k) \<and> good_index tv k"
  using assms(4-6)
proof (induction "nat (last_i - i)" arbitrary: i rule: less_induct)
  case less
  have tv: "0 < tv" using assms(1) by linarith
  show ?case
  proof (cases "t_split tv i \<le> t_ovf")
    case True
    have big: "900 \<le> t_split tv i * 1000000" using first_fit [OF assms(1,3) less.prems] .
    have g: "t_dev tv i \<le> tv / 400" "1 \<le> t_count tv i"
      using good_split [OF tv less.prems(1) _ big] less.prems(2) by simp_all
    have "i \<noteq> last_i" using g(2) last_iteration(2) [OF tv assms(2,3)] by auto
    then have "i + 1 \<le> last_i" using less.prems(2) by linarith
    moreover have good: "good_index tv i" using improved_index [OF tv assms(3) less.prems(1,2) True g(1)] .
    ultimately have "\<exists>k. timeout_search tv t_ovf 1000000 (i + 1) i (t_dev tv i) = Some (k, t_split tv k) \<and> good_index tv k"
      using search_second_phase [OF tv assms(2,3), of "i + 1" i "t_dev tv i"] less.prems(1) g(1) by simp
    moreover have "t_dev tv i < 1" using g(1) assms(2) by linarith
    ultimately show ?thesis using less.prems True good by (subst search_step) auto
  next
    case False
    then have "i \<noteq> last_i" using last_iteration(1) [OF tv assms(2,3)] by auto
    moreover have "\<forall>j. 1 \<le> j \<and> j < i + 1 \<longrightarrow> t_ovf < t_split tv j"
      using less.prems(3) False by (metis not_le zless_add1_eq)
    ultimately have "\<exists>k. timeout_search tv t_ovf 1000000 (i + 1) 0 1 = Some (k, t_split tv k) \<and> good_index tv k"
      using less.hyps [of "i + 1"] less.prems by simp
    then show ?thesis using False less.prems by (subst search_step) auto
  qed
qed

section \<open>The framework's computation\<close>

text \<open>A time value of \<open>sec\<close> seconds and \<open>usec\<close> microseconds, as a number of seconds.\<close>

abbreviation (input) secs :: "int \<Rightarrow> int \<Rightarrow> rat" where "secs sec usec \<equiv> of_int sec + of_int usec / 1000000"

lemma timeval_bounds:
  assumes "0 \<le> sec" "sec < 16" "0 \<le> usec" "usec < 1000000" "0 < sec + usec"
  shows "secs sec usec * (999999 / 1000000) \<le> timeval_sec sec usec"
    "timeval_sec sec usec \<le> secs sec usec * (1000001 / 1000000)" "f32 (timeval_sec sec usec) = timeval_sec sec usec"
proof -
  define x where "x = f32 (of_int usec / 1000000)"
  have s: "f32 (of_int sec) = of_int sec" and u: "f32 (of_int usec) = of_int usec"
    using assms f32_int [of sec] f32_int [of usec] by (cases "sec = 0"; cases "usec = 0"; simp)+
  have x: "of_int usec / 1000000 * (16777215 / 16777216) \<le> x" "x \<le> of_int usec / 1000000 * (16777217 / 16777216)" "0 \<le> x"
    using assms f32_bounds [of "of_int usec / 1000000"] by (cases "usec = 0"; simp add: x_def)+
  have tv: "timeval_sec sec usec = f32 (of_int sec + x)" by (simp add: timeval_sec_def s u f32_million x_def)
  have "0 < of_int sec + x"
  proof (cases "sec = 0")
    case True
    then have "0 < x" using assms x(1) by (simp add: x_def fl_positive)
    with True show ?thesis by simp
  next
    case False
    then have "0 < (of_int sec :: rat)" using assms by simp
    then show ?thesis using x by linarith
  qed
  note b = f32_bounds [OF this] and i = fl_idem [OF this, of 24]
  show "f32 (timeval_sec sec usec) = timeval_sec sec usec" unfolding tv using i by simp
  have n: "0 \<le> (of_int sec :: rat)" "0 \<le> (of_int usec :: rat)" using assms by simp_all
  show "secs sec usec * (999999 / 1000000) \<le> timeval_sec sec usec"
    "timeval_sec sec usec \<le> secs sec usec * (1000001 / 1000000)"
    unfolding tv using conjunct1 [OF b] conjunct1 [OF conjunct2 [OF b]] x n unfolding distrib_right by linarith+
qed

lemma count_fits:
  assumes "0 < tv" "good_index tv k"
  shows "t_count tv k \<le> 65535"
proof -
  have k: "1 \<le> k" "k < 16777216" "t_split tv k \<le> t_ovf" using assms by (auto simp: good_index_def)
  have "f32 (t_split tv k * 1000000) \<le> f32 (t_ovf * 1000000)"
    using split_bounds(1) [OF assms(1) k(1,2)] k(3) by (intro fl_mono) auto
  then have "of_int (t_count tv k) \<le> (65535 :: rat)"
    using count_bounds(2) [OF assms(1) k(1,2)] ovf_value(2) by linarith
  then show ?thesis by simp
qed

lemma timeout_calc_good:
  assumes "freq timer = 1000000" "ht_info timer = tim_info"
    "0 \<le> sec" "sec < 15" "0 \<le> usec" "usec < 1000000" "2000 \<le> sec * 1000000 + usec"
  shows "\<exists>k. good_index (timeval_sec sec usec) k \<and> 0 < timeval_sec sec usec \<and>
    timeout_calc sec usec timer = Some (nat (t_count (timeval_sec sec usec) k),
      timer\<lparr>cycles := k, reload := k, period_sec := t_split (timeval_sec sec usec) k\<rparr>)"
proof -
  let ?tv = "timeval_sec sec usec"
  have "(of_int 2000 :: rat) \<le> of_int (sec * 1000000 + usec)" "(of_int (sec * 1000000 + usec) :: rat) < of_int 15000000"
    unfolding of_int_less_iff of_int_le_iff using assms(4,6,7) by linarith+
  then have v: "2 / 1000 \<le> secs sec usec" "secs sec usec < 15" by simp_all
  have nz: "0 < sec + usec" "sec < 16" using assms by linarith+
  note b = timeval_bounds [OF assms(3) nz(2) assms(5,6) nz(1)]
  define w where "w = secs sec usec"
  have tv: "1 / 1000 \<le> ?tv" "?tv \<le> 16" using b(1,2) v unfolding w_def [symmetric] by linarith+
  obtain k where k: "timeout_search ?tv t_ovf 1000000 1 0 1 = Some (k, t_split ?tv k)" "good_index ?tv k"
    using search_first_phase [OF tv b(3), of 1] by auto
  have pos: "0 < ?tv" using tv by linarith
  have small: "\<not> ?tv < f32 (1 / 1000000)"
  proof -
    have "f32 (1 / 1000000) \<le> 1 / 1000000 * (16777217 / 16777216)" by (rule f32_hi) simp
    then show ?thesis using tv(1) by linarith
  qed
  have ovf: "f32 (f32 (of_nat (maxcnt tim_info)) / 1000000) = t_ovf"
    by (simp add: tim_info_def t_ovf_def f32_million)
  have cnt: "fl_trunc (f32 (t_split ?tv k * 1000000)) = t_count ?tv k" by (simp add: t_count_def f32_million)
  have "1 \<le> t_count ?tv k" "t_count ?tv k \<le> 65535"
    using k(2) count_fits [OF pos k(2)] by (auto simp: good_index_def)
  then have "t_count ?tv k mod 2 ^ 32 = t_count ?tv k" by simp
  then have "timeout_calc sec usec timer = Some (nat (t_count ?tv k), timer\<lparr>cycles := k, reload := k, period_sec := t_split ?tv k\<rparr>)"
    unfolding timeout_calc_def assms(1,2) Let_def using k(1) small ovf
    by (simp add: f32_million cnt)
  then show ?thesis using k(2) pos by blast
qed



end
