(* ===== verification/Alarm.thy ===== *)
theory Alarm
  imports App_State Timeout
begin

text \<open>
  The alarm timer (\<open>src/smart-building-mcu/applications/src/my_hwtimer.c\<close>) and the actuators and
  keys (\<open>my_multiThread.c\<close>): the buzzer with the blinking lamp LED0, the relay, the emergency light
  LED1, the two keys and the initialisation of the pins. \<open>beep_open\<close>, \<open>beep_close\<close> are commented
  out in the code.
\<close>

section \<open>The alarm timer\<close>

abbreviation (input) my_hwtimer_max_time :: int where "my_hwtimer_max_time \<equiv> 5000"
abbreviation (input) my_hwtimer_min_time :: int where "my_hwtimer_min_time \<equiv> 125"

definition my_timeout_cb :: "app \<Rightarrow> app option" where
  "my_timeout_cb s = do {
     l \<leftarrow> pin_read LED0_PIN s;
     s1 \<leftarrow> pin_write LED0_PIN (1 - l) s;
     v \<leftarrow> pin_read BEEP_PIN s1;
     pin_write BEEP_PIN (1 - v) s1
   }"

text \<open>\<open>rt_device_write(hw_dev, 0, &timeout_s, sizeof(timeout_s))\<close> and the comparison of its result.\<close>

definition write_timeout :: "board \<Rightarrow> hwtimer_dev \<Rightarrow> app \<Rightarrow> (bool \<times> app) option" where
  "write_timeout b d s = do {
     (n, d1) \<leftarrow> rt_device_write (timer_ops b) 0 (Timeval_arg (fst (timeout_s s)) (snd (timeout_s s))) sizeof_timeval d;
     Some (n = sizeof_timeval, s\<lparr>timer3 := Some d1\<rparr>)
   }"

definition my_hwtimer_openTimer :: "board \<Rightarrow> app \<Rightarrow> (int \<times> app) option" where
  "my_hwtimer_openTimer b s =
     (case timer3 s of
        None \<Rightarrow> Some (RT_ERROR, s\<lparr>hw_dev := False\<rparr>)
      | Some d \<Rightarrow> do {
          (r, d1) \<leftarrow> rt_device_open (timer_ops b) RT_DEVICE_OFLAG_RDWR d;
          let s1 = s\<lparr>hw_dev := True, ret := r, timer3 := Some d1\<rparr>;
          if r \<noteq> RT_EOK then Some (r, s1)
          else do {
            let d2 = snd (rt_device_set_rx_indicate (Some ''my_timeout_cb'') d1);
            let ((r2, _), d3) = rt_device_control (timer_ops b) HWTIMER_CTRL_MODE_SET (Some (Word_arg 2)) d2;
            let s2 = s1\<lparr>tmode := HWTIMER_MODE_PERIOD, ret := r2, timer3 := Some d3\<rparr>;
            if r2 \<noteq> RT_EOK then Some (r2, s2)
            else do {
              let s3 = s2\<lparr>timeout_s := (0, 100 * 1000)\<rparr>;
              (ok, s4) \<leftarrow> write_timeout b d3 s3;
              if \<not> ok then Some (RT_ERROR, s4) else Some (ret s4, s4)
            }
          }
        })"

text \<open>\<open>hw_dev\<close> is a pointer to the registered timer.\<close>

definition my_hwtimer_closeTimer :: "board \<Rightarrow> app \<Rightarrow> (int \<times> app) option" where
  "my_hwtimer_closeTimer b s =
     (if \<not> hw_dev s then Some (RT_ERROR, s)
      else do {
        d \<leftarrow> timer3 s;
        let (r, d1) = rt_device_close (timer_ops b) d;
        Some (r, s\<lparr>ret := r, timer3 := Some d1\<rparr>)
      })"

definition timeval_of_ms :: "int \<Rightarrow> int \<times> int" where
  "timeval_of_ms ms = (c_div ms 1000, c_mod ms 1000 * 1000)"

definition set_timeout_ms :: "board \<Rightarrow> int \<Rightarrow> app \<Rightarrow> (int \<times> app) option" where
  "set_timeout_ms b ms s = do {
     d \<leftarrow> timer3 s;
     (ok, s1) \<leftarrow> write_timeout b d (s\<lparr>timeout_s := timeval_of_ms ms\<rparr>);
     Some (if ok then ret s1 else RT_ERROR, s1)
   }"

definition timeout_ms :: "app \<Rightarrow> int" where
  "timeout_ms s = to_s32 (fst (timeout_s s) * 1000 + c_div (snd (timeout_s s)) 1000)"

definition my_hwtimer_addTime :: "board \<Rightarrow> int \<Rightarrow> app \<Rightarrow> (int \<times> app) option" where
  "my_hwtimer_addTime b ms s =
     (if \<not> hw_dev s then Some (RT_ERROR, s)
      else let t = timeout_ms s
           in if to_s32 (t + ms) \<ge> my_hwtimer_max_time
              then set_timeout_ms b my_hwtimer_max_time (s\<lparr>my_hwtimer_temp_time := t\<rparr>)
              else set_timeout_ms b (to_s32 (t + ms)) (s\<lparr>my_hwtimer_temp_time := to_s32 (t + ms)\<rparr>))"

definition my_hwtimer_subTime :: "board \<Rightarrow> int \<Rightarrow> app \<Rightarrow> (int \<times> app) option" where
  "my_hwtimer_subTime b ms s =
     (if \<not> hw_dev s then Some (RT_ERROR, s)
      else let t = timeout_ms s
           in if to_s32 (t - ms) \<le> my_hwtimer_min_time
              then set_timeout_ms b my_hwtimer_min_time (s\<lparr>my_hwtimer_temp_time := t\<rparr>)
              else set_timeout_ms b (to_s32 (t - ms)) (s\<lparr>my_hwtimer_temp_time := to_s32 (t - ms)\<rparr>))"

section \<open>Actuators\<close>

definition beep_change :: "board \<Rightarrow> bool \<Rightarrow> app \<Rightarrow> app option" where
  "beep_change b st s = do {
     s1 \<leftarrow> (if \<not> st then do {
               (r, s1) \<leftarrow> my_hwtimer_closeTimer b s;
               s2 \<leftarrow> pin_write LED0_PIN PIN_HIGH s1;
               pin_write BEEP_PIN PIN_LOW s2
             }
             else do {
               (r, s1) \<leftarrow> my_hwtimer_openTimer b s;
               Some s1
             });
     Some (Set_Devpro_BeepState st (Set_Devpro_LED0State st s1))
   }"

definition relay_change :: "bool \<Rightarrow> app \<Rightarrow> app option" where
  "relay_change st s = do {
     s1 \<leftarrow> (if \<not> st then pin_write Relay_PIN PIN_LOW s else pin_write Relay_PIN PIN_HIGH s);
     Some (Set_Devpro_RelayState st s1)
   }"

definition set_emergency_light_state :: "u8 \<Rightarrow> app \<Rightarrow> app" where
  "set_emergency_light_state st s = s\<lparr>emergency_light_state := st\<rparr>"

definition emergency_light_open :: "app \<Rightarrow> app option" where
  "emergency_light_open s = do {
     s1 \<leftarrow> pin_write LED1_PIN PIN_LOW s;
     Some (set_emergency_light_state 1 s1)
   }"

definition emergency_light_close :: "app \<Rightarrow> app option" where
  "emergency_light_close s = do {
     s1 \<leftarrow> pin_write LED1_PIN PIN_HIGH s;
     Some (set_emergency_light_state 0 s1)
   }"

definition emergency_light_change :: "bool \<Rightarrow> app \<Rightarrow> app option" where
  "emergency_light_change st s = do {
     s1 \<leftarrow> (if \<not> st then pin_write LED1_PIN PIN_HIGH s else pin_write LED1_PIN PIN_LOW s);
     Some (Set_Devpro_LED1State st s1)
   }"

section \<open>Keys and pins\<close>

definition IQR_HANDALE_KEY0 :: "app \<Rightarrow> app" where
  "IQR_HANDALE_KEY0 s = Set_Devpro_DHT11_Sensor_State (\<not> Get_Devpro_DHT11_Sensor_State s) s"

definition IQR_HANDALE_KEY1 :: "app \<Rightarrow> app" where
  "IQR_HANDALE_KEY1 s = Set_Devpro_Light_Sensor_State (\<not> Get_Devpro_Light_Sensor_State s) s"

definition Get_MQ2_D0 :: "app \<Rightarrow> int option" where
  "Get_MQ2_D0 s = pin_read MQ2_D0_PIN s"

definition pin_attach :: "int \<Rightarrow> fnptr \<Rightarrow> app \<Rightarrow> app option" where
  "pin_attach pin f s =
     map_option (\<lambda>(r, h). s\<lparr>hw := h\<rparr>) (rt_pin_attach_irq pin PIN_IRQ_MODE_FALLING (Some f) 0 (hw s))"

definition pin_irq_on :: "GPIO_InitTypeDef \<Rightarrow> int \<Rightarrow> app \<Rightarrow> app option" where
  "pin_irq_on stk pin s = map_option (\<lambda>(r, h). s\<lparr>hw := h\<rparr>) (rt_pin_irq_enable stk pin PIN_IRQ_ENABLE (hw s))"

text \<open>\<open>alt\<close> and \<open>stk\<close> are the unset fields of local structures of the pin driver.\<close>

definition my_GPIO_Init :: "u32 \<Rightarrow> GPIO_InitTypeDef \<Rightarrow> app \<Rightarrow> app option" where
  "my_GPIO_Init alt stk s = do {
     s \<leftarrow> pin_mode alt LED0_PIN PIN_MODE_OUTPUT s;
     s \<leftarrow> pin_mode alt LED1_PIN PIN_MODE_OUTPUT s;
     s \<leftarrow> pin_write LED0_PIN PIN_HIGH s;
     s \<leftarrow> pin_write LED1_PIN PIN_HIGH s;
     s \<leftarrow> pin_mode alt KEY0_PIN PIN_MODE_INPUT s;
     s \<leftarrow> pin_mode alt KEY1_PIN PIN_MODE_INPUT s;
     s \<leftarrow> pin_attach KEY0_PIN ''IQR_HANDALE_KEY0'' s;
     s \<leftarrow> pin_attach KEY1_PIN ''IQR_HANDALE_KEY1'' s;
     s \<leftarrow> pin_irq_on stk KEY0_PIN s;
     s \<leftarrow> pin_irq_on stk KEY1_PIN s;
     s \<leftarrow> pin_mode alt BEEP_PIN PIN_MODE_OUTPUT s;
     s \<leftarrow> pin_write BEEP_PIN PIN_LOW s;
     s \<leftarrow> pin_mode alt Relay_PIN PIN_MODE_OUTPUT s;
     s \<leftarrow> pin_write Relay_PIN PIN_LOW s;
     pin_mode alt MQ2_D0_PIN PIN_MODE_INPUT s
   }"

section \<open>Timer interrupt\<close>

text \<open>\<open>TIM3_IRQHandler\<close>: the framework calls the function installed by \<open>my_hwtimer_openTimer\<close>.\<close>

definition TIM3_IRQHandler :: "board \<Rightarrow> app \<Rightarrow> app option" where
  "TIM3_IRQHandler b s =
     (case timer3 s of
        None \<Rightarrow> Some s
      | Some d \<Rightarrow>
          (let (cb, d1) = TIM_IRQHandler (stm32_hwtimer_ops (pclk1 b) (pclk2 b)) d;
               s1 = s\<lparr>timer3 := Some d1\<rparr>
           in if cb = Some ''my_timeout_cb'' then my_timeout_cb s1 else Some s1))"

section \<open>The timer between the alarm's operations\<close>

text \<open>The alarm's timer is either closed, inactive and without a callback, or open once, counting at
  1 MHz in periodic mode with the application's callback and a positive number of overflows.\<close>

definition timer_inv :: "hwtimer_dev \<Rightarrow> bool" where
  "timer_inv d \<longleftrightarrow> standalone_inv d \<and> ht_info (priv d) = tim_info \<and>
     (ref_count d = 0 \<longrightarrow> rx_indicate d = None \<and> \<not> bit (dev_flag d) 4) \<and>
     (ref_count d = 1 \<longrightarrow> rx_indicate d = Some ''my_timeout_cb'' \<and> bit (dev_flag d) 4 \<and>
        freq (priv d) = 1000000 \<and> ht_mode (priv d) = HWTIMER_MODE_PERIOD \<and>
        1 \<le> cycles (priv d) \<and> cycles (priv d) \<le> reload (priv d))"

lemma timer_inv_count: "timer_inv d \<Longrightarrow> ref_count d = 0 \<or> ref_count d = 1"
  by (auto simp: timer_inv_def standalone_inv_def)

lemma write_timer:
  assumes "freq (priv d) = 1000000" "ht_info (priv d) = tim_info" "ht_mode (priv d) = HWTIMER_MODE_PERIOD"
    "ref_count d \<noteq> 0" "0 \<le> sec" "sec < 15" "0 \<le> usec" "usec < 1000000" "2000 \<le> sec * 1000000 + usec"
  shows "\<exists>t. rt_device_write (timer_ops b) 0 (Timeval_arg sec usec) 8 d = Some (8, d\<lparr>priv := t\<rparr>) \<and>
     freq t = 1000000 \<and> ht_info t = tim_info \<and> ht_mode t = HWTIMER_MODE_PERIOD \<and> 1 \<le> cycles t \<and> reload t = cycles t"
proof -
  let ?t0 = "(timer_stop (priv d))\<lparr>overflow := 0\<rparr>"
  have "freq ?t0 = 1000000" "ht_info ?t0 = tim_info" using assms by simp_all
  from timeout_calc_good [OF this assms(5-9)] obtain k cnt p where
    k: "1 \<le> k" "timeout_calc sec usec ?t0 = Some (cnt, ?t0\<lparr>cycles := k, reload := k, period_sec := p\<rparr>)"
    by (auto simp: good_index_def)
  define t2 where "t2 = snd (timer_start cnt HWTIMER_MODE_PERIOD (?t0\<lparr>cycles := k, reload := k, period_sec := p\<rparr>))"
  have st: "timer_start cnt HWTIMER_MODE_PERIOD (?t0\<lparr>cycles := k, reload := k, period_sec := p\<rparr>) = (RT_EOK, t2)"
    by (simp add: t2_def prod_eq_iff)
  have "rt_device_write (timer_ops b) 0 (Timeval_arg sec usec) 8 d = Some (8, d\<lparr>priv := t2\<rparr>)"
    using assms(3,4) k(2) st
    by (simp add: rt_device_write_def hwtimer_ops_def rt_hwtimer_write_def stm32_hwtimer_ops_def Let_def)
  then show ?thesis using assms k by (intro exI [of _ t2]) (simp add: t2_def)
qed

lemma set_period_mode:
  "rt_device_control (timer_ops b) HWTIMER_CTRL_MODE_SET (Some (Word_arg 2)) d =
     ((RT_EOK, Some (Word_arg 2)), upd_priv (\<lambda>t. t\<lparr>ht_mode := HWTIMER_MODE_PERIOD\<rparr>) d)"
  by (simp add: rt_device_control_def hwtimer_ops_def rt_hwtimer_control_def)

lemma open_device:
  assumes "timer_inv d" "ref_count d = 0"
  shows "\<exists>d1. rt_device_open (timer_ops b) oflag d = Some (RT_EOK, d1) \<and> standalone_inv d1 \<and> ref_count d1 = 1 \<and>
     bit (dev_flag d1) 4 \<and> freq (priv d1) = 1000000 \<and> ht_info (priv d1) = tim_info"
  using assms
  by (simp add: timer_inv_def standalone_inv_def rt_device_open_def device_activate_def hwtimer_ops_def
      rt_hwtimer_init_def rt_hwtimer_open_def stm32_hwtimer_ops_def upd_priv_def Let_def device_mark_open_def tim_info_def)

lemma openTimer_closed:
  assumes "timer3 s = Some d" "timer_inv d" "ref_count d = 0"
  shows "\<exists>d'. my_hwtimer_openTimer b s =
      Some (RT_EOK, s\<lparr>hw_dev := True, ret := RT_EOK, timer3 := Some d', tmode := HWTIMER_MODE_PERIOD, timeout_s := (0, 100 * 1000)\<rparr>)
     \<and> timer_inv d' \<and> ref_count d' = 1"
proof -
  obtain d1 where d1: "rt_device_open (timer_ops b) RT_DEVICE_OFLAG_RDWR d = Some (RT_EOK, d1)" "standalone_inv d1"
    "ref_count d1 = 1" "bit (dev_flag d1) 4" "freq (priv d1) = 1000000" "ht_info (priv d1) = tim_info"
    using open_device [OF assms(2,3)] by blast
  let ?d3 = "upd_priv (\<lambda>t. t\<lparr>ht_mode := HWTIMER_MODE_PERIOD\<rparr>) (d1\<lparr>rx_indicate := Some ''my_timeout_cb''\<rparr>)"
  have w: "freq (priv ?d3) = 1000000" "ht_info (priv ?d3) = tim_info" "ht_mode (priv ?d3) = HWTIMER_MODE_PERIOD" "ref_count ?d3 \<noteq> 0"
    using d1 by (simp_all add: upd_priv_def)
  obtain t where t: "rt_device_write (timer_ops b) 0 (Timeval_arg 0 100000) 8 ?d3 = Some (8, ?d3\<lparr>priv := t\<rparr>)"
    "freq t = 1000000" "ht_info t = tim_info" "ht_mode t = HWTIMER_MODE_PERIOD" "1 \<le> cycles t" "reload t = cycles t"
    using write_timer [OF w, of 0 100000 b] by auto
  have "timer_inv (?d3\<lparr>priv := t\<rparr>)" "ref_count (?d3\<lparr>priv := t\<rparr>) = 1"
    using d1 t by (simp_all add: timer_inv_def standalone_inv_def upd_priv_def)
  moreover have "my_hwtimer_openTimer b s = Some (RT_EOK, s\<lparr>hw_dev := True, ret := RT_EOK, timer3 := Some (?d3\<lparr>priv := t\<rparr>),
      tmode := HWTIMER_MODE_PERIOD, timeout_s := (0, 100 * 1000)\<rparr>)"
    using assms(1) d1(1) t(1)
    by (simp add: my_hwtimer_openTimer_def rt_device_set_rx_indicate_def set_period_mode write_timeout_def)
  ultimately show ?thesis by blast
qed

lemma openTimer_open:
  assumes "timer3 s = Some d" "timer_inv d" "ref_count d = 1"
  shows "my_hwtimer_openTimer b s = Some (- RT_EBUSY, s\<lparr>hw_dev := True, ret := - RT_EBUSY, timer3 := Some d\<rparr>)"
proof -
  have "device_activate (timer_ops b) d = Inr d"
    using assms by (simp add: timer_inv_def device_activate_def)
  then have "rt_device_open (timer_ops b) RT_DEVICE_OFLAG_RDWR d = Some (- RT_EBUSY, d)"
    using assms by (intro ht.open_busy) (simp_all add: timer_inv_def)
  with assms(1) show ?thesis by (simp add: my_hwtimer_openTimer_def)
qed

lemma closeTimer_open:
  assumes "timer3 s = Some d" "timer_inv d" "ref_count d = 1" "hw_dev s"
  shows "\<exists>d'. my_hwtimer_closeTimer b s = Some (RT_EOK, s\<lparr>ret := RT_EOK, timer3 := Some d'\<rparr>) \<and>
     timer_inv d' \<and> ref_count d' = 0"
proof -
  obtain r d' where c: "rt_device_close (timer_ops b) d = (r, d')" by fastforce
  then have "standalone_inv d'" "ref_count d' = 0"
    using ht.close_keeps_inv [of d "stm32_hwtimer_ops (pclk1 b) (pclk2 b)" r d'] assms(2) by (simp_all add: timer_inv_def)
  moreover have "r = RT_EOK" "rx_indicate d' = None" "\<not> bit (dev_flag d') 4" "ht_info (priv d') = tim_info"
    using c assms(2,3)
    by (auto simp: rt_device_close_def hwtimer_ops_def rt_hwtimer_close_def stm32_hwtimer_ops_def upd_priv_def timer_inv_def Let_def)
  ultimately have "timer_inv d'" "ref_count d' = 0" "r = RT_EOK" by (simp_all add: timer_inv_def)
  with c assms(1,4) show ?thesis by (intro exI [of _ d']) (simp add: my_hwtimer_closeTimer_def)
qed

lemma closeTimer_closed:
  assumes "timer3 s = Some d" "ref_count d = 0" "hw_dev s"
  shows "my_hwtimer_closeTimer b s = Some (- RT_ERROR, s\<lparr>ret := - RT_ERROR, timer3 := Some d\<rparr>)"
  using assms by (simp add: my_hwtimer_closeTimer_def rt_device_close_def)

lemma irq_timer_inv:
  assumes "timer_inv d" "TIM_IRQHandler (stm32_hwtimer_ops p1 p2) d = (cb, d')"
  shows "timer_inv d' \<and> ref_count d' = ref_count d \<and> (cb = None \<or> cb = rx_indicate d)"
  using assms
  by (auto simp: TIM_IRQHandler_def HAL_TIM_IRQHandler_def rt_device_hwtimer_isr_def stm32_hwtimer_ops_def upd_priv_def
      timer_inv_def standalone_inv_def Let_def split: if_splits)

section \<open>Pins of the application\<close>

definition pins_ok :: "app \<Rightarrow> bool" where
  "pins_ok s \<longleftrightarrow> hw_pin_ops (hw s) = Some Stm32_pin_ops \<and>
     out_pin (hw s) LED0_PIN \<and> out_pin (hw s) LED1_PIN \<and> out_pin (hw s) BEEP_PIN \<and> out_pin (hw s) Relay_PIN"

abbreviation level :: "int \<Rightarrow> app \<Rightarrow> int" where
  "level pin s \<equiv> stm32_pin_read pin (hw s)"

lemma valid_app_pins [simp]:
  "valid_pin 88" "valid_pin 89" "valid_pin 90" "valid_pin 52" "valid_pin 6" "valid_pin 68" "valid_pin 67"
  by (simp_all add: valid_pin_def)

lemma pin_write_ok [simp]:
  "hw_pin_ops (hw s) = Some Stm32_pin_ops \<Longrightarrow> pin_write p v s = Some (s\<lparr>hw := stm32_pin_write p v (hw s)\<rparr>)"
  by (simp add: pin_write_def rt_pin_write_def with_pin_ops_def)

lemma pin_read_ok [simp]:
  "hw_pin_ops (hw s) = Some Stm32_pin_ops \<Longrightarrow> pin_read p s = Some (level p s)"
  by (simp add: pin_read_def rt_pin_read_def with_pin_ops_def)

lemma level_01: "valid_pin p \<Longrightarrow> stm32_pin_read p h = 0 \<or> stm32_pin_read p h = 1"
  by (simp add: level_read)

lemmas pin_simps = read_write_same read_write_other

section \<open>What the alarm and the actuators keep\<close>

text \<open>The recorded states agree with the hardware: the relay and the emergency light follow their
  states (the light is active low), and while the alarm is off its timer is closed, the buzzer is
  silent and the lamp LED0 is dark.\<close>

definition alarm_inv :: "app \<Rightarrow> bool" where
  "alarm_inv s \<longleftrightarrow> pins_ok s \<and>
     (\<exists>d. timer3 s = Some d \<and> timer_inv d \<and> (\<not> hw_dev s \<longrightarrow> ref_count d = 0) \<and>
          (Beep_State (my_devices s) \<longleftrightarrow> ref_count d = 1)) \<and>
     (\<not> Beep_State (my_devices s) \<longrightarrow> level BEEP_PIN s = PIN_LOW \<and> level LED0_PIN s = PIN_HIGH) \<and>
     (Relay_State (my_devices s) \<longleftrightarrow> level Relay_PIN s = PIN_HIGH) \<and>
     (LED1_State (my_devices s) \<longleftrightarrow> level LED1_PIN s = PIN_LOW)"

text \<open>What an operation of the application leaves alone besides the fields it names.\<close>

lemma relay_change_inv:
  assumes "alarm_inv s"
  shows "\<exists>s'. relay_change st s = Some s' \<and> alarm_inv s' \<and> Relay_State (my_devices s') = st \<and>
     level Relay_PIN s' = (if st then PIN_HIGH else PIN_LOW) \<and>
     s' = s\<lparr>hw := hw s', my_devices := (my_devices s)\<lparr>Relay_State := st\<rparr>\<rparr>"
  using assms
  by (auto simp: alarm_inv_def pins_ok_def relay_change_def Set_Devpro_RelayState_def pin_simps)

lemma light_change_inv:
  assumes "alarm_inv s"
  shows "\<exists>s'. emergency_light_change st s = Some s' \<and> alarm_inv s' \<and> LED1_State (my_devices s') = st \<and>
     level LED1_PIN s' = (if st then PIN_LOW else PIN_HIGH) \<and>
     s' = s\<lparr>hw := hw s', my_devices := (my_devices s)\<lparr>LED1_State := st\<rparr>\<rparr>"
  using assms
  by (auto simp: alarm_inv_def pins_ok_def emergency_light_change_def Set_Devpro_LED1State_def pin_simps)

text \<open>The fields that switching the alarm may change.\<close>

definition same_but_alarm :: "app \<Rightarrow> app \<Rightarrow> bool" where
  "same_but_alarm s s' \<longleftrightarrow>
     s' = s\<lparr>hw := hw s', my_devices := my_devices s', timer3 := timer3 s', hw_dev := hw_dev s', ret := ret s',
            tmode := tmode s', timeout_s := timeout_s s'\<rparr>"

lemma beep_on_inv:
  assumes "alarm_inv s"
  shows "\<exists>s'. beep_change b True s = Some s' \<and> alarm_inv s' \<and> same_but_alarm s s' \<and>
     my_devices s' = (my_devices s)\<lparr>LED0_State := True, Beep_State := True\<rparr> \<and> hw s' = hw s"
proof -
  obtain d where d: "timer3 s = Some d" "timer_inv d" "Beep_State (my_devices s) \<longleftrightarrow> ref_count d = 1"
    using assms by (auto simp: alarm_inv_def)
  from timer_inv_count [OF d(2)] show ?thesis
  proof
    assume "ref_count d = 0"
    from openTimer_closed [OF d(1,2) this, of b] show ?thesis
      using assms by (auto simp: beep_change_def accessor_defs alarm_inv_def pins_ok_def same_but_alarm_def)
  next
    assume r: "ref_count d = 1"
    from openTimer_open [OF d(1,2) this, of b] show ?thesis
      using assms d r by (auto simp: beep_change_def accessor_defs alarm_inv_def pins_ok_def same_but_alarm_def)
  qed
qed

lemma close_any:
  assumes "timer3 s = Some d" "timer_inv d" "\<not> hw_dev s \<longrightarrow> ref_count d = 0"
  shows "\<exists>r d' x. my_hwtimer_closeTimer b s = Some (r, s\<lparr>ret := x, timer3 := Some d'\<rparr>) \<and> timer_inv d' \<and> ref_count d' = 0"
proof (cases "hw_dev s")
  case True
  from timer_inv_count [OF assms(2)] show ?thesis
  proof
    assume "ref_count d = 0"
    from closeTimer_closed [OF assms(1) this True, of b] show ?thesis using assms \<open>ref_count d = 0\<close> by blast
  next
    assume "ref_count d = 1"
    from closeTimer_open [OF assms(1,2) this True, of b] show ?thesis by blast
  qed
next
  case False
  then have "my_hwtimer_closeTimer b s = Some (RT_ERROR, s\<lparr>ret := ret s, timer3 := Some d\<rparr>)"
    using assms(1) by (simp add: my_hwtimer_closeTimer_def)
  with False assms show ?thesis by blast
qed

lemma beep_off_inv:
  assumes "alarm_inv s"
  shows "\<exists>s'. beep_change b False s = Some s' \<and> alarm_inv s' \<and> same_but_alarm s s' \<and>
     my_devices s' = (my_devices s)\<lparr>LED0_State := False, Beep_State := False\<rparr> \<and>
     level BEEP_PIN s' = PIN_LOW \<and> level LED0_PIN s' = PIN_HIGH"
proof -
  obtain d where d: "timer3 s = Some d" "timer_inv d" "\<not> hw_dev s \<longrightarrow> ref_count d = 0"
    using assms by (auto simp: alarm_inv_def)
  from close_any [OF d, of b] obtain r d' x where
    c: "my_hwtimer_closeTimer b s = Some (r, s\<lparr>ret := x, timer3 := Some d'\<rparr>)" "timer_inv d'" "ref_count d' = 0" by blast
  show ?thesis
    using assms c by (auto simp: beep_change_def accessor_defs alarm_inv_def pins_ok_def same_but_alarm_def pin_simps)
qed

text \<open>The timer interrupt toggles the lamp and the buzzer only while the alarm is on.\<close>

lemma tim3_irq_inv:
  assumes "alarm_inv s"
  shows "\<exists>s'. TIM3_IRQHandler b s = Some s' \<and> alarm_inv s' \<and> s' = s\<lparr>hw := hw s', timer3 := timer3 s'\<rparr> \<and>
     (\<not> Beep_State (my_devices s) \<longrightarrow> hw s' = hw s)"
proof -
  obtain d where d: "timer3 s = Some d" "timer_inv d" "\<not> hw_dev s \<longrightarrow> ref_count d = 0" "Beep_State (my_devices s) \<longleftrightarrow> ref_count d = 1"
    using assms by (auto simp: alarm_inv_def)
  obtain cb d' where irq: "TIM_IRQHandler (stm32_hwtimer_ops (pclk1 b) (pclk2 b)) d = (cb, d')" by fastforce
  note t = irq_timer_inv [OF d(2) irq]
  show ?thesis
  proof (cases "cb = Some ''my_timeout_cb''")
    case True
    then have "ref_count d = 1" using t d(2) timer_inv_count [OF d(2)] by (auto simp: timer_inv_def)
    with True assms d t irq show ?thesis
      by (auto simp: TIM3_IRQHandler_def my_timeout_cb_def alarm_inv_def pins_ok_def pin_simps)
  next
    case False
    with assms d t irq show ?thesis by (auto simp: TIM3_IRQHandler_def alarm_inv_def pins_ok_def)
  qed
qed

section \<open>Changing the blink period\<close>

lemma set_timeout_inv:
  assumes "alarm_inv s" "hw_dev s" "Beep_State (my_devices s)" "100 \<le> ms" "ms \<le> 5000"
  shows "\<exists>s'. set_timeout_ms b ms s = Some (ret s, s') \<and> alarm_inv s' \<and> timeout_s s' = timeval_of_ms ms \<and>
     s' = s\<lparr>timer3 := timer3 s', timeout_s := timeout_s s'\<rparr>"
proof -
  obtain d where d: "timer3 s = Some d" "timer_inv d" "ref_count d = 1"
    using assms(1,3) by (auto simp: alarm_inv_def)
  let ?q = "ms div 1000" and ?r = "ms mod 1000 * 1000"
  have r: "0 \<le> ?q" "?q < 15" "0 \<le> ?r" "?r < 1000000" "2000 \<le> ?q * 1000000 + ?r"
  proof -
    have "?q * 1000000 + ?r = ms * 1000" using div_mult_mod_eq [of ms 1000] by linarith
    then show "2000 \<le> ?q * 1000000 + ?r" using assms(4) by linarith
    show "0 \<le> ?q" "?q < 15" using assms(4,5) by linarith+
    show "0 \<le> ?r" "?r < 1000000" using pos_mod_bound [of 1000 ms] by simp_all
  qed
  have tv: "timeval_of_ms ms = (?q, ?r)" using assms(4) by (simp add: timeval_of_ms_def)
  have "freq (priv d) = 1000000" "ht_info (priv d) = tim_info" "ht_mode (priv d) = HWTIMER_MODE_PERIOD" "ref_count d \<noteq> 0"
    using d by (simp_all add: timer_inv_def)
  from write_timer [OF this r, of b] obtain t where
    "rt_device_write (timer_ops b) 0 (Timeval_arg ?q ?r) 8 d = Some (8, d\<lparr>priv := t\<rparr>)" "freq t = 1000000"
    "ht_info t = tim_info" "ht_mode t = HWTIMER_MODE_PERIOD" "1 \<le> cycles t" "reload t = cycles t" by blast
  with d assms show ?thesis
    by (auto simp: set_timeout_ms_def write_timeout_def tv alarm_inv_def pins_ok_def timer_inv_def standalone_inv_def)
qed

lemma timeout_ms_timeval:
  assumes "timeout_s s = timeval_of_ms t" "0 \<le> t" "t \<le> 5000"
  shows "timeout_ms s = t"
proof -
  have "t div 1000 * 1000 + t mod 1000 = t" by simp
  then show ?thesis using assms by (simp add: timeout_ms_def timeval_of_ms_def)
qed

text \<open>While the alarm is on, its period stays adjustable and bounded: starting from a period of \<open>t\<close>
  ms between 100 and 5000, \<open>my_hwtimer_addTime\<close> sets \<open>min 5000 (t + ms)\<close> and \<open>my_hwtimer_subTime\<close>
  sets \<open>max 125 (t - ms)\<close>; both start the timer with it, return the last device status and keep
  the invariant of the alarm.\<close>

theorem alarm_period_adjust:
  assumes "alarm_inv s" "hw_dev s" "Beep_State (my_devices s)" "timeout_s s = timeval_of_ms t" "100 \<le> t" "t \<le> 5000"
    "0 \<le> ms" "ms \<le> 1000000"
  shows "(\<exists>s'. my_hwtimer_addTime b ms s = Some (ret s, s') \<and> alarm_inv s' \<and> timeout_s s' = timeval_of_ms (min 5000 (t + ms))) \<and>
     (\<exists>s'. my_hwtimer_subTime b ms s = Some (ret s, s') \<and> alarm_inv s' \<and> timeout_s s' = timeval_of_ms (max 125 (t - ms)))"
proof -
  have t: "timeout_ms s = t" using assms by (intro timeout_ms_timeval) auto
  have inv: "alarm_inv (s\<lparr>my_hwtimer_temp_time := x\<rparr>)" for x using assms(1) by (simp add: alarm_inv_def pins_ok_def)
  have set: "\<exists>s'. set_timeout_ms b v (s\<lparr>my_hwtimer_temp_time := x\<rparr>) = Some (ret s, s') \<and> alarm_inv s' \<and> timeout_s s' = timeval_of_ms v"
    if "100 \<le> v" "v \<le> 5000" for v x
    using set_timeout_inv [OF inv [of x], of v b] that assms(2,3) by auto
  have "to_s32 (t + ms) = t + ms" "to_s32 (t - ms) = t - ms" using assms(5-8) by simp_all
  then show ?thesis
    using assms(2,5-8) set [of 5000 t] set [of "t + ms" "t + ms"] set [of 125 t] set [of "t - ms" "t - ms"]
    by (simp add: my_hwtimer_addTime_def my_hwtimer_subTime_def t min_def max_def)
qed

section \<open>Initialisation\<close>

lemma mode_attach_on [simp]:
  assumes "hw_pin_ops (hw s) = Some Stm32_pin_ops"
  shows "pin_mode alt p m s = Some (s\<lparr>hw := stm32_pin_mode alt p m (hw s)\<rparr>)"
    "pin_attach p f s = Some (s\<lparr>hw := snd (stm32_pin_attach_irq p PIN_IRQ_MODE_FALLING (Some f) 0 (hw s))\<rparr>)"
    "pin_irq_on stk p s = Some (s\<lparr>hw := snd (stm32_pin_irq_enable stk p PIN_IRQ_ENABLE (hw s))\<rparr>)"
  using assms
  by (simp_all add: pin_mode_def rt_pin_mode_def pin_attach_def rt_pin_attach_irq_def pin_irq_on_def rt_pin_irq_enable_def
      with_pin_ops_def split_beta)

lemmas config_simps = pin_mode_output mode_other irq_on_other [unfolded One_nat_def]
  config_pin_ops(3) [unfolded One_nat_def] pin_simps

text \<open>Whatever the pins were, initialisation makes the four actuator pins outputs, with both lamps dark,
  the buzzer silent and the relay off.\<close>

lemma gpio_init_levels:
  assumes "hw_pin_ops (hw s) = Some Stm32_pin_ops"
  shows "\<exists>h. my_GPIO_Init alt stk s = Some (s\<lparr>hw := h\<rparr>) \<and> pins_ok (s\<lparr>hw := h\<rparr>) \<and> stm32_pin_read LED0_PIN h = PIN_HIGH \<and>
     stm32_pin_read LED1_PIN h = PIN_HIGH \<and> stm32_pin_read BEEP_PIN h = PIN_LOW \<and> stm32_pin_read Relay_PIN h = PIN_LOW"
  using assms
  by (simp add: my_GPIO_Init_def pins_ok_def config_simps) (rule exI, rule conjI, rule refl, simp add: config_simps)

text \<open>The state before \<open>main\<close>, with the pins initialised, satisfies the invariant of the alarm.\<close>

lemma boot_timer:
  "\<exists>d. timer3 (app_boot h p) = Some d \<and> timer_inv d \<and> ref_count d = 0"
  by (simp add: app_boot_def stm32_hwtimer_init_def stm32_hwtimer_obj_def rt_device_hwtimer_register_def
      rt_device_register_def rt_device_find_def upd_priv_def Let_def timer_inv_def standalone_inv_def)

lemma gpio_init_inv:
  assumes "hw_pin_ops h = Some Stm32_pin_ops"
  shows "\<exists>h'. my_GPIO_Init alt stk (app_boot h p) = Some ((app_boot h p)\<lparr>hw := h'\<rparr>) \<and> alarm_inv ((app_boot h p)\<lparr>hw := h'\<rparr>)"
proof -
  have "hw_pin_ops (hw (app_boot h p)) = Some Stm32_pin_ops" using assms by (simp add: app_boot_def)
  from gpio_init_levels [OF this, of alt stk] boot_timer [of h p] show ?thesis
    by (auto simp: alarm_inv_def app_boot_def devices_boot_def)
qed

definition app_ready :: app where
  "app_ready = the (my_GPIO_Init 0 any_init (app_boot (snd (rt_hw_pin_init reset_gpio)) None))"

lemma app_ready_inv: "alarm_inv app_ready"
proof -
  have "hw_pin_ops (snd (rt_hw_pin_init reset_gpio)) = Some Stm32_pin_ops"
    by (simp add: rt_hw_pin_init_def rt_device_pin_register_def)
  from gpio_init_inv [OF this, of 0 any_init None] show ?thesis by (auto simp: app_ready_def)
qed

lemma alarm_on_exists:
  "\<exists>s. alarm_inv s \<and> hw_dev s \<and> Beep_State (my_devices s) \<and> timeout_s s = (0, 100000)"
proof -
  obtain d where d: "timer3 app_ready = Some d" "timer_inv d" "Beep_State (my_devices app_ready) \<longleftrightarrow> ref_count d = 1"
    using app_ready_inv by (auto simp: alarm_inv_def)
  have "\<not> Beep_State (my_devices app_ready)"
    using gpio_init_inv [of "snd (rt_hw_pin_init reset_gpio)" 0 any_init None]
    by (auto simp: app_ready_def rt_hw_pin_init_def rt_device_pin_register_def app_boot_def devices_boot_def)
  with d have "ref_count d = 0" using timer_inv_count by blast
  from openTimer_closed [OF d(1,2) this, of f407_board] beep_on_inv [OF app_ready_inv, of f407_board] show ?thesis
    by (auto simp: beep_change_def accessor_defs) (rule exI, rule conjI, assumption, simp)
qed

theorem alarm_period_adjust_witness:
  "\<exists>s. alarm_inv s \<and> timeout_s s = (0, 100000) \<and>
     (\<exists>s'. my_hwtimer_addTime f407_board 1400 s = Some (ret s, s') \<and> alarm_inv s' \<and> timeout_s s' = (1, 500000)) \<and>
     (\<exists>s'. my_hwtimer_subTime f407_board 1400 s = Some (ret s, s') \<and> alarm_inv s' \<and> timeout_s s' = (0, 125000))"
proof -
  obtain s where s: "alarm_inv s" "hw_dev s" "Beep_State (my_devices s)" "timeout_s s = (0, 100000)"
    using alarm_on_exists by blast
  have "timeout_s s = timeval_of_ms 100" using s(4) by (simp add: timeval_of_ms_def)
  from alarm_period_adjust [OF s(1-3) this, of 1400 f407_board] s(1,4) show ?thesis
    by (simp add: timeval_of_ms_def) blast
qed

end
