(* ===== verification/Door.thy ===== *)
theory Door
  imports App_State
begin

text \<open>
  The escape door's servo (\<open>src/smart-building-mcu/applications/src/my_pwm_ctrl_door.c\<close>) and the
  LED sample on the same PWM device (\<open>my_pwm.c\<close>). The pulse width is computed in \<open>double\<close>
  arithmetic and truncated.
\<close>

section \<open>The servo\<close>

abbreviation (input) PWM_DEV_CHANNEL :: nat where "PWM_DEV_CHANNEL \<equiv> 1"

text \<open>The device that the pointer \<open>pwm_dev\<close> designates.\<close>

definition door_pwm :: "app \<Rightarrow> pwm_dev option" where
  "door_pwm s = (if pwm_dev s then pwm4 s else None)"

definition my_pwm_init :: "board \<Rightarrow> app \<Rightarrow> app" where
  "my_pwm_init b s =
     (let s1 = s\<lparr>pwm_period := 20 * 1000000, pwm_pulse := of_int (fl_trunc (f64 (0.5 * 1000000)))\<rparr>
      in case pwm4 s1 of
           None \<Rightarrow> s1\<lparr>pwm_dev := False\<rparr>
         | Some d \<Rightarrow>
             (let (r1, p1) = rt_pwm_set (pwm_ctl b) PWM_DEV_CHANNEL (unat (pwm_period s1)) (unat (pwm_pulse s1)) (Some d);
                  (r2, p2) = rt_pwm_enable (pwm_ctl b) PWM_DEV_CHANNEL p1
              in s1\<lparr>pwm_dev := True, pwm4 := p2\<rparr>))"

definition servo_angle :: "u8 \<Rightarrow> u8" where
  "servo_angle angles =
     (let a1 = (if angles \<le> 0 then 5 else angles) in if a1 \<ge> 180 then 170 else a1)"

text \<open>\<open>1000000 * (0.5 + angles * (2.5 - 0.5) / 180.0)\<close>, every operation rounded, and its conversion to
  \<open>uint32_t\<close>.\<close>

definition servo_ns :: "rat \<Rightarrow> rat" where
  "servo_ns a = f64 (1000000 * f64 (1 / 2 + f64 (f64 (a * f64 (5 / 2 - 1 / 2)) / 180)))"

definition servo_pulse :: "u8 \<Rightarrow> nat" where
  "servo_pulse angles = nat (fl_trunc (servo_ns (of_nat (unat angles))) mod 2 ^ 32)"

definition my_pwm_set_angle :: "board \<Rightarrow> u8 \<Rightarrow> app \<Rightarrow> app" where
  "my_pwm_set_angle b angles s =
     (let pulses = servo_pulse (servo_angle angles);
          (r, p) = rt_pwm_set (pwm_ctl b) PWM_DEV_CHANNEL (unat (pwm_period s)) pulses (door_pwm s)
      in if pwm_dev s then s\<lparr>pwm4 := p\<rparr> else s)"

definition my_pwm_angle_change :: "board \<Rightarrow> bool \<Rightarrow> u8 \<Rightarrow> app \<Rightarrow> app" where
  "my_pwm_angle_change b direction angles s =
     (let a = (if direction then (if angle s < 180 then angle s + angles else angle s)
               else (if angle s > 0 then angle s - angles else angle s));
          s1 = Set_Devpro_DoorState direction (s\<lparr>angle := a\<rparr>)
      in my_pwm_set_angle b (angle s1) s1)"

section \<open>The LED sample\<close>

text \<open>One turn of the endless loop of \<open>pwm_led_sample\<close> on the device \<open>pwm_dev2\<close>, which is \<open>pwm4\<close>: the
  local variables are the direction and the pulse width.\<close>

definition pwm_led_next :: "nat \<Rightarrow> u32 \<times> u32 \<Rightarrow> u32 \<times> u32" where
  "pwm_led_next prd dp =
     (let (dir, pul) = dp;
          pul1 = (if dir \<noteq> 0 then pul + 5000 else pul - 5000);
          dir1 = (if unat pul1 \<ge> prd then 0 else dir);
          dir2 = (if pul1 = 0 then 1 else dir1)
      in (dir2, pul1))"

definition pwm_led_turn :: "board \<Rightarrow> (u32 \<times> u32) \<times> app \<Rightarrow> (u32 \<times> u32) \<times> app" where
  "pwm_led_turn b ds =
     (let (dp, s) = ds; dp1 = pwm_led_next 2000000 dp
      in (dp1, s\<lparr>pwm4 := snd (rt_pwm_set (pwm_ctl b) PWM_DEV_CHANNEL 2000000 (unat (snd dp1)) (pwm4 s))\<rparr>))"

definition pwm_led_start :: "board \<Rightarrow> app \<Rightarrow> int + (u32 \<times> u32) \<times> app" where
  "pwm_led_start b s =
     (case pwm4 s of
        None \<Rightarrow> Inl RT_ERROR
      | Some d \<Rightarrow> Inr ((1, 0), s\<lparr>pwm4 := snd (rt_pwm_enable (pwm_ctl b) PWM_DEV_CHANNEL
                                     (snd (rt_pwm_set (pwm_ctl b) PWM_DEV_CHANNEL 2000000 0 (Some d))))\<rparr>))"

section \<open>Pulse widths\<close>

lemma f64_error: "0 < x \<Longrightarrow> x * (1 - 1 / 10 ^ 15) \<le> f64 x \<and> f64 x \<le> x * (1 + 1 / 10 ^ 15)"
proof -
  assume x: "0 < x"
  then have "\<bar>f64 x - x\<bar> \<le> x * 2 powi (- 53)" by (rule fl_error) simp
  also have "(2 :: rat) powi (- 53) \<le> 1 / 10 ^ 15" by (simp add: power_int_def power_one_over)
  then have "x * 2 powi (- 53) \<le> x * (1 / 10 ^ 15)" using x by (intro mult_left_mono) auto
  finally have a: "\<bar>f64 x - x\<bar> \<le> x * (1 / 10 ^ 15)" .
  define e where "e = x * (1 / 10 ^ 15)"
  have "x * (1 - 1 / 10 ^ 15) = x - e" "x * (1 + 1 / 10 ^ 15) = x + e"
    by (simp_all add: e_def right_diff_distrib distrib_left del: mult_cancel_left)
  then show ?thesis using a unfolding e_def [symmetric] by (simp only: abs_le_iff) linarith
qed

lemma f64_small_int: "0 < k \<Longrightarrow> k < 2 ^ 53 \<Longrightarrow> f64 (of_int k) = of_int k"
  using fl_exact [of k 53 0] by simp

lemma servo_ns_alt: "servo_ns a = f64 (1000000 * f64 (1 / 2 + f64 (f64 (a * 2) / 180)))"
  using f64_small_int [of 2] by (simp add: servo_ns_def)

text \<open>The pulse is the exact formula up to a relative error of \<open>4 / 10 ^ 15\<close>.\<close>

lemma servo_ns_error:
  assumes "0 < a"
  defines "x \<equiv> 1000000 * (1 / 2 + a / 90)"
  shows "x * (1 - 1 / 10 ^ 14) \<le> servo_ns a \<and> servo_ns a \<le> x * (1 + 1 / 10 ^ 14)"
proof -
  define p where "p = f64 (a * 2)"
  define q where "q = f64 (p / 180)"
  define r where "r = f64 (1 / 2 + q)"
  have p: "a * 2 * (1 - 1 / 10 ^ 15) \<le> p" "p \<le> a * 2 * (1 + 1 / 10 ^ 15)"
    using f64_error [of "a * 2"] assms by (simp_all add: p_def)
  have p0: "0 < p" using fl_positive [of "a * 2" 53] assms by (simp add: p_def)
  have q: "p / 180 * (1 - 1 / 10 ^ 15) \<le> q" "q \<le> p / 180 * (1 + 1 / 10 ^ 15)"
    using f64_error [of "p / 180"] p0 by (simp_all add: q_def)
  have q0: "0 < q" using fl_positive [of "p / 180" 53] p0 by (simp add: q_def)
  have r: "(1 / 2 + q) * (1 - 1 / 10 ^ 15) \<le> r" "r \<le> (1 / 2 + q) * (1 + 1 / 10 ^ 15)"
    using f64_error [of "1 / 2 + q"] q0 by (simp_all add: r_def)
  have r0: "0 < r" using fl_positive [of "1 / 2 + q" 53] q0 by (simp add: r_def)
  have s: "1000000 * r * (1 - 1 / 10 ^ 15) \<le> servo_ns a" "servo_ns a \<le> 1000000 * r * (1 + 1 / 10 ^ 15)"
    using f64_error [of "1000000 * r"] r0 by (simp_all add: servo_ns_alt p_def q_def r_def)
  show ?thesis unfolding x_def using p q r s assms(1) by (simp add: algebra_simps)
qed

lemma servo_ns_90: "servo_ns 90 = 1500000"
proof -
  have ints: "f64 180 = 180" "f64 1 = 1" "f64 1500000 = 1500000"
    using f64_small_int [of 180] f64_small_int [of 1] f64_small_int [of 1500000] by simp_all
  have half: "f64 (3 / 2) = 3 / 2" using fl_exact [of 3 53 "- 1"] by (simp add: power_int_def)
  have "servo_ns 90 = f64 (1000000 * f64 (3 / 2))" by (simp add: servo_ns_alt ints)
  then show ?thesis unfolding half using ints by simp
qed

lemma fl_trunc_eq: "of_int k \<le> x \<Longrightarrow> x < of_int k + 1 \<Longrightarrow> 0 \<le> k \<Longrightarrow> fl_trunc x = k"
proof -
  assume x: "of_int k \<le> x" "x < of_int k + 1" and "0 \<le> k"
  then have "0 \<le> (of_int k :: rat)" by simp
  with x have "\<not> x < 0" by linarith
  moreover have "\<lfloor>x\<rfloor> = k" using x by linarith
  ultimately show ?thesis by (simp add: fl_trunc_def)
qed

lemma servo_ns_values:
  "fl_trunc (servo_ns 1) = 511111" "fl_trunc (servo_ns 5) = 555555" "fl_trunc (servo_ns 90) = 1500000"
  "fl_trunc (servo_ns 170) = 2388888" "fl_trunc (servo_ns 179) = 2488888"
  using servo_ns_error [of 1] servo_ns_error [of 5] servo_ns_error [of 170] servo_ns_error [of 179]
  by (auto intro!: fl_trunc_eq simp: servo_ns_90)

lemma servo_ns_mono:
  assumes "0 < a" "a \<le> c"
  shows "servo_ns a \<le> servo_ns c" "0 < servo_ns a"
proof -
  define f where "f x = f64 (f64 (x * 2) / 180)" for x :: rat
  have p1: "0 < f64 (a * 2)" using assms by (intro fl_positive) auto
  have m1: "f64 (a * 2) \<le> f64 (c * 2)" using assms by (intro fl_mono) auto
  have p2: "0 < f a" unfolding f_def using p1 by (intro fl_positive) auto
  have m2: "f a \<le> f c" unfolding f_def using p1 m1 by (intro fl_mono) auto
  have p3: "0 < f64 (1 / 2 + f a)" using p2 by (intro fl_positive) auto
  have m3: "f64 (1 / 2 + f a) \<le> f64 (1 / 2 + f c)" using p2 m2 by (intro fl_mono) auto
  show "servo_ns a \<le> servo_ns c" unfolding servo_ns_alt f_def [symmetric] using p3 m3 by (intro fl_mono) auto
  show "0 < servo_ns a" unfolding servo_ns_alt f_def [symmetric] using p3 by (intro fl_positive) auto
qed

lemma fl_trunc_mono: "0 < x \<Longrightarrow> x \<le> y \<Longrightarrow> fl_trunc x \<le> fl_trunc y"
  by (simp add: fl_trunc_def floor_mono)

lemma servo_angle_range: "1 \<le> unat (servo_angle a) \<and> unat (servo_angle a) \<le> 179"
proof -
  have "a = 0 \<or> 0 < unat a" by (metis unat_eq_zero gr0I)
  then show ?thesis by (auto simp: servo_angle_def Let_def word_le_nat_alt word_less_nat_alt)
qed

text \<open>C16: For every angle the servo is commanded to, the pulse width lies between 0.511111 ms and
  2.488888 ms, inside the 0.5 ms to 2.5 ms range of the servo; 0 is sent as 5 degrees, 90 as 1.5 ms
  and 180 and above as 170 degrees.\<close>

theorem servo_pulse_range:
  "511111 \<le> servo_pulse (servo_angle a) \<and> servo_pulse (servo_angle a) \<le> 2488888 \<and>
   servo_pulse (servo_angle 0) = 555555 \<and> servo_pulse (servo_angle 90) = 1500000 \<and> servo_pulse (servo_angle 180) = 2388888"
proof -
  define x :: rat where "x = of_nat (unat (servo_angle a))"
  have "(of_nat 1 :: rat) \<le> x" "x \<le> of_nat 179"
    unfolding x_def of_nat_le_iff using servo_angle_range [of a] by blast+
  then have x: "1 \<le> x" "x \<le> 179" by simp_all
  have "servo_ns 1 \<le> servo_ns x" "0 < servo_ns 1" "servo_ns x \<le> servo_ns 179" "0 < servo_ns x"
    using servo_ns_mono [of 1 x] servo_ns_mono [of x 179] x by auto
  then have t: "511111 \<le> fl_trunc (servo_ns x)" "fl_trunc (servo_ns x) \<le> 2488888"
    using fl_trunc_mono [of "servo_ns 1" "servo_ns x"] fl_trunc_mono [of "servo_ns x" "servo_ns 179"] servo_ns_values by simp_all
  then have "servo_pulse (servo_angle a) = nat (fl_trunc (servo_ns x))" by (simp add: servo_pulse_def x_def)
  moreover have "servo_angle 0 = 5" "servo_angle 90 = 90" "servo_angle 180 = 170" by (simp_all add: servo_angle_def)
  moreover have "511111 \<le> nat (fl_trunc (servo_ns x))" "nat (fl_trunc (servo_ns x)) \<le> 2488888" using t by linarith+
  ultimately show ?thesis using servo_ns_values by (simp add: servo_pulse_def)
qed

section \<open>Opening and closing the door\<close>

lemma set_angle_frame [simp]:
  "angle (my_pwm_set_angle b a s) = angle s" "my_devices (my_pwm_set_angle b a s) = my_devices s"
  "hw (my_pwm_set_angle b a s) = hw s" "my_environment (my_pwm_set_angle b a s) = my_environment s"
  "my_thresholds (my_pwm_set_angle b a s) = my_thresholds s" "published (my_pwm_set_angle b a s) = published s"
  "timer3 (my_pwm_set_angle b a s) = timer3 s" "hw_dev (my_pwm_set_angle b a s) = hw_dev s"
  by (simp_all add: my_pwm_set_angle_def split_beta Let_def)

definition door_angle :: "bool \<Rightarrow> u8 \<Rightarrow> u8 \<Rightarrow> u8" where
  "door_angle direction angles a =
     (if direction then (if a < 180 then a + angles else a) else (if a > 0 then a - angles else a))"

lemma angle_change_fields [simp]:
  "angle (my_pwm_angle_change b direction angles s) = door_angle direction angles (angle s)"
  "my_devices (my_pwm_angle_change b direction angles s) = (my_devices s)\<lparr>Door_State := direction\<rparr>"
  "hw (my_pwm_angle_change b direction angles s) = hw s"
  "my_environment (my_pwm_angle_change b direction angles s) = my_environment s"
  "my_thresholds (my_pwm_angle_change b direction angles s) = my_thresholds s"
  "published (my_pwm_angle_change b direction angles s) = published s"
  "timer3 (my_pwm_angle_change b direction angles s) = timer3 s"
  "hw_dev (my_pwm_angle_change b direction angles s) = hw_dev s"
  by (simp_all add: my_pwm_angle_change_def Let_def Set_Devpro_DoorState_def door_angle_def)

lemma door_angle_90:
  "a \<in> {0, 90, 180} \<Longrightarrow> door_angle direction 90 a \<in> {0, 90, 180}"
  by (auto simp: door_angle_def)

fun door_run :: "board \<Rightarrow> bool list \<Rightarrow> app \<Rightarrow> app" where
  "door_run b [] s = s"
| "door_run b (d # ds) s = door_run b ds (my_pwm_angle_change b d 90 s)"

lemma door_run_angle: "angle s \<in> {0, 90, 180} \<Longrightarrow> angle (door_run b ds s) \<in> {0, 90, 180}"
proof (induction ds arbitrary: s)
  case (Cons d ds)
  have "angle (my_pwm_angle_change b d 90 s) \<in> {0, 90, 180}"
    unfolding angle_change_fields by (rule door_angle_90 [OF Cons.prems])
  from Cons.IH [OF this] show ?case by simp
qed simp

lemma door_run_alternate:
  assumes "angle s = 0"
  shows "angle (door_run b (concat (replicate n [True, False])) s) = 0"
  using assms by (induction n arbitrary: s) (simp_all add: door_angle_def)

lemma door_run_append: "door_run b (xs @ ys) s = door_run b ys (door_run b xs s)"
  by (induction xs arbitrary: s) simp_all

text \<open>Commanded in steps of 90 degrees from a closed door, the angle is always 0, 90 or 180 (the
  eight-bit variable does not wrap); when opening and closing alternate, the door is back at 0 after
  every close and at 90 after every open.\<close>

theorem door_angle_steps:
  assumes "angle s = 0"
  shows "angle (door_run b ds s) \<in> {0, 90, 180} \<and>
     angle (door_run b (concat (replicate n [True, False])) s) = 0 \<and>
     angle (door_run b (concat (replicate n [True, False]) @ [True]) s) = 90"
proof (intro conjI)
  show "angle (door_run b ds s) \<in> {0, 90, 180}" using assms by (intro door_run_angle) simp
qed (simp_all add: door_run_alternate [OF assms] door_run_append door_angle_def)

theorem door_angle_steps_witness:
  "angle (door_run f407_board [True, True, True, False] (app_boot reset_gpio None)) \<in> {0, 90, 180} \<and>
   angle (door_run f407_board (concat (replicate 2 [True, False]) @ [True]) (app_boot reset_gpio None)) = 90"
proof -
  have "angle (app_boot reset_gpio None) = 0" by (simp add: app_boot_def)
  from door_angle_steps [OF this] show ?thesis by blast
qed

text \<open>The recorded door state is the last command, not the position: after two opens and one close
  the door is recorded closed while the servo angle is 90 degrees and the pulse is that of the open door.\<close>

theorem door_state_diverges:
  "\<exists>ds. \<forall>s. angle s = 0 \<longrightarrow>
     \<not> Door_State (my_devices (door_run b ds s)) \<and> angle (door_run b ds s) = 90 \<and>
     servo_pulse (servo_angle (angle (door_run b ds s))) = servo_pulse (servo_angle (angle (door_run b [True] s)))"
  by (intro exI [of _ "[True, True, False]"]) (simp add: door_angle_def)

theorem door_state_diverges_witness:
  "\<exists>ds. \<not> Door_State (my_devices (door_run f407_board ds (app_boot reset_gpio None))) \<and>
     angle (door_run f407_board ds (app_boot reset_gpio None)) = 90"
proof -
  have "angle (app_boot reset_gpio None) = 0" by (simp add: app_boot_def)
  then show ?thesis using door_state_diverges [of f407_board] by blast
qed

section \<open>The LED sample's triangle\<close>

definition triangle :: "nat \<Rightarrow> nat" where
  "triangle n = (let m = n mod 800 in 5000 * (if m \<le> 400 then m else 800 - m))"

definition rising :: "nat \<Rightarrow> u32" where
  "rising n = (if n mod 800 < 400 then 1 else 0)"

lemma led_next_of_nat:
  assumes "pul \<le> 2000000" "dir = 0 \<longrightarrow> 5000 \<le> pul" "dir \<noteq> 0 \<longrightarrow> pul < 2000000"
  shows "pwm_led_next 2000000 (dir, of_nat pul) =
     (let p = (if dir \<noteq> 0 then pul + 5000 else pul - 5000)
      in (if p = 0 then 1 else if 2000000 \<le> p then 0 else dir, of_nat p))"
proof -
  define p where "p = (if dir \<noteq> 0 then pul + 5000 else pul - 5000)"
  have "p < 2 ^ 32" using assms by (auto simp: p_def)
  then have u: "unat (of_nat p :: u32) = p" by (simp add: unat_of_nat)
  then have "(of_nat p :: u32) = 0 \<longleftrightarrow> p = 0" by (metis unat_eq_zero)
  moreover have "(if dir \<noteq> 0 then of_nat pul + 5000 else of_nat pul - 5000) = (of_nat p :: u32)"
    using assms by (simp add: p_def of_nat_diff)
  ultimately show ?thesis using u unfolding pwm_led_next_def p_def [symmetric] by (simp add: Let_def)
qed

lemma triangle_step: "pwm_led_next 2000000 (rising n, of_nat (triangle n)) = (rising (Suc n), of_nat (triangle (Suc n)))"
proof -
  define m where "m = n mod 800"
  have m: "m < 800" by (simp add: m_def)
  have next_m: "Suc n mod 800 = (if m = 799 then 0 else Suc m)" by (simp add: m_def mod_Suc)
  have t: "triangle n = 5000 * (if m \<le> 400 then m else 800 - m)" "rising n = (if m < 400 then 1 else 0)"
    by (simp_all add: triangle_def rising_def m_def Let_def)
  show ?thesis
  proof (cases "m < 400")
    case True
    then have "pwm_led_next 2000000 (1, of_nat (5000 * m)) = (if m = 399 then 0 else 1, of_nat (5000 * m + 5000))"
      by (subst led_next_of_nat) auto
    with True t next_m show ?thesis by (auto simp: triangle_def rising_def Let_def)
  next
    case False
    then have "triangle n = 5000 * (800 - m)" using t by auto
    moreover have "pwm_led_next 2000000 (0, of_nat (5000 * (800 - m))) =
        (if m = 799 then 1 else 0, of_nat (5000 * (800 - m) - 5000))"
      using False m by (subst led_next_of_nat) auto
    moreover have "5000 * (800 - m) - 5000 = triangle (Suc n)" "rising (Suc n) = (if m = 799 then 1 else 0)"
      using False m next_m by (auto simp: triangle_def rising_def Let_def)
    ultimately show ?thesis using False t by simp
  qed
qed

text \<open>The LED sample's loop computes a triangle wave: its \<open>n\<close>-th pulse is 5000 ns times the distance
  of \<open>n\<close> from the nearest multiple of 800, whatever the PWM device does, so the unsigned pulse never
  wraps below zero or exceeds the period of 2 ms.\<close>

theorem led_sample_triangle:
  "fst ((pwm_led_turn b ^^ n) ((1, 0), s)) = (rising n, of_nat (triangle n)) \<and> triangle n \<le> 2000000"
proof -
  have turn: "fst (pwm_led_turn b ds) = pwm_led_next 2000000 (fst ds)" for ds
    by (simp add: pwm_led_turn_def split_beta Let_def)
  have "fst ((pwm_led_turn b ^^ n) ((1, 0), s)) = (rising n, of_nat (triangle n))"
  proof (induction n)
    case 0
    then show ?case by (simp add: rising_def triangle_def)
  next
    case (Suc n)
    then show ?case using triangle_step [of n] by (simp add: turn)
  qed
  moreover have "triangle n \<le> 2000000" by (auto simp: triangle_def Let_def)
  ultimately show ?thesis by blast
qed

end
