(* ===== verification/Cstring.thy ===== *)
theory Cstring
  imports Mcu_Prelude "HOL-Library.Sublist"
begin

text \<open>
  The part of the C library that the application's text handling relies on: printing and reading
  decimal numbers (\<open>sprintf\<close> with \<open>%d\<close>, \<open>strtoul\<close> in base 10, \<open>sscanf\<close> with \<open>%d\<close>),
  \<open>strtok\<close> on a character array, and \<open>fgets\<close>. A C string is the list of its characters without the
  terminating zero; a character array is a list of fixed length, a pointer into it an offset.

  Behaviour that the C standard leaves undefined is a value of \<open>c_error\<close>: the operation that
  meets it ends with \<open>Inl\<close>.
\<close>

section \<open>Errors and characters\<close>

datatype c_error = Buffer_Overflow | Null_Deref | Uninitialised | Use_After_Free | Double_Free | Assertion_Failed

abbreviation (input) NUL :: char where "NUL \<equiv> CHR 0x00"
abbreviation (input) NL :: char where "NL \<equiv> CHR 0x0A"

definition code_of :: "char \<Rightarrow> nat" where
  "code_of c = of_char c"

definition digit :: "nat \<Rightarrow> char" where
  "digit d = char_of (48 + d)"

definition isdigit :: "char \<Rightarrow> bool" where
  "isdigit c \<longleftrightarrow> 48 \<le> code_of c \<and> code_of c \<le> 57"

definition isspace :: "char \<Rightarrow> bool" where
  "isspace c \<longleftrightarrow> code_of c = 32 \<or> 9 \<le> code_of c \<and> code_of c \<le> 13"

section \<open>Printing\<close>

function dec :: "nat \<Rightarrow> string" where
  "dec n = (if n < 10 then [digit n] else dec (n div 10) @ [digit (n mod 10)])"
  by pat_completeness auto
termination by (relation "measure id") auto

declare dec.simps [simp del]

definition fmt_d :: "int \<Rightarrow> string" where
  "fmt_d i = (if i < 0 then CHR ''-'' # dec (nat (- i)) else dec (nat i))"

text \<open>Writing a string and its terminating zero to an array of \<open>n\<close> characters.\<close>

definition sprintf_buf :: "nat \<Rightarrow> string \<Rightarrow> c_error + string" where
  "sprintf_buf n txt = (if length txt < n then Inr txt else Inl Buffer_Overflow)"

section \<open>Reading\<close>

definition undec :: "string \<Rightarrow> nat" where
  "undec ds = foldl (\<lambda>v c. 10 * v + (code_of c - 48)) 0 ds"

text \<open>Both readers skip white space and accept a sign; \<open>strtoul\<close> saturates at the largest 32-bit
  number, and negates modulo \<open>2 ^ 32\<close>.\<close>

definition read_sign :: "string \<Rightarrow> bool \<times> string" where
  "read_sign s =
     (let t = dropWhile isspace s
      in case t of [] \<Rightarrow> (False, [])
         | c # r \<Rightarrow> if c = CHR ''-'' then (True, r) else if c = CHR ''+'' then (False, r) else (False, t))"

definition strtoul :: "string \<Rightarrow> nat" where
  "strtoul s =
     (let (neg, t) = read_sign s; v = undec (takeWhile isdigit t)
      in if v \<ge> 2 ^ 32 then 2 ^ 32 - 1 else if neg then (2 ^ 32 - v) mod 2 ^ 32 else v)"

text \<open>The number of digits is limited by the caller's line buffer, so the value fits an \<open>int\<close>.\<close>

definition sscanf_d :: "string \<Rightarrow> int option" where
  "sscanf_d s =
     (let (neg, t) = read_sign s; ds = takeWhile isdigit t
      in if ds = [] then None else Some (if neg then - int (undec ds) else int (undec ds)))"

section \<open>Arrays of characters\<close>

definition cstr_at :: "nat \<Rightarrow> char list \<Rightarrow> string" where
  "cstr_at p buf = takeWhile (\<lambda>c. c \<noteq> NUL) (drop p buf)"

text \<open>\<open>strcpy(buf, txt)\<close> into an array.\<close>

definition strcpy_buf :: "char list \<Rightarrow> string \<Rightarrow> c_error + char list" where
  "strcpy_buf buf txt =
     (if length txt < length buf then Inr (memcpy_at buf 0 (txt @ [NUL]) (length txt + 1)) else Inl Buffer_Overflow)"

text \<open>One call of \<open>strtok\<close>: \<open>start\<close> is its argument, or the saved position when the argument is null.
  The result is the token, the new saved position and the array, in which the delimiter after the
  token is overwritten.\<close>

definition strtok :: "string \<Rightarrow> nat option \<Rightarrow> char list \<Rightarrow> nat option \<times> nat option \<times> char list" where
  "strtok delim start buf =
     (case start of
        None \<Rightarrow> (None, None, buf)
      | Some p \<Rightarrow>
          (let p1 = p + length (takeWhile (\<lambda>c. c \<in> set delim) (drop p buf))
           in if p1 \<ge> length buf \<or> buf ! p1 = NUL then (None, None, buf)
              else let p2 = p1 + length (takeWhile (\<lambda>c. c \<noteq> NUL \<and> c \<notin> set delim) (drop p1 buf))
                   in if p2 < length buf \<and> buf ! p2 \<noteq> NUL then (Some p1, Some (p2 + 1), buf[p2 := NUL])
                      else (Some p1, None, buf)))"

text \<open>\<open>arr[i] = strtok(..); while (arr[i] != NULL) arr[++i] = strtok(NULL, ..);\<close> on an array of
  pointers.\<close>

function tok_loop ::
  "string \<Rightarrow> nat \<Rightarrow> nat option list \<Rightarrow> nat option \<Rightarrow> char list \<Rightarrow> c_error + nat \<times> nat option list \<times> char list" where
  "tok_loop delim i arr start buf =
     (if i < length arr then
        (let (t, save, buf1) = strtok delim start buf; arr1 = arr[i := t]
         in if t = None then Inr (i, arr1, buf1) else tok_loop delim (i + 1) arr1 save buf1)
      else Inl Buffer_Overflow)"
  by pat_completeness auto
termination by (relation "measure (\<lambda>(delim, i, arr, start, buf). length arr - i)") auto

declare tok_loop.simps [simp del]

text \<open>\<open>fgets(line, n, fp)\<close>: the characters read, and the new position; \<open>None\<close> at the end of the file.\<close>

definition line_of :: "string \<Rightarrow> string" where
  "line_of s = takeWhile (\<lambda>c. c \<noteq> NL) s @ (if NL \<in> set s then [NL] else [])"

definition fgets :: "nat \<Rightarrow> string \<Rightarrow> nat \<Rightarrow> (string \<times> nat) option" where
  "fgets n content pos =
     (if pos \<ge> length content then None
      else let l = line_of (take (n - 1) (drop pos content)) in Some (l, pos + length l))"

section \<open>Decimal numbers\<close>

lemma code_char [simp]: "n < 256 \<Longrightarrow> code_of (char_of n) = n"
  by (simp add: code_of_def)

lemma isdigit_digit [simp]: "d < 10 \<Longrightarrow> isdigit (digit d)"
  by (simp add: isdigit_def digit_def)

lemma code_digit [simp]: "d < 10 \<Longrightarrow> code_of (digit d) = 48 + d"
  by (simp add: digit_def)

lemma dec_digits: "c \<in> set (dec n) \<Longrightarrow> isdigit c"
  by (induction n rule: dec.induct) (subst (asm) (2) dec.simps, auto split: if_splits)

lemma dec_nonempty [simp]: "dec n \<noteq> []"
  by (subst dec.simps) simp

lemma undec_append: "undec (xs @ [c]) = 10 * undec xs + (code_of c - 48)"
  by (simp add: undec_def)

lemma undec_dec [simp]: "undec (dec n) = n"
proof (induction n rule: dec.induct)
  case (1 n)
  show ?case
  proof (cases "n < 10")
    case True
    then show ?thesis by (subst dec.simps) (simp add: undec_def)
  next
    case False
    with 1 have "undec (dec (n div 10)) = n div 10" by blast
    with False show ?thesis by (subst dec.simps) (simp add: undec_append)
  qed
qed

lemma dec_length: "n < 10 ^ k \<Longrightarrow> 0 < k \<Longrightarrow> length (dec n) \<le> k"
proof (induction k arbitrary: n)
  case (Suc k)
  show ?case
  proof (cases "n < 10")
    case True
    then show ?thesis by (subst dec.simps) simp
  next
    case False
    with Suc.prems have "0 < k" by (cases k) auto
    moreover have "n div 10 < 10 ^ k" using Suc.prems by (simp add: less_mult_imp_div_less mult.commute)
    ultimately have "length (dec (n div 10)) \<le> k" by (intro Suc.IH)
    with False show ?thesis by (subst dec.simps) simp
  qed
qed simp

lemma dec_length_pos: "0 < length (dec n)"
  by simp

lemma dec_u8_length: "length (dec (unat (w :: u8))) \<le> 3"
  using unsigned_less [of w, where ?'a = nat] by (intro dec_length) auto

lemma digit_special: "isdigit c \<Longrightarrow> c \<noteq> NUL \<and> c \<noteq> NL \<and> c \<noteq> CHR '' '' \<and> c \<noteq> CHR '':'' \<and> \<not> isspace c
   \<and> c \<noteq> CHR ''-'' \<and> c \<noteq> CHR ''+''"
  by (auto simp: isdigit_def isspace_def code_of_def)

lemma takeWhile_digits:
  assumes "\<forall>c\<in>set ds. isdigit c" "\<And>c r. rest = c # r \<Longrightarrow> \<not> isdigit c"
  shows "takeWhile isdigit (ds @ rest) = ds"
  using assms by (cases rest) (simp_all add: takeWhile_append)

lemma read_sign_digits:
  assumes "\<forall>c\<in>set ds. isdigit c" "ds \<noteq> []"
  shows "read_sign (ds @ rest) = (False, ds @ rest)"
  using assms digit_special by (cases ds) (auto simp: read_sign_def Let_def)

lemma read_sign_minus: "read_sign (CHR ''-'' # ds) = (True, ds)"
  by (simp add: read_sign_def isspace_def code_of_def)

text \<open>What is printed is read back, whatever follows that is not a digit.\<close>

lemma strtoul_dec:
  assumes "n < 2 ^ 32" "\<And>c r. rest = c # r \<Longrightarrow> \<not> isdigit c"
  shows "strtoul (dec n @ rest) = n"
proof -
  have "read_sign (dec n @ rest) = (False, dec n @ rest)" by (rule read_sign_digits) (auto intro: dec_digits)
  moreover have "takeWhile isdigit (dec n @ rest) = dec n" by (intro takeWhile_digits ballI dec_digits assms(2))
  ultimately show ?thesis using assms(1) by (simp add: strtoul_def)
qed

lemma sscanf_fmt:
  assumes "\<And>c r. rest = c # r \<Longrightarrow> \<not> isdigit c"
  shows "sscanf_d (fmt_d i @ rest) = Some i"
proof (cases "i < 0")
  case True
  have "takeWhile isdigit (dec (nat (- i)) @ rest) = dec (nat (- i))"
    by (intro takeWhile_digits ballI dec_digits assms)
  with True show ?thesis by (simp add: sscanf_d_def fmt_d_def read_sign_minus)
next
  case False
  have "read_sign (dec (nat i) @ rest) = (False, dec (nat i) @ rest)" by (rule read_sign_digits) (auto intro: dec_digits)
  moreover have "takeWhile isdigit (dec (nat i) @ rest) = dec (nat i)"
    by (intro takeWhile_digits ballI dec_digits assms)
  ultimately show ?thesis using False by (simp add: sscanf_d_def fmt_d_def)
qed

lemma fmt_d_chars: "c \<in> set (fmt_d i) \<Longrightarrow> c \<noteq> NL \<and> c \<noteq> NUL \<and> c \<noteq> CHR '' ''"
  using dec_digits digit_special by (fastforce simp: fmt_d_def split: if_splits)

lemma fmt_d_u8 [simp]: "fmt_d (int n) = dec n"
  by (simp add: fmt_d_def)

lemma fmt_d_length:
  assumes "- (10 ^ k) < i" "i < 10 ^ Suc k" "0 < k"
  shows "length (fmt_d i) \<le> Suc k"
proof (cases "i < 0")
  case True
  with assms(1) have "nat (- i) < 10 ^ k" by (simp add: nat_less_iff)
  with True assms(3) show ?thesis using dec_length [of "nat (- i)" k] by (simp add: fmt_d_def)
next
  case False
  with assms(2) have "nat i < 10 ^ Suc k" by (simp add: nat_less_iff)
  with False show ?thesis using dec_length [of "nat i" "Suc k"] by (simp add: fmt_d_def)
qed

section \<open>Tokens\<close>

lemma takeWhile_stop: "\<forall>x\<in>set xs. P x \<Longrightarrow> \<not> P y \<Longrightarrow> takeWhile P (xs @ y # ys) = xs"
  by (induction xs) auto

lemma cstr_at_eq: "drop p buf = txt @ NUL # junk \<Longrightarrow> NUL \<notin> set txt \<Longrightarrow> cstr_at p buf = txt"
  unfolding cstr_at_def by (auto intro!: takeWhile_stop)

lemma strtok_hit:
  assumes "buf = pre @ tok @ d # post" "tok \<noteq> []" "\<forall>c\<in>set tok. c \<noteq> NUL \<and> c \<notin> set delim" "d \<in> set delim" "NUL \<notin> set delim"
  shows "strtok delim (Some (length pre)) buf =
     (Some (length pre), Some (length pre + length tok + 1), pre @ tok @ NUL # post)"
proof -
  have "takeWhile (\<lambda>c. c \<in> set delim) (tok @ d # post) = []" using assms(2,3) by (cases tok) auto
  moreover have "takeWhile (\<lambda>c. c \<noteq> NUL \<and> c \<notin> set delim) (tok @ d # post) = tok"
    using assms(3,4) by (intro takeWhile_stop) auto
  moreover have "(tok @ d # post) ! 0 \<noteq> NUL" using assms(2,3) by (cases tok) auto
  moreover have "d \<noteq> NUL" using assms(4,5) by metis
  ultimately show ?thesis
    using assms(1,2) by (simp add: strtok_def Let_def nth_append list_update_append)
qed

lemma strtok_last:
  assumes "buf = pre @ tok @ NUL # post" "tok \<noteq> []" "\<forall>c\<in>set tok. c \<noteq> NUL \<and> c \<notin> set delim" "NUL \<notin> set delim"
  shows "strtok delim (Some (length pre)) buf = (Some (length pre), None, buf)"
proof -
  have "takeWhile (\<lambda>c. c \<in> set delim) (tok @ NUL # post) = []" using assms(2,3) by (cases tok) auto
  moreover have "takeWhile (\<lambda>c. c \<noteq> NUL \<and> c \<notin> set delim) (tok @ NUL # post) = tok"
    using assms(3) by (intro takeWhile_stop) auto
  moreover have "(tok @ NUL # post) ! 0 \<noteq> NUL" using assms(2,3) by (cases tok) auto
  ultimately show ?thesis using assms(1,2) by (simp add: strtok_def Let_def nth_append)
qed

text \<open>A string of two tokens is split at the delimiter, which is overwritten.\<close>

lemma tok_loop_two:
  assumes "buf = a @ d # b @ NUL # junk" "a \<noteq> []" "b \<noteq> []" "d \<noteq> NUL" "i + 2 < length arr"
    "\<forall>c\<in>set a \<union> set b. c \<noteq> NUL \<and> c \<noteq> d"
  shows "tok_loop [d] i arr (Some 0) buf =
     Inr (i + 2, arr[i := Some 0, i + 1 := Some (length a + 1), i + 2 := None], a @ NUL # b @ NUL # junk)"
proof -
  have one: "strtok [d] (Some 0) buf = (Some 0, Some (length a + 1), a @ NUL # b @ NUL # junk)"
    using strtok_hit [of buf "[]" a d "b @ NUL # junk" "[d]"] assms by auto
  have two: "strtok [d] (Some (length a + 1)) (a @ NUL # b @ NUL # junk) = (Some (length a + 1), None, a @ NUL # b @ NUL # junk)"
    using strtok_last [of "a @ NUL # b @ NUL # junk" "a @ [NUL]" b junk "[d]"] assms by auto
  have three: "strtok [d] None (a @ NUL # b @ NUL # junk) = (None, None, a @ NUL # b @ NUL # junk)"
    by (simp add: strtok_def)
  note step = tok_loop.simps [of _ i] tok_loop.simps [of _ "i + 1"] tok_loop.simps [of _ "i + 1 + 1"]
  show ?thesis using assms(5) by (simp only: step one two three Let_def prod.case) simp
qed

section \<open>Lines\<close>

lemma line_of_line: "NL \<notin> set l \<Longrightarrow> line_of (l @ NL # rest) = l @ [NL]"
  by (simp add: line_of_def takeWhile_append)

lemma fgets_line:
  assumes "drop pos content = l @ NL # rest" "NL \<notin> set l" "length l + 1 < n"
  shows "fgets n content pos = Some (l @ [NL], pos + length l + 1)"
proof -
  have "take (n - 1) (l @ NL # rest) = l @ NL # take (n - 2 - length l) rest"
  proof -
    have "n - 1 - length l = Suc (n - 2 - length l)" using assms(3) by simp
    then show ?thesis using assms(3) by (simp add: take_append)
  qed
  moreover have "pos < length content" using assms(1) by (metis drop_eq_Nil append_is_Nil_conv list.distinct(1) not_le)
  ultimately show ?thesis using assms by (simp add: fgets_def Let_def line_of_line)
qed

lemma fgets_end: "length content \<le> pos \<Longrightarrow> fgets n content pos = None"
  by (simp add: fgets_def)

lemma fgets_pos:
  assumes "fgets n content pos = Some (l, pos')" "1 < n"
  shows "pos < pos' \<and> pos' \<le> length content"
proof -
  have p: "pos < length content" and l: "l = line_of (take (n - 1) (drop pos content))" and p': "pos' = pos + length l"
    using assms(1) by (auto simp: fgets_def Let_def split: if_splits)
  define t where "t = take (n - 1) (drop pos content)"
  have "t \<noteq> []" using p assms(2) by (simp add: t_def)
  then have "0 < length (line_of t)" by (cases t) (auto simp: line_of_def)
  moreover have "length (line_of t) \<le> length t"
  proof (cases "NL \<in> set t")
    case True
    then obtain xs ys where "t = xs @ NL # ys" "NL \<notin> set xs" by (meson split_list_first)
    then show ?thesis by (simp add: line_of_line)
  qed (simp add: line_of_def length_takeWhile_le)
  moreover have "length t \<le> length content - pos" by (simp add: t_def)
  ultimately show ?thesis using p p' unfolding l t_def [symmetric] by linarith
qed

end
