(* ===== verification/Sensors.thy ===== *)
theory Sensors
  imports Alarm Cstring
begin

text \<open>
  The sensor threads and the display of the application: \<open>my_adc.c\<close> (light and smoke),
  \<open>my_dht11.c\<close> (temperature and humidity) and \<open>my_oled.c\<close> under
  \<open>src/smart-building-mcu/applications/src\<close>. One turn of a thread's endless loop is a function of
  the application's state; a text that does not fit its array is \<open>Inl Buffer_Overflow\<close>, a failed
  assertion of the ADC framework \<open>Inl Assertion_Failed\<close>. The temperature sensor's driver is not part
  of the repository: what \<open>rt_device_read\<close> returns for it is an argument.
\<close>

section \<open>Display\<close>

definition draw :: "oled_call list \<Rightarrow> app \<Rightarrow> app" where
  "draw cs s = s\<lparr>oled := oled s @ cs\<rparr>"

definition my_oled_test :: "app \<Rightarrow> app" where
  "my_oled_test s = draw [ssd1306_Init, ssd1306_Fill_Black, ssd1306_SetCursor 2 0, ssd1306_WriteString ''Testing...'' Font_11x18,
     ssd1306_SetCursor 2 20, ssd1306_WriteString ''My OLED Test!'' Font_7x10, ssd1306_UpdateScreen] s"

definition my_oled_init :: "app \<Rightarrow> app" where
  "my_oled_init s = draw [ssd1306_Init, ssd1306_SetCursor 2 0, ssd1306_WriteString ''Sensor_Data'' Font_11x18,
     ssd1306_UpdateScreen] s"

definition my_clean_line :: "u8 \<Rightarrow> app \<Rightarrow> app" where
  "my_clean_line y s = draw [ssd1306_SetCursor 0 (unat y), ssd1306_WriteString (replicate 20 CHR '' '') Font_7x10] s"

definition my_oled_print_led :: "string \<Rightarrow> app \<Rightarrow> app" where
  "my_oled_print_led message s = draw [ssd1306_SetCursor 2 60, ssd1306_WriteString message Font_7x10] s"

text \<open>The second \<open>sprintf\<close> appends to the array it reads from.\<close>

definition dht_text :: "nat \<Rightarrow> u8 \<Rightarrow> u8 \<Rightarrow> c_error + string" where
  "dht_text n t h =
     (case sprintf_buf n (''temp:'' @ dec (unat t) @ ''C humi:'' @ dec (unat h)) of
        Inl e \<Rightarrow> Inl e
      | Inr str \<Rightarrow> sprintf_buf n (str @ [CHR ''%'', NL]))"

definition my_oled_print_dht :: "u8 \<Rightarrow> u8 \<Rightarrow> app \<Rightarrow> c_error + app" where
  "my_oled_print_dht t h s =
     (case dht_text 25 t h of
        Inl e \<Rightarrow> Inl e
      | Inr str_data \<Rightarrow> Inr (draw [ssd1306_SetCursor 2 30, ssd1306_WriteString str_data Font_7x10] (my_clean_line 30 s)))"

definition my_oled_print_light :: "u32 \<Rightarrow> app \<Rightarrow> c_error + app" where
  "my_oled_print_light v s =
     (case sprintf_buf 50 (''light:'' @ fmt_d (sint v) @ [CHR ''L'', NL]) of
        Inl e \<Rightarrow> Inl e
      | Inr str_data \<Rightarrow> Inr (draw [ssd1306_SetCursor 2 50, ssd1306_WriteString str_data Font_6x8] s))"

definition my_oled_print_mq2 :: "u32 \<Rightarrow> app \<Rightarrow> c_error + app" where
  "my_oled_print_mq2 v s =
     (case sprintf_buf 25 (''mq2:'' @ fmt_d (sint v) @ ''ppm'' @ [NL]) of
        Inl e \<Rightarrow> Inl e
      | Inr str_data \<Rightarrow> Inr (draw [ssd1306_SetCursor 70 50, ssd1306_WriteString str_data Font_6x8, ssd1306_UpdateScreen] s))"

section \<open>Light and smoke\<close>

abbreviation (input) ADC_LIGHT_DEV_CHANNEL :: nat where "ADC_LIGHT_DEV_CHANNEL \<equiv> 5"
abbreviation (input) ADC_MQ2_DEV_CHANNEL :: nat where "ADC_MQ2_DEV_CHANNEL \<equiv> 4"

definition change_light_hard_error_state :: "app \<Rightarrow> app option" where
  "change_light_hard_error_state s = do {
     s1 \<leftarrow> (if light_hard_error_state s = 0 then emergency_light_close s else Some s);
     Some (s1\<lparr>light_hard_error_state := 1 - light_hard_error_state s1\<rparr>)
   }"

definition set_light_limit :: "u32 \<Rightarrow> app \<Rightarrow> app" where
  "set_light_limit limit s = s\<lparr>light_limit := limit\<rparr>"

definition my_light_ADC_Init :: "app \<Rightarrow> (int \<times> app) option" where
  "my_light_ADC_Init s =
     (case adc3 s of
        None \<Rightarrow> Some (RT_ERROR, s\<lparr>adc_light_dev := False\<rparr>)
      | Some d \<Rightarrow> do {
          (r, d1) \<leftarrow> rt_adc_enable (stm_adc_ops (\<lambda>_. None)) ADC_LIGHT_DEV_CHANNEL (Some d);
          Some (RT_EOK, s\<lparr>adc_light_dev := True, adc3 := Some d1\<rparr>)
        })"

text \<open>The light value is the brightness: the sample is subtracted from 4000 in 32-bit unsigned
  arithmetic, and converted to \<open>int\<close> by \<open>Set_Devpro_light\<close>.\<close>

definition my_light_iter :: "adc_sample \<Rightarrow> nat \<Rightarrow> app \<Rightarrow> c_error + app" where
  "my_light_iter sample stk s =
     (case rt_adc_read (stm_adc_ops sample) stk ADC_LIGHT_DEV_CHANNEL (if adc_light_dev s then adc3 s else None) of
        None \<Rightarrow> Inl Assertion_Failed
      | Some (v, d) \<Rightarrow>
          (let lv = 4000 - of_nat v
           in case my_oled_print_light lv (s\<lparr>adc3 := Some d, light_value := lv\<rparr>) of
                Inl e \<Rightarrow> Inl e
              | Inr s1 \<Rightarrow> Inr (Set_Devpro_light (sint (light_value s1)) s1)))"

text \<open>\<open>ok\<close> says whether \<open>rt_thread_create\<close> finds memory; otherwise the statically allocated
  thread is started with the same entry.\<close>

definition my_light_adc :: "bool \<Rightarrow> app \<Rightarrow> (int \<times> app) option" where
  "my_light_adc ok s = do {
     (r, s1) \<leftarrow> my_light_ADC_Init s;
     if r = RT_ERROR then Some (RT_ERROR, s1)
     else Some (RT_EOK, if ok then thread_start True ''my_light_entry'' s1 else s1\<lparr>threads := threads s1 @ [''my_light_entry'']\<rparr>)
   }"

definition my_adc_get_light :: "app \<Rightarrow> u32" where "my_adc_get_light s = light_value s"

definition my_mq2_ADC_Init :: "app \<Rightarrow> (int \<times> app) option" where
  "my_mq2_ADC_Init s =
     (case adc2 s of
        None \<Rightarrow> Some (RT_ERROR, s\<lparr>adc_mq2_dev := False\<rparr>)
      | Some d \<Rightarrow> do {
          (r, d1) \<leftarrow> rt_adc_enable (stm_adc_ops (\<lambda>_. None)) ADC_MQ2_DEV_CHANNEL (Some d);
          Some (RT_EOK, s\<lparr>adc_mq2_dev := True, adc2 := Some d1\<rparr>)
        })"

definition my_mq2_iter :: "adc_sample \<Rightarrow> nat \<Rightarrow> app \<Rightarrow> c_error + app" where
  "my_mq2_iter sample stk s =
     (case rt_adc_read (stm_adc_ops sample) stk ADC_MQ2_DEV_CHANNEL (if adc_mq2_dev s then adc2 s else None) of
        None \<Rightarrow> Inl Assertion_Failed
      | Some (v, d) \<Rightarrow>
          (case my_oled_print_mq2 (of_nat v) (s\<lparr>adc2 := Some d, mq2_value := of_nat v\<rparr>) of
             Inl e \<Rightarrow> Inl e
           | Inr s1 \<Rightarrow> Inr (Set_Devpro_smoke (sint (mq2_value s1)) s1)))"

definition my_mq2_adc :: "bool \<Rightarrow> app \<Rightarrow> (int \<times> app) option" where
  "my_mq2_adc ok s = do {
     (r, s1) \<leftarrow> my_mq2_ADC_Init s;
     if r = RT_ERROR then Some (RT_ERROR, s1) else Some (RT_EOK, thread_start ok ''my_mq2_entry'' s1)
   }"

definition my_adc_get_mq2 :: "app \<Rightarrow> u32" where "my_adc_get_mq2 s = mq2_value s"

section \<open>Temperature and humidity\<close>

definition set_beep_state :: "u8 \<Rightarrow> app \<Rightarrow> app" where
  "set_beep_state st s = s\<lparr>beep_state := st\<rparr>"

definition set_temp_limit :: "u8 \<Rightarrow> app \<Rightarrow> app" where
  "set_temp_limit limit s = s\<lparr>temp_limit := limit\<rparr>"

definition show_Data :: "app \<Rightarrow> c_error + app" where
  "show_Data s = my_oled_print_dht (temp s) (humi s) s"

text \<open>One turn of the loop of \<open>my_read_temp_entry\<close>, for a read that returns \<open>res\<close> and leaves \<open>v\<close> in
  \<open>sensor_data.data.temp\<close>: the temperature in the low half, the humidity in the high half. The
  boolean says whether the loop goes on; a failed read closes the device and ends the thread.\<close>

definition my_read_temp_iter :: "nat \<times> int \<Rightarrow> app \<Rightarrow> c_error + bool \<times> app" where
  "my_read_temp_iter rv s =
     (let (res, v) = rv
      in if res \<noteq> 1 then Inr (False, s)
         else if v \<ge> 0 then
           (let s1 = s\<lparr>temp := of_int (v mod 2 ^ 16), humi := of_int (v mod 2 ^ 32 div 2 ^ 16)\<rparr>
            in case show_Data s1 of
                 Inl e \<Rightarrow> Inl e
               | Inr s2 \<Rightarrow> Inr (True, Set_Devpro_humi (int (unat (humi s2))) (Set_Devpro_temp (int (unat (temp s2))) s2)))
         else Inr (True, s))"

text \<open>The thread on the reads that its sensor delivers: \<open>found\<close> is whether the sensor is registered and
  \<open>opened\<close> the result of opening it.\<close>

fun my_read_temp_loop :: "(nat \<times> int) list \<Rightarrow> app \<Rightarrow> c_error + app" where
  "my_read_temp_loop [] s = Inr s"
| "my_read_temp_loop (r # rs) s =
     (case my_read_temp_iter r s of
        Inl e \<Rightarrow> Inl e
      | Inr (True, s1) \<Rightarrow> my_read_temp_loop rs s1
      | Inr (False, s1) \<Rightarrow> Inr s1)"

definition my_read_temp_entry :: "bool \<Rightarrow> rt_err \<Rightarrow> (nat \<times> int) list \<Rightarrow> app \<Rightarrow> c_error + app" where
  "my_read_temp_entry found opened reads s =
     (if \<not> found then Inr s else if opened \<noteq> RT_EOK then Inr s else my_read_temp_loop reads s)"

definition my_dht11_read_temp_sample :: "bool \<Rightarrow> app \<Rightarrow> int \<times> app" where
  "my_dht11_read_temp_sample ok s = (RT_EOK, thread_start ok ''my_read_temp_entry'' s)"

definition my_dht11_get_temp :: "app \<Rightarrow> u8" where "my_dht11_get_temp s = temp s"
definition my_dht11_get_humi :: "app \<Rightarrow> u8" where "my_dht11_get_humi s = humi s"

section \<open>Texts and values\<close>

lemma sint_of_small: "- (2 ^ 31) \<le> i \<Longrightarrow> i < 2 ^ 31 \<Longrightarrow> sint (of_int i :: u32) = i"
  by (simp add: signed_of_int signed_take_bit_int_eq_self)

lemma fmt_u32_length: "length (fmt_d (sint (v :: u32))) \<le> 11"
proof -
  have "- (2 ^ 31) \<le> sint v" "sint v < 2 ^ 31" using sint_greater_eq [of v] sint_less [of v] by simp_all
  then show ?thesis using fmt_d_length [of 10 "sint v"] by simp
qed

text \<open>The display texts always fit their arrays.\<close>

lemma print_light_ok:
  "my_oled_print_light v s = Inr (draw [ssd1306_SetCursor 2 50, ssd1306_WriteString (''light:'' @ fmt_d (sint v) @ [CHR ''L'', NL]) Font_6x8] s)"
  using fmt_u32_length [of v] by (simp add: my_oled_print_light_def sprintf_buf_def)

lemma print_mq2_ok:
  "my_oled_print_mq2 v s = Inr (draw [ssd1306_SetCursor 70 50, ssd1306_WriteString (''mq2:'' @ fmt_d (sint v) @ ''ppm'' @ [NL]) Font_6x8,
     ssd1306_UpdateScreen] s)"
  using fmt_u32_length [of v] by (simp add: my_oled_print_mq2_def sprintf_buf_def)

lemma dht_text_length:
  "length (''temp:'' @ dec (unat (t :: u8)) @ ''C humi:'' @ dec (unat (h :: u8)) @ [CHR ''%'', NL]) \<le> 20"
  using dec_u8_length [of t] dec_u8_length [of h] by simp

lemma dht_text_ok: "20 < n \<Longrightarrow> dht_text n t h = Inr (''temp:'' @ dec (unat t) @ ''C humi:'' @ dec (unat h) @ [CHR ''%'', NL])"
  using dht_text_length [of t h] by (simp add: dht_text_def sprintf_buf_def)

text \<open>A display call or a new measurement does not concern the alarm.\<close>

lemma alarm_inv_cong:
  assumes "hw s' = hw s" "timer3 s' = timer3 s" "hw_dev s' = hw_dev s"
    "Beep_State (my_devices s') = Beep_State (my_devices s)" "Relay_State (my_devices s') = Relay_State (my_devices s)"
    "LED1_State (my_devices s') = LED1_State (my_devices s)"
  shows "alarm_inv s' \<longleftrightarrow> alarm_inv s"
  using assms by (simp add: alarm_inv_def pins_ok_def)

text \<open>The part of the state that the sensor threads do not touch.\<close>

definition sensor_frame :: "app \<Rightarrow> app \<Rightarrow> bool" where
  "sensor_frame s s' \<longleftrightarrow> hw s' = hw s \<and> my_devices s' = my_devices s \<and> my_thresholds s' = my_thresholds s \<and>
     published s' = published s \<and> timer3 s' = timer3 s \<and> hw_dev s' = hw_dev s \<and> pwm4 s' = pwm4 s \<and> pwm_dev s' = pwm_dev s \<and>
     angle s' = angle s \<and> pwm_period s' = pwm_period s \<and> adc_light_dev s' = adc_light_dev s \<and> adc_mq2_dev s' = adc_mq2_dev s"

lemma sensor_frame_alarm: "sensor_frame s s' \<Longrightarrow> alarm_inv s' \<longleftrightarrow> alarm_inv s"
  unfolding sensor_frame_def by (rule alarm_inv_cong) simp_all

lemma draw_fields [simp]:
  "my_environment (draw cs s) = my_environment s" "temp (draw cs s) = temp s" "humi (draw cs s) = humi s"
  "light_value (draw cs s) = light_value s" "mq2_value (draw cs s) = mq2_value s" "oled (draw cs s) = oled s @ cs"
  "adc2 (draw cs s) = adc2 s" "adc3 (draw cs s) = adc3 s"
  by (simp_all add: draw_def)

lemma light_iter:
  assumes "adc_light_dev s" "adc3 s = Some d" "adc_ok (priv d)"
  shows "\<exists>x d' s'. my_light_iter sample stk s = Inr s' \<and> x < 4096 \<and> (\<forall>v. sample 5 = Some v \<longrightarrow> x = v mod 4096) \<and>
     Get_Devpro_light s' = 4000 - int x \<and> my_adc_get_light s' = of_int (4000 - int x) \<and> adc3 s' = Some d' \<and> adc_ok (priv d') \<and>
     adc2 s' = adc2 s \<and> sensor_frame s s' \<and>
     oled s' = oled s @ [ssd1306_SetCursor 2 50, ssd1306_WriteString (''light:'' @ fmt_d (4000 - int x) @ [CHR ''L'', NL]) Font_6x8]"
proof -
  obtain x d' where r: "rt_adc_read (stm_adc_ops sample) stk 5 (Some d) = Some (x, d')" "x < 4096" "adc_ok (priv d')"
    "\<forall>v. sample 5 = Some v \<longrightarrow> x = v mod 4096"
    using read_ok [OF assms(3), of 5 sample stk] by auto
  have "sint (of_int (4000 - int x) :: u32) = 4000 - int x" using r(2) by (intro sint_of_small) auto
  then have "sint (4000 - of_nat x :: u32) = 4000 - int x" by simp
  with assms r show ?thesis
    by (intro exI [of _ x] exI [of _ d'])
       (simp add: my_light_iter_def print_light_ok Let_def accessor_defs my_adc_get_light_def sensor_frame_def draw_def)
qed

lemma mq2_iter:
  assumes "adc_mq2_dev s" "adc2 s = Some d" "adc_ok (priv d)"
  shows "\<exists>x d' s'. my_mq2_iter sample stk s = Inr s' \<and> x < 4096 \<and> (\<forall>v. sample 4 = Some v \<longrightarrow> x = v mod 4096) \<and>
     Get_Devpro_smoke s' = int x \<and> adc2 s' = Some d' \<and> adc_ok (priv d') \<and> adc3 s' = adc3 s \<and> sensor_frame s s'"
proof -
  obtain x d' where r: "rt_adc_read (stm_adc_ops sample) stk 4 (Some d) = Some (x, d')" "x < 4096" "adc_ok (priv d')"
    "\<forall>v. sample 4 = Some v \<longrightarrow> x = v mod 4096"
    using read_ok [OF assms(3), of 4 sample stk] by auto
  have "sint (of_int (int x) :: u32) = int x" using r(2) by (intro sint_of_small) auto
  then have "sint (of_nat x :: u32) = int x" by simp
  with assms r show ?thesis
    by (intro exI [of _ x] exI [of _ d'])
       (simp add: my_mq2_iter_def print_mq2_ok accessor_defs sensor_frame_def draw_def)
qed

lemma read_temp_iter:
  "\<exists>c s'. my_read_temp_iter r s = Inr (c, s') \<and> sensor_frame s s' \<and> adc2 s' = adc2 s \<and> adc3 s' = adc3 s"
  by (cases r) (auto simp: my_read_temp_iter_def show_Data_def my_oled_print_dht_def dht_text_ok Let_def accessor_defs
      sensor_frame_def draw_def my_clean_line_def)



text \<open>C20: What the temperature sensor delivers is what the controller sees and the display shows: a
  reading that packs a temperature and a humidity below 256 into its two halves is stored as those
  two numbers; a negative reading changes nothing; a failed read ends the thread's loop with the
  state as it was.\<close>

theorem dht_reading:
  "(\<exists>s'. my_read_temp_iter (1, int (unat h) * 65536 + int (unat t)) s = Inr (True, s') \<and>
      Get_Devpro_temp s' = int (unat t) \<and> Get_Devpro_humi s' = int (unat h) \<and>
      my_dht11_get_temp s' = t \<and> my_dht11_get_humi s' = h \<and> sensor_frame s s' \<and>
      ssd1306_WriteString (''temp:'' @ dec (unat t) @ ''C humi:'' @ dec (unat h) @ [CHR ''%'', NL]) Font_7x10 \<in> set (oled s')) \<and>
   my_read_temp_iter (1, - 1 - int k) s = Inr (True, s) \<and> my_read_temp_iter (0, v) s = Inr (False, s)"
proof -
  have t: "unat t < 256" and h: "unat h < 256"
    using unsigned_less [of t, where ?'a = nat] unsigned_less [of h, where ?'a = nat] by simp_all
  define a where "a = int (unat t)"
  define b where "b = int (unat h)"
  note ab_def = a_def b_def
  have rng: "0 \<le> a" "a < 256" "0 \<le> b" "b < 256" unfolding ab_def using t h by linarith+
  define pk where "pk = b * 65536 + a"
  have "pk < 4294967296" "0 \<le> pk" "pk div 65536 = b" and lo: "pk mod 65536 = a" using rng by (simp_all add: pk_def)
  then have hi: "pk mod 4294967296 div 65536 = b" by simp
  have conv: "of_int a = t" "of_int b = h" "uint t = a" "uint h = b" by (simp_all add: ab_def)
  show ?thesis unfolding ab_def [symmetric] pk_def [symmetric]
    using \<open>0 \<le> pk\<close> by (simp add: conv my_read_temp_iter_def show_Data_def my_oled_print_dht_def dht_text_ok Let_def accessor_defs lo hi
      sensor_frame_def draw_def my_clean_line_def my_dht11_get_temp_def my_dht11_get_humi_def)
qed

end
