(* ===== verification/Auto_Control.thy ===== *)
theory Auto_Control
  imports Sensors Door
begin

text \<open>
  The automatic control thread (\<open>src/smart-building-mcu/applications/src/my_auto_control.c\<close>): one
  turn of its loop, its specification as a controller of the recorded device states alone, and the
  proof that the thread, which drives pins, the alarm timer and the door servo, implements it.
\<close>

section \<open>The thread\<close>

definition auto_temp :: "board \<Rightarrow> app \<Rightarrow> app option" where
  "auto_temp b s =
     (let dev = my_devices s; t = env_temp (my_environment s); l = Temp_Limit (my_thresholds s)
      in if \<not> Beep_State dev \<and> \<not> Door_State dev then
           (if t > l then do {
              s1 \<leftarrow> beep_change b True (publish (Publish_Alarm_Info ALARM_TEMPERATURE_TOO_HIGH t l) s);
              let s2 = my_pwm_angle_change b True 90 s1;
              Some (publish (Publish_Device_Status (my_devices s2)) s2)
            } else Some s)
         else if Beep_State dev \<and> Door_State dev then
           (if t < l then do {
              s1 \<leftarrow> beep_change b False (publish (Publish_Alarm_Info ALARM_TEMPERATURE_BACK_NORMAL t l) s);
              let s2 = my_pwm_angle_change b False 90 s1;
              Some (publish (Publish_Device_Status (my_devices s2)) s2)
            } else Some s)
         else Some s)"

definition auto_humi :: "app \<Rightarrow> app option" where
  "auto_humi s =
     (let h = env_humi (my_environment s); l = Humi_Limit (my_thresholds s)
      in if \<not> Relay_State (my_devices s) then
           (if h > l then do {
              s1 \<leftarrow> relay_change True (publish (Publish_Alarm_Info ALARM_HUMIDITY_TOO_HIGH h l) s);
              Some (publish (Publish_Device_Status (my_devices s1)) s1)
            } else Some s)
         else
           (if h < l then do {
              s1 \<leftarrow> relay_change False (publish (Publish_Alarm_Info ALARM_HUMIDITY_BACK_NORMAL h l) s);
              Some (publish (Publish_Device_Status (my_devices s1)) s1)
            } else Some s))"

definition auto_light :: "app \<Rightarrow> app option" where
  "auto_light s =
     (let v = env_light (my_environment s); dn = Light_Down_Limit (my_thresholds s); up = Light_Up_Limit (my_thresholds s)
      in if \<not> LED1_State (my_devices s) then
           (if v < dn then do {
              s1 \<leftarrow> emergency_light_change True (publish (Publish_Alarm_Info ALARM_LIGHT_TOO_WEAK v dn) s);
              Some (publish (Publish_Device_Status (my_devices s1)) s1)
            } else Some s)
         else
           (if v > up then do {
              s1 \<leftarrow> emergency_light_change False (publish (Publish_Alarm_Info ALARM_LIGHT_TOO_STRONG v up) s);
              Some (publish (Publish_Device_Status (my_devices s1)) s1)
            } else Some s))"

text \<open>The smoke detector is read but its level is not used.\<close>

definition my_auto_control_iter :: "board \<Rightarrow> app \<Rightarrow> app option" where
  "my_auto_control_iter b s = do {
     mq2_state \<leftarrow> Get_MQ2_D0 s;
     s1 \<leftarrow> (if DHT11_Sensor_State (my_devices s) then do {
              s1 \<leftarrow> auto_temp b s;
              auto_humi s1
            } else Some s);
     if Light_Sensor_State (my_devices s1) then auto_light s1 else Some s1
   }"

definition my_auto_control_init :: "bool \<Rightarrow> app \<Rightarrow> int \<times> app" where
  "my_auto_control_init ok s = (RT_EOK, thread_start ok ''my_auto_control_entry'' s)"

section \<open>Specification\<close>

text \<open>Each device is switched when its measurement crosses its limit; a switch is reported by an alarm
  record followed by the device states after it.\<close>

definition temp_ctl :: "Environment \<Rightarrow> Thresholds \<Rightarrow> Devices \<Rightarrow> Devices \<times> mqtt_call list" where
  "temp_ctl e t d =
     (let on = (\<not> Beep_State d); d1 = d\<lparr>Beep_State := on, LED0_State := on, Door_State := on\<rparr>
      in if Beep_State d = Door_State d \<and> (if on then env_temp e > Temp_Limit t else env_temp e < Temp_Limit t)
         then (d1, [Publish_Alarm_Info (if on then ALARM_TEMPERATURE_TOO_HIGH else ALARM_TEMPERATURE_BACK_NORMAL)
                      (env_temp e) (Temp_Limit t), Publish_Device_Status d1])
         else (d, []))"

definition humi_ctl :: "Environment \<Rightarrow> Thresholds \<Rightarrow> Devices \<Rightarrow> Devices \<times> mqtt_call list" where
  "humi_ctl e t d =
     (let on = (\<not> Relay_State d); d1 = d\<lparr>Relay_State := on\<rparr>
      in if (if on then env_humi e > Humi_Limit t else env_humi e < Humi_Limit t)
         then (d1, [Publish_Alarm_Info (if on then ALARM_HUMIDITY_TOO_HIGH else ALARM_HUMIDITY_BACK_NORMAL)
                      (env_humi e) (Humi_Limit t), Publish_Device_Status d1])
         else (d, []))"

definition light_ctl :: "Environment \<Rightarrow> Thresholds \<Rightarrow> Devices \<Rightarrow> Devices \<times> mqtt_call list" where
  "light_ctl e t d =
     (let on = (\<not> LED1_State d); d1 = d\<lparr>LED1_State := on\<rparr>
      in if (if on then env_light e < Light_Down_Limit t else env_light e > Light_Up_Limit t)
         then (d1, [if on then Publish_Alarm_Info ALARM_LIGHT_TOO_WEAK (env_light e) (Light_Down_Limit t)
                    else Publish_Alarm_Info ALARM_LIGHT_TOO_STRONG (env_light e) (Light_Up_Limit t),
                    Publish_Device_Status d1])
         else (d, []))"

definition controller :: "Environment \<Rightarrow> Thresholds \<Rightarrow> Devices \<Rightarrow> Devices \<times> mqtt_call list" where
  "controller e t d =
     (let (d1, ev1) = (if DHT11_Sensor_State d then temp_ctl e t d else (d, []));
          (d2, ev2) = (if DHT11_Sensor_State d then humi_ctl e t d1 else (d1, []));
          (d3, ev3) = (if Light_Sensor_State d2 then light_ctl e t d2 else (d2, []))
      in (d3, ev1 @ ev2 @ ev3))"

section \<open>Refinement\<close>

lemma publish_fields [simp]:
  "my_devices (publish c s) = my_devices s" "my_environment (publish c s) = my_environment s"
  "my_thresholds (publish c s) = my_thresholds s" "published (publish c s) = published s @ [c]" "hw (publish c s) = hw s"
  "timer3 (publish c s) = timer3 s" "hw_dev (publish c s) = hw_dev s" "angle (publish c s) = angle s"
  "adc2 (publish c s) = adc2 s" "adc3 (publish c s) = adc3 s" "adc_light_dev (publish c s) = adc_light_dev s"
  "adc_mq2_dev (publish c s) = adc_mq2_dev s"
  by (simp_all add: publish_def)

lemma alarm_inv_publish [simp]: "alarm_inv (publish c s) \<longleftrightarrow> alarm_inv s"
  by (rule alarm_inv_cong) simp_all

lemma alarm_inv_door [simp]: "alarm_inv (my_pwm_angle_change b dir a s) \<longleftrightarrow> alarm_inv s"
  by (rule alarm_inv_cong) simp_all

text \<open>What every part of a turn keeps: the measurements, the limits and the converters.\<close>

definition ctl_frame :: "app \<Rightarrow> app \<Rightarrow> bool" where
  "ctl_frame s s' \<longleftrightarrow> my_environment s' = my_environment s \<and> my_thresholds s' = my_thresholds s \<and>
     adc2 s' = adc2 s \<and> adc3 s' = adc3 s \<and> adc_light_dev s' = adc_light_dev s \<and> adc_mq2_dev s' = adc_mq2_dev s"

lemma ctl_frame_trans: "ctl_frame s s1 \<Longrightarrow> ctl_frame s1 s2 \<Longrightarrow> ctl_frame s s2"
  by (simp add: ctl_frame_def)

lemma same_but_alarm_fields:
  assumes "same_but_alarm s s'"
  shows "ctl_frame s s'" "published s' = published s" "angle s' = angle s"
proof -
  have "s' = s\<lparr>hw := hw s', my_devices := my_devices s', timer3 := timer3 s', hw_dev := hw_dev s', ret := ret s',
            tmode := tmode s', timeout_s := timeout_s s'\<rparr>"
    using assms by (simp add: same_but_alarm_def)
  then obtain h d t w r m z where "s' = s\<lparr>hw := h, my_devices := d, timer3 := t, hw_dev := w, ret := r, tmode := m, timeout_s := z\<rparr>"
    by blast
  then show "ctl_frame s s'" "published s' = published s" "angle s' = angle s" by (simp_all add: ctl_frame_def)
qed

lemma door_adc [simp]:
  "adc2 (my_pwm_angle_change b dir a s) = adc2 s" "adc3 (my_pwm_angle_change b dir a s) = adc3 s"
  "adc_light_dev (my_pwm_angle_change b dir a s) = adc_light_dev s" "adc_mq2_dev (my_pwm_angle_change b dir a s) = adc_mq2_dev s"
  by (simp_all add: my_pwm_angle_change_def my_pwm_set_angle_def Let_def Set_Devpro_DoorState_def split_beta)

definition implements :: "app \<Rightarrow> app option \<Rightarrow> Devices \<times> mqtt_call list \<Rightarrow> bool" where
  "implements s r spec \<longleftrightarrow> (\<exists>s'. r = Some s' \<and> alarm_inv s' \<and> ctl_frame s s' \<and> my_devices s' = fst spec \<and>
     published s' = published s @ snd spec \<and> (angle s \<in> {0, 90, 180} \<longrightarrow> angle s' \<in> {0, 90, 180}))"

lemma implements_id: "alarm_inv s \<Longrightarrow> implements s (Some s) (my_devices s, [])"
  by (simp add: implements_def ctl_frame_def)

lemma beep_door:
  assumes "alarm_inv s"
  shows "\<exists>s'. beep_change b on s = Some s' \<and> alarm_inv s' \<and> ctl_frame s s' \<and> published s' = published s \<and> angle s' = angle s \<and>
     my_devices s' = (my_devices s)\<lparr>LED0_State := on, Beep_State := on\<rparr>"
proof (cases on)
  case True
  obtain s' where "beep_change b True s = Some s'" "alarm_inv s'" "same_but_alarm s s'"
    "my_devices s' = (my_devices s)\<lparr>LED0_State := True, Beep_State := True\<rparr>"
    using beep_on_inv [OF assms, of b] by blast
  with True same_but_alarm_fields [OF this(3)] show ?thesis by simp
next
  case False
  obtain s' where "beep_change b False s = Some s'" "alarm_inv s'" "same_but_alarm s s'"
    "my_devices s' = (my_devices s)\<lparr>LED0_State := False, Beep_State := False\<rparr>"
    using beep_off_inv [OF assms, of b] by blast
  with False same_but_alarm_fields [OF this(3)] show ?thesis by simp
qed

lemma switch_implements:
  assumes "alarm_inv s"
  shows "implements s
     (do {
        s1 \<leftarrow> beep_change b on (publish c s);
        let s2 = my_pwm_angle_change b on 90 s1;
        Some (publish (Publish_Device_Status (my_devices s2)) s2)
      })
     (let d = (my_devices s)\<lparr>Beep_State := on, LED0_State := on, Door_State := on\<rparr> in (d, [c, Publish_Device_Status d]))"
proof -
  obtain s1 where s1: "beep_change b on (publish c s) = Some s1" "alarm_inv s1" "ctl_frame (publish c s) s1"
    "published s1 = published s @ [c]" "angle s1 = angle s" "my_devices s1 = (my_devices s)\<lparr>LED0_State := on, Beep_State := on\<rparr>"
    using beep_door [of "publish c s" b on] assms by auto
  then show ?thesis using door_angle_90 [of 0 on] door_angle_90 [of 90 on] door_angle_90 [of 180 on]
    by (simp add: implements_def ctl_frame_def Let_def)
qed

lemma auto_temp_implements:
  assumes "alarm_inv s"
  shows "implements s (auto_temp b s) (temp_ctl (my_environment s) (my_thresholds s) (my_devices s))"
  using switch_implements [OF assms, of b] implements_id [OF assms]
  by (auto simp: auto_temp_def temp_ctl_def Let_def)

lemma auto_humi_implements:
  assumes "alarm_inv s"
  shows "implements s (auto_humi s) (humi_ctl (my_environment s) (my_thresholds s) (my_devices s))"
proof -
  have "implements s (do {s1 \<leftarrow> relay_change on (publish c s); Some (publish (Publish_Device_Status (my_devices s1)) s1)})
     (let d = (my_devices s)\<lparr>Relay_State := on\<rparr> in (d, [c, Publish_Device_Status d]))" for on c
  proof -
    obtain s1 where "relay_change on (publish c s) = Some s1" "alarm_inv s1"
      and s1: "s1 = (publish c s)\<lparr>hw := hw s1, my_devices := (my_devices (publish c s))\<lparr>Relay_State := on\<rparr>\<rparr>"
      using relay_change_inv [of "publish c s" on] assms by auto
    then obtain h where "s1 = (publish c s)\<lparr>hw := h, my_devices := (my_devices s)\<lparr>Relay_State := on\<rparr>\<rparr>" by auto
    with \<open>relay_change on (publish c s) = Some s1\<close> \<open>alarm_inv s1\<close> show ?thesis by (simp add: implements_def ctl_frame_def Let_def)
  qed
  then show ?thesis using implements_id [OF assms] by (auto simp: auto_humi_def humi_ctl_def Let_def)
qed

lemma auto_light_implements:
  assumes "alarm_inv s"
  shows "implements s (auto_light s) (light_ctl (my_environment s) (my_thresholds s) (my_devices s))"
proof -
  have "implements s (do {s1 \<leftarrow> emergency_light_change on (publish c s); Some (publish (Publish_Device_Status (my_devices s1)) s1)})
     (let d = (my_devices s)\<lparr>LED1_State := on\<rparr> in (d, [c, Publish_Device_Status d]))" for on c
  proof -
    obtain s1 where "emergency_light_change on (publish c s) = Some s1" "alarm_inv s1"
      and s1: "s1 = (publish c s)\<lparr>hw := hw s1, my_devices := (my_devices (publish c s))\<lparr>LED1_State := on\<rparr>\<rparr>"
      using light_change_inv [of "publish c s" on] assms by auto
    then obtain h where "s1 = (publish c s)\<lparr>hw := h, my_devices := (my_devices s)\<lparr>LED1_State := on\<rparr>\<rparr>" by auto
    with \<open>emergency_light_change on (publish c s) = Some s1\<close> \<open>alarm_inv s1\<close> show ?thesis by (simp add: implements_def ctl_frame_def Let_def)
  qed
  then show ?thesis using implements_id [OF assms] by (auto simp: auto_light_def light_ctl_def Let_def)
qed

lemma implements_bind:
  assumes "implements s r (d1, ev1)"
    "\<And>s1. alarm_inv s1 \<Longrightarrow> ctl_frame s s1 \<Longrightarrow> my_devices s1 = d1 \<Longrightarrow> implements s1 (f s1) (d2, ev2)"
  shows "implements s (Option.bind r f) (d2, ev1 @ ev2)"
proof -
  obtain s1 where s1: "r = Some s1" "alarm_inv s1" "ctl_frame s s1" "my_devices s1 = d1" "published s1 = published s @ ev1"
    "angle s \<in> {0, 90, 180} \<longrightarrow> angle s1 \<in> {0, 90, 180}"
    using assms(1) unfolding implements_def fst_conv snd_conv by blast
  obtain s2 where s2: "f s1 = Some s2" "alarm_inv s2" "ctl_frame s1 s2" "my_devices s2 = d2" "published s2 = published s1 @ ev2"
    "angle s1 \<in> {0, 90, 180} \<longrightarrow> angle s2 \<in> {0, 90, 180}"
    using assms(2) [OF s1(2-4)] unfolding implements_def fst_conv snd_conv by blast
  have "Option.bind r f = Some s2" "published s2 = published s @ ev1 @ ev2" using s1(1,5) s2(1,5) by simp_all
  moreover have "angle s \<in> {0, 90, 180} \<longrightarrow> angle s2 \<in> {0, 90, 180}" using s1(6) s2(6) by blast
  ultimately show ?thesis using s2(2,4) ctl_frame_trans [OF s1(3) s2(3)] unfolding implements_def fst_conv snd_conv by blast
qed

lemma auto_control_implements:
  assumes "alarm_inv s"
  shows "implements s (my_auto_control_iter b s) (controller (my_environment s) (my_thresholds s) (my_devices s))"
proof -
  let ?e = "my_environment s" and ?t = "my_thresholds s" and ?d = "my_devices s"
  obtain d1 ev1 where c1: "temp_ctl ?e ?t ?d = (d1, ev1)" by fastforce
  obtain d2 ev2 where c2: "humi_ctl ?e ?t d1 = (d2, ev2)" by fastforce
  define d3 ev3 where "d3 = (if DHT11_Sensor_State ?d then d2 else ?d)" and "ev3 = (if DHT11_Sensor_State ?d then ev1 @ ev2 else [])"
  obtain d4 ev4 where c4: "light_ctl ?e ?t d3 = (d4, ev4)" by fastforce
  have ok: "hw_pin_ops (hw s) = Some Stm32_pin_ops" using assms by (simp add: alarm_inv_def pins_ok_def)
  have "implements s (do {s1 \<leftarrow> auto_temp b s; auto_humi s1}) (d2, ev1 @ ev2)"
    using auto_temp_implements [OF assms, of b] auto_humi_implements c1 c2
    by (intro implements_bind [where ?d1.0 = d1]) (force simp: ctl_frame_def)+
  then have "implements s (if DHT11_Sensor_State ?d then do {s1 \<leftarrow> auto_temp b s; auto_humi s1} else Some s) (d3, ev3)"
    using implements_id [OF assms] by (simp add: d3_def ev3_def)
  then have "implements s (do {
      s1 \<leftarrow> (if DHT11_Sensor_State ?d then do {s1 \<leftarrow> auto_temp b s; auto_humi s1} else Some s);
      if Light_Sensor_State (my_devices s1) then auto_light s1 else Some s1})
     (if Light_Sensor_State d3 then d4 else d3, ev3 @ (if Light_Sensor_State d3 then ev4 else []))"
    by (rule implements_bind) (use auto_light_implements implements_id c4 in \<open>fastforce simp: ctl_frame_def\<close>)
  moreover have "controller ?e ?t ?d = (if Light_Sensor_State d3 then d4 else d3, ev3 @ (if Light_Sensor_State d3 then ev4 else []))"
    using c1 c2 c4 by (cases "DHT11_Sensor_State ?d") (simp_all add: controller_def d3_def ev3_def)
  ultimately show ?thesis by (simp add: my_auto_control_iter_def Get_MQ2_D0_def ok)
qed

text \<open>C21: A turn of the control thread implements the controller: it returns, it leaves the recorded
  device states that the controller computes from the measurements and limits at the start of the
  turn, it reports exactly the controller's events in their order, and the pins, the alarm timer and
  the door follow the recorded states again afterwards.\<close>

theorem auto_control_refines:
  assumes "alarm_inv s"
  shows "\<exists>s'. my_auto_control_iter b s = Some s' \<and> alarm_inv s' \<and> ctl_frame s s' \<and>
     my_devices s' = fst (controller (my_environment s) (my_thresholds s) (my_devices s)) \<and>
     published s' = published s @ snd (controller (my_environment s) (my_thresholds s) (my_devices s))"
  using auto_control_implements [OF assms, of b] by (auto simp: implements_def)

definition hot_app :: app where
  "hot_app = app_ready\<lparr>my_environment := \<lparr>env_temp = 60, env_humi = 30, env_light = 1500, env_smoke = 0\<rparr>\<rparr>"

lemma hot_app_inv: "alarm_inv hot_app"
  using app_ready_inv alarm_inv_cong [of hot_app app_ready] by (simp add: hot_app_def)

lemma app_ready_fields:
  "my_devices app_ready = devices_boot" "my_thresholds app_ready = thresholds_boot" "published app_ready = []" "angle app_ready = 0"
proof -
  have "hw_pin_ops (snd (rt_hw_pin_init reset_gpio)) = Some Stm32_pin_ops"
    by (simp add: rt_hw_pin_init_def rt_device_pin_register_def)
  from gpio_init_inv [OF this, of 0 any_init None] show "my_devices app_ready = devices_boot"
    "my_thresholds app_ready = thresholds_boot" "published app_ready = []" "angle app_ready = 0"
    by (auto simp: app_ready_def app_boot_def)
qed

theorem auto_control_refines_witness:
  "\<exists>s'. my_auto_control_iter f407_board hot_app = Some s' \<and> Beep_State (my_devices s') \<and> Door_State (my_devices s') \<and>
     published s' = [Publish_Alarm_Info ALARM_TEMPERATURE_TOO_HIGH 60 50, Publish_Device_Status (my_devices s')]"
proof -
  have f: "my_devices hot_app = devices_boot" "my_thresholds hot_app = thresholds_boot" "published hot_app = []"
    by (simp_all add: hot_app_def app_ready_fields)
  show ?thesis
    using auto_control_refines [OF hot_app_inv, of f407_board] unfolding f
    by (simp add: hot_app_def controller_def temp_ctl_def humi_ctl_def light_ctl_def devices_boot_def thresholds_boot_def Let_def) auto
qed

section \<open>Behaviour of the controller\<close>

text \<open>When a loop does nothing, and that the loops do not read each other's devices.\<close>

definition temp_quiet :: "Environment \<Rightarrow> Thresholds \<Rightarrow> Devices \<Rightarrow> bool" where
  "temp_quiet e t d \<longleftrightarrow> Beep_State d \<noteq> Door_State d \<or>
     (if Beep_State d then env_temp e \<ge> Temp_Limit t else env_temp e \<le> Temp_Limit t)"

definition humi_quiet :: "Environment \<Rightarrow> Thresholds \<Rightarrow> Devices \<Rightarrow> bool" where
  "humi_quiet e t d \<longleftrightarrow> (if Relay_State d then env_humi e \<ge> Humi_Limit t else env_humi e \<le> Humi_Limit t)"

definition light_quiet :: "Environment \<Rightarrow> Thresholds \<Rightarrow> Devices \<Rightarrow> bool" where
  "light_quiet e t d \<longleftrightarrow> (if LED1_State d then env_light e \<le> Light_Up_Limit t else env_light e \<ge> Light_Down_Limit t)"

lemma quiet_ctl:
  "temp_quiet e t d \<Longrightarrow> temp_ctl e t d = (d, [])" "humi_quiet e t d \<Longrightarrow> humi_ctl e t d = (d, [])"
  "light_quiet e t d \<Longrightarrow> light_ctl e t d = (d, [])"
  by (auto simp: temp_quiet_def temp_ctl_def humi_quiet_def humi_ctl_def light_quiet_def light_ctl_def split: if_splits)

lemma temp_ctl_fields [simp]:
  "Relay_State (fst (temp_ctl e t d)) = Relay_State d" "LED1_State (fst (temp_ctl e t d)) = LED1_State d"
  "DHT11_Sensor_State (fst (temp_ctl e t d)) = DHT11_Sensor_State d" "Light_Sensor_State (fst (temp_ctl e t d)) = Light_Sensor_State d"
  by (simp_all add: temp_ctl_def Let_def)

lemma humi_ctl_fields [simp]:
  "Beep_State (fst (humi_ctl e t d)) = Beep_State d" "Door_State (fst (humi_ctl e t d)) = Door_State d"
  "LED1_State (fst (humi_ctl e t d)) = LED1_State d" "LED0_State (fst (humi_ctl e t d)) = LED0_State d"
  "DHT11_Sensor_State (fst (humi_ctl e t d)) = DHT11_Sensor_State d" "Light_Sensor_State (fst (humi_ctl e t d)) = Light_Sensor_State d"
  by (simp_all add: humi_ctl_def Let_def)

lemma light_ctl_fields [simp]:
  "Beep_State (fst (light_ctl e t d)) = Beep_State d" "Door_State (fst (light_ctl e t d)) = Door_State d"
  "Relay_State (fst (light_ctl e t d)) = Relay_State d" "LED0_State (fst (light_ctl e t d)) = LED0_State d"
  "DHT11_Sensor_State (fst (light_ctl e t d)) = DHT11_Sensor_State d" "Light_Sensor_State (fst (light_ctl e t d)) = Light_Sensor_State d"
  by (simp_all add: light_ctl_def Let_def)

lemma quiet_after:
  "temp_quiet e t (fst (temp_ctl e t d))" "humi_quiet e t (fst (humi_ctl e t d))"
  "Light_Down_Limit t \<le> Light_Up_Limit t \<Longrightarrow> light_quiet e t (fst (light_ctl e t d))"
  by (auto simp: temp_quiet_def temp_ctl_def humi_quiet_def humi_ctl_def light_quiet_def light_ctl_def Let_def)

lemma quiet_other [simp]:
  "temp_quiet e t (fst (humi_ctl e t d)) \<longleftrightarrow> temp_quiet e t d" "temp_quiet e t (fst (light_ctl e t d)) \<longleftrightarrow> temp_quiet e t d"
  "humi_quiet e t (fst (light_ctl e t d)) \<longleftrightarrow> humi_quiet e t d"
  by (simp_all add: temp_quiet_def humi_quiet_def)

lemma controller_fst:
  "fst (controller e t d) =
     (let d2 = (if DHT11_Sensor_State d then fst (humi_ctl e t (fst (temp_ctl e t d))) else d)
      in if Light_Sensor_State d then fst (light_ctl e t d2) else d2)"
  by (simp add: controller_def split_beta Let_def)

lemma controller_quiet:
  assumes "DHT11_Sensor_State d \<longrightarrow> temp_quiet e t d \<and> humi_quiet e t d" "Light_Sensor_State d \<longrightarrow> light_quiet e t d"
  shows "controller e t d = (d, [])"
  using assms quiet_ctl by (simp add: controller_def)

lemma controller_twice:
  assumes "Light_Down_Limit t \<le> Light_Up_Limit t"
  shows "controller e t (fst (controller e t d)) = (fst (controller e t d), [])"
proof (rule controller_quiet)
  show "DHT11_Sensor_State (fst (controller e t d)) \<longrightarrow>
      temp_quiet e t (fst (controller e t d)) \<and> humi_quiet e t (fst (controller e t d))"
    by (simp add: controller_fst Let_def quiet_after)
  show "Light_Sensor_State (fst (controller e t d)) \<longrightarrow> light_quiet e t (fst (controller e t d))"
    using assms by (simp add: controller_fst Let_def quiet_after)
qed

text \<open>C22: The controller does not chatter: when the lower light limit does not exceed the upper one, a
  second turn on the same measurements and limits switches nothing and reports nothing, so every
  alarm record is sent once per crossing.\<close>

theorem auto_control_settles:
  assumes "alarm_inv s" "Light_Down_Limit (my_thresholds s) \<le> Light_Up_Limit (my_thresholds s)"
    "my_auto_control_iter b s = Some s1" "my_auto_control_iter b s1 = Some s2"
  shows "my_devices s2 = my_devices s1 \<and> published s2 = published s1 \<and> alarm_inv s2"
proof -
  from auto_control_implements [OF assms(1), of b] assms(3) have s1: "alarm_inv s1" "ctl_frame s s1"
    "my_devices s1 = fst (controller (my_environment s) (my_thresholds s) (my_devices s))" by (auto simp: implements_def)
  from auto_control_implements [OF s1(1), of b] assms(4) have s2: "alarm_inv s2"
    "my_devices s2 = fst (controller (my_environment s1) (my_thresholds s1) (my_devices s1))"
    "published s2 = published s1 @ snd (controller (my_environment s1) (my_thresholds s1) (my_devices s1))"
    by (auto simp: implements_def)
  have "my_environment s1 = my_environment s" "my_thresholds s1 = my_thresholds s" using s1(2) by (simp_all add: ctl_frame_def)
  with s1(3) s2 controller_twice [OF assms(2)] show ?thesis by simp
qed

theorem auto_control_settles_witness:
  "\<exists>s1 s2. my_auto_control_iter f407_board hot_app = Some s1 \<and> my_auto_control_iter f407_board s1 = Some s2 \<and>
     my_devices s2 = my_devices s1 \<and> published s2 = published s1"
proof -
  obtain s1 where s1: "my_auto_control_iter f407_board hot_app = Some s1" "alarm_inv s1"
    using auto_control_implements [OF hot_app_inv, of f407_board] by (auto simp: implements_def)
  obtain s2 where s2: "my_auto_control_iter f407_board s1 = Some s2"
    using auto_control_implements [OF s1(2), of f407_board] by (auto simp: implements_def)
  have "Light_Down_Limit (my_thresholds hot_app) \<le> Light_Up_Limit (my_thresholds hot_app)"
    by (simp add: hot_app_def app_ready_fields thresholds_boot_def)
  from auto_control_settles [OF hot_app_inv this s1(1) s2] s1(1) s2 show ?thesis by blast
qed



end
