(* ===== verification/App_System.thy ===== *)
theory App_System
  imports Auto_Control
begin

text \<open>
  The application as a system: \<open>main\<close> (\<open>src/smart-building-mcu/applications/src/main.c\<close>), and the
  threads, interrupts and remote commands that act on its state afterwards as a step relation. A
  step is one turn of a thread's loop, one interrupt, or one call of an exported operation; the
  turns are taken as atomic. The locale \<open>step_system\<close> states what a step relation must keep for
  an invariant to hold in every state it reaches.
\<close>

section \<open>Main\<close>

text \<open>\<open>ok\<close> says which threads \<open>rt_thread_create\<close> finds memory for; \<open>my_rt_hw_dht11_port\<close> only
  calls the sensor package. The results of the initialisation functions are not used.\<close>

definition app_main :: "board \<Rightarrow> u32 \<Rightarrow> GPIO_InitTypeDef \<Rightarrow> (string \<Rightarrow> bool) \<Rightarrow> app \<Rightarrow> app option" where
  "app_main b alt stk ok s = do {
     s \<leftarrow> my_GPIO_Init alt stk s;
     let s = my_oled_init s;
     (_, s) \<leftarrow> my_light_adc (ok ''my_light_th'') s;
     (_, s) \<leftarrow> my_mq2_adc (ok ''my_mq2_th'') s;
     let s = snd (my_dht11_read_temp_sample (ok ''my_dht_tem'') s);
     let s = my_pwm_init b s;
     let s = publish Mqtt_Start s;
     let s = snd (my_data_upload_init (ok ''my_data_upload'') s);
     Some (snd (my_auto_control_init (ok ''my_auto_control'') s))
   }"

section \<open>Steps\<close>

text \<open>The hardware lets the alarm timer overflow at any time.\<close>

definition tim3_hw_overflow :: "app \<Rightarrow> app" where
  "tim3_hw_overflow s = s\<lparr>timer3 := map_option (upd_priv (\<lambda>t. t\<lparr>ht_tim := tim_overflow (ht_tim t)\<rparr>)) (timer3 s)\<rparr>"

datatype limit = Temp_L | Humi_L | Light_Up_L | Light_Down_L

fun set_limit :: "limit \<Rightarrow> int \<Rightarrow> app \<Rightarrow> app" where
  "set_limit Temp_L v s = Set_Devpro_Temp_Limit v s"
| "set_limit Humi_L v s = Set_Devpro_Humi_Limit v s"
| "set_limit Light_Up_L v s = Set_Devpro_Light_Up_Limit v s"
| "set_limit Light_Down_L v s = Set_Devpro_Light_Down_Limit v s"

inductive app_step :: "board \<Rightarrow> app \<Rightarrow> app \<Rightarrow> bool" for b where
  Auto_turn: "my_auto_control_iter b s = Some s' \<Longrightarrow> app_step b s s'"
| Light_turn: "my_light_iter sample stk s = Inr s' \<Longrightarrow> app_step b s s'"
| Mq2_turn: "my_mq2_iter sample stk s = Inr s' \<Longrightarrow> app_step b s s'"
| Dht_turn: "my_read_temp_iter r s = Inr (c, s') \<Longrightarrow> app_step b s s'"
| Upload_turn: "app_step b s (my_data_upload_iter s)"
| Key0: "app_step b s (IQR_HANDALE_KEY0 s)"
| Key1: "app_step b s (IQR_HANDALE_KEY1 s)"
| Overflow: "app_step b s (tim3_hw_overflow s)"
| Tim3: "TIM3_IRQHandler b s = Some s' \<Longrightarrow> app_step b s s'"
| Remote_beep: "beep_change b on s = Some s' \<Longrightarrow> app_step b s s'"
| Remote_relay: "relay_change on s = Some s' \<Longrightarrow> app_step b s s'"
| Remote_light: "emergency_light_change on s = Some s' \<Longrightarrow> app_step b s s'"
| Remote_door: "app_step b s (my_pwm_angle_change b on 90 s)"
| Remote_limit: "app_step b s (set_limit l v s)"

inductive_cases app_stepE: "app_step b s s'"

section \<open>Invariant\<close>

definition app_inv :: "app \<Rightarrow> bool" where
  "app_inv s \<longleftrightarrow> alarm_inv s \<and> angle s \<in> {0, 90, 180} \<and> adc_light_dev s \<and> adc_mq2_dev s \<and>
     (\<exists>d. adc2 s = Some d \<and> adc_ok (priv d)) \<and> (\<exists>d. adc3 s = Some d \<and> adc_ok (priv d))"

lemma app_invD:
  assumes "app_inv s"
  shows "alarm_inv s" "angle s \<in> {0, 90, 180}"
  using assms by (simp_all add: app_inv_def)

lemma app_invI:
  assumes "app_inv s" "alarm_inv s'" "angle s' \<in> {0, 90, 180}" "ctl_frame s s'"
  shows "app_inv s'"
  using assms by (simp add: app_inv_def ctl_frame_def)

lemma auto_turn_inv:
  assumes "app_inv s" "my_auto_control_iter b s = Some s'"
  shows "app_inv s'"
proof -
  have "alarm_inv s'" "ctl_frame s s'" "angle s' \<in> {0, 90, 180}"
    using auto_control_implements [OF app_invD(1) [OF assms(1)], of b] assms(2) app_invD(2) [OF assms(1)]
    unfolding implements_def by auto
  then show ?thesis using app_invI [OF assms(1)] by blast
qed

lemma light_turn_inv: "app_inv s \<Longrightarrow> my_light_iter sample stk s = Inr s' \<Longrightarrow> app_inv s'"
  using light_iter [of s _ sample stk] sensor_frame_alarm [of s s'] by (fastforce simp: app_inv_def sensor_frame_def)

lemma mq2_turn_inv: "app_inv s \<Longrightarrow> my_mq2_iter sample stk s = Inr s' \<Longrightarrow> app_inv s'"
  using mq2_iter [of s _ sample stk] sensor_frame_alarm [of s s'] by (fastforce simp: app_inv_def sensor_frame_def)

lemma dht_turn_inv: "app_inv s \<Longrightarrow> my_read_temp_iter r s = Inr (c, s') \<Longrightarrow> app_inv s'"
  using read_temp_iter [of r s] sensor_frame_alarm [of s s'] by (auto simp: app_inv_def sensor_frame_def)

lemma tim3_turn_inv:
  assumes "app_inv s" "TIM3_IRQHandler b s = Some s'"
  shows "app_inv s'"
proof -
  have "alarm_inv s'" "s' = s\<lparr>hw := hw s', timer3 := timer3 s'\<rparr>"
    using tim3_irq_inv [OF app_invD(1) [OF assms(1)], of b] assms(2) by force+
  moreover from this(2) obtain h d where "s' = s\<lparr>hw := h, timer3 := d\<rparr>" by blast
  ultimately show ?thesis using assms(1) by (simp add: app_inv_def)
qed

lemma overflow_inv:
  assumes "app_inv s"
  shows "app_inv (tim3_hw_overflow s)"
proof -
  have "timer_inv (upd_priv (\<lambda>t. t\<lparr>ht_tim := f (ht_tim t)\<rparr>) d) \<longleftrightarrow> timer_inv d" for f d
    by (simp add: timer_inv_def upd_priv_def standalone_inv_def)
  moreover have "ref_count (upd_priv f d) = ref_count d" for f :: "rt_hwtimer \<Rightarrow> rt_hwtimer" and d by (simp add: upd_priv_def)
  ultimately have "alarm_inv (tim3_hw_overflow s)"
    using app_invD(1) [OF assms] by (auto simp: alarm_inv_def tim3_hw_overflow_def pins_ok_def)
  with assms show ?thesis by (simp add: app_inv_def tim3_hw_overflow_def)
qed

lemma beep_turn_inv:
  assumes "app_inv s" "beep_change b on s = Some s'"
  shows "app_inv s'"
  using beep_door [OF app_invD(1) [OF assms(1)], of b on] assms app_invD(2) [OF assms(1)] app_invI [OF assms(1), of s'] by auto

lemma relay_turn_inv:
  assumes "app_inv s" "relay_change on s = Some s'"
  shows "app_inv s'"
proof -
  have "alarm_inv s'" "s' = s\<lparr>hw := hw s', my_devices := (my_devices s)\<lparr>Relay_State := on\<rparr>\<rparr>"
    using relay_change_inv [OF app_invD(1) [OF assms(1)], of on] assms(2) by force+
  moreover from this(2) obtain h d where "s' = s\<lparr>hw := h, my_devices := d\<rparr>" by blast
  ultimately show ?thesis using assms(1) by (simp add: app_inv_def)
qed

lemma lamp_turn_inv:
  assumes "app_inv s" "emergency_light_change on s = Some s'"
  shows "app_inv s'"
proof -
  have "alarm_inv s'" "s' = s\<lparr>hw := hw s', my_devices := (my_devices s)\<lparr>LED1_State := on\<rparr>\<rparr>"
    using light_change_inv [OF app_invD(1) [OF assms(1)], of on] assms(2) by force+
  moreover from this(2) obtain h d where "s' = s\<lparr>hw := h, my_devices := d\<rparr>" by blast
  ultimately show ?thesis using assms(1) by (simp add: app_inv_def)
qed

lemma door_turn_inv: "app_inv s \<Longrightarrow> app_inv (my_pwm_angle_change b on 90 s)"
  using door_angle_90 [of "angle s" on] by (simp add: app_inv_def)

lemma record_turn_inv:
  assumes "app_inv s"
  shows "app_inv (my_data_upload_iter s)" "app_inv (IQR_HANDALE_KEY0 s)" "app_inv (IQR_HANDALE_KEY1 s)" "app_inv (set_limit l v s)"
proof -
  have "alarm_inv (my_data_upload_iter s)" "alarm_inv (IQR_HANDALE_KEY0 s)" "alarm_inv (IQR_HANDALE_KEY1 s)" "alarm_inv (set_limit l v s)"
    using app_invD(1) [OF assms]
    by (simp_all add: my_data_upload_iter_def IQR_HANDALE_KEY0_def IQR_HANDALE_KEY1_def accessor_defs alarm_inv_def pins_ok_def)
       (cases l; simp add: accessor_defs alarm_inv_def pins_ok_def)
  then show "app_inv (my_data_upload_iter s)" "app_inv (IQR_HANDALE_KEY0 s)" "app_inv (IQR_HANDALE_KEY1 s)" "app_inv (set_limit l v s)"
    using assms by (simp_all add: my_data_upload_iter_def IQR_HANDALE_KEY0_def IQR_HANDALE_KEY1_def accessor_defs app_inv_def)
       (cases l; simp add: accessor_defs)
qed

lemma app_step_inv: "app_step b s s' \<Longrightarrow> app_inv s \<Longrightarrow> app_inv s'"
  by (erule app_stepE) (auto intro: auto_turn_inv light_turn_inv mq2_turn_inv dht_turn_inv record_turn_inv overflow_inv
      tim3_turn_inv beep_turn_inv relay_turn_inv lamp_turn_inv door_turn_inv)

section \<open>Reachable states\<close>

interpretation app_sys: step_system "app_step b" app_inv for b
  by unfold_locales (rule app_step_inv)

lemma boot_adc:
  "\<exists>d. adc2 (app_boot h p) = Some d \<and> adc_ok (priv d)" "\<exists>d. adc3 (app_boot h p) = Some d \<and> adc_ok (priv d)"
  by (simp_all add: app_boot_def stm32_adc_init_def adc_name_def rt_hw_adc_register_def rt_device_register_def
      rt_device_find_def adc_ok_def stm32_adc_obj_def)

lemma enable_adc:
  "rt_adc_enable (stm_adc_ops sample) chan (Some d) = Some (RT_EOK, d\<lparr>priv := (priv d)\<lparr>ADON := True\<rparr>\<rparr>)"
  by (simp add: rt_adc_enable_def stm_adc_ops_def stm32_adc_enabled_def)

lemma adc_threads:
  "adc3 s = Some d \<Longrightarrow> my_light_adc ok s = Some (RT_EOK, s\<lparr>adc_light_dev := True,
     adc3 := Some (d\<lparr>priv := (priv d)\<lparr>ADON := True\<rparr>\<rparr>), threads := threads s @ [''my_light_entry'']\<rparr>)"
  "adc2 s = Some d \<Longrightarrow> my_mq2_adc ok s = Some (RT_EOK, thread_start ok ''my_mq2_entry'' (s\<lparr>adc_mq2_dev := True,
     adc2 := Some (d\<lparr>priv := (priv d)\<lparr>ADON := True\<rparr>\<rparr>)\<rparr>))"
  by (simp_all add: my_light_adc_def my_light_ADC_Init_def my_mq2_adc_def my_mq2_ADC_Init_def enable_adc thread_start_def)

lemma my_pwm_init_frame:
  "alarm_inv (my_pwm_init b s) \<longleftrightarrow> alarm_inv s" "angle (my_pwm_init b s) = angle s" "adc2 (my_pwm_init b s) = adc2 s"
  "adc3 (my_pwm_init b s) = adc3 s" "adc_light_dev (my_pwm_init b s) = adc_light_dev s" "adc_mq2_dev (my_pwm_init b s) = adc_mq2_dev s"
  "threads (my_pwm_init b s) = threads s" "my_environment (my_pwm_init b s) = my_environment s"
proof -
  show "alarm_inv (my_pwm_init b s) \<longleftrightarrow> alarm_inv s"
    by (rule alarm_inv_cong) (simp_all add: my_pwm_init_def Let_def split_beta split: option.split)
qed (simp_all add: my_pwm_init_def Let_def split_beta split: option.split)

lemma main_inv:
  assumes "hw_pin_ops h = Some Stm32_pin_ops"
  shows "\<exists>s. app_main b alt stk ok (app_boot h p) = Some s \<and> app_inv s \<and> my_environment s = environment_boot \<and>
     threads s = [''my_light_entry''] @ (if ok ''my_mq2_th'' then [''my_mq2_entry''] else []) @
       (if ok ''my_dht_tem'' then [''my_read_temp_entry''] else []) @
       (if ok ''my_data_upload'' then [''my_data_upload_entry''] else []) @
       (if ok ''my_auto_control'' then [''my_auto_control_entry''] else [])"
proof -
  obtain d2 d3 where d: "adc2 (app_boot h p) = Some d2" "adc_ok (priv d2)" "adc3 (app_boot h p) = Some d3" "adc_ok (priv d3)"
    using boot_adc by blast
  obtain h' where h': "my_GPIO_Init alt stk (app_boot h p) = Some ((app_boot h p)\<lparr>hw := h'\<rparr>)"
    "alarm_inv ((app_boot h p)\<lparr>hw := h'\<rparr>)"
    using gpio_init_inv [OF assms] by blast
  define s1 where "s1 = (my_oled_init ((app_boot h p)\<lparr>hw := h'\<rparr>))
     \<lparr>adc_light_dev := True, adc3 := Some (d3\<lparr>priv := (priv d3)\<lparr>ADON := True\<rparr>\<rparr>),
      threads := [''my_light_entry''], adc_mq2_dev := True, adc2 := Some (d2\<lparr>priv := (priv d2)\<lparr>ADON := True\<rparr>\<rparr>)\<rparr>"
  have s1: "alarm_inv s1" "my_environment s1 = environment_boot" "threads s1 = [''my_light_entry'']" "angle s1 = 0" "adc_light_dev s1" "adc_mq2_dev s1"
    "\<exists>d. adc2 s1 = Some d \<and> adc_ok (priv d)" "\<exists>d. adc3 s1 = Some d \<and> adc_ok (priv d)"
    using d h'(2) alarm_inv_cong [of s1 "(app_boot h p)\<lparr>hw := h'\<rparr>"]
    by (simp_all add: s1_def my_oled_init_def draw_def adc_ok_def) (simp_all add: app_boot_def)
  have t0: "threads (app_boot h p) = []" by (simp add: app_boot_def)
  have "app_main b alt stk ok (app_boot h p) =
     Some (thread_start (ok ''my_auto_control'') ''my_auto_control_entry'' (thread_start (ok ''my_data_upload'') ''my_data_upload_entry''
       (publish Mqtt_Start (my_pwm_init b (thread_start (ok ''my_dht_tem'') ''my_read_temp_entry''
         (thread_start (ok ''my_mq2_th'') ''my_mq2_entry'' s1))))))"
    using h'(1) d(1,3) t0
    by (simp add: app_main_def adc_threads Let_def my_dht11_read_temp_sample_def my_data_upload_init_def my_auto_control_init_def
        s1_def my_oled_init_def draw_def)
  moreover have "alarm_inv (thread_start k x s) \<longleftrightarrow> alarm_inv s" for k x s
    by (rule alarm_inv_cong) (simp_all add: thread_start_def)
  ultimately show ?thesis
    using s1 by (simp add: app_inv_def my_pwm_init_frame) (simp add: thread_start_def my_pwm_init_frame publish_def)
qed





end
