(* ===== verification/Blink.thy ===== *)
theory Blink
  imports App_System
begin

text \<open>
  The alarm over time: from the start of the alarm (\<open>my_multiThread.c\<close>, \<open>my_hwtimer.c\<close>) through
  the timer's registers (\<open>drv_hwtimer.c\<close>) and interrupts to the levels of the buzzer and the lamp;
  and the ranges of the measurements in every reachable state.
\<close>

section \<open>One overflow\<close>

text \<open>The timer overflows and its interrupt is taken.\<close>

definition blink :: "board \<Rightarrow> app \<Rightarrow> app option" where
  "blink b s = TIM3_IRQHandler b (tim3_hw_overflow s)"

fun blinks :: "board \<Rightarrow> nat \<Rightarrow> app \<Rightarrow> app option" where
  "blinks b 0 s = Some s"
| "blinks b (Suc n) s = Option.bind (blink b s) (blinks b n)"

definition blinking :: "hwtimer_dev \<Rightarrow> bool" where
  "blinking d \<longleftrightarrow> rx_indicate d = Some ''my_timeout_cb'' \<and> tim_running (ht_tim (priv d)) \<and>
     ht_mode (priv d) = HWTIMER_MODE_PERIOD \<and> 1 \<le> cycles (priv d) \<and> cycles (priv d) \<le> reload (priv d)"

lemma overflow_irq:
  assumes "tim_running t"
  shows "\<exists>t'. HAL_TIM_IRQHandler (tim_overflow t) = (True, t') \<and> tim_running t'"
  using assms by (simp add: HAL_TIM_IRQHandler_def tim_overflow_def tim_running_def)

lemma irq_blinking:
  assumes "blinking d" "ops = stm32_hwtimer_ops p1 p2"
  shows "\<exists>cb d'. TIM_IRQHandler ops (upd_priv (\<lambda>t. t\<lparr>ht_tim := tim_overflow (ht_tim t)\<rparr>) d) = (cb, d') \<and>
     blinking d' \<and> reload (priv d') = reload (priv d) \<and>
     (if cycles (priv d) = 1 then cb = Some ''my_timeout_cb'' \<and> cycles (priv d') = reload (priv d)
      else cb = None \<and> cycles (priv d') = cycles (priv d) - 1)"
proof -
  obtain t' where t': "HAL_TIM_IRQHandler (tim_overflow (ht_tim (priv d))) = (True, t')" "tim_running t'"
    using overflow_irq assms(1) by (auto simp: blinking_def)
  let ?d = "d\<lparr>priv := (priv d)\<lparr>ht_tim := t'\<rparr>\<rparr>"
  obtain cb d' where isr: "rt_device_hwtimer_isr ops ?d = (cb, d')" by fastforce
  have irq: "TIM_IRQHandler ops (upd_priv (\<lambda>t. t\<lparr>ht_tim := tim_overflow (ht_tim t)\<rparr>) d) = (cb, d')"
    using t'(1) isr by (simp add: TIM_IRQHandler_def upd_priv_def)
  have "ht_tim (priv d') = t'"
    using isr assms(1) by (auto simp: rt_device_hwtimer_isr_def Let_def blinking_def split: if_splits)
  with irq isr_periodic [of ?d ops cb d'] isr assms(1) t'(2) show ?thesis
    by (auto simp: blinking_def split: if_splits)
qed

lemma blink_step:
  assumes "pins_ok s" "timer3 s = Some d" "blinking d"
  shows "\<exists>s' d'. blink b s = Some s' \<and> pins_ok s' \<and> timer3 s' = Some d' \<and> blinking d' \<and> reload (priv d') = reload (priv d) \<and>
     (if cycles (priv d) = 1
      then cycles (priv d') = reload (priv d) \<and> level LED0_PIN s' = 1 - level LED0_PIN s \<and> level BEEP_PIN s' = 1 - level BEEP_PIN s
      else cycles (priv d') = cycles (priv d) - 1 \<and> level LED0_PIN s' = level LED0_PIN s \<and> level BEEP_PIN s' = level BEEP_PIN s)"
proof -
  obtain cb d' where irq: "TIM_IRQHandler (stm32_hwtimer_ops (pclk1 b) (pclk2 b))
      (upd_priv (\<lambda>t. t\<lparr>ht_tim := tim_overflow (ht_tim t)\<rparr>) d) = (cb, d')" "blinking d'" "reload (priv d') = reload (priv d)"
     "if cycles (priv d) = 1 then cb = Some ''my_timeout_cb'' \<and> cycles (priv d') = reload (priv d)
      else cb = None \<and> cycles (priv d') = cycles (priv d) - 1"
    using irq_blinking [OF assms(3) refl, of "pclk1 b" "pclk2 b"] by blast
  show ?thesis
  proof (cases "cycles (priv d) = 1")
    case True
    have "level LED0_PIN s \<in> {0, 1}" "level BEEP_PIN s \<in> {0, 1}" using level_01 [of 89 "hw s"] level_01 [of 88 "hw s"] by auto
    with True irq assms(1,2) show ?thesis
      by (auto simp: blink_def tim3_hw_overflow_def TIM3_IRQHandler_def my_timeout_cb_def pins_ok_def pin_simps)
  next
    case False
    with irq assms(1,2) show ?thesis by (simp add: blink_def tim3_hw_overflow_def TIM3_IRQHandler_def pins_ok_def)
  qed
qed

section \<open>Starting the alarm\<close>

lemma trigger_frame [simp]:
  "trigger_mode (ht_tim (timer_init p1 p2 st t)) \<longleftrightarrow> trigger_mode (ht_tim t)"
  "trigger_mode (ht_tim (snd (timer_ctrl p1 p2 c a t))) \<longleftrightarrow> trigger_mode (ht_tim t)"
  by (simp_all add: timer_init_def timer_ctrl_def Let_def HAL_TIM_Base_Init_def TIM_Base_SetConfig_def tim_UG_def
      HAL_TIM_SET_PRESCALER_def trigger_mode_def)

lemma open_keeps_trigger:
  assumes "timer_inv d" "ref_count d = 0" "rt_device_open (timer_ops b) oflag d = Some (RT_EOK, d1)"
  shows "trigger_mode (ht_tim (priv d1)) \<longleftrightarrow> trigger_mode (ht_tim (priv d))"
proof -
  have "\<exists>d1. rt_device_open (timer_ops b) oflag d = Some (RT_EOK, d1) \<and> trigger_mode (ht_tim (priv d1)) = trigger_mode (ht_tim (priv d))"
    using assms(1,2)
    by (simp add: timer_inv_def standalone_inv_def rt_device_open_def device_activate_def hwtimer_ops_def
        rt_hwtimer_init_def rt_hwtimer_open_def stm32_hwtimer_ops_def upd_priv_def Let_def device_mark_open_def tim_info_def)
  with assms(3) show ?thesis by auto
qed

lemma beep_on_blinking:
  assumes "alarm_inv s" "\<not> Beep_State (my_devices s)" "timer3 s = Some d" "\<not> trigger_mode (ht_tim (priv d))"
  shows "\<exists>s' d'. beep_change b True s = Some s' \<and> hw s' = hw s \<and> timer3 s' = Some d' \<and> blinking d' \<and>
     cycles (priv d') = 2 \<and> reload (priv d') = 2"
proof -
  have d: "timer_inv d" "ref_count d = 0" using assms(1-3) timer_inv_count [of d] by (auto simp: alarm_inv_def)
  obtain d1 where d1: "rt_device_open (timer_ops b) RT_DEVICE_OFLAG_RDWR d = Some (RT_EOK, d1)" "ref_count d1 = 1"
    "freq (priv d1) = 1000000" "ht_info (priv d1) = tim_info"
    using open_device [OF d] by blast
  let ?d3 = "upd_priv (\<lambda>t. t\<lparr>ht_mode := HWTIMER_MODE_PERIOD\<rparr>) (d1\<lparr>rx_indicate := Some ''my_timeout_cb''\<rparr>)"
  have tr: "\<not> trigger_mode (ht_tim (priv ?d3))" using open_keeps_trigger [OF d d1(1)] assms(4) by (simp add: upd_priv_def)
  obtain t where t: "rt_hwtimer_write (stm32_hwtimer_ops (pclk1 b) (pclk2 b)) 0 (Timeval_arg 0 100000) 8 ?d3 = Some (8, ?d3\<lparr>priv := t\<rparr>)"
    "tim_running (ht_tim t)" "cycles t = 2" "reload t = 2" "ht_mode t = HWTIMER_MODE_PERIOD"
    using write_100ms [of ?d3 "pclk1 b" "pclk2 b"] tr d1(3,4) by (auto simp: upd_priv_def)
  then have "rt_device_write (timer_ops b) 0 (Timeval_arg 0 100000) 8 ?d3 = Some (8, ?d3\<lparr>priv := t\<rparr>)"
    using d1(2) by (simp add: rt_device_write_def hwtimer_ops_def upd_priv_def)
  then have "my_hwtimer_openTimer b s = Some (RT_EOK, s\<lparr>hw_dev := True, ret := RT_EOK, timer3 := Some (?d3\<lparr>priv := t\<rparr>),
      tmode := HWTIMER_MODE_PERIOD, timeout_s := (0, 100 * 1000)\<rparr>)"
    using assms(3) d1(1)
    by (simp add: my_hwtimer_openTimer_def rt_device_set_rx_indicate_def set_period_mode write_timeout_def)
  moreover have "blinking (?d3\<lparr>priv := t\<rparr>)" using t by (simp add: blinking_def upd_priv_def)
  ultimately show ?thesis using t(3,4) by (simp add: beep_change_def accessor_defs)
qed

lemma blinks_even:
  assumes "pins_ok s" "timer3 s = Some d" "blinking d" "cycles (priv d) = 2" "reload (priv d) = 2"
  shows "\<exists>s'. blinks b (2 * n) s = Some s' \<and>
     level LED0_PIN s' = (if even n then level LED0_PIN s else 1 - level LED0_PIN s) \<and>
     level BEEP_PIN s' = (if even n then level BEEP_PIN s else 1 - level BEEP_PIN s)"
  using assms
proof (induction n arbitrary: s d)
  case (Suc n)
  obtain s1 d1 where 1: "blink b s = Some s1" "pins_ok s1" "timer3 s1 = Some d1" "blinking d1" "reload (priv d1) = 2"
    "cycles (priv d1) = 1" "level LED0_PIN s1 = level LED0_PIN s" "level BEEP_PIN s1 = level BEEP_PIN s"
    using blink_step [OF Suc.prems(1-3), of b] Suc.prems(4,5) by auto
  obtain s2 d2 where 2: "blink b s1 = Some s2" "pins_ok s2" "timer3 s2 = Some d2" "blinking d2" "reload (priv d2) = 2"
    "cycles (priv d2) = 2" "level LED0_PIN s2 = 1 - level LED0_PIN s" "level BEEP_PIN s2 = 1 - level BEEP_PIN s"
    using blink_step [OF 1(2-4), of b] 1(5-8) by auto
  from Suc.IH [OF 2(2-4,6,5)] obtain s' where "blinks b (2 * n) s2 = Some s'"
    "level LED0_PIN s' = (if even n then level LED0_PIN s2 else 1 - level LED0_PIN s2)"
    "level BEEP_PIN s' = (if even n then level BEEP_PIN s2 else 1 - level BEEP_PIN s2)" by blast
  then show ?case using 1(1) 2(1,7,8) by auto
qed simp



section \<open>Ranges of the measurements\<close>

definition env_ok :: "app \<Rightarrow> bool" where
  "env_ok s \<longleftrightarrow> app_inv s \<and> 0 \<le> env_temp (my_environment s) \<and> env_temp (my_environment s) \<le> 255 \<and>
     0 \<le> env_humi (my_environment s) \<and> env_humi (my_environment s) \<le> 255 \<and>
     - 95 \<le> env_light (my_environment s) \<and> env_light (my_environment s) \<le> 4000 \<and>
     0 \<le> env_smoke (my_environment s) \<and> env_smoke (my_environment s) \<le> 4095"

text \<open>Only the sensor threads write the measurements.\<close>

lemma env_unchanged:
  assumes "my_environment s' = my_environment s" "env_ok s" "app_inv s'"
  shows "env_ok s'"
  using assms by (simp add: env_ok_def)

lemma u8_range: "0 \<le> int (unat (w :: u8)) \<and> int (unat w) \<le> 255"
proof -
  have "unat w < 256" using unsigned_less [of w, where ?'a = nat] by simp
  then show ?thesis by linarith
qed

lemma dht_env:
  assumes "my_read_temp_iter r s = Inr (c, s')"
  shows "my_environment s' = my_environment s \<or>
     (\<exists>t h. my_environment s' = (my_environment s)\<lparr>env_temp := int (unat (t :: u8)), env_humi := int (unat (h :: u8))\<rparr>)"
  using assms
  by (cases r) (auto simp: my_read_temp_iter_def show_Data_def my_oled_print_dht_def dht_text_ok Let_def accessor_defs
      draw_def my_clean_line_def split: if_splits, blast)

lemma light_env:
  assumes "app_inv s" "my_light_iter sample stk s = Inr s'"
  shows "\<exists>x. x < 4096 \<and> my_environment s' = (my_environment s)\<lparr>env_light := 4000 - int x\<rparr>"
proof -
  obtain d where d: "adc_light_dev s" "adc3 s = Some d" "adc_ok (priv d)" using assms(1) by (auto simp: app_inv_def)
  obtain v d' where r: "rt_adc_read (stm_adc_ops sample) stk 5 (Some d) = Some (v, d')" "v < 4096"
    using read_ok [OF d(3), of 5 sample stk] by auto
  have "sint (of_int (4000 - int v) :: u32) = 4000 - int v" using r(2) by (intro sint_of_small) auto
  then have "sint (4000 - of_nat v :: u32) = 4000 - int v" by simp
  with assms(2) d r show ?thesis
    by (auto simp: my_light_iter_def print_light_ok Let_def accessor_defs draw_def)
qed

lemma mq2_env:
  assumes "app_inv s" "my_mq2_iter sample stk s = Inr s'"
  shows "\<exists>x. x < 4096 \<and> my_environment s' = (my_environment s)\<lparr>env_smoke := int x\<rparr>"
proof -
  obtain d where d: "adc_mq2_dev s" "adc2 s = Some d" "adc_ok (priv d)" using assms(1) by (auto simp: app_inv_def)
  obtain v d' where r: "rt_adc_read (stm_adc_ops sample) stk 4 (Some d) = Some (v, d')" "v < 4096"
    using read_ok [OF d(3), of 4 sample stk] by auto
  have "sint (of_int (int v) :: u32) = int v" using r(2) by (intro sint_of_small) auto
  then have "sint (of_nat v :: u32) = int v" by simp
  with assms(2) d r show ?thesis
    by (auto simp: my_mq2_iter_def print_mq2_ok accessor_defs draw_def)
qed

lemma relay_env: "relay_change on s = Some s' \<Longrightarrow> my_environment s' = my_environment s"
  by (auto simp: relay_change_def pin_write_def accessor_defs split: if_splits bind_splits)

lemma lamp_env: "emergency_light_change on s = Some s' \<Longrightarrow> my_environment s' = my_environment s"
  by (auto simp: emergency_light_change_def pin_write_def accessor_defs split: if_splits bind_splits)

lemma tim3_env:
  assumes "alarm_inv s" "TIM3_IRQHandler b s = Some s'"
  shows "my_environment s' = my_environment s"
proof -
  have "s' = s\<lparr>hw := hw s', timer3 := timer3 s'\<rparr>" using tim3_irq_inv [OF assms(1), of b] assms(2) by force
  then obtain h d where "s' = s\<lparr>hw := h, timer3 := d\<rparr>" by blast
  then show ?thesis by simp
qed

lemma env_step:
  assumes "app_step b s s'" "env_ok s"
  shows "env_ok s'"
proof -
  have inv: "app_inv s" "alarm_inv s" using assms(2) app_invD by (simp_all add: env_ok_def)
  then have inv': "app_inv s'" using app_step_inv [OF assms(1)] by blast
  from assms(1) show ?thesis
  proof (cases rule: app_step.cases)
    case Auto_turn
    then have "ctl_frame s s'" using auto_control_implements [OF inv(2), of b] by (auto simp: implements_def)
    then show ?thesis using env_unchanged [OF _ assms(2) inv'] by (simp add: ctl_frame_def)
  next
    case (Light_turn sample stk)
    from light_env [OF inv(1) this] assms(2) inv' show ?thesis by (auto simp: env_ok_def)
  next
    case (Mq2_turn sample stk)
    from mq2_env [OF inv(1) this] assms(2) inv' show ?thesis by (auto simp: env_ok_def)
  next
    case (Dht_turn r c)
    from dht_env [OF this] assms(2) inv' u8_range show ?thesis unfolding env_ok_def by auto
  next
    case (Remote_beep on)
    then have "ctl_frame s s'" using beep_door [OF inv(2), of b on] by auto
    then show ?thesis using env_unchanged [OF _ assms(2) inv'] by (simp add: ctl_frame_def)
  next
    case (Remote_limit l v)
    then show ?thesis using env_unchanged [OF _ assms(2) inv'] by (cases l) (simp_all add: accessor_defs)
  qed (use env_unchanged [OF _ assms(2) inv'] relay_env lamp_env tim3_env [OF inv(2)] in
       \<open>simp_all add: my_data_upload_iter_def IQR_HANDALE_KEY0_def IQR_HANDALE_KEY1_def accessor_defs tim3_hw_overflow_def\<close>)
qed

lemma main_env:
  assumes "hw_pin_ops h = Some Stm32_pin_ops" "app_main b alt stk ok (app_boot h p) = Some s0"
  shows "env_ok s0"
proof -
  have "app_inv s0" "my_environment s0 = environment_boot" using main_inv [OF assms(1), of b alt stk ok p] assms(2) by auto
  then show ?thesis by (simp add: env_ok_def environment_boot_def)
qed

interpretation env_sys: step_system "app_step b" env_ok for b
  by unfold_locales (rule env_step)

text \<open>C37: In every state reached after \<open>main\<close> the measurements the controller and the server see are in
  the ranges of their sensors: temperature and humidity in 0 to 255, brightness in -95 to 4000 and
  smoke in 0 to 4095.\<close>

theorem measurements_in_range:
  assumes "hw_pin_ops h = Some Stm32_pin_ops" "app_main b alt stk ok (app_boot h p) = Some s0" "(app_step b)\<^sup>*\<^sup>* s0 s"
  shows "Get_Devpro_temp s \<in> {0..255} \<and> Get_Devpro_humi s \<in> {0..255} \<and> Get_Devpro_light s \<in> {- 95..4000} \<and>
     Get_Devpro_smoke s \<in> {0..4095}"
proof -
  have "env_ok s0" using main_env [OF assms(1,2)] .
  with assms(3) have "env_ok s" by (rule env_sys.steps_good)
  then show ?thesis by (simp add: env_ok_def accessor_defs)
qed

theorem measurements_in_range_witness:
  "\<exists>s0. app_main f407_board 0 any_init (\<lambda>_. True) (app_boot (snd (rt_hw_pin_init reset_gpio)) None) = Some s0 \<and>
     Get_Devpro_light s0 \<in> {- 95..4000}"
proof -
  let ?h = "snd (rt_hw_pin_init reset_gpio)"
  have ops: "hw_pin_ops ?h = Some Stm32_pin_ops" by (simp add: rt_hw_pin_init_def rt_device_pin_register_def)
  then obtain s0 where s0: "app_main f407_board 0 any_init (\<lambda>_. True) (app_boot ?h None) = Some s0"
    using main_inv [of ?h f407_board 0 any_init "\<lambda>_. True" None] by blast
  from measurements_in_range [OF ops s0 rtranclp.rtrancl_refl] s0 show ?thesis by blast
qed

end
