(* ===== verification/Tcp_Send.thy ===== *)
theory Tcp_Send
  imports Sensors
begin

text \<open>
  Sending over the TCP connection (\<open>src/smart-building-mcu/applications/src/my_TCP.c\<close>): the
  feedback messages and the records. The socket layer is an argument: \<open>net k\<close> is what the \<open>k\<close>-th call
  of \<open>send\<close> returns. A connection records what was passed to \<open>send\<close>, how often the socket was
  closed, and the state of the receive buffer, which every failed send frees.
\<close>

section \<open>Connection\<close>

datatype heap_ptr = Ptr_Null | Ptr_Live | Ptr_Freed

record conn =
  sent :: "(string \<times> int) list"
  closes :: nat
  recv_data :: heap_ptr

definition send_call :: "(nat \<Rightarrow> int) \<Rightarrow> string \<Rightarrow> int \<Rightarrow> conn \<Rightarrow> int \<times> conn" where
  "send_call net txt flag c = (net (length (sent c)), c\<lparr>sent := sent c @ [(txt, flag)]\<rparr>)"

definition closesocket :: "conn \<Rightarrow> conn" where
  "closesocket c = c\<lparr>closes := closes c + 1\<rparr>"

definition rt_free :: "conn \<Rightarrow> c_error + conn" where
  "rt_free c =
     (case recv_data c of
        Ptr_Null \<Rightarrow> Inr c
      | Ptr_Live \<Rightarrow> Inr (c\<lparr>recv_data := Ptr_Freed\<rparr>)
      | Ptr_Freed \<Rightarrow> Inl Double_Free)"

text \<open>What every sending function does with the result of \<open>send\<close>.\<close>

definition after_send :: "int \<times> conn \<Rightarrow> c_error + int \<times> conn" where
  "after_send rc =
     (let (r, c) = rc
      in if r < 0 then (case rt_free (closesocket c) of Inl e \<Rightarrow> Inl e | Inr c1 \<Rightarrow> Inr (r, c1)) else Inr (r, c))"

section \<open>Messages\<close>

definition my_temp_feedback_on :: string where
  "my_temp_feedback_on = ''WARNING!!! Abnormal temperature!''"
definition my_temp_feedback_off :: string where
  "my_temp_feedback_off = ''Temperature return to normal! Automatically turn off the beep!''"
definition my_light_feedback_on :: string where
  "my_light_feedback_on = ''Light too dark! Automatically turn on the emergency light!''"
definition my_light_feedback_off :: string where
  "my_light_feedback_off = ''Light return to normal! Automatically turn off the emergency light!''"
definition DHT11_file_position_reset_feedback :: string where
  "DHT11_file_position_reset_feedback = ''DHT11 file position reset success''"
definition Light_file_position_reset_feedback :: string where
  "Light_file_position_reset_feedback = ''Light file position reset success''"

text \<open>For any other flag the result that is tested was never assigned.\<close>

definition my_send_temp_feedback :: "(nat \<Rightarrow> int) \<Rightarrow> u8 \<Rightarrow> conn \<Rightarrow> c_error + int \<times> conn" where
  "my_send_temp_feedback net flag c =
     (if flag = 0 then after_send (send_call net my_temp_feedback_off 0 c)
      else if flag = 1 then after_send (send_call net my_temp_feedback_on 0 c)
      else Inl Uninitialised)"

definition my_send_light_feedback :: "(nat \<Rightarrow> int) \<Rightarrow> u8 \<Rightarrow> conn \<Rightarrow> c_error + int \<times> conn" where
  "my_send_light_feedback net flag c =
     (if flag = 0 then after_send (send_call net my_light_feedback_off 0 c)
      else if flag = 1 then after_send (send_call net my_light_feedback_on 0 c)
      else Inl Uninitialised)"

definition my_send_fp_reset_feedback :: "(nat \<Rightarrow> int) \<Rightarrow> u8 \<Rightarrow> conn \<Rightarrow> c_error + int \<times> conn" where
  "my_send_fp_reset_feedback net flag c =
     (if flag = 0 then after_send (send_call net DHT11_file_position_reset_feedback 0 c)
      else if flag = 1 then after_send (send_call net Light_file_position_reset_feedback 0 c)
      else Inl Uninitialised)"

definition my_send_msg :: "(nat \<Rightarrow> int) \<Rightarrow> string \<Rightarrow> nat \<Rightarrow> int \<Rightarrow> conn \<Rightarrow> c_error + int \<times> conn" where
  "my_send_msg net send_data n flag c = after_send (send_call net (take n send_data) flag c)"

definition my_send_DHT11data :: "(nat \<Rightarrow> int) \<Rightarrow> u8 \<Rightarrow> u8 \<Rightarrow> int \<Rightarrow> conn \<Rightarrow> c_error + int \<times> conn" where
  "my_send_DHT11data net data1 data2 flag c =
     (case dht_text 15 data1 data2 of
        Inl e \<Rightarrow> Inl e
      | Inr send_data \<Rightarrow> after_send (send_call net send_data flag c))"

definition light_text :: "u32 \<Rightarrow> string" where
  "light_text v = ''light:'' @ fmt_d (sint v) @ [CHR ''L'', NL]"

definition my_send_Lightdata :: "(nat \<Rightarrow> int) \<Rightarrow> u32 \<Rightarrow> int \<Rightarrow> conn \<Rightarrow> c_error + int \<times> conn" where
  "my_send_Lightdata net v flag c =
     (case sprintf_buf 15 (light_text v) of
        Inl e \<Rightarrow> Inl e
      | Inr send_data \<Rightarrow> after_send (send_call net send_data flag c))"

section \<open>Text sizes\<close>

lemma dec_length_iff: "0 < k \<Longrightarrow> length (dec n) \<le> k \<longleftrightarrow> n < 10 ^ k"
proof
  show "0 < k \<Longrightarrow> n < 10 ^ k \<Longrightarrow> length (dec n) \<le> k" by (rule dec_length)
  show "0 < k \<Longrightarrow> length (dec n) \<le> k \<Longrightarrow> n < 10 ^ k"
  proof (induction k arbitrary: n)
    case (Suc k)
    show ?case
    proof (cases "n < 10")
      case False
      with Suc.prems(2) have l: "length (dec (n div 10)) \<le> k" by (simp add: dec.simps [of n])
      have "0 < k" using l dec_length_pos [of "n div 10"] by linarith
      with Suc.IH l have "n div 10 < 10 ^ k" by blast
      then have "n div 10 + 1 \<le> 10 ^ k" by simp
      then have "(n div 10 + 1) * 10 \<le> 10 ^ k * 10" by (rule mult_le_mono1)
      moreover have "n < (n div 10 + 1) * 10" by simp
      ultimately show ?thesis by simp
    qed (simp add: less_le_trans [of n 10])
  qed simp
qed

text \<open>The text of a temperature record never fits the array it is printed into: for every
  temperature and humidity \<open>my_send_DHT11data\<close> writes at least 17 characters with the terminating
  zero into an array of 15.\<close>

theorem dht_record_overflows: "my_send_DHT11data net t h flag c = Inl Buffer_Overflow"
proof -
  let ?n = "length (dec (unat t)) + length (dec (unat h))"
  have "2 \<le> ?n" using dec_length_pos [of "unat t"] dec_length_pos [of "unat h"] by linarith
  then show ?thesis by (simp add: my_send_DHT11data_def dht_text_def sprintf_buf_def)
qed

lemma fmt_small_iff: "length (fmt_d i) \<le> 6 \<longleftrightarrow> - 99999 \<le> i \<and> i \<le> 999999"
proof (cases "i < 0")
  case True
  then have "length (fmt_d i) \<le> 6 \<longleftrightarrow> nat (- i) < 10 ^ 5" using dec_length_iff [of 5 "nat (- i)"] by (simp add: fmt_d_def)
  with True show ?thesis by (simp add: nat_less_iff) linarith
next
  case False
  then have "length (fmt_d i) \<le> 6 \<longleftrightarrow> nat i < 10 ^ 6" using dec_length_iff [of 6 "nat i"] by (simp add: fmt_d_def)
  with False show ?thesis by (simp add: nat_less_iff) linarith
qed

lemma light_text_fits: "length (light_text v) < 15 \<longleftrightarrow> - 99999 \<le> sint v \<and> sint v \<le> 999999"
  unfolding fmt_small_iff [symmetric] by (simp add: light_text_def) linarith



lemma send_light_ok:
  assumes "- 99999 \<le> sint v" "sint v \<le> 999999" "\<forall>k. 0 \<le> net k"
  shows "my_send_Lightdata net v flag c = Inr (net (length (sent c)), c\<lparr>sent := sent c @ [(light_text v, flag)]\<rparr>)"
  using assms light_text_fits [of v]
  by (simp add: my_send_Lightdata_def sprintf_buf_def send_call_def after_send_def leD)

end
