(* ===== verification/File_Log.thy ===== *)
theory File_Log
  imports Tcp_Send
begin

text \<open>
  The measurement files (\<open>src/smart-building-mcu/applications/src/my_file.c\<close>): appending records
  as text lines, loading at most 25 of them from the last position and sending them over the
  connection. A file is its content, or absent; the file system keeps what is written to it, and
  \<open>ok\<close> says whether a file can be opened for appending. The line buffer and the array of token
  pointers of \<open>read_and_send_dht11_data\<close> are explicit: the pointers are offsets into the buffer,
  which the next line overwrites.
\<close>

section \<open>Files\<close>

record flog =
  DHT11data :: "string option"
  Lightdata :: "string option"
  dht11_last_position :: nat
  light_last_position :: nat

abbreviation (input) DHT11_ARRAY_SIZE :: nat where "DHT11_ARRAY_SIZE \<equiv> 25"
abbreviation (input) LIGHT_ARRAY_SIZE :: nat where "LIGHT_ARRAY_SIZE \<equiv> 25"

definition append_to :: "string option \<Rightarrow> string \<Rightarrow> string option" where
  "append_to f txt = Some ((case f of None \<Rightarrow> [] | Some c \<Rightarrow> c) @ txt)"

text \<open>Formatting the volume and mounting it; the result is negative when mounting succeeds.\<close>

definition dfs_mount_init :: "int \<Rightarrow> flog \<Rightarrow> int \<times> flog" where
  "dfs_mount_init mounted f =
     (let f1 = f\<lparr>DHT11data := None, Lightdata := None\<rparr> in if mounted = 0 then (- RT_ERROR, f1) else (RT_EOK, f1))"

definition write_dht11_data :: "bool \<Rightarrow> u8 \<Rightarrow> u8 \<Rightarrow> flog \<Rightarrow> flog" where
  "write_dht11_data ok t h f =
     (if ok then f\<lparr>DHT11data := append_to (DHT11data f) (dec (unat t) @ CHR '' '' # dec (unat h) @ [NL])\<rparr> else f)"

definition write_light_data :: "bool \<Rightarrow> u32 \<Rightarrow> flog \<Rightarrow> flog" where
  "write_light_data ok v f =
     (if ok then f\<lparr>Lightdata := append_to (Lightdata f) (fmt_d (sint v) @ [NL])\<rparr> else f)"

section \<open>Loading temperature records\<close>

text \<open>Splitting a line: the tokens are stored from index \<open>i\<close> on, but the numbers are read through
  \<open>dht11data_str[0]\<close> and \<open>dht11data_str[1]\<close>.\<close>

definition dht_parse ::
  "nat \<Rightarrow> nat option list \<Rightarrow> char list \<Rightarrow> c_error + nat \<times> nat option list \<times> char list \<times> u8 \<times> u8" where
  "dht_parse i arr line =
     (case tok_loop '' '' i arr (Some 0) line of
        Inl e \<Rightarrow> Inl e
      | Inr (i1, arr1, line1) \<Rightarrow>
          (case (arr1 ! 0, arr1 ! 1) of
             (Some p0, Some p1) \<Rightarrow>
               Inr (i1, arr1, line1, of_nat (strtoul (cstr_at p0 line1)), of_nat (strtoul (cstr_at p1 line1)))
           | _ \<Rightarrow> Inl Null_Deref))"

definition store_line :: "string \<Rightarrow> char list \<Rightarrow> char list" where
  "store_line l line = memcpy_at line 0 (l @ [NUL]) (length l + 1)"

function dht_loop ::
  "(nat \<Rightarrow> int) \<Rightarrow> string \<Rightarrow> nat \<Rightarrow> nat \<Rightarrow> nat \<Rightarrow> nat option list \<Rightarrow> char list \<Rightarrow> conn \<Rightarrow> c_error + nat \<times> conn" where
  "dht_loop net content pos count i arr line c =
     (case fgets 10 content pos of
        None \<Rightarrow> Inr (pos, c)
      | Some (l, pos1) \<Rightarrow>
          (if count < DHT11_ARRAY_SIZE then
             (case dht_parse i arr (store_line l line) of
                Inl e \<Rightarrow> Inl e
              | Inr (i1, arr1, line1, t, h) \<Rightarrow>
                  (case my_send_DHT11data net t h 1 c of
                     Inl e \<Rightarrow> Inl e
                   | Inr (r, c1) \<Rightarrow> dht_loop net content pos1 (count + 1) i1 arr1 line1 c1))
           else Inr (pos1, c)))"
  by pat_completeness auto
termination
proof (relation "measure (\<lambda>(net, content, pos, count, i, arr, line, c). length content - pos)", goal_cases)
  case (2 net content pos count i arr line c x l pos1)
  then have "pos < pos1 \<and> pos1 \<le> length content" using fgets_pos [of 10 content pos l pos1] by simp
  then show ?case by (simp add: diff_less_mono2)
qed simp

declare dht_loop.simps [simp del]

text \<open>\<open>arr\<close> and \<open>line\<close> are what the two local arrays hold before they are written.\<close>

definition read_and_send_dht11_data ::
  "(nat \<Rightarrow> int) \<Rightarrow> nat option list \<Rightarrow> char list \<Rightarrow> flog \<Rightarrow> conn \<Rightarrow> c_error + flog \<times> conn" where
  "read_and_send_dht11_data net arr line f c =
     (case DHT11data f of
        None \<Rightarrow> Inr (f, c)
      | Some content \<Rightarrow>
          (case dht_loop net content (dht11_last_position f) 0 0 arr line c of
             Inl e \<Rightarrow> Inl e
           | Inr (pos, c1) \<Rightarrow> Inr (f\<lparr>dht11_last_position := pos\<rparr>, c1)))"

definition reset_dht11_read_position :: "(nat \<Rightarrow> int) \<Rightarrow> flog \<Rightarrow> conn \<Rightarrow> c_error + flog \<times> conn" where
  "reset_dht11_read_position net f c =
     (case my_send_fp_reset_feedback net 0 c of
        Inl e \<Rightarrow> Inl e
      | Inr (r, c1) \<Rightarrow> Inr (f\<lparr>dht11_last_position := 0\<rparr>, c1))"

definition set_dht11_read_position_end :: "flog \<Rightarrow> flog" where
  "set_dht11_read_position_end f =
     (case DHT11data f of None \<Rightarrow> f | Some content \<Rightarrow> f\<lparr>dht11_last_position := length content\<rparr>)"

section \<open>Loading light records\<close>

function light_loop :: "(nat \<Rightarrow> int) \<Rightarrow> string \<Rightarrow> nat \<Rightarrow> nat \<Rightarrow> conn \<Rightarrow> c_error + nat \<times> conn" where
  "light_loop net content pos count c =
     (case fgets 10 content pos of
        None \<Rightarrow> Inr (pos, c)
      | Some (l, pos1) \<Rightarrow>
          (if count < LIGHT_ARRAY_SIZE then
             (case sscanf_d l of
                None \<Rightarrow> light_loop net content pos1 count c
              | Some v \<Rightarrow>
                  (case my_send_Lightdata net (of_int v) 1 c of
                     Inl e \<Rightarrow> Inl e
                   | Inr (r, c1) \<Rightarrow> light_loop net content pos1 (count + 1) c1))
           else Inr (pos1, c)))"
  by pat_completeness auto
termination
proof (relation "measure (\<lambda>(net, content, pos, count, c). length content - pos)", goal_cases)
  case (2 net content pos count c x l pos1)
  then have "pos < pos1 \<and> pos1 \<le> length content" using fgets_pos [of 10 content pos l pos1] by simp
  then show ?case by (simp add: diff_less_mono2)
next
  case (3 net content pos count c x l pos1)
  then have "pos < pos1 \<and> pos1 \<le> length content" using fgets_pos [of 10 content pos l pos1] by simp
  then show ?case by (simp add: diff_less_mono2)
qed simp

declare light_loop.simps [simp del]

definition read_and_send_light_data :: "(nat \<Rightarrow> int) \<Rightarrow> flog \<Rightarrow> conn \<Rightarrow> c_error + flog \<times> conn" where
  "read_and_send_light_data net f c =
     (case Lightdata f of
        None \<Rightarrow> Inr (f, c)
      | Some content \<Rightarrow>
          (case light_loop net content (light_last_position f) 0 c of
             Inl e \<Rightarrow> Inl e
           | Inr (pos, c1) \<Rightarrow> Inr (f\<lparr>light_last_position := pos\<rparr>, c1)))"

definition reset_light_read_position :: "(nat \<Rightarrow> int) \<Rightarrow> flog \<Rightarrow> conn \<Rightarrow> c_error + flog \<times> conn" where
  "reset_light_read_position net f c =
     (case my_send_fp_reset_feedback net 1 c of
        Inl e \<Rightarrow> Inl e
      | Inr (r, c1) \<Rightarrow> Inr (f\<lparr>light_last_position := 0\<rparr>, c1))"

definition set_light_read_position_end :: "flog \<Rightarrow> flog" where
  "set_light_read_position_end f =
     (case Lightdata f of None \<Rightarrow> f | Some content \<Rightarrow> f\<lparr>light_last_position := length content\<rparr>)"

section \<open>What is written is read back\<close>

definition light_lines :: "u32 list \<Rightarrow> string" where
  "light_lines vs = concat (map (\<lambda>v. fmt_d (sint v) @ [NL]) vs)"

lemma light_lines_simps [simp]:
  "light_lines [] = []" "light_lines (v # vs) = fmt_d (sint v) @ NL # light_lines vs"
  "light_lines (xs @ ys) = light_lines xs @ light_lines ys"
  by (simp_all add: light_lines_def)

lemma fold_write_light:
  "Lightdata (fold (write_light_data True) vs f) = (if vs = [] then Lightdata f
     else Some ((case Lightdata f of None \<Rightarrow> [] | Some c \<Rightarrow> c) @ light_lines vs))"
  by (induction vs arbitrary: f) (auto simp: write_light_data_def append_to_def)

lemma fold_write_frame: "light_last_position (fold (write_light_data ok) vs f) = light_last_position f"
  by (induction vs arbitrary: f) (auto simp: write_light_data_def)

definition sendable :: "u32 \<Rightarrow> bool" where
  "sendable v \<longleftrightarrow> - 99999 \<le> sint v \<and> sint v \<le> 999999"

lemma fgets_light:
  assumes "content = light_lines xs @ light_lines (v # ys)" "sendable v"
  shows "fgets 10 content (length (light_lines xs)) = Some (fmt_d (sint v) @ [NL], length (light_lines (xs @ [v])))"
proof -
  have "length (fmt_d (sint v)) \<le> 6" using assms(2) by (simp add: sendable_def fmt_small_iff)
  then show ?thesis
    using fgets_line [of "length (light_lines xs)" content "fmt_d (sint v)" "light_lines ys" 10] assms(1) fmt_d_chars by fastforce
qed

lemma light_loop_reads:
  assumes "\<forall>k. 0 \<le> net k" "content = light_lines xs @ light_lines ys" "\<forall>v\<in>set ys. sendable v" "count \<le> 25"
  shows "\<exists>c'. light_loop net content (length (light_lines xs)) count c =
       Inr (length (light_lines (xs @ take (26 - count) ys)), c') \<and>
     sent c' = sent c @ map (\<lambda>v. (light_text v, 1)) (take (25 - count) ys) \<and> closes c' = closes c \<and> recv_data c' = recv_data c"
  using assms(2-4)
proof (induction ys arbitrary: xs count c)
  case Nil
  then show ?case by (subst light_loop.simps) (simp add: fgets_end)
next
  case (Cons v ys)
  have v: "sendable v" using Cons.prems by simp
  note get = fgets_light [OF Cons.prems(1) v]
  show ?case
  proof (cases "count < 25")
    case True
    have scan: "sscanf_d (fmt_d (sint v) @ [NL]) = Some (sint v)"
      by (rule sscanf_fmt) (simp add: isdigit_def code_of_def)
    define c1 where "c1 = c\<lparr>sent := sent c @ [(light_text v, 1)]\<rparr>"
    have snd: "my_send_Lightdata net v 1 c = Inr (net (length (sent c)), c1)"
      using v assms(1) unfolding c1_def sendable_def by (intro send_light_ok) auto
    have "light_loop net content (length (light_lines xs)) count c =
        light_loop net content (length (light_lines (xs @ [v]))) (count + 1) c1"
      by (subst light_loop.simps) (simp add: get [simplified] True scan snd)
    moreover obtain c' where "light_loop net content (length (light_lines (xs @ [v]))) (count + 1) c1 =
        Inr (length (light_lines ((xs @ [v]) @ take (26 - (count + 1)) ys)), c')"
      "sent c' = sent c1 @ map (\<lambda>v. (light_text v, 1)) (take (25 - (count + 1)) ys)" "closes c' = closes c1" "recv_data c' = recv_data c1"
      using Cons.IH [of "xs @ [v]" "count + 1" c1] Cons.prems True by auto
    moreover have "26 - count = Suc (26 - (count + 1))" "25 - count = Suc (25 - (count + 1))" using True by simp_all
    ultimately show ?thesis by (auto simp: c1_def)
  next
    case False
    with Cons.prems(3) have "count = 25" by simp
    then show ?thesis by (subst light_loop.simps) (simp add: get [simplified])
  qed
qed

lemma load_light:
  assumes "\<forall>k. 0 \<le> net k" "Lightdata f = Some (light_lines vs)" "light_last_position f = length (light_lines (take n vs))"
    "\<forall>v\<in>set vs. sendable v"
  shows "\<exists>c'. read_and_send_light_data net f c =
       Inr (f\<lparr>light_last_position := length (light_lines (take (n + 26) vs))\<rparr>, c') \<and>
     sent c' = sent c @ map (\<lambda>v. (light_text v, 1)) (take 25 (drop n vs)) \<and> closes c' = closes c \<and> recv_data c' = recv_data c"
proof -
  have split: "light_lines vs = light_lines (take n vs) @ light_lines (drop n vs)"
    unfolding light_lines_simps(3) [symmetric] by simp
  have "\<forall>v\<in>set (drop n vs). sendable v" using assms(4) by (meson in_set_dropD)
  from light_loop_reads [OF assms(1) split this, of 0 c] obtain c' where
    "light_loop net (light_lines vs) (length (light_lines (take n vs))) 0 c =
       Inr (length (light_lines (take n vs @ take 26 (drop n vs))), c')"
    "sent c' = sent c @ map (\<lambda>v. (light_text v, 1)) (take 25 (drop n vs))" "closes c' = closes c" "recv_data c' = recv_data c"
    by auto
  then show ?thesis using assms(2,3) unfolding take_add [symmetric] by (simp add: read_and_send_light_data_def)
qed

text \<open>C28: The light log round-trips through its text file: after any number of records is written to an
  empty log, a load sends the first 25 of them, in order and with the values written, and the
  connection stays usable. The position is moved past 26 records, so that a second load starts with
  the 27th: the 26th record is never sent.\<close>

theorem light_log_roundtrip:
  assumes "Lightdata f = None" "light_last_position f = 0" "vs \<noteq> []" "\<forall>v\<in>set vs. - 99999 \<le> sint v \<and> sint v \<le> 999999"
    "\<forall>k. 0 \<le> net k"
  shows "\<exists>f1 c1 f2 c2. read_and_send_light_data net (fold (write_light_data True) vs f) c = Inr (f1, c1) \<and>
     sent c1 = sent c @ map (\<lambda>v. (light_text v, 1)) (take 25 vs) \<and> recv_data c1 = recv_data c \<and> closes c1 = closes c \<and>
     read_and_send_light_data net f1 c1 = Inr (f2, c2) \<and>
     sent c2 = sent c1 @ map (\<lambda>v. (light_text v, 1)) (take 25 (drop 26 vs))"
proof -
  let ?f = "fold (write_light_data True) vs f"
  have f: "Lightdata ?f = Some (light_lines vs)" "light_last_position ?f = length (light_lines (take 0 vs))"
    using assms(1-3) by (simp_all add: fold_write_light fold_write_frame)
  have ok: "\<forall>v\<in>set vs. sendable v" using assms(4) by (simp add: sendable_def)
  let ?f1 = "?f\<lparr>light_last_position := length (light_lines (take 26 vs))\<rparr>"
  obtain c1 where c1: "read_and_send_light_data net ?f c = Inr (?f1, c1)"
    "sent c1 = sent c @ map (\<lambda>v. (light_text v, 1)) (take 25 vs)" "closes c1 = closes c" "recv_data c1 = recv_data c"
    using load_light [OF assms(5) f ok, of c] by auto
  have "Lightdata ?f1 = Some (light_lines vs)" "light_last_position ?f1 = length (light_lines (take 26 vs))" using f(1) by simp_all
  from load_light [OF assms(5) this ok, of c1] c1 show ?thesis by blast
qed

definition empty_log :: flog where
  "empty_log = \<lparr>DHT11data = None, Lightdata = None, dht11_last_position = 0, light_last_position = 0\<rparr>"

theorem light_log_roundtrip_witness:
  "\<exists>f1 c1. read_and_send_light_data (\<lambda>_. 11) (fold (write_light_data True) [1200, 4000] empty_log)
       \<lparr>sent = [], closes = 0, recv_data = Ptr_Live\<rparr> = Inr (f1, c1) \<and>
     sent c1 = [(light_text 1200, 1), (light_text 4000, 1)]"
proof -
  have "sint (1200 :: u32) = 1200" "sint (4000 :: u32) = 4000" by simp_all
  then have "\<forall>v\<in>set [1200, 4000 :: u32]. - 99999 \<le> sint v \<and> sint v \<le> 999999" by simp
  moreover have "Lightdata empty_log = None" "light_last_position empty_log = 0" by (simp_all add: empty_log_def)
  ultimately show ?thesis
    using light_log_roundtrip [of empty_log "[1200, 4000]" "\<lambda>_. 11" "\<lparr>sent = [], closes = 0, recv_data = Ptr_Live\<rparr>"] by auto
qed

section \<open>Temperature records\<close>

text \<open>A line with a temperature and a humidity in the buffer, as \<open>fgets\<close> leaves it.\<close>

definition dht_line :: "u8 \<Rightarrow> u8 \<Rightarrow> char list \<Rightarrow> char list" where
  "dht_line t h junk = dec (unat t) @ CHR '' '' # (dec (unat h) @ [NL]) @ NUL # junk"

lemma dec_special: "c \<in> set (dec n) \<Longrightarrow> c \<noteq> NUL \<and> c \<noteq> NL \<and> c \<noteq> CHR '' ''"
  using dec_digits [of c n] digit_special [of c] by blast

lemma strtoul_u8:
  assumes "\<And>c r. rest = c # r \<Longrightarrow> \<not> isdigit c"
  shows "of_nat (strtoul (dec (unat (w :: u8)) @ rest)) = w"
proof -
  have "unat w < 2 ^ 32" using unsigned_less [of w, where ?'a = nat] by simp
  then show ?thesis using strtoul_dec [of "unat w" rest] assms by simp
qed

lemma dht_tokens:
  assumes "i + 2 < length arr"
  shows "tok_loop '' '' i arr (Some 0) (dht_line t h junk) =
     Inr (i + 2, arr[i := Some 0, i + 1 := Some (length (dec (unat t)) + 1), i + 2 := None],
       dec (unat t) @ NUL # (dec (unat h) @ [NL]) @ NUL # junk)"
  using dec_special assms by (intro tok_loop_two) (auto simp: dht_line_def)

lemma dht_numbers:
  "of_nat (strtoul (cstr_at 0 (dec (unat (t :: u8)) @ NUL # rest))) = t"
  "of_nat (strtoul (cstr_at (length (dec (unat t)) + 1) (dec (unat t) @ NUL # (dec (unat (h :: u8)) @ [NL]) @ NUL # junk))) = h"
proof -
  have "cstr_at 0 (dec (unat t) @ NUL # rest) = dec (unat t)" using dec_special by (intro cstr_at_eq [where junk = rest]) auto
  then show "of_nat (strtoul (cstr_at 0 (dec (unat t) @ NUL # rest))) = t" using strtoul_u8 [of "[]" t] by simp
  have "cstr_at (length (dec (unat t)) + 1) (dec (unat t) @ NUL # (dec (unat h) @ [NL]) @ NUL # junk) = dec (unat h) @ [NL]"
    using dec_special by (intro cstr_at_eq [where junk = junk]) auto
  moreover have "of_nat (strtoul (dec (unat h) @ [NL])) = h" by (rule strtoul_u8) (simp add: isdigit_def code_of_def)
  ultimately show "of_nat (strtoul (cstr_at (length (dec (unat t)) + 1) (dec (unat t) @ NUL # (dec (unat h) @ [NL]) @ NUL # junk))) = h"
    by simp
qed

definition split_line :: "u8 \<Rightarrow> u8 \<Rightarrow> char list \<Rightarrow> char list" where
  "split_line t h junk = dec (unat t) @ NUL # (dec (unat h) @ [NL]) @ NUL # junk"

text \<open>The humidity is read through the pointer that the first record of the load left.\<close>

lemma dht_first:
  assumes "2 < length arr"
  shows "\<exists>arr1. dht_parse 0 arr (dht_line t h junk) = Inr (2, arr1, split_line t h junk, t, h) \<and> length arr1 = length arr \<and>
     arr1 ! 0 = Some 0 \<and> arr1 ! 1 = Some (length (dec (unat t)) + 1)"
proof -
  define arr1 where "arr1 = arr[0 := Some 0, 0 + 1 := Some (length (dec (unat t)) + 1), 0 + 2 := None]"
  have "0 < length arr" "1 < length arr" using assms by linarith+
  then have arr1: "length arr1 = length arr" "arr1 ! 0 = Some 0" "arr1 ! 1 = Some (length (dec (unat t)) + 1)"
    by (simp_all add: arr1_def)
  have "tok_loop '' '' 0 arr (Some 0) (dht_line t h junk) = Inr (0 + 2, arr1, split_line t h junk)"
    using dht_tokens [of 0 arr t h junk] assms unfolding arr1_def split_line_def by simp
  then show ?thesis
    using arr1 dht_numbers(1) [of t "(dec (unat h) @ [NL]) @ NUL # junk"] dht_numbers(2) [of t h junk]
    unfolding dht_parse_def split_line_def by simp
qed

lemma dht_later:
  assumes "2 \<le> i" "i + 2 < length arr" "arr ! 0 = Some 0" "arr ! 1 = Some p"
  shows "\<exists>arr1. dht_parse i arr (dht_line t h junk) =
      Inr (i + 2, arr1, split_line t h junk, t, of_nat (strtoul (cstr_at p (split_line t h junk)))) \<and>
     length arr1 = length arr \<and> arr1 ! 0 = Some 0 \<and> arr1 ! 1 = Some p"
proof -
  define arr1 where "arr1 = arr[i := Some 0, i + 1 := Some (length (dec (unat t)) + 1), i + 2 := None]"
  have arr1: "length arr1 = length arr" "arr1 ! 0 = Some 0" "arr1 ! 1 = Some p" using assms by (simp_all add: arr1_def)
  have "tok_loop '' '' i arr (Some 0) (dht_line t h junk) = Inr (i + 2, arr1, split_line t h junk)"
    using dht_tokens [of i arr t h junk] assms(2) unfolding arr1_def split_line_def by simp
  then show ?thesis
    using arr1 dht_numbers(1) [of t "(dec (unat h) @ [NL]) @ NUL # junk"] unfolding dht_parse_def split_line_def by simp
qed

text \<open>The first record of a load is read back exactly, whatever the arrays held before, and so is a
  later record whose temperature has as many digits as that of the first; the two pointers that the
  numbers are read through stay those of the first record.\<close>

theorem dht_records_parsed:
  assumes "length arr = 51" "2 \<le> i" "i < 49" "arr ! 0 = Some 0" "arr ! 1 = Some (length (dec (unat t)) + 1)"
    "length (dec (unat t1)) = length (dec (unat t))" "length stk = 51"
  shows "(\<exists>arr1 line1. dht_parse 0 stk (dht_line t h junk) = Inr (2, arr1, line1, t, h) \<and> length arr1 = 51 \<and>
       arr1 ! 0 = Some 0 \<and> arr1 ! 1 = Some (length (dec (unat t)) + 1)) \<and>
     (\<exists>arr1 line1. dht_parse i arr (dht_line t1 h1 junk) = Inr (i + 2, arr1, line1, t1, h1) \<and> length arr1 = 51 \<and>
        arr1 ! 0 = Some 0 \<and> arr1 ! 1 = Some (length (dec (unat t)) + 1))"
  using dht_first [of stk t h junk] dht_later [of i arr "length (dec (unat t)) + 1" t1 h1 junk] assms
    dht_numbers(2) [of t1 h1 junk, folded split_line_def] by auto

lemma dec_values: "dec 9 = ''9''" "dec 60 = ''60''" "dec 10 = ''10''" "dec 61 = ''61''" "dec 25 = ''25''" "dec 26 = ''26''"
  by (simp_all add: dec.simps digit_def char_of_def bit_0)

theorem dht_records_parsed_witness:
  "\<exists>arr1 line1. dht_parse 2 ([Some 0, Some 3] @ replicate 49 None) (dht_line 26 61 []) = Inr (4, arr1, line1, 26, 61)"
  using dht_records_parsed [of "[Some 0, Some 3] @ replicate 49 None" 2 25 26 "replicate 51 None" 60 "[]" 61]
  by (auto simp: dec_values)

text \<open>When the number of digits of the temperature changes during a load, the humidity is read at the
  wrong place: after the record 9 60, the record 10 61 is read as temperature 10 and humidity 0.\<close>

theorem dht_humidity_misread:
  "\<exists>i1 arr1 line1 i2 arr2 line2. dht_parse 0 (replicate 51 None) (dht_line 9 60 [NUL, NUL]) = Inr (i1, arr1, line1, 9, 60) \<and>
     dht_parse i1 arr1 (dht_line 10 61 [NUL]) = Inr (i2, arr2, line2, 10, 0)"
proof -
  obtain arr1 where 1: "dht_parse 0 (replicate 51 None) (dht_line 9 60 [NUL, NUL]) = Inr (2, arr1, split_line 9 60 [NUL, NUL], 9, 60)"
    "length arr1 = 51" "arr1 ! 0 = Some 0" "arr1 ! 1 = Some 2"
    using dht_first [of "replicate 51 None" 9 60 "[NUL, NUL]"] by (auto simp: dec_values)
  have "cstr_at 2 (split_line 10 61 [NUL]) = []" by (simp add: cstr_at_def split_line_def dec_values)
  then have "strtoul (cstr_at 2 (split_line 10 61 [NUL])) = 0" by (simp add: strtoul_def read_sign_def undec_def)
  then obtain arr2 where "dht_parse 2 arr1 (dht_line 10 61 [NUL]) = Inr (4, arr2, split_line 10 61 [NUL], 10, 0)"
    using dht_later [of 2 arr1 2 10 61 "[NUL]"] 1 by auto
  with 1(1) show ?thesis by blast
qed

end
