(* ===== verification/Tcp_Control.thy ===== *)
theory Tcp_Control
  imports File_Log
begin

text \<open>
  The TCP command session (\<open>src/smart-building-mcu/applications/src/my_TCP.c\<close>, \<open>my_tcp_control\<close>):
  connecting, receiving, the fixed commands, the commands that carry a value after a colon, and the
  error exits. The socket layer and the heap are arguments: name resolution, the results of
  \<open>rt_malloc\<close>, \<open>socket\<close>, \<open>connect\<close> and \<open>send\<close>, and the sequence of what \<open>recv\<close> returns. A received
  message is the bytes stored in the buffer; a session that has consumed its messages is waiting.
\<close>

section \<open>State\<close>

record tcp_env =
  gethostbyname :: "string \<Rightarrow> nat option"
  malloc_ok :: bool
  socket_res :: int
  connect_res :: int
  send_res :: "nat \<Rightarrow> int"
  stk_tokens :: "nat option list"
  stk_line :: "char list"
  stk_comm :: "char list"

record tcp_sys =
  t_app :: app
  t_conn :: conn
  t_log :: flog

datatype recv_ev = Recv_Fail int | Recv_Data "char list"

datatype session = Waiting | Ended

section \<open>Commands\<close>

definition my_control_led :: "int \<Rightarrow> int \<Rightarrow> tcp_sys \<Rightarrow> c_error + tcp_sys" where
  "my_control_led led_pin led_state S =
     (case pin_write led_pin led_state (t_app S) of None \<Rightarrow> Inl Assertion_Failed | Some a \<Rightarrow> Inr (S\<lparr>t_app := a\<rparr>))"

text \<open>Switching a lamp and answering; the session ends when the answer cannot be sent.\<close>

definition led_command :: "tcp_env \<Rightarrow> int \<Rightarrow> int \<Rightarrow> string \<Rightarrow> tcp_sys \<Rightarrow> c_error + session \<times> tcp_sys" where
  "led_command env pin st answer S =
     (case my_control_led pin st S of
        Inl e \<Rightarrow> Inl e
      | Inr S1 \<Rightarrow>
          (case my_send_msg (send_res env) answer (length answer) 0 (t_conn S1) of
             Inl e \<Rightarrow> Inl e
           | Inr (r, c) \<Rightarrow> Inr (if r < 0 then Ended else Waiting, S1\<lparr>t_conn := c\<rparr>)))"

definition log_command :: "(flog \<Rightarrow> conn \<Rightarrow> c_error + flog \<times> conn) \<Rightarrow> tcp_sys \<Rightarrow> c_error + session \<times> tcp_sys" where
  "log_command op S =
     (case op (t_log S) (t_conn S) of Inl e \<Rightarrow> Inl e | Inr (f, c) \<Rightarrow> Inr (Waiting, S\<lparr>t_log := f, t_conn := c\<rparr>))"

text \<open>A message that is no fixed command: it is copied to an array of 50 characters and split at the
  colons into an array of five pointers. The limits are assigned to \<open>int\<close> variables and passed on as
  8 and 32 bits.\<close>

definition value_command :: "tcp_env \<Rightarrow> string \<Rightarrow> tcp_sys \<Rightarrow> c_error + session \<times> tcp_sys" where
  "value_command env msg S =
     (case strcpy_buf (stk_comm env) msg of
        Inl e \<Rightarrow> Inl e
      | Inr buf \<Rightarrow>
          (case tok_loop '':'' 0 (replicate 5 None) (Some 0) buf of
             Inl e \<Rightarrow> Inl e
           | Inr (i, strtok_str, buf1) \<Rightarrow>
               (case strtok_str ! 0 of
                  None \<Rightarrow> Inl Null_Deref
                | Some p0 \<Rightarrow>
                    (if cstr_at p0 buf1 = ''Set templimit'' then
                       (case strtok_str ! 1 of
                          None \<Rightarrow> Inl Null_Deref
                        | Some p1 \<Rightarrow> Inr (Waiting, S\<lparr>t_app := set_temp_limit (of_nat (strtoul (cstr_at p1 buf1))) (t_app S)\<rparr>))
                     else if cstr_at p0 buf1 = ''Set lightlimit'' then
                       (case strtok_str ! 1 of
                          None \<Rightarrow> Inl Null_Deref
                        | Some p1 \<Rightarrow> Inr (Waiting, S\<lparr>t_app := set_light_limit (of_nat (strtoul (cstr_at p1 buf1))) (t_app S)\<rparr>))
                     else Inr (Waiting, S)))))"

text \<open>Closing the connection and freeing the buffer.\<close>

definition hang_up :: "tcp_sys \<Rightarrow> c_error + session \<times> tcp_sys" where
  "hang_up S = (case rt_free (closesocket (t_conn S)) of Inl e \<Rightarrow> Inl e | Inr c \<Rightarrow> Inr (Ended, S\<lparr>t_conn := c\<rparr>))"

definition tcp_command :: "tcp_env \<Rightarrow> string \<Rightarrow> tcp_sys \<Rightarrow> c_error + session \<times> tcp_sys" where
  "tcp_command env msg S =
     (if take 1 msg = ''q'' \<or> take 1 msg = ''Q'' then hang_up S
      else if msg = ''LED0 ON'' then led_command env LED0_PIN PIN_LOW ''LED0 Turn On'' S
      else if msg = ''LED0 OFF'' then led_command env LED0_PIN PIN_HIGH ''LED0 Turn Off'' S
      else if msg = ''LED1 ON'' then led_command env LED1_PIN PIN_LOW ''LED1 Turn On'' S
      else if msg = ''LED1 OFF'' then led_command env LED1_PIN PIN_HIGH ''LED1 Turn Off'' S
      else if msg = ''DHT11data Load'' then log_command (read_and_send_dht11_data (send_res env) (stk_tokens env) (stk_line env)) S
      else if msg = ''Lightdata Load'' then log_command (read_and_send_light_data (send_res env)) S
      else if msg = ''DHT11 file position reset'' then log_command (reset_dht11_read_position (send_res env)) S
      else if msg = ''Light file position reset'' then log_command (reset_light_read_position (send_res env)) S
      else value_command env msg S)"

section \<open>Session\<close>

text \<open>The receive loop. Storing a message, or the terminating zero, in a freed buffer is a use after free;
  the buffer has 2048 characters and at most 2047 are received.\<close>

fun tcp_loop :: "tcp_env \<Rightarrow> recv_ev list \<Rightarrow> tcp_sys \<Rightarrow> c_error + session \<times> tcp_sys" where
  "tcp_loop env [] S = Inr (Waiting, S)"
| "tcp_loop env (Recv_Fail r # evs) S = hang_up S"
| "tcp_loop env (Recv_Data d # evs) S =
     (if d = [] then hang_up S
      else if recv_data (t_conn S) \<noteq> Ptr_Live then Inl Use_After_Free
      else
        (case tcp_command env (cstr_at 0 (take 2047 d)) S of
           Inl e \<Rightarrow> Inl e
         | Inr (Ended, S1) \<Rightarrow> Inr (Ended, S1)
         | Inr (Waiting, S1) \<Rightarrow> tcp_loop env evs S1))"

definition my_tcp_control :: "tcp_env \<Rightarrow> string list \<Rightarrow> recv_ev list \<Rightarrow> tcp_sys \<Rightarrow> c_error + session \<times> tcp_sys" where
  "my_tcp_control env argv evs S =
     (if length argv < 3 then Inr (Ended, S)
      else if \<not> malloc_ok env then Inr (Ended, S\<lparr>t_conn := (t_conn S)\<lparr>recv_data := Ptr_Null\<rparr>\<rparr>)
      else let S1 = S\<lparr>t_conn := (t_conn S)\<lparr>recv_data := Ptr_Live\<rparr>\<rparr>
           in if socket_res env = - 1 then
                (case rt_free (t_conn S1) of Inl e \<Rightarrow> Inl e | Inr c \<Rightarrow> Inr (Ended, S1\<lparr>t_conn := c\<rparr>))
              else
                (case gethostbyname env (argv ! 1) of
                   None \<Rightarrow> Inl Null_Deref
                 | Some addr \<Rightarrow> if connect_res env = - 1 then hang_up S1 else tcp_loop env evs S1))"

section \<open>Buffer and socket\<close>

text \<open>What a sending operation does to the connection when every send succeeds: the buffer and the socket
  stay as they are, and no error concerns the buffer.\<close>

definition keeps_conn :: "conn \<Rightarrow> c_error + 'a \<times> conn \<Rightarrow> bool" where
  "keeps_conn c r \<longleftrightarrow> (case r of Inl e \<Rightarrow> e \<noteq> Double_Free \<and> e \<noteq> Use_After_Free
     | Inr (x, c') \<Rightarrow> recv_data c' = recv_data c \<and> closes c' = closes c)"

lemma keeps_conn_simps [simp]:
  "keeps_conn c (Inl e) \<longleftrightarrow> e \<noteq> Double_Free \<and> e \<noteq> Use_After_Free"
  "keeps_conn c (Inr (x, c')) \<longleftrightarrow> recv_data c' = recv_data c \<and> closes c' = closes c"
  by (simp_all add: keeps_conn_def)

lemma keeps_map: "keeps_conn c r \<Longrightarrow> keeps_conn c (case r of Inl e \<Rightarrow> Inl e | Inr (x, c1) \<Rightarrow> Inr (g x, c1))"
  by (auto simp: keeps_conn_def split: sum.splits)

lemma send_keeps:
  assumes "\<forall>k. 0 \<le> net k"
  shows "keeps_conn c (after_send (send_call net txt flag c))"
  using assms by (simp add: after_send_def send_call_def leD)

lemma sends_keep:
  assumes "\<forall>k. 0 \<le> net k"
  shows "keeps_conn c (my_send_msg net txt n flag c)" "keeps_conn c (my_send_fp_reset_feedback net g c)"
    "keeps_conn c (my_send_Lightdata net v flag c)"
  using send_keeps [OF assms]
  by (simp_all add: my_send_msg_def my_send_fp_reset_feedback_def my_send_Lightdata_def sprintf_buf_def)

lemma light_loop_keeps:
  assumes "\<forall>k. 0 \<le> net k"
  shows "keeps_conn c (light_loop net content pos count c)"
  using assms
proof (induction net content pos count c rule: light_loop.induct)
  case (1 net content pos count c)
  show ?case
  proof (cases "fgets 10 content pos")
    case None
    then show ?thesis by (subst light_loop.simps) simp
  next
    case (Some lp)
    obtain l pos1 where lp: "lp = (l, pos1)" by fastforce
    show ?thesis
    proof (cases "count < 25 \<and> sscanf_d l \<noteq> None")
      case True
      then obtain v where v: "sscanf_d l = Some v" by blast
      show ?thesis
      proof (cases "my_send_Lightdata net (of_int v) 1 c")
        case (Inl e)
        then show ?thesis using sends_keep(3) [OF "1.prems", of c "of_int v" 1] Some lp v True
          by (subst light_loop.simps) simp
      next
        case (Inr rc)
        obtain r c1 where rc: "rc = (r, c1)" by fastforce
        have k: "recv_data c1 = recv_data c" "closes c1 = closes c"
          using sends_keep(3) [OF "1.prems", of c "of_int v" 1] Inr rc by simp_all
        have "keeps_conn c1 (light_loop net content pos1 (count + 1) c1)"
          using "1.IH"(2) [OF Some lp [symmetric] _ v Inr rc [symmetric]] True "1.prems" by simp
        then have "keeps_conn c (light_loop net content pos1 (count + 1) c1)" unfolding keeps_conn_def k .
        then show ?thesis using Some lp v Inr rc True by (subst light_loop.simps) simp
      qed
    next
      case False
      then show ?thesis using "1.IH"(1) [OF Some lp [symmetric]] "1.prems" Some lp
        by (subst light_loop.simps) (auto split: option.split)
    qed
  qed
qed

lemma tok_loop_error: "tok_loop delim i arr start buf = Inl e \<Longrightarrow> e = Buffer_Overflow"
proof (induction delim i arr start buf rule: tok_loop.induct)
  case (1 delim i arr start buf)
  obtain t save buf1 where st: "strtok delim start buf = (t, save, buf1)" by (cases "strtok delim start buf") auto
  have "tok_loop delim i arr start buf = (if i < length arr then
      (if t = None then Inr (i, arr[i := t], buf1) else tok_loop delim (i + 1) (arr[i := t]) save buf1) else Inl Buffer_Overflow)"
    by (subst tok_loop.simps) (simp add: st Let_def)
  then show ?case using "1.prems" "1.IH" [OF _ st [symmetric] refl refl refl] by (auto split: if_splits)
qed

lemma dht_loop_keeps: "keeps_conn c (dht_loop net content pos count i arr line c)"
proof -
  have "dht_parse i arr l = Inl e \<Longrightarrow> e \<noteq> Double_Free \<and> e \<noteq> Use_After_Free" for l e
    using tok_loop_error [of "'' ''" i arr "Some 0" l] by (auto simp: dht_parse_def split: sum.splits option.splits prod.splits)
  moreover have "my_send_DHT11data net t h 1 c = Inl Buffer_Overflow" for t h
  proof -
    have "2 \<le> length (dec (unat t)) + length (dec (unat h))"
      using dec_length_pos [of "unat t"] dec_length_pos [of "unat h"] by linarith
    then show ?thesis by (simp add: my_send_DHT11data_def dht_text_def sprintf_buf_def)
  qed
  ultimately show ?thesis by (subst dht_loop.simps) (auto simp: keeps_conn_def split: option.split sum.split)
qed

text \<open>A command's outcome is balanced: it leaves the session running with its buffer and socket, or ends it
  with the buffer freed and the socket closed once.\<close>

definition balanced :: "tcp_sys \<Rightarrow> c_error + session \<times> tcp_sys \<Rightarrow> bool" where
  "balanced S r \<longleftrightarrow>
     (case r of
        Inl e \<Rightarrow> e \<noteq> Double_Free \<and> e \<noteq> Use_After_Free
      | Inr (Waiting, S') \<Rightarrow> recv_data (t_conn S') = Ptr_Live \<and> closes (t_conn S') = closes (t_conn S)
      | Inr (Ended, S') \<Rightarrow> recv_data (t_conn S') = Ptr_Freed \<and> closes (t_conn S') = closes (t_conn S) + 1)"

lemma balanced_simps [simp]:
  "balanced S (Inl e) \<longleftrightarrow> e \<noteq> Double_Free \<and> e \<noteq> Use_After_Free"
  "balanced S (Inr (Waiting, S')) \<longleftrightarrow> recv_data (t_conn S') = Ptr_Live \<and> closes (t_conn S') = closes (t_conn S)"
  "balanced S (Inr (Ended, S')) \<longleftrightarrow> recv_data (t_conn S') = Ptr_Freed \<and> closes (t_conn S') = closes (t_conn S) + 1"
  by (simp_all add: balanced_def)

lemma hang_up_balanced: "recv_data (t_conn S) = Ptr_Live \<Longrightarrow> balanced S (hang_up S)"
  by (simp add: hang_up_def rt_free_def closesocket_def)

lemma log_balanced:
  assumes "recv_data (t_conn S) = Ptr_Live" "keeps_conn (t_conn S) (op (t_log S) (t_conn S))"
  shows "balanced S (log_command op S)"
  using assms by (auto simp: log_command_def keeps_conn_def split: sum.split prod.split)

lemma led_balanced:
  assumes "recv_data (t_conn S) = Ptr_Live" "\<forall>k. 0 \<le> send_res env k"
  shows "balanced S (led_command env pin st answer S)"
proof (cases "my_control_led pin st S")
  case (Inl e)
  then show ?thesis by (auto simp: led_command_def my_control_led_def split: option.splits)
next
  case (Inr S1)
  then have "t_conn S1 = t_conn S" by (auto simp: my_control_led_def split: option.splits)
  then have "my_send_msg (send_res env) answer (length answer) 0 (t_conn S1) =
      Inr (send_res env (length (sent (t_conn S))), (t_conn S)\<lparr>sent := sent (t_conn S) @ [(answer, 0)]\<rparr>)"
    using assms(2) by (simp add: my_send_msg_def send_call_def after_send_def leD)
  then show ?thesis using assms Inr by (simp add: led_command_def leD)
qed

lemma value_balanced:
  assumes "recv_data (t_conn S) = Ptr_Live"
  shows "balanced S (value_command env msg S)"
  using assms tok_loop_error
  by (auto simp: value_command_def strcpy_buf_def split: sum.split option.split prod.split dest!: tok_loop_error)

lemma log_ops_keep:
  assumes "\<forall>k. 0 \<le> net k"
  shows "keeps_conn c (read_and_send_dht11_data net arr line f c)" "keeps_conn c (read_and_send_light_data net f c)"
    "keeps_conn c (reset_dht11_read_position net f c)" "keeps_conn c (reset_light_read_position net f c)"
proof -
  show "keeps_conn c (read_and_send_dht11_data net arr line f c)"
    using keeps_map [OF dht_loop_keeps, where g = "\<lambda>p. f\<lparr>dht11_last_position := p\<rparr>"] by (simp add: read_and_send_dht11_data_def split: option.split)
  show "keeps_conn c (read_and_send_light_data net f c)"
    using keeps_map [OF light_loop_keeps [OF assms], where g = "\<lambda>p. f\<lparr>light_last_position := p\<rparr>"] by (simp add: read_and_send_light_data_def split: option.split)
  show "keeps_conn c (reset_dht11_read_position net f c)" "keeps_conn c (reset_light_read_position net f c)"
    using keeps_map [OF sends_keep(2) [OF assms], where g = "\<lambda>_. f\<lparr>dht11_last_position := 0\<rparr>"]
      keeps_map [OF sends_keep(2) [OF assms], where g = "\<lambda>_. f\<lparr>light_last_position := 0\<rparr>"]
    by (simp_all add: reset_dht11_read_position_def reset_light_read_position_def)
qed

lemma command_balanced:
  assumes "recv_data (t_conn S) = Ptr_Live" "\<forall>k. 0 \<le> send_res env k"
  shows "balanced S (tcp_command env msg S)"
  using hang_up_balanced [OF assms(1)] led_balanced [OF assms] value_balanced [OF assms(1)] log_balanced [OF assms(1)]
    log_ops_keep [OF assms(2)] unfolding tcp_command_def by presburger

text \<open>C31: As long as \<open>send\<close> does not fail, a session never frees its receive buffer twice and never uses
  it after it was freed, whatever is received: while it waits the buffer is allocated and the
  socket open, and when it ends the buffer has been freed and the socket closed exactly once.\<close>

theorem tcp_session_balanced:
  assumes "recv_data (t_conn S) = Ptr_Live" "\<forall>k. 0 \<le> send_res env k"
  shows "tcp_loop env evs S \<noteq> Inl Double_Free \<and> tcp_loop env evs S \<noteq> Inl Use_After_Free \<and>
     (\<forall>S'. tcp_loop env evs S = Inr (Waiting, S') \<longrightarrow> recv_data (t_conn S') = Ptr_Live \<and> closes (t_conn S') = closes (t_conn S)) \<and>
     (\<forall>S'. tcp_loop env evs S = Inr (Ended, S') \<longrightarrow> recv_data (t_conn S') = Ptr_Freed \<and> closes (t_conn S') = closes (t_conn S) + 1)"
proof -
  have "balanced S (tcp_loop env evs S)"
    using assms(1)
  proof (induction evs arbitrary: S)
    case (Cons ev evs)
    show ?case
    proof (cases ev)
      case (Recv_Data d)
      show ?thesis
      proof (cases "d = []")
        case False
        define m where "m = cstr_at 0 (take 2047 d)"
        have b: "balanced S (tcp_command env m S)" using command_balanced [OF Cons.prems assms(2)] .
        show ?thesis
        proof (cases "tcp_command env m S")
          case (Inr x)
          obtain st S1 where x: "x = (st, S1)" by fastforce
          then show ?thesis
            using b Inr Recv_Data False Cons.prems Cons.IH [of S1] by (cases st) (auto simp: balanced_def m_def split: sum.splits session.splits)
        qed (use b Recv_Data False Cons.prems in \<open>simp add: m_def\<close>)
      qed (use Recv_Data hang_up_balanced [OF Cons.prems] in simp)
    qed (use hang_up_balanced [OF Cons.prems] in simp)
  qed simp
  then show ?thesis by (auto simp: balanced_def)
qed

definition tcp_env0 :: "int \<Rightarrow> tcp_env" where
  "tcp_env0 r = \<lparr>gethostbyname = (\<lambda>_. Some 0), malloc_ok = True, socket_res = 3, connect_res = 0, send_res = (\<lambda>_. r),
     stk_tokens = replicate 51 None, stk_line = replicate 10 NUL, stk_comm = replicate 50 NUL\<rparr>"

definition tcp_sys0 :: tcp_sys where
  "tcp_sys0 = \<lparr>t_app = app_ready, t_conn = \<lparr>sent = [], closes = 0, recv_data = Ptr_Live\<rparr>, t_log = empty_log\<rparr>"

theorem tcp_session_balanced_witness:
  "tcp_loop (tcp_env0 5) [Recv_Data ''Light file position reset'', Recv_Data ''quit''] tcp_sys0 \<noteq> Inl Double_Free"
proof -
  have "recv_data (t_conn tcp_sys0) = Ptr_Live" "\<forall>k. 0 \<le> send_res (tcp_env0 5) k" by (simp_all add: tcp_sys0_def tcp_env0_def)
  from tcp_session_balanced [OF this] show ?thesis by blast
qed

text \<open>C32: When the answer to a position reset cannot be sent, the session goes on with a freed buffer: the
  next failed receive frees it a second time, and the next message is stored in freed memory.\<close>

theorem tcp_double_free:
  assumes "send_res env (length (sent (t_conn S))) < 0" "recv_data (t_conn S) = Ptr_Live" "d \<noteq> []"
  shows "tcp_loop env [Recv_Data ''Light file position reset'', Recv_Fail r] S = Inl Double_Free \<and>
     tcp_loop env [Recv_Data ''Light file position reset'', Recv_Data d] S = Inl Use_After_Free"
proof -
  let ?c = "(t_conn S)\<lparr>sent := sent (t_conn S) @ [(Light_file_position_reset_feedback, 0)], closes := closes (t_conn S) + 1, recv_data := Ptr_Freed\<rparr>"
  have m: "cstr_at 0 (take 2047 ''Light file position reset'') = ''Light file position reset''" by (simp add: cstr_at_def)
  let ?f = "(t_log S)\<lparr>light_last_position := 0\<rparr>"
  have f: "tcp_command env ''Light file position reset'' S = Inr (Waiting, S\<lparr>t_log := ?f, t_conn := ?c\<rparr>)"
    using assms by (simp add: tcp_command_def log_command_def reset_light_read_position_def my_send_fp_reset_feedback_def
        after_send_def send_call_def rt_free_def closesocket_def)
  show ?thesis using assms(2,3) by (simp only: tcp_loop.simps m f) (simp add: hang_up_def rt_free_def closesocket_def)
qed

theorem tcp_double_free_witness:
  "tcp_loop (tcp_env0 (- 1)) [Recv_Data ''Light file position reset'', Recv_Fail (- 1)] tcp_sys0 = Inl Double_Free"
  using tcp_double_free [of "tcp_env0 (- 1)" tcp_sys0 "''x''" "- 1"] by (simp add: tcp_env0_def tcp_sys0_def)

section \<open>Limits\<close>

lemma value_split:
  assumes "a \<noteq> []" "b \<noteq> []" "\<forall>c\<in>set a \<union> set b. c \<noteq> NUL \<and> c \<noteq> CHR '':''" "length a + length b < 49" "length buf = 50"
  shows "\<exists>junk. strcpy_buf buf (a @ CHR '':'' # b) = Inr (a @ CHR '':'' # b @ NUL # junk) \<and>
     tok_loop '':'' 0 (replicate 5 None) (Some 0) (a @ CHR '':'' # b @ NUL # junk) =
       Inr (2, [Some 0, Some (length a + 1), None, None, None], a @ NUL # b @ NUL # junk)"
proof -
  define w where "w = a @ CHR '':'' # b"
  have len: "length w = length a + length b + 1" by (simp add: w_def)
  define junk where "junk = drop (length w + 1) buf"
  have "length w < 50" using assms(4) len by simp
  then have cpy: "strcpy_buf buf w = Inr (w @ NUL # junk)"
    using assms(5) by (simp add: strcpy_buf_def memcpy_at_def junk_def)
  have "tok_loop '':'' 0 (replicate 5 None) (Some 0) (a @ CHR '':'' # b @ NUL # junk) =
      Inr (0 + 2, (replicate 5 None)[0 := Some 0, 0 + 1 := Some (length a + 1), 0 + 2 := None], a @ NUL # b @ NUL # junk)"
    by (rule tok_loop_two) (use assms(1-3) in simp_all)
  also have "(replicate 5 None)[0 := Some 0, 0 + 1 := Some (length a + 1), 0 + 2 := None] =
      [Some 0, Some (length a + 1), None, None, None]" by (simp add: numeral_eq_Suc)
  finally have "tok_loop '':'' 0 (replicate 5 None) (Some 0) (a @ CHR '':'' # b @ NUL # junk) =
      Inr (2, [Some 0, Some (length a + 1), None, None, None], a @ NUL # b @ NUL # junk)" by simp
  with cpy show ?thesis unfolding w_def by auto
qed

lemma limit_command:
  assumes "length (stk_comm env) = 50" "n < 2 ^ 32" "a \<noteq> []" "\<forall>c\<in>set a. c \<noteq> NUL \<and> c \<noteq> CHR '':''" "length a < 20"
  shows "\<exists>p b b1. strcpy_buf (stk_comm env) (a @ CHR '':'' # dec n) = Inr b \<and>
     tok_loop '':'' 0 (replicate 5 None) (Some 0) b = Inr (2, [Some 0, Some p, None, None, None], b1) \<and>
     cstr_at 0 b1 = a \<and> strtoul (cstr_at p b1) = n"
proof -
  have d: "c \<noteq> NUL \<and> c \<noteq> CHR '':''" if "c \<in> set (dec n)" for c using dec_digits [OF that] digit_special by blast
  have "length (dec n) \<le> 10" using assms(2) by (intro dec_length) auto
  then have len: "length a + length (dec n) < 49" using assms(5) by linarith
  have "\<forall>c\<in>set a \<union> set (dec n). c \<noteq> NUL \<and> c \<noteq> CHR '':''" using assms(4) d by blast
  from value_split [OF assms(3) dec_nonempty this len assms(1)] obtain junk where
    j: "strcpy_buf (stk_comm env) (a @ CHR '':'' # dec n) = Inr (a @ CHR '':'' # dec n @ NUL # junk)"
    "tok_loop '':'' 0 (replicate 5 None) (Some 0) (a @ CHR '':'' # dec n @ NUL # junk) =
       Inr (2, [Some 0, Some (length a + 1), None, None, None], a @ NUL # dec n @ NUL # junk)" by blast
  have "cstr_at 0 (a @ NUL # dec n @ NUL # junk) = a" using assms(4) by (intro cstr_at_eq [where junk = "dec n @ NUL # junk"]) auto
  moreover have "cstr_at (length a + 1) (a @ NUL # dec n @ NUL # junk) = dec n"
    using d by (intro cstr_at_eq [where junk = junk]) auto
  moreover have "strtoul (dec n) = n" using strtoul_dec [of n "[]"] assms(2) by simp
  ultimately have "cstr_at 0 (a @ NUL # dec n @ NUL # junk) = a \<and> strtoul (cstr_at (length a + 1) (a @ NUL # dec n @ NUL # junk)) = n"
    by metis
  with j show ?thesis by blast
qed

text \<open>The two value commands set the limits they name: \<open>Set templimit:\<close> and a decimal number sets the
  temperature limit to that number modulo 256, \<open>Set lightlimit:\<close> sets the light limit to the
  number, and neither changes anything else.\<close>

theorem tcp_set_limits:
  assumes "length (stk_comm env) = 50" "n < 2 ^ 32"
  shows "tcp_command env (''Set templimit:'' @ dec n) S = Inr (Waiting, S\<lparr>t_app := (t_app S)\<lparr>temp_limit := of_nat n\<rparr>\<rparr>) \<and>
     tcp_command env (''Set lightlimit:'' @ dec n) S = Inr (Waiting, S\<lparr>t_app := (t_app S)\<lparr>light_limit := of_nat n\<rparr>\<rparr>)"
proof -
  obtain p b b1 where t: "strcpy_buf (stk_comm env) (''Set templimit'' @ CHR '':'' # dec n) = Inr b"
    "tok_loop '':'' 0 (replicate 5 None) (Some 0) b = Inr (2, [Some 0, Some p, None, None, None], b1)"
    "cstr_at 0 b1 = ''Set templimit''" "strtoul (cstr_at p b1) = n"
    using limit_command [OF assms, of "''Set templimit''"] by auto
  obtain p2 b' b2 where l: "strcpy_buf (stk_comm env) (''Set lightlimit'' @ CHR '':'' # dec n) = Inr b'"
    "tok_loop '':'' 0 (replicate 5 None) (Some 0) b' = Inr (2, [Some 0, Some p2, None, None, None], b2)"
    "cstr_at 0 b2 = ''Set lightlimit''" "strtoul (cstr_at p2 b2) = n"
    using limit_command [OF assms, of "''Set lightlimit''"] by auto
  have "tcp_command env (''Set templimit:'' @ dec n) S = value_command env (''Set templimit'' @ CHR '':'' # dec n) S"
    "tcp_command env (''Set lightlimit:'' @ dec n) S = value_command env (''Set lightlimit'' @ CHR '':'' # dec n) S"
    by (simp_all add: tcp_command_def)
  then show ?thesis using t l by (simp add: value_command_def set_temp_limit_def set_light_limit_def)
qed

theorem tcp_set_limits_witness:
  "tcp_command (tcp_env0 5) (''Set templimit:'' @ dec 300) tcp_sys0 = Inr (Waiting, tcp_sys0\<lparr>t_app := app_ready\<lparr>temp_limit := 44\<rparr>\<rparr>)"
  using tcp_set_limits [of "tcp_env0 5" 300 tcp_sys0] by (simp add: tcp_env0_def tcp_sys0_def)

text \<open>Every message of 50 characters or more that does not hang up overflows the array it is copied
  to, although the receive buffer takes messages of up to 2047.\<close>

theorem tcp_long_message_overflows:
  assumes "length (stk_comm env) = 50" "50 \<le> length msg" "hd msg \<noteq> CHR ''q''" "hd msg \<noteq> CHR ''Q''"
  shows "tcp_command env msg S = Inl Buffer_Overflow"
proof -
  have "take 1 msg \<noteq> ''q''" "take 1 msg \<noteq> ''Q''" using assms(2-4) by (cases msg; simp)+
  moreover have "msg \<noteq> c" if "length c < 50" for c using that assms(2) by auto
  ultimately show ?thesis using assms(1,2) by (simp add: tcp_command_def value_command_def strcpy_buf_def)
qed

theorem tcp_long_message_overflows_witness:
  "tcp_command (tcp_env0 5) (replicate 60 CHR ''x'') tcp_sys0 = Inl Buffer_Overflow"
  using tcp_long_message_overflows [of "tcp_env0 5" "replicate 60 CHR ''x''" tcp_sys0] by (simp add: tcp_env0_def)

text \<open>A lamp command drives the lamp's pin and answers, but leaves the recorded device states as they
  were: after \<open>LED1 ON\<close> on a dark emergency light the lamp shines while it is recorded off.\<close>

theorem tcp_led_not_recorded:
  assumes "alarm_inv (t_app S)" "\<not> LED1_State (my_devices (t_app S))" "0 \<le> send_res env (length (sent (t_conn S)))"
  shows "\<exists>S'. tcp_command env ''LED1 ON'' S = Inr (Waiting, S') \<and> level LED1_PIN (t_app S') = PIN_LOW \<and>
     \<not> LED1_State (my_devices (t_app S')) \<and> sent (t_conn S') = sent (t_conn S) @ [(''LED1 Turn On'', 0)] \<and> \<not> alarm_inv (t_app S')"
  using assms
  by (simp add: tcp_command_def led_command_def my_control_led_def alarm_inv_def pins_ok_def my_send_msg_def send_call_def
      after_send_def pin_simps leD)

theorem tcp_led_not_recorded_witness:
  "\<exists>S'. tcp_command (tcp_env0 5) ''LED1 ON'' tcp_sys0 = Inr (Waiting, S') \<and> \<not> LED1_State (my_devices (t_app S')) \<and>
     level LED1_PIN (t_app S') = PIN_LOW"
proof -
  have "\<not> LED1_State (my_devices (t_app tcp_sys0))"
    using gpio_init_inv [of "snd (rt_hw_pin_init reset_gpio)" 0 any_init None]
    by (auto simp: tcp_sys0_def app_ready_def rt_hw_pin_init_def rt_device_pin_register_def app_boot_def devices_boot_def)
  moreover have "alarm_inv (t_app tcp_sys0)" using app_ready_inv by (simp add: tcp_sys0_def)
  ultimately show ?thesis using tcp_led_not_recorded [of tcp_sys0 "tcp_env0 5"] by (auto simp: tcp_env0_def)
qed

end
