(* ===== verification/Kernel_Sched.thy ===== *)
theory Kernel_Sched
  imports Mcu_Prelude "HOL-Library.Monad_Syntax"
begin

text \<open>
  The thread scheduler of the kernel (\<open>src/smart-building-mcu/rt-thread/src/scheduler.c\<close>, in the
  configuration of the firmware: one processor, 32 priorities, stack check) and the search for the
  first set bit (\<open>kservice.c\<close> and \<open>libcpu/arm/cortex-m4/cpuport.c\<close>).

  Threads and timers are objects with numbers. The nodes of the kernel's linked lists are
  embedded in the objects, so that a thread is in at most one thread list: a ready list of the
  priority table, the suspend list of an IPC object, or the list of defunct threads. A list is
  the sequence of the objects whose nodes it links; removing a node takes it out of the list it is
  in, and linking a node that is already in a list, which would corrupt both, gives \<open>None\<close>, as do a
  failed assertion, an index outside the priority table and a stack overflow that the scheduler
  detects (it stops the system). Interrupt locks make every function atomic. The context switch itself is the
  change of \<open>rt_current_thread\<close>.
\<close>

section \<open>Objects\<close>

record rt_thread =
  stack_addr :: nat
  stack_size :: nat
  sp :: nat
  stack_byte :: u8
  th_error :: rt_err
  stat :: u8
  current_priority :: nat
  init_priority :: nat
  number_mask :: u32
  init_tick :: u32
  remaining_tick :: u32
  systemobject :: bool
  event_set :: u32
  event_info :: u8

datatype timer_ref = Thread_timer nat | User_timer nat

record rt_timer =
  tm_flag :: u8
  tm_init_tick :: u32
  timeout_tick :: u32

text \<open>\<open>suspend_thread\<close> are the suspend lists of the IPC objects, \<open>rt_timer_tmp\<close> is the local list of
  \<open>rt_timer_check\<close>; a timer is the built-in timer of a thread or one the user created.\<close>

record kernel =
  thr :: "nat \<Rightarrow> rt_thread"
  rt_thread_priority_table :: "nat list list"
  rt_thread_ready_priority_group :: u32
  rt_scheduler_lock_nest :: int
  rt_current_thread :: "nat option"
  rt_current_priority :: u8
  rt_thread_defunct :: "nat list"
  suspend_thread :: "nat list list"
  rt_interrupt_nest :: u8
  rt_tick :: u32
  tmr :: "timer_ref \<Rightarrow> rt_timer"
  rt_timer_list :: "timer_ref list"
  rt_timer_tmp :: "timer_ref list"
  rt_soft_timer_list :: "timer_ref list"
  soft_timer_status :: u8
  timer_thread :: nat

abbreviation (input) RT_THREAD_PRIORITY_MAX :: nat where "RT_THREAD_PRIORITY_MAX \<equiv> 32"

abbreviation (input) RT_THREAD_INIT :: u8 where "RT_THREAD_INIT \<equiv> 0x00"
abbreviation (input) RT_THREAD_READY :: u8 where "RT_THREAD_READY \<equiv> 0x01"
abbreviation (input) RT_THREAD_SUSPEND :: u8 where "RT_THREAD_SUSPEND \<equiv> 0x02"
abbreviation (input) RT_THREAD_RUNNING :: u8 where "RT_THREAD_RUNNING \<equiv> 0x03"
abbreviation (input) RT_THREAD_CLOSE :: u8 where "RT_THREAD_CLOSE \<equiv> 0x04"
abbreviation (input) RT_THREAD_STAT_MASK :: u8 where "RT_THREAD_STAT_MASK \<equiv> 0x07"
abbreviation (input) RT_THREAD_STAT_YIELD_MASK :: u8 where "RT_THREAD_STAT_YIELD_MASK \<equiv> 0x08"

definition upd_thr :: "nat \<Rightarrow> (rt_thread \<Rightarrow> rt_thread) \<Rightarrow> kernel \<Rightarrow> kernel" where
  "upd_thr t f k = k\<lparr>thr := (thr k)(t := f (thr k t))\<rparr>"

definition th_stat :: "kernel \<Rightarrow> nat \<Rightarrow> u8" where
  "th_stat k t = stat (thr k t) AND RT_THREAD_STAT_MASK"

definition set_stat :: "u8 \<Rightarrow> rt_thread \<Rightarrow> rt_thread" where
  "set_stat st th = th\<lparr>stat := st OR (stat th AND NOT RT_THREAD_STAT_MASK)\<rparr>"

section \<open>Lists\<close>

definition rt_list_remove :: "nat \<Rightarrow> kernel \<Rightarrow> kernel" where
  "rt_list_remove t k = k\<lparr>rt_thread_priority_table := map (filter (\<lambda>u. u \<noteq> t)) (rt_thread_priority_table k),
     suspend_thread := map (filter (\<lambda>u. u \<noteq> t)) (suspend_thread k),
     rt_thread_defunct := filter (\<lambda>u. u \<noteq> t) (rt_thread_defunct k)\<rparr>"

definition linked :: "nat \<Rightarrow> kernel \<Rightarrow> bool" where
  "linked t k \<longleftrightarrow> (\<exists>q\<in>set (rt_thread_priority_table k). t \<in> set q) \<or> (\<exists>q\<in>set (suspend_thread k). t \<in> set q) \<or>
     t \<in> set (rt_thread_defunct k)"

text \<open>\<open>rt_list_insert_before\<close> with the head of a ready list.\<close>

definition ready_insert :: "nat \<Rightarrow> nat \<Rightarrow> kernel \<Rightarrow> kernel option" where
  "ready_insert p t k =
     (if linked t k \<or> \<not> p < length (rt_thread_priority_table k) then None
      else Some (k\<lparr>rt_thread_priority_table := (rt_thread_priority_table k)[p := rt_thread_priority_table k ! p @ [t]]\<rparr>))"

section \<open>First set bit\<close>

text \<open>The \<open>ffs\<close> of the compiler, which the configuration selects, and the table search of
  \<open>kservice.c\<close>.\<close>

definition rt_ffs :: "u32 \<Rightarrow> nat" where
  "rt_ffs value = (case find (\<lambda>i. bit value i) [0..<32] of None \<Rightarrow> 0 | Some i \<Rightarrow> i + 1)"

definition lowest_bit_bitmap :: "nat list" where
  "lowest_bit_bitmap =
    [0, 0, 1, 0, 2, 0, 1, 0, 3, 0, 1, 0, 2, 0, 1, 0,
     4, 0, 1, 0, 2, 0, 1, 0, 3, 0, 1, 0, 2, 0, 1, 0,
     5, 0, 1, 0, 2, 0, 1, 0, 3, 0, 1, 0, 2, 0, 1, 0,
     4, 0, 1, 0, 2, 0, 1, 0, 3, 0, 1, 0, 2, 0, 1, 0,
     6, 0, 1, 0, 2, 0, 1, 0, 3, 0, 1, 0, 2, 0, 1, 0,
     4, 0, 1, 0, 2, 0, 1, 0, 3, 0, 1, 0, 2, 0, 1, 0,
     5, 0, 1, 0, 2, 0, 1, 0, 3, 0, 1, 0, 2, 0, 1, 0,
     4, 0, 1, 0, 2, 0, 1, 0, 3, 0, 1, 0, 2, 0, 1, 0,
     7, 0, 1, 0, 2, 0, 1, 0, 3, 0, 1, 0, 2, 0, 1, 0,
     4, 0, 1, 0, 2, 0, 1, 0, 3, 0, 1, 0, 2, 0, 1, 0,
     5, 0, 1, 0, 2, 0, 1, 0, 3, 0, 1, 0, 2, 0, 1, 0,
     4, 0, 1, 0, 2, 0, 1, 0, 3, 0, 1, 0, 2, 0, 1, 0,
     6, 0, 1, 0, 2, 0, 1, 0, 3, 0, 1, 0, 2, 0, 1, 0,
     4, 0, 1, 0, 2, 0, 1, 0, 3, 0, 1, 0, 2, 0, 1, 0,
     5, 0, 1, 0, 2, 0, 1, 0, 3, 0, 1, 0, 2, 0, 1, 0,
     4, 0, 1, 0, 2, 0, 1, 0, 3, 0, 1, 0, 2, 0, 1, 0]"

definition rt_ffs_table :: "u32 \<Rightarrow> nat" where
  "rt_ffs_table value =
     (if value = 0 then 0
      else if value AND 0xff \<noteq> 0 then lowest_bit_bitmap ! unat (value AND 0xff) + 1
      else if value AND 0xff00 \<noteq> 0 then lowest_bit_bitmap ! unat (drop_bit 8 (value AND 0xff00)) + 9
      else if value AND 0xff0000 \<noteq> 0 then lowest_bit_bitmap ! unat (drop_bit 16 (value AND 0xff0000)) + 17
      else lowest_bit_bitmap ! unat (drop_bit 24 (value AND 0xff000000)) + 25)"

section \<open>Scheduler\<close>

definition rt_scheduler_stack_check :: "rt_thread \<Rightarrow> bool" where
  "rt_scheduler_stack_check th \<longleftrightarrow>
     stack_byte th = 0x23 \<and> stack_addr th < sp th \<and> sp th \<le> stack_addr th + stack_size th"

definition get_highest_priority_thread :: "kernel \<Rightarrow> (nat \<times> nat) option" where
  "get_highest_priority_thread k =
     (let g = rt_ffs (rt_thread_ready_priority_group k)
      in if g = 0 \<or> \<not> g - 1 < length (rt_thread_priority_table k) then None
         else case rt_thread_priority_table k ! (g - 1) of [] \<Rightarrow> None | t # _ \<Rightarrow> Some (t, g - 1))"

definition rt_system_scheduler_init :: "kernel \<Rightarrow> kernel" where
  "rt_system_scheduler_init k = k\<lparr>rt_scheduler_lock_nest := 0, rt_thread_priority_table := replicate RT_THREAD_PRIORITY_MAX [],
     rt_thread_ready_priority_group := 0, rt_thread_defunct := []\<rparr>"

definition rt_schedule_insert_thread :: "nat \<Rightarrow> kernel \<Rightarrow> kernel option" where
  "rt_schedule_insert_thread t k =
     (if rt_current_thread k = Some t then Some (upd_thr t (set_stat RT_THREAD_RUNNING) k)
      else do {
        k1 \<leftarrow> ready_insert (current_priority (thr k t)) t (upd_thr t (set_stat RT_THREAD_READY) k);
        Some (k1\<lparr>rt_thread_ready_priority_group := rt_thread_ready_priority_group k1 OR number_mask (thr k t)\<rparr>)
      })"

definition rt_schedule_remove_thread :: "nat \<Rightarrow> kernel \<Rightarrow> kernel option" where
  "rt_schedule_remove_thread t k =
     (let k1 = rt_list_remove t k; p = current_priority (thr k t)
      in if \<not> p < length (rt_thread_priority_table k1) then None
         else if rt_thread_priority_table k1 ! p = []
              then Some (k1\<lparr>rt_thread_ready_priority_group := rt_thread_ready_priority_group k1 AND NOT (number_mask (thr k t))\<rparr>)
              else Some k1)"

definition rt_system_scheduler_start :: "kernel \<Rightarrow> kernel option" where
  "rt_system_scheduler_start k = do {
     (to_thread, highest_ready_priority) \<leftarrow> get_highest_priority_thread k;
     k1 \<leftarrow> rt_schedule_remove_thread to_thread (k\<lparr>rt_current_thread := Some to_thread\<rparr>);
     Some (upd_thr to_thread (\<lambda>th. th\<lparr>stat := RT_THREAD_RUNNING\<rparr>) k1)
   }"

text \<open>The two outcomes of \<open>rt_schedule\<close>: a switch to another thread, where the thread that was running is
  put back into its ready list, and staying with the current thread.\<close>

definition schedule_switch :: "bool \<Rightarrow> nat \<Rightarrow> nat \<Rightarrow> nat \<Rightarrow> kernel \<Rightarrow> kernel option" where
  "schedule_switch need_insert_from_thread from_thread to_thread highest_ready_priority k = do {
     let k1 = k\<lparr>rt_current_priority := of_nat highest_ready_priority, rt_current_thread := Some to_thread\<rparr>;
     k2 \<leftarrow> (if need_insert_from_thread then rt_schedule_insert_thread from_thread k1 else Some k1);
     k3 \<leftarrow> rt_schedule_remove_thread to_thread k2;
     let k4 = upd_thr to_thread (set_stat RT_THREAD_RUNNING) k3;
     (if rt_scheduler_stack_check (thr k4 to_thread) then Some k4 else None)
   }"

definition schedule_stay :: "nat \<Rightarrow> kernel \<Rightarrow> kernel option" where
  "schedule_stay t k = do {
     k1 \<leftarrow> rt_schedule_remove_thread t k;
     Some (upd_thr t (set_stat RT_THREAD_RUNNING) k1)
   }"

definition rt_schedule :: "kernel \<Rightarrow> kernel option" where
  "rt_schedule k =
     (if rt_scheduler_lock_nest k = 0 \<and> rt_thread_ready_priority_group k \<noteq> 0 then do {
        (to_thread, highest_ready_priority) \<leftarrow> get_highest_priority_thread k;
        c \<leftarrow> rt_current_thread k;
        let running = (th_stat k c = RT_THREAD_RUNNING);
        let keep = (running \<and> (current_priority (thr k c) < highest_ready_priority \<or>
              current_priority (thr k c) = highest_ready_priority \<and> stat (thr k c) AND RT_THREAD_STAT_YIELD_MASK = 0));
        let k1 = (if running then upd_thr c (\<lambda>th. th\<lparr>stat := stat th AND NOT RT_THREAD_STAT_YIELD_MASK\<rparr>) k else k);
        (if \<not> keep \<and> to_thread \<noteq> c then schedule_switch running c to_thread highest_ready_priority k1 else schedule_stay c k1)
      } else Some k)"

definition rt_enter_critical :: "kernel \<Rightarrow> kernel" where
  "rt_enter_critical k = k\<lparr>rt_scheduler_lock_nest := to_s16 (rt_scheduler_lock_nest k + 1)\<rparr>"

definition rt_exit_critical :: "kernel \<Rightarrow> kernel option" where
  "rt_exit_critical k =
     (let n = to_s16 (rt_scheduler_lock_nest k - 1)
      in if n \<le> 0
         then (let k1 = k\<lparr>rt_scheduler_lock_nest := 0\<rparr> in if rt_current_thread k1 \<noteq> None then rt_schedule k1 else Some k1)
         else Some (k\<lparr>rt_scheduler_lock_nest := n\<rparr>))"

definition rt_critical_level :: "kernel \<Rightarrow> nat" where
  "rt_critical_level k = nat (rt_scheduler_lock_nest k mod 2 ^ 16)"

section \<open>The table of lowest bits\<close>

definition low_ok :: "int \<Rightarrow> nat \<Rightarrow> bool" where
  "low_ok b l \<longleftrightarrow> l < 8 \<and> b div 2 ^ l mod 2 = 1 \<and> b mod 2 ^ l = 0"

fun low_all :: "int \<Rightarrow> nat list \<Rightarrow> bool" where
  "low_all b [] = True" | "low_all b (l # ls) = (low_ok b l \<and> low_all (b + 1) ls)"

lemma table_ok: "low_all 1 (tl lowest_bit_bitmap)"
  by (simp add: lowest_bit_bitmap_def low_ok_def)

lemma low_all_nth: "low_all b ls \<Longrightarrow> i < length ls \<Longrightarrow> low_ok (b + int i) (ls ! i)"
proof (induction ls arbitrary: b i)
  case (Cons l ls)
  then show ?case using Cons.IH [of "b + 1" "i - 1"] by (cases i) (auto simp: algebra_simps)
qed simp

lemma rt_ffs_Some:
  assumes "i < 32" "bit v i" "\<And>j. j < i \<Longrightarrow> \<not> bit v j"
  shows "rt_ffs v = i + 1"
proof -
  have "find (\<lambda>i. bit v i) [0..<32] = Some i"
    unfolding find_Some_iff using assms by (intro exI [of _ i]) auto
  then show ?thesis by (simp add: rt_ffs_def)
qed

lemma lowest_bit:
  assumes "0 < b" "b < 256"
  shows "lowest_bit_bitmap ! b < 8" "bit b (lowest_bit_bitmap ! b)" "j < lowest_bit_bitmap ! b \<Longrightarrow> \<not> bit b j"
proof -
  let ?l = "lowest_bit_bitmap ! b"
  have len: "length lowest_bit_bitmap = 256" by (simp add: lowest_bit_bitmap_def)
  have "low_ok (1 + int (b - 1)) (tl lowest_bit_bitmap ! (b - 1))"
    using assms len by (intro low_all_nth [OF table_ok]) simp
  then have ok: "?l < 8" "int b div 2 ^ ?l mod 2 = 1" "int b mod 2 ^ ?l = 0"
    using assms len by (simp_all add: low_ok_def nth_tl)
  show "?l < 8" by (rule ok(1))
  have "int (b div 2 ^ ?l mod 2) = 1" using ok(2) by (simp add: zdiv_int zmod_int)
  then have "b div 2 ^ ?l mod 2 = 1" by linarith
  then show "bit b ?l" by (simp add: bit_iff_odd odd_iff_mod_2_eq_one)
  have "int (b mod 2 ^ ?l) = 0" using ok(3) by (simp add: zmod_int)
  then have z: "take_bit ?l b = 0" by (simp add: take_bit_eq_mod)
  show "\<not> bit b j" if "j < ?l"
  proof
    assume "bit b j"
    then have "bit (take_bit ?l b) j" using that by (simp add: bit_take_bit_iff)
    then show False by (simp add: z)
  qed
qed

lemma ffs_lane:
  assumes "n \<le> 24" "take_bit 8 (drop_bit n v) \<noteq> 0" "\<And>j. j < n \<Longrightarrow> \<not> bit v j"
  shows "lowest_bit_bitmap ! unat (take_bit 8 (drop_bit n v)) + n + 1 = rt_ffs v"
proof -
  let ?w = "take_bit 8 (drop_bit n v)"
  let ?l = "lowest_bit_bitmap ! unat ?w"
  have "0 < unat ?w" using assms(2) by (simp add: unat_gt_0)
  moreover have "unat ?w < 256" using take_bit_nat_less_exp [of 8 "unat (drop_bit n v)"] by (simp add: unsigned_take_bit_eq)
  ultimately have l: "?l < 8" "bit (unat ?w) ?l" "\<And>j. j < ?l \<Longrightarrow> \<not> bit (unat ?w) j" using lowest_bit [of "unat ?w"] by auto
  have b: "bit v (n + j)" if "bit (unat ?w) j" for j using that by (simp add: bit_unsigned_iff bit_take_bit_iff bit_drop_bit_eq)
  have nb: "\<not> bit v (n + j)" if "j < ?l" for j
  proof
    assume "bit v (n + j)"
    then have "bit (unat ?w) j" using that l(1) by (simp add: bit_unsigned_iff bit_take_bit_iff bit_drop_bit_eq)
    then show False using l(3) that by blast
  qed
  have "rt_ffs v = (n + ?l) + 1"
  proof (rule rt_ffs_Some)
    show "n + ?l < 32" using assms(1) l(1) by linarith
    show "bit v (n + ?l)" using b l(2) by blast
    show "\<not> bit v j" if "j < n + ?l" for j
      using assms(3) [of j] nb [of "j - n"] that by (cases "j < n") auto
  qed
  then show ?thesis by simp
qed

lemma lane_clear:
  assumes "take_bit 8 (drop_bit n v) = 0" "n \<le> j" "j < n + 8"
  shows "\<not> bit (v :: u32) j"
proof
  assume "bit v j"
  then have "bit (take_bit 8 (drop_bit n v)) (j - n)" using assms(2,3) by (simp add: bit_take_bit_iff bit_drop_bit_eq)
  then show False unfolding assms(1) by simp
qed

lemma and_lane: "(v :: u32) AND push_bit n (mask 8) = push_bit n (take_bit 8 (drop_bit n v))"
  by (rule bit_word_eqI) (auto simp: bit_and_iff bit_push_bit_iff bit_take_bit_iff bit_drop_bit_eq bit_mask_iff)

lemma drop_lane:
  assumes "n \<le> 24"
  shows "drop_bit n (push_bit n (take_bit 8 (drop_bit n (v :: u32)))) = take_bit 8 (drop_bit n v)"
  using assms by (intro bit_word_eqI) (auto simp: bit_push_bit_iff bit_take_bit_iff bit_drop_bit_eq)

lemma lane_zero: "n \<le> 24 \<Longrightarrow> push_bit n (take_bit 8 (drop_bit n (v :: u32))) = 0 \<longleftrightarrow> take_bit 8 (drop_bit n v) = 0"
  using drop_lane [of n v] by auto

lemma lane_masks: "(0xff :: u32) = push_bit 0 (mask 8)" "(0xff00 :: u32) = push_bit 8 (mask 8)"
  "(0xff0000 :: u32) = push_bit 16 (mask 8)" "(0xff000000 :: u32) = push_bit 24 (mask 8)"
  by (simp_all add: mask_eq_exp_minus_1 push_bit_eq_mult)

section \<open>Status bits\<close>

lemma set_stat_bits:
  "st AND 7 = st \<Longrightarrow> stat (set_stat st th) AND 7 = st"
proof -
  assume "st AND 7 = st"
  moreover have "(stat th AND NOT 7) AND 7 = 0" by (simp add: and.assoc)
  ultimately show ?thesis by (simp add: set_stat_def bit.conj_disj_distrib2)
qed

lemma yield_bits [simp]: "(x AND - 9) AND (7 :: u8) = x AND 7" "(x OR 8) AND (7 :: u8) = x AND 7"
  by (simp_all add: and.assoc bit.conj_disj_distrib2)

lemma set_stat_sel [simp]:
  "current_priority (set_stat st th) = current_priority th" "number_mask (set_stat st th) = number_mask th"
  "init_priority (set_stat st th) = init_priority th" "th_error (set_stat st th) = th_error th"
  "stack_addr (set_stat st th) = stack_addr th" "stack_size (set_stat st th) = stack_size th"
  "sp (set_stat st th) = sp th" "stack_byte (set_stat st th) = stack_byte th" "systemobject (set_stat st th) = systemobject th"
  "init_tick (set_stat st th) = init_tick th" "remaining_tick (set_stat st th) = remaining_tick th"
  by (simp_all add: set_stat_def)

lemma upd_thr_sel [simp]:
  "thr (upd_thr t f k) = (thr k)(t := f (thr k t))"
  "rt_thread_priority_table (upd_thr t f k) = rt_thread_priority_table k"
  "rt_thread_ready_priority_group (upd_thr t f k) = rt_thread_ready_priority_group k"
  "rt_scheduler_lock_nest (upd_thr t f k) = rt_scheduler_lock_nest k"
  "rt_current_thread (upd_thr t f k) = rt_current_thread k"
  "rt_current_priority (upd_thr t f k) = rt_current_priority k"
  "rt_thread_defunct (upd_thr t f k) = rt_thread_defunct k"
  "suspend_thread (upd_thr t f k) = suspend_thread k"
  "rt_interrupt_nest (upd_thr t f k) = rt_interrupt_nest k"
  "rt_tick (upd_thr t f k) = rt_tick k"
  "tmr (upd_thr t f k) = tmr k"
  "rt_timer_list (upd_thr t f k) = rt_timer_list k"
  "rt_timer_tmp (upd_thr t f k) = rt_timer_tmp k"
  "rt_soft_timer_list (upd_thr t f k) = rt_soft_timer_list k"
  "soft_timer_status (upd_thr t f k) = soft_timer_status k"
  "timer_thread (upd_thr t f k) = timer_thread k"
  by (simp_all add: upd_thr_def)

section \<open>Invariant\<close>

definition th_ok :: "rt_thread \<Rightarrow> bool" where
  "th_ok th \<longleftrightarrow> current_priority th < 32 \<and> number_mask th = 2 ^ current_priority th \<and> rt_scheduler_stack_check th"

abbreviation live_stats :: "u8 set" where
  "live_stats \<equiv> {RT_THREAD_READY, RT_THREAD_SUSPEND, RT_THREAD_RUNNING}"

text \<open>The thread lists hold the threads their status says, those of \<open>X\<close> apart, which are in no list;
  a bit of the ready group is set when the ready list of its priority is not empty.\<close>

definition klists :: "nat set \<Rightarrow> kernel \<Rightarrow> bool" where
  "klists X k \<longleftrightarrow> length (rt_thread_priority_table k) = 32 \<and>
     (\<forall>p<32. (bit (rt_thread_ready_priority_group k) p \<longleftrightarrow> rt_thread_priority_table k ! p \<noteq> []) \<and>
        distinct (rt_thread_priority_table k ! p) \<and>
        (\<forall>t. t \<in> set (rt_thread_priority_table k ! p) \<longleftrightarrow>
           t \<notin> X \<and> th_stat k t = RT_THREAD_READY \<and> current_priority (thr k t) = p)) \<and>
     distinct (concat (suspend_thread k)) \<and> (\<forall>t\<in>set (concat (suspend_thread k)). t \<notin> X \<and> th_stat k t = RT_THREAD_SUSPEND) \<and>
     distinct (rt_thread_defunct k) \<and> (\<forall>t\<in>set (rt_thread_defunct k). t \<notin> X \<and> th_stat k t = RT_THREAD_CLOSE) \<and>
     (\<forall>t. t \<notin> X \<and> th_stat k t \<in> live_stats \<longrightarrow> th_ok (thr k t))"

text \<open>At most the current thread is running, and it is not waiting in a ready list.\<close>

definition kcur :: "kernel \<Rightarrow> bool" where
  "kcur k \<longleftrightarrow> (\<forall>t. th_stat k t = RT_THREAD_RUNNING \<longrightarrow> rt_current_thread k = Some t) \<and>
     (\<forall>c. rt_current_thread k = Some c \<longrightarrow> th_stat k c \<noteq> RT_THREAD_READY)"

definition kinv :: "kernel \<Rightarrow> bool" where
  "kinv k \<longleftrightarrow> klists {} k \<and> kcur k"

lemma klistsD:
  assumes "klists X k"
  shows "length (rt_thread_priority_table k) = 32"
    and "p < 32 \<Longrightarrow> bit (rt_thread_ready_priority_group k) p \<longleftrightarrow> rt_thread_priority_table k ! p \<noteq> []"
    and "p < 32 \<Longrightarrow> distinct (rt_thread_priority_table k ! p)"
    and "p < 32 \<Longrightarrow> t \<in> set (rt_thread_priority_table k ! p) \<longleftrightarrow>
           t \<notin> X \<and> th_stat k t = RT_THREAD_READY \<and> current_priority (thr k t) = p"
    and "t \<notin> X \<Longrightarrow> th_stat k t \<in> live_stats \<Longrightarrow> th_ok (thr k t)"
  using assms by (simp_all add: klists_def)

lemma klists_off_unlinked:
  assumes "klists X k" "t \<in> X \<or> th_stat k t \<notin> {RT_THREAD_READY, RT_THREAD_SUSPEND, RT_THREAD_CLOSE}"
  shows "\<not> linked t k"
proof -
  have "t \<notin> set (rt_thread_priority_table k ! p)" if "p < 32" for p using klistsD(4) [OF assms(1) that, of t] assms(2) by auto
  then have "\<forall>q\<in>set (rt_thread_priority_table k). t \<notin> set q"
    using klistsD(1) [OF assms(1)] by (metis in_set_conv_nth)
  moreover have "t \<notin> set (concat (suspend_thread k))" "t \<notin> set (rt_thread_defunct k)"
    using assms by (auto simp: klists_def)
  ultimately show ?thesis by (auto simp: linked_def)
qed

lemma filter_absent: "t \<notin> set q \<Longrightarrow> filter (\<lambda>u. u \<noteq> t) q = q"
  by (induction q) auto

lemma rt_list_remove_unlinked: "\<not> linked t k \<Longrightarrow> rt_list_remove t k = k"
  by (simp add: rt_list_remove_def linked_def filter_absent map_idI)

lemma concat_filter: "concat (map (filter P) xss) = filter P (concat xss)"
  by (induction xss) auto

lemma remove_klists:
  assumes "klists X k" "th_ok (thr k t)"
  shows "\<exists>G. rt_schedule_remove_thread t k = Some (rt_list_remove t k\<lparr>rt_thread_ready_priority_group := G\<rparr>) \<and>
     klists (insert t X) (rt_list_remove t k\<lparr>rt_thread_ready_priority_group := G\<rparr>)"
proof -
  let ?T = "rt_thread_priority_table k" and ?g = "rt_thread_ready_priority_group k" and ?p = "current_priority (thr k t)"
  have p: "?p < 32" "number_mask (thr k t) = 2 ^ ?p" using assms(2) by (simp_all add: th_ok_def)
  note D = klistsD [OF assms(1)]
  define G where "G = (if filter (\<lambda>u. u \<noteq> t) (?T ! ?p) = [] then ?g AND NOT (2 ^ ?p) else ?g)"
  have bits: "bit G q \<longleftrightarrow> filter (\<lambda>u. u \<noteq> t) (?T ! q) \<noteq> []" if q: "q < 32" for q
  proof (cases "q = ?p")
    case True
    with D(2) [OF q] q show ?thesis by (auto simp: G_def bit_and_iff bit_not_iff bit_exp_iff)
  next
    case False
    with D(4) [OF q, of t] have "filter (\<lambda>u. u \<noteq> t) (?T ! q) = ?T ! q" by (intro filter_absent) auto
    moreover have "bit G q \<longleftrightarrow> bit ?g q" using False q by (auto simp: G_def bit_and_iff bit_not_iff bit_exp_iff)
    ultimately show ?thesis using D(2) [OF q] by simp
  qed
  have "rt_schedule_remove_thread t k = Some (rt_list_remove t k\<lparr>rt_thread_ready_priority_group := G\<rparr>)"
    using p D(1) by (simp add: rt_schedule_remove_thread_def rt_list_remove_def G_def)
  moreover have "klists (insert t X) (rt_list_remove t k\<lparr>rt_thread_ready_priority_group := G\<rparr>)"
    using assms(1) bits unfolding klists_def
    by (simp add: rt_list_remove_def th_stat_def concat_filter del: set_concat) blast
  ultimately show ?thesis by blast
qed

lemma klists_upd_off:
  assumes "klists (insert t X) k"
  shows "klists (insert t X) (upd_thr t f k)"
  using assms unfolding klists_def by (simp add: th_stat_def) 

lemma klists_back:
  assumes "klists (insert t X) k" "t \<notin> X" "th_stat k t \<noteq> RT_THREAD_READY" "th_stat k t \<in> live_stats \<Longrightarrow> th_ok (thr k t)"
  shows "klists X k"
proof -
  have "th_ok (thr k u)" if "u \<notin> X" "th_stat k u \<in> live_stats" for u
    using assms(4) klistsD(5) [OF assms(1), of u] that by (cases "u = t") auto
  moreover have "u \<in> set (rt_thread_priority_table k ! p) \<longleftrightarrow> u \<notin> X \<and> th_stat k u = RT_THREAD_READY \<and> current_priority (thr k u) = p"
    if "p < 32" for p u using klistsD(4) [OF assms(1) that, of u] assms(3) by auto
  ultimately show ?thesis using assms(1) unfolding klists_def by simp
qed

lemma insert_klists:
  assumes "klists (insert t X) k" "t \<notin> X" "th_ok (thr k t)" "rt_current_thread k \<noteq> Some t"
  shows "\<exists>k'. rt_schedule_insert_thread t k = Some k' \<and> klists X k' \<and>
     k' = (upd_thr t (set_stat RT_THREAD_READY) k)\<lparr>rt_thread_priority_table := (rt_thread_priority_table k)
            [current_priority (thr k t) := rt_thread_priority_table k ! current_priority (thr k t) @ [t]],
        rt_thread_ready_priority_group := rt_thread_ready_priority_group k OR 2 ^ current_priority (thr k t)\<rparr>"
proof -
  let ?p = "current_priority (thr k t)" and ?k1 = "upd_thr t (set_stat RT_THREAD_READY) k"
  let ?k' = "?k1\<lparr>rt_thread_priority_table := (rt_thread_priority_table k)[?p := rt_thread_priority_table k ! ?p @ [t]],
        rt_thread_ready_priority_group := rt_thread_ready_priority_group k OR 2 ^ ?p\<rparr>"
  have p: "?p < 32" "number_mask (thr k t) = 2 ^ ?p" using assms(3) by (simp_all add: th_ok_def)
  have 1: "klists (insert t X) ?k1" using assms(1) by (rule klists_upd_off)
  note D = klistsD [OF 1]
  have len: "length (rt_thread_priority_table k) = 32" using D(1) by simp
  have "\<not> linked t ?k1" using 1 by (rule klists_off_unlinked) simp
  then have run: "rt_schedule_insert_thread t k = Some ?k'"
    using p len assms(4) by (simp add: rt_schedule_insert_thread_def ready_insert_def)
  have st: "th_stat ?k' t = RT_THREAD_READY" by (simp add: th_stat_def set_stat_bits)
  have other: "th_stat ?k' u = th_stat ?k1 u" for u by (simp add: th_stat_def)
  have mem: "u \<in> set (rt_thread_priority_table ?k' ! q) \<longleftrightarrow> u \<notin> X \<and> th_stat ?k' u = RT_THREAD_READY \<and> current_priority (thr ?k' u) = q"
    if "q < 32" for q u
    using D(4) [OF that, of u] st assms(2) len that by (cases "u = t"; cases "q = ?p") (auto simp: other)
  have bits: "bit (rt_thread_ready_priority_group ?k') q \<longleftrightarrow> rt_thread_priority_table ?k' ! q \<noteq> []" if "q < 32" for q
    using D(2) [OF that] len that by (cases "q = ?p") (auto simp: bit_or_iff bit_exp_iff)
  have dist: "distinct (rt_thread_priority_table ?k' ! q)" if "q < 32" for q
    using D(4) [OF that, of t] D(3) [OF that] len that by (cases "q = ?p") auto
  have ok: "th_ok (thr ?k' u)" if "u \<notin> X" "th_stat ?k' u \<in> live_stats" for u
    using D(5) [of u] that assms(3) by (cases "u = t") (auto simp: other th_ok_def rt_scheduler_stack_check_def)
  have "klists X ?k'" using 1 mem bits dist ok unfolding klists_def other by (simp add: len)
  with run show ?thesis by blast
qed


lemma rt_ffs_nonzero:
  assumes "v \<noteq> 0"
  shows "\<exists>p<32. rt_ffs v = p + 1 \<and> bit v p \<and> (\<forall>q<p. \<not> bit v q)"
proof -
  have "\<exists>i. bit v i" using assms by (metis bit_0_eq bit_eqI bot_apply bot_bool_def)
  then obtain p where p: "bit v p" "\<And>q. q < p \<Longrightarrow> \<not> bit v q" using exists_least_iff [of "bit v"] by blast
  then have "p < 32" using bit_imp_le_length [of v p] by simp
  with p rt_ffs_Some [of p v] show ?thesis by blast
qed

lemma highest_priority:
  assumes "klists X k" "rt_thread_ready_priority_group k \<noteq> 0"
  shows "\<exists>t rest p. get_highest_priority_thread k = Some (t, p) \<and> p < 32 \<and> rt_thread_priority_table k ! p = t # rest \<and>
     (\<forall>q<p. rt_thread_priority_table k ! q = [])"
proof -
  obtain p where p: "p < 32" "rt_ffs (rt_thread_ready_priority_group k) = p + 1" "bit (rt_thread_ready_priority_group k) p"
    "\<forall>q<p. \<not> bit (rt_thread_ready_priority_group k) q" using rt_ffs_nonzero [OF assms(2)] by blast
  note D = klistsD [OF assms(1)]
  from D(2) [OF p(1)] p(3) obtain t rest where "rt_thread_priority_table k ! p = t # rest" by (cases "rt_thread_priority_table k ! p") auto
  moreover have "rt_thread_priority_table k ! q = []" if "q < p" for q using D(2) [of q] p(1,4) that by auto
  ultimately show ?thesis using p D(1) by (simp add: get_highest_priority_thread_def)
qed

definition same_objects :: "kernel \<Rightarrow> kernel \<Rightarrow> bool" where
  "same_objects k k' \<longleftrightarrow> suspend_thread k' = suspend_thread k \<and> rt_thread_defunct k' = rt_thread_defunct k \<and>
     rt_scheduler_lock_nest k' = rt_scheduler_lock_nest k \<and> rt_interrupt_nest k' = rt_interrupt_nest k \<and>
     rt_tick k' = rt_tick k \<and> tmr k' = tmr k \<and> rt_timer_list k' = rt_timer_list k \<and> rt_timer_tmp k' = rt_timer_tmp k \<and>
     rt_soft_timer_list k' = rt_soft_timer_list k \<and> soft_timer_status k' = soft_timer_status k \<and> timer_thread k' = timer_thread k"

definition sched_frame :: "kernel \<Rightarrow> kernel \<Rightarrow> bool" where
  "sched_frame k k' \<longleftrightarrow> same_objects k k' \<and> (\<forall>t. thr k' t = (thr k t)\<lparr>stat := stat (thr k' t)\<rparr> \<and>
     (if th_stat k t \<in> {RT_THREAD_READY, RT_THREAD_RUNNING} then th_stat k' t \<in> {RT_THREAD_READY, RT_THREAD_RUNNING}
      else thr k' t = thr k t))"

lemma sched_frame_sel:
  assumes "sched_frame k k'"
  shows "current_priority (thr k' u) = current_priority (thr k u)" "th_error (thr k' u) = th_error (thr k u)"
    "number_mask (thr k' u) = number_mask (thr k u)" "init_priority (thr k' u) = init_priority (thr k u)"
proof -
  have "thr k' u = (thr k u)\<lparr>stat := stat (thr k' u)\<rparr>" using assms unfolding sched_frame_def by blast
  then obtain s where "thr k' u = (thr k u)\<lparr>stat := s\<rparr>" by blast
  then show "current_priority (thr k' u) = current_priority (thr k u)" "th_error (thr k' u) = th_error (thr k u)"
    "number_mask (thr k' u) = number_mask (thr k u)" "init_priority (thr k' u) = init_priority (thr k u)" by simp_all
qed

lemma rt_list_remove_ready:
  assumes "klists X k" "th_stat k t \<notin> {RT_THREAD_SUSPEND, RT_THREAD_CLOSE}"
  shows "rt_list_remove t k = k\<lparr>rt_thread_priority_table := map (filter (\<lambda>u. u \<noteq> t)) (rt_thread_priority_table k)\<rparr>"
proof -
  have "t \<notin> set (concat (suspend_thread k))" "t \<notin> set (rt_thread_defunct k)" using assms by (auto simp: klists_def)
  then show ?thesis by (simp add: rt_list_remove_def filter_absent map_idI)
qed

lemma th_stat_upd: "th_stat (upd_thr t f k) u = (if u = t then stat (f (thr k t)) AND 7 else th_stat k u)"
  by (simp add: th_stat_def)

lemma sched_frame_stat:
  assumes "same_objects k k'" "thr k' = (thr k)(c := (thr k c)\<lparr>stat := s\<rparr>)"
    "th_stat k c \<in> {RT_THREAD_READY, RT_THREAD_RUNNING}" "s AND 7 \<in> {RT_THREAD_READY, RT_THREAD_RUNNING}"
  shows "sched_frame k k'"
proof -
  have "th_stat k' u = (if u = c then s AND 7 else th_stat k u)" for u by (simp add: th_stat_def assms(2))
  then show ?thesis using assms by (auto simp: sched_frame_def)
qed

lemma sched_frame_trans: "sched_frame k k' \<Longrightarrow> sched_frame k' k'' \<Longrightarrow> sched_frame k k''"
  unfolding sched_frame_def same_objects_def
proof (elim conjE, intro conjI allI; (simp only:)?)
  fix t
  assume a: "\<forall>t. thr k' t = (thr k t)\<lparr>stat := stat (thr k' t)\<rparr> \<and> (if th_stat k t \<in> {1, 3} then th_stat k' t \<in> {1, 3} else thr k' t = thr k t)"
    "\<forall>t. thr k'' t = (thr k' t)\<lparr>stat := stat (thr k'' t)\<rparr> \<and> (if th_stat k' t \<in> {1, 3} then th_stat k'' t \<in> {1, 3} else thr k'' t = thr k' t)"
  have "thr k'' t = (thr k' t)\<lparr>stat := stat (thr k'' t)\<rparr>" using a(2) by blast
  also have "\<dots> = ((thr k t)\<lparr>stat := stat (thr k' t)\<rparr>)\<lparr>stat := stat (thr k'' t)\<rparr>" using a(1) by metis
  finally show "thr k'' t = (thr k t)\<lparr>stat := stat (thr k'' t)\<rparr>" by simp
  show "if th_stat k t \<in> {1, 3} then th_stat k'' t \<in> {1, 3} else thr k'' t = thr k t"
    using spec [OF a(1), of t] spec [OF a(2), of t] by (metis th_stat_def)
qed

lemma th_ok_stat [simp]: "th_ok (th\<lparr>stat := s\<rparr>) = th_ok th" "th_ok (set_stat s th) = th_ok th"
  by (simp_all add: th_ok_def rt_scheduler_stack_check_def set_stat_def)

lemma schedule_stay_ok:
  assumes "klists {} k" "th_stat k c = RT_THREAD_RUNNING"
  shows "\<exists>k'. schedule_stay c k = Some k' \<and> klists {} k' \<and> sched_frame k k' \<and> rt_current_thread k' = rt_current_thread k \<and>
     rt_thread_priority_table k' = rt_thread_priority_table k \<and> th_stat k' = th_stat k"
proof -
  have ok: "th_ok (thr k c)" using klistsD(5) [OF assms(1), of c] assms(2) by simp
  have "\<not> linked c k" using assms(2) by (intro klists_off_unlinked [OF assms(1)]) simp
  then have un: "rt_list_remove c k = k" by (rule rt_list_remove_unlinked)
  obtain G where G: "rt_schedule_remove_thread c k = Some (k\<lparr>rt_thread_ready_priority_group := G\<rparr>)"
    "klists {c} (k\<lparr>rt_thread_ready_priority_group := G\<rparr>)" using remove_klists [OF assms(1) ok] unfolding un by blast
  define k1 where "k1 = k\<lparr>rt_thread_ready_priority_group := G\<rparr>"
  define k' where "k' = upd_thr c (set_stat RT_THREAD_RUNNING) k1"
  have s7: "stat (set_stat RT_THREAD_RUNNING (thr k c)) AND 7 = RT_THREAD_RUNNING" by (rule set_stat_bits) simp
  have st: "th_stat k' u = th_stat k u" for u
    using assms(2) s7 by (cases "u = c") (simp_all add: th_stat_def k'_def k1_def)
  have "klists {c} k'" unfolding k'_def by (rule klists_upd_off) (use G(2) in \<open>simp add: k1_def\<close>)
  then have "klists {} k'"
  proof (rule klists_back)
    show "th_stat k' c \<noteq> RT_THREAD_READY" using assms(2) by (simp add: st)
    show "th_ok (thr k' c)" using ok by (simp add: k'_def k1_def)
  qed simp
  moreover have "sched_frame k k'"
    by (rule sched_frame_stat [of _ _ c "stat (set_stat RT_THREAD_RUNNING (thr k c))"])
      (use assms(2) s7 in \<open>simp_all add: same_objects_def set_stat_def k'_def k1_def\<close>)
  moreover have "schedule_stay c k = Some k'" by (simp add: schedule_stay_def G(1) k'_def k1_def)
  moreover have "rt_current_thread k' = rt_current_thread k" "rt_thread_priority_table k' = rt_thread_priority_table k"
    by (simp_all add: k'_def k1_def)
  moreover have "th_stat k' = th_stat k" using st by (rule ext)
  ultimately show ?thesis by blast
qed


lemma klists_off:
  assumes "klists X k" "\<not> linked t k"
  shows "klists (insert t X) k"
proof -
  have "t \<notin> set (rt_thread_priority_table k ! p)" if "p < 32" for p
    using assms(2) nth_mem [of p "rt_thread_priority_table k"] klistsD(1) [OF assms(1)] that by (auto simp: linked_def)
  moreover have "t \<notin> set (concat (suspend_thread k))" "t \<notin> set (rt_thread_defunct k)" using assms(2) by (auto simp: linked_def)
  ultimately show ?thesis using assms(1) unfolding klists_def by (simp del: set_concat) metis
qed

lemma klists_cong:
  assumes "klists X k" "rt_thread_priority_table k' = rt_thread_priority_table k"
    "rt_thread_ready_priority_group k' = rt_thread_ready_priority_group k" "suspend_thread k' = suspend_thread k"
    "rt_thread_defunct k' = rt_thread_defunct k" "th_stat k' = th_stat k"
    "\<And>t. current_priority (thr k' t) = current_priority (thr k t)" "\<And>t. th_ok (thr k' t) = th_ok (thr k t)"
  shows "klists X k'"
  using assms(1) unfolding klists_def assms(2-8) .

lemma ready_head:
  assumes "klists X k" "p < 32" "rt_thread_priority_table k ! p = t # rest"
  shows "t \<notin> X" "th_stat k t = RT_THREAD_READY" "current_priority (thr k t) = p" "th_ok (thr k t)" "t \<notin> set rest"
proof -
  have "t \<in> set (rt_thread_priority_table k ! p)" using assms(3) by simp
  then have a: "t \<notin> X \<and> th_stat k t = RT_THREAD_READY \<and> current_priority (thr k t) = p"
    using klistsD(4) [OF assms(1,2), of t] by blast
  then show "t \<notin> X" "th_stat k t = RT_THREAD_READY" "current_priority (thr k t) = p" by auto
  show "th_ok (thr k t)" using klistsD(5) [OF assms(1), of t] a by simp
  show "t \<notin> set rest" using klistsD(3) [OF assms(1,2)] assms(3) by simp
qed

text \<open>Taking the head of a ready list off it and making it the running thread.\<close>

lemma dispatch_ok:
  assumes "klists {} k" "p < 32" "rt_thread_priority_table k ! p = t # rest" "rt_current_thread k = Some t"
  shows "\<exists>k3 k'. rt_schedule_remove_thread t k = Some k3 \<and> k' = upd_thr t (set_stat RT_THREAD_RUNNING) k3 \<and>
     klists {} k' \<and> sched_frame k k' \<and> rt_current_thread k' = Some t \<and> rt_scheduler_stack_check (thr k' t) \<and>
     (\<forall>u. th_stat k' u = (if u = t then RT_THREAD_RUNNING else th_stat k u)) \<and>
     (\<forall>q<32. rt_thread_priority_table k' ! q = (if q = p then rest else rt_thread_priority_table k ! q))"
proof -
  note h = ready_head [OF assms(1-3)]
  have rm: "rt_list_remove t k = k\<lparr>rt_thread_priority_table := map (filter (\<lambda>u. u \<noteq> t)) (rt_thread_priority_table k)\<rparr>"
    using h(2) by (intro rt_list_remove_ready [OF assms(1)]) simp
  obtain G where G: "rt_schedule_remove_thread t k = Some (rt_list_remove t k\<lparr>rt_thread_ready_priority_group := G\<rparr>)"
    "klists {t} (rt_list_remove t k\<lparr>rt_thread_ready_priority_group := G\<rparr>)" using remove_klists [OF assms(1) h(4)] by blast
  define k3 where "k3 = rt_list_remove t k\<lparr>rt_thread_ready_priority_group := G\<rparr>"
  define k' where "k' = upd_thr t (set_stat RT_THREAD_RUNNING) k3"
  have thr3: "thr k3 = thr k" by (simp add: k3_def rm)
  have s7: "stat (set_stat RT_THREAD_RUNNING (thr k t)) AND 7 = RT_THREAD_RUNNING" by (rule set_stat_bits) simp
  have st: "th_stat k' u = (if u = t then RT_THREAD_RUNNING else th_stat k u)" for u
    using s7 by (simp add: th_stat_def k'_def thr3)
  have "klists {t} k'" unfolding k'_def by (rule klists_upd_off) (use G(2) in \<open>simp add: k3_def\<close>)
  then have "klists {} k'"
  proof (rule klists_back)
    show "th_stat k' t \<noteq> RT_THREAD_READY" by (simp add: st)
    show "th_ok (thr k' t)" using h(4) by (simp add: k'_def thr3)
  qed simp
  moreover have "sched_frame k k'"
    by (rule sched_frame_stat [of _ _ t "stat (set_stat RT_THREAD_RUNNING (thr k t))"])
      (use h(2) s7 in \<open>simp_all add: same_objects_def set_stat_def k'_def k3_def rm\<close>)
  moreover have "rt_thread_priority_table k' ! q = (if q = p then rest else rt_thread_priority_table k ! q)" if "q < 32" for q
  proof -
    have "t \<notin> set (rt_thread_priority_table k ! q)" if "q \<noteq> p"
      using klistsD(4) [OF assms(1) \<open>q < 32\<close>, of t] h(3) that by auto
    then show ?thesis using that assms(3) h(5) klistsD(1) [OF assms(1)]
      by (simp add: k'_def k3_def rm filter_absent)
  qed
  moreover have "rt_current_thread k' = Some t" using assms(4) by (simp add: k'_def k3_def rm)
  moreover have "rt_scheduler_stack_check (thr k' t)"
    using h(4) by (simp add: th_ok_def k'_def thr3 rt_scheduler_stack_check_def)
  ultimately show ?thesis using G(1) st k'_def unfolding k3_def by blast
qed

lemma sched_frame_refl: "sched_frame k k"
  by (simp add: sched_frame_def same_objects_def)

text \<open>The switch to the head of the first ready list that is not empty.\<close>

lemma schedule_switch_ok:
  assumes "klists {} k" "\<And>t. th_stat k t = RT_THREAD_RUNNING \<longleftrightarrow> run \<and> t = c"
    "p < 32" "rt_thread_priority_table k ! p = t # rest" "\<And>q. q < p \<Longrightarrow> rt_thread_priority_table k ! q = []"
    "run \<Longrightarrow> p \<le> current_priority (thr k c)"
  shows "\<exists>k'. schedule_switch run c t p k = Some k' \<and> kinv k' \<and> sched_frame k k' \<and> rt_current_thread k' = Some t \<and>
     th_stat k' t = RT_THREAD_RUNNING \<and> (\<forall>q<p. rt_thread_priority_table k' ! q = []) \<and>
     rt_thread_priority_table k' ! p = rest @ (if run \<and> current_priority (thr k c) = p then [c] else [])"
proof -
  define k1 where "k1 = k\<lparr>rt_current_priority := of_nat p, rt_current_thread := Some t\<rparr>"
  have st1: "th_stat k1 = th_stat k" by (rule ext) (simp add: th_stat_def k1_def)
  have 1: "klists {} k1" using assms(1) by (rule klists_cong) (simp_all add: st1, simp_all add: k1_def)
  have f1: "sched_frame k k1" unfolding sched_frame_def st1 by (simp add: same_objects_def k1_def)
  have head: "th_stat k t = RT_THREAD_READY" using ready_head(2) [OF assms(1,3,4)] .
  then have ct: "run \<Longrightarrow> c \<noteq> t" using assms(2) [of t] by auto
  define Q where "Q q = rt_thread_priority_table k ! q @ (if run \<and> current_priority (thr k c) = q then [c] else [])" for q
  obtain k2 where k2: "(if run then rt_schedule_insert_thread c k1 else Some k1) = Some k2" "klists {} k2" "sched_frame k k2"
    "rt_current_thread k2 = Some t" "\<And>q. q < 32 \<Longrightarrow> rt_thread_priority_table k2 ! q = Q q"
    "\<And>u. th_stat k2 u = (if run \<and> u = c then RT_THREAD_READY else th_stat k u)"
  proof (cases run)
    case False
    with 1 f1 st1 that [of k1] show ?thesis by (simp add: Q_def k1_def)
  next
    case True
    then have run: "th_stat k1 c = RT_THREAD_RUNNING" using assms(2) [of c] by (simp add: st1)
    have "klists {c} k1" by (rule klists_off [OF 1]) (use run in \<open>intro klists_off_unlinked [OF 1]; simp\<close>)
    moreover have ok: "th_ok (thr k1 c)" using klistsD(5) [OF 1, of c] run by simp
    moreover have "rt_current_thread k1 \<noteq> Some c" using ct [OF True] by (simp add: k1_def)
    ultimately obtain k2 where 2: "rt_schedule_insert_thread c k1 = Some k2" "klists {} k2"
      "k2 = (upd_thr c (set_stat RT_THREAD_READY) k1)\<lparr>rt_thread_priority_table := (rt_thread_priority_table k1)
            [current_priority (thr k1 c) := rt_thread_priority_table k1 ! current_priority (thr k1 c) @ [c]],
        rt_thread_ready_priority_group := rt_thread_ready_priority_group k1 OR 2 ^ current_priority (thr k1 c)\<rparr>"
      using insert_klists [of c "{}" k1] by auto
    have s7: "stat (set_stat RT_THREAD_READY (thr k1 c)) AND 7 = RT_THREAD_READY" by (rule set_stat_bits) simp
    have "sched_frame k1 k2"
      by (rule sched_frame_stat [of _ _ c "stat (set_stat RT_THREAD_READY (thr k1 c))"])
        (use run s7 in \<open>simp_all add: same_objects_def set_stat_def 2(3)\<close>)
    then have "sched_frame k k2" using f1 by (rule sched_frame_trans [rotated])
    moreover have "th_stat k2 u = (if u = c then RT_THREAD_READY else th_stat k u)" for u
      using s7 by (simp add: th_stat_def 2(3)) (simp add: k1_def)
    moreover have "rt_thread_priority_table k2 ! q = Q q" if "q < 32" for q
      using True that klistsD(1) [OF 1] by (cases "current_priority (thr k c) = q") (simp_all add: 2(3) Q_def k1_def)
    moreover have "rt_current_thread k2 = Some t" by (simp add: 2(3) k1_def)
    ultimately show ?thesis using that [of k2] 2(1,2) True by simp
  qed
  have Qp: "rt_thread_priority_table k2 ! p = t # rest @ (if run \<and> current_priority (thr k c) = p then [c] else [])"
    using k2(5) [OF assms(3)] assms(4) by (simp add: Q_def)
  obtain k3 k' where k': "rt_schedule_remove_thread t k2 = Some k3" "k' = upd_thr t (set_stat RT_THREAD_RUNNING) k3"
    "klists {} k'" "sched_frame k2 k'" "rt_current_thread k' = Some t" "rt_scheduler_stack_check (thr k' t)"
    "\<And>u. th_stat k' u = (if u = t then RT_THREAD_RUNNING else th_stat k2 u)"
    "\<And>q. q < 32 \<Longrightarrow> rt_thread_priority_table k' ! q =
       (if q = p then rest @ (if run \<and> current_priority (thr k c) = p then [c] else []) else rt_thread_priority_table k2 ! q)"
    using dispatch_ok [OF k2(2) assms(3) Qp k2(4)] by blast
  have "schedule_switch run c t p k = Some k'"
    using k2(1) k'(1,2,6) by (simp add: schedule_switch_def flip: k1_def)
  moreover have "kinv k'"
    unfolding kinv_def kcur_def using k'(3,5,7) k2(6) assms(2) by auto
  moreover have "sched_frame k k'" using k2(3) k'(4) by (rule sched_frame_trans)
  moreover have "rt_thread_priority_table k' ! q = []" if "q < p" for q
    using that assms(3,5,6) k'(8) [of q] k2(5) [of q] by (auto simp: Q_def)
  ultimately show ?thesis using k'(5,7,8) assms(3) by simp
qed


lemma clear_yield:
  assumes "klists {} k"
  shows "klists {} (upd_thr c (\<lambda>th. th\<lparr>stat := stat th AND NOT 8\<rparr>) k)"
    and "th_stat (upd_thr c (\<lambda>th. th\<lparr>stat := stat th AND NOT 8\<rparr>) k) = th_stat k"
proof -
  show st: "th_stat (upd_thr c (\<lambda>th. th\<lparr>stat := stat th AND NOT 8\<rparr>) k) = th_stat k"
    by (rule ext) (simp add: th_stat_def yield_bits)
  show "klists {} (upd_thr c (\<lambda>th. th\<lparr>stat := stat th AND NOT 8\<rparr>) k)"
    using assms by (rule klists_cong) (simp_all only: st, simp_all)
qed

text \<open>What \<open>rt_schedule\<close> does when the scheduler is not locked: it keeps the running thread while no ready
  thread has a higher priority, and an equal priority counts when the running thread yields.\<close>

lemma schedule_ok:
  assumes "kinv k" "rt_current_thread k = Some c" "rt_scheduler_lock_nest k = 0"
    "th_stat k c = RT_THREAD_RUNNING \<or> rt_thread_ready_priority_group k \<noteq> 0"
  shows "\<exists>k' t. rt_schedule k = Some k' \<and> kinv k' \<and> sched_frame k k' \<and> rt_current_thread k' = Some t \<and>
     th_stat k' t = RT_THREAD_RUNNING \<and> (\<forall>q<current_priority (thr k' t). rt_thread_priority_table k' ! q = []) \<and>
     (if t = c then rt_thread_priority_table k' = rt_thread_priority_table k
      else \<exists>rest. rt_thread_priority_table k ! current_priority (thr k' t) = t # rest \<and>
        rt_thread_priority_table k' ! current_priority (thr k' t) = rest @
          (if th_stat k c = RT_THREAD_RUNNING \<and> current_priority (thr k c) = current_priority (thr k' t) then [c] else []) \<and>
        (th_stat k c = RT_THREAD_RUNNING \<longrightarrow> current_priority (thr k' t) < current_priority (thr k c) \<or>
           current_priority (thr k' t) = current_priority (thr k c) \<and> stat (thr k c) AND 8 \<noteq> 0))"
proof (cases "rt_thread_ready_priority_group k = 0")
  case True
  have l: "klists {} k" using assms(1) by (simp add: kinv_def)
  have "rt_thread_priority_table k ! q = []" if "q < 32" for q using klistsD(2) [OF l that] True by simp
  moreover have "current_priority (thr k c) < 32" using klistsD(5) [OF l, of c] assms(4) True by (simp add: th_ok_def)
  ultimately show ?thesis using True assms sched_frame_refl [of k] by (auto simp: rt_schedule_def)
next
  case False
  have l: "klists {} k" and run: "\<And>t. th_stat k t = RT_THREAD_RUNNING \<longleftrightarrow> th_stat k c = RT_THREAD_RUNNING \<and> t = c"
    and nr: "th_stat k c \<noteq> RT_THREAD_READY" using assms(1,2) by (auto simp: kinv_def kcur_def)
  obtain t rest p where h: "get_highest_priority_thread k = Some (t, p)" "p < 32" "rt_thread_priority_table k ! p = t # rest"
    "\<And>q. q < p \<Longrightarrow> rt_thread_priority_table k ! q = []" using highest_priority [OF l False] by blast
  have tc: "t \<noteq> c" "current_priority (thr k t) = p" using ready_head(2,3) [OF l h(2,3)] nr by auto
  let ?run = "th_stat k c = RT_THREAD_RUNNING"
  define k1 where "k1 = (if ?run then upd_thr c (\<lambda>th. th\<lparr>stat := stat th AND NOT 8\<rparr>) k else k)"
  have 1: "klists {} k1" "th_stat k1 = th_stat k" using l clear_yield [OF l, of c] by (simp_all add: k1_def)
  have e1: "rt_current_thread k1 = Some c" "rt_thread_priority_table k1 = rt_thread_priority_table k"
    "\<And>u. current_priority (thr k1 u) = current_priority (thr k u)" using assms(2) by (simp_all add: k1_def)
  have f1: "sched_frame k k1"
  proof (cases ?run)
    case True
    then show ?thesis
      by (intro sched_frame_stat [of _ _ c "stat (thr k c) AND NOT 8"]) (simp_all add: same_objects_def k1_def, simp add: th_stat_def)
  qed (simp add: k1_def sched_frame_refl)
  let ?keep = "?run \<and> (current_priority (thr k c) < p \<or> current_priority (thr k c) = p \<and> stat (thr k c) AND 8 = 0)"
  have sch: "rt_schedule k = (if ?keep then schedule_stay c k1 else schedule_switch ?run c t p k1)"
    using assms(2,3) False h(1) tc by (simp add: rt_schedule_def k1_def)
  show ?thesis
  proof (cases ?keep)
    case True
    then have "th_stat k1 c = RT_THREAD_RUNNING" by (simp add: 1(2))
    from schedule_stay_ok [OF 1(1) this] obtain k' where k': "schedule_stay c k1 = Some k'" "klists {} k'" "sched_frame k1 k'"
      "rt_current_thread k' = rt_current_thread k1" "rt_thread_priority_table k' = rt_thread_priority_table k1" "th_stat k' = th_stat k1"
      by blast
    have f: "sched_frame k k'" using f1 k'(3) by (rule sched_frame_trans)
    note pr = sched_frame_sel(1) [OF f]
    have "kinv k'" using assms(1) k'(2,4,6) e1 1(2) assms(2) by (simp add: kinv_def kcur_def)
    with True sch k' f e1 1(2) h(4) pr show ?thesis by (intro exI [of _ k'] exI [of _ c]) auto
  next
    case keep: False
    have "?run \<Longrightarrow> p \<le> current_priority (thr k1 c)" using keep e1(3) by auto
    from schedule_switch_ok [of k1 ?run c p t rest, unfolded e1 1(2), OF 1(1) run h(2-4) this [unfolded e1]] obtain k' where
      k': "schedule_switch ?run c t p k1 = Some k'" "kinv k'" "sched_frame k1 k'" "rt_current_thread k' = Some t"
      "th_stat k' t = RT_THREAD_RUNNING" "\<forall>q<p. rt_thread_priority_table k' ! q = []"
      "rt_thread_priority_table k' ! p = rest @ (if ?run \<and> current_priority (thr k c) = p then [c] else [])" by auto
    have f: "sched_frame k k'" using f1 k'(3) by (rule sched_frame_trans)
    have pr: "current_priority (thr k' t) = p" using sched_frame_sel(1) [OF f] tc(2) by simp
    show ?thesis using keep sch k' f h(3) pr tc(1) by (intro exI [of _ k'] exI [of _ t]) auto
  qed
qed


section \<open>Properties\<close>

text \<open>The table search for the first set bit, which looks at one byte of the word after the other,
  gives what the \<open>ffs\<close> of the compiler gives, for every word.\<close>

theorem ffs_table_correct: "rt_ffs_table v = rt_ffs v"
proof (cases "v = 0")
  case True
  have "find (\<lambda>i. bit (0 :: u32) i) [0..<32] = None" unfolding find_None_iff by simp
  with True show ?thesis by (simp add: rt_ffs_table_def rt_ffs_def)
next
  case False
  define B where "B n = take_bit 8 (drop_bit n v)" for n
  have clear: "\<not> bit v j" if "B (8 * m) = 0" "8 * m \<le> j" "j < 8 * m + 8" for m j
    using lane_clear [of "8 * m" v j] that by (simp add: B_def)
  have lane: "lowest_bit_bitmap ! unat (B (8 * m)) + 8 * m + 1 = rt_ffs v"
    if "m \<le> 3" "B (8 * m) \<noteq> 0" "\<And>i. i < m \<Longrightarrow> B (8 * i) = 0" for m
    unfolding B_def
  proof (rule ffs_lane)
    show "\<not> bit v j" if "j < 8 * m" for j
      using clear [of "j div 8" j] \<open>\<And>i. i < m \<Longrightarrow> B (8 * i) = 0\<close> [of "j div 8"] that by (simp add: div_less_iff_less_mult)
  qed (use that in \<open>simp_all add: B_def\<close>)
  have t: "rt_ffs_table v = (if B 0 \<noteq> 0 then lowest_bit_bitmap ! unat (B 0) + 1
     else if B 8 \<noteq> 0 then lowest_bit_bitmap ! unat (B 8) + 9
     else if B 16 \<noteq> 0 then lowest_bit_bitmap ! unat (B 16) + 17 else lowest_bit_bitmap ! unat (B 24) + 25)"
    using False unfolding rt_ffs_table_def lane_masks and_lane by (simp add: lane_zero drop_lane B_def)
  have "B 24 \<noteq> 0" if z: "B 0 = 0" "B 8 = 0" "B 16 = 0"
  proof
    assume "B 24 = 0"
    with z have "\<not> bit v j" if "j < 32" for j
      using clear [of 0 j] clear [of 1 j] clear [of 2 j] clear [of 3 j] that by (simp; linarith)
    then have "v = 0" by (intro bit_word_eqI) simp
    with False show False ..
  qed
  moreover have "B (8 * i) = 0" if z: "B 0 = 0" "B 8 = 0" "i < 2" for i
  proof -
    consider "i = 0" | "i = 1" using z(3) by linarith
    then show ?thesis using z(1,2) by cases simp_all
  qed
  moreover have "B (8 * i) = 0" if z: "B 0 = 0" "B 8 = 0" "B 16 = 0" "i < 3" for i
  proof -
    consider "i = 0" | "i = 1" | "i = 2" using z(4) by linarith
    then show ?thesis using z(1-3) by cases simp_all
  qed
  ultimately show ?thesis
    using t lane [of 0] lane [of 1] lane [of 2] lane [of 3] by auto
qed

end
