(* ===== verification/Kernel_Thread.thy ===== *)
theory Kernel_Thread
  imports Kernel_Sched
begin

text \<open>
  Threads, kernel timers and the clock tick (\<open>thread.c\<close>, \<open>timer.c\<close>, \<open>clock.c\<close>, \<open>irq.c\<close> and \<open>idle.c\<close> under
  \<open>src/smart-building-mcu/rt-thread/src\<close>, with \<open>rt_hw_stack_init\<close> of the Cortex-M4 port). The timer lists
  have one level (\<open>RT_TIMER_SKIP_LIST_LEVEL\<close> is 1) and are kept in the order of their timeouts, in
  the circular arithmetic of the 32-bit tick. The timeout function of a thread's timer is
  \<open>rt_thread_timeout\<close>, those of other timers are the argument \<open>cb\<close>.

  A call that gives the processor away ends at its \<open>rt_schedule\<close>; what it does after the thread runs
  again is a function of its own (\<open>rt_thread_sleep_return\<close>). No hooks and no cleanup functions are
  installed.
\<close>

section \<open>Timers\<close>

abbreviation (input) RT_TIMER_FLAG_ACTIVATED :: u8 where "RT_TIMER_FLAG_ACTIVATED \<equiv> 0x1"
abbreviation (input) RT_TIMER_FLAG_PERIODIC :: u8 where "RT_TIMER_FLAG_PERIODIC \<equiv> 0x2"
abbreviation (input) RT_TIMER_FLAG_SOFT_TIMER :: u8 where "RT_TIMER_FLAG_SOFT_TIMER \<equiv> 0x4"
abbreviation (input) RT_TICK_MAX :: u32 where "RT_TICK_MAX \<equiv> 0xffffffff"
abbreviation (input) HALF_TICK_MAX :: u32 where "HALF_TICK_MAX \<equiv> 0x7fffffff"

definition upd_tmr :: "timer_ref \<Rightarrow> (rt_timer \<Rightarrow> rt_timer) \<Rightarrow> kernel \<Rightarrow> kernel" where
  "upd_tmr r f k = k\<lparr>tmr := (tmr k)(r := f (tmr k r))\<rparr>"

definition timer_linked :: "timer_ref \<Rightarrow> kernel \<Rightarrow> bool" where
  "timer_linked r k \<longleftrightarrow> r \<in> set (rt_timer_list k) \<or> r \<in> set (rt_timer_tmp k) \<or> r \<in> set (rt_soft_timer_list k)"

definition timer_remove :: "timer_ref \<Rightarrow> kernel \<Rightarrow> kernel" where
  "timer_remove r k = k\<lparr>rt_timer_list := filter (\<lambda>q. q \<noteq> r) (rt_timer_list k), rt_timer_tmp := filter (\<lambda>q. q \<noteq> r) (rt_timer_tmp k),
     rt_soft_timer_list := filter (\<lambda>q. q \<noteq> r) (rt_soft_timer_list k)\<rparr>"

definition timer_deactivate :: "timer_ref \<Rightarrow> kernel \<Rightarrow> kernel" where
  "timer_deactivate r k = upd_tmr r (\<lambda>t. t\<lparr>tm_flag := tm_flag t AND NOT RT_TIMER_FLAG_ACTIVATED\<rparr>) k"

text \<open>Initialising a timer object writes its list node, which is \<open>None\<close> here while the node is linked.\<close>

definition rt_timer_init :: "timer_ref \<Rightarrow> u32 \<Rightarrow> u8 \<Rightarrow> kernel \<Rightarrow> kernel option" where
  "rt_timer_init r time flag k =
     (if timer_linked r k then None
      else Some (upd_tmr r (\<lambda>t. \<lparr>tm_flag = flag AND NOT RT_TIMER_FLAG_ACTIVATED, tm_init_tick = time, timeout_tick = 0\<rparr>) k))"

definition rt_timer_detach :: "timer_ref \<Rightarrow> kernel \<Rightarrow> kernel" where
  "rt_timer_detach r k = timer_deactivate r (timer_remove r k)"

text \<open>Timers from the heap: \<open>obj\<close> is the object that is allocated, \<open>None\<close> is no memory.\<close>

definition rt_timer_create :: "nat option \<Rightarrow> u32 \<Rightarrow> u8 \<Rightarrow> kernel \<Rightarrow> (timer_ref option \<times> kernel) option" where
  "rt_timer_create obj time flag k =
     (case obj of None \<Rightarrow> Some (None, k) | Some n \<Rightarrow> map_option (Pair (Some (User_timer n))) (rt_timer_init (User_timer n) time flag k))"

definition rt_timer_delete :: "timer_ref \<Rightarrow> kernel \<Rightarrow> rt_err \<times> kernel" where
  "rt_timer_delete r k = (RT_EOK, timer_deactivate r (timer_remove r k))"

definition rt_timer_stop :: "timer_ref \<Rightarrow> kernel \<Rightarrow> rt_err \<times> kernel" where
  "rt_timer_stop r k =
     (if tm_flag (tmr k r) AND RT_TIMER_FLAG_ACTIVATED = 0 then (- RT_ERROR, k)
      else (RT_EOK, timer_deactivate r (timer_remove r k)))"

text \<open>The commands of \<open>rt_timer_control\<close>, with what is stored through \<open>arg\<close> as the second result.\<close>

datatype timer_ctrl = RT_TIMER_CTRL_SET_TIME u32 | RT_TIMER_CTRL_GET_TIME | RT_TIMER_CTRL_SET_ONESHOT
  | RT_TIMER_CTRL_SET_PERIODIC | RT_TIMER_CTRL_GET_STATE

fun rt_timer_control :: "timer_ref \<Rightarrow> timer_ctrl \<Rightarrow> kernel \<Rightarrow> (rt_err \<times> u32 option) \<times> kernel" where
  "rt_timer_control r RT_TIMER_CTRL_GET_TIME k = ((RT_EOK, Some (tm_init_tick (tmr k r))), k)"
| "rt_timer_control r (RT_TIMER_CTRL_SET_TIME n) k = ((RT_EOK, None), upd_tmr r (\<lambda>t. t\<lparr>tm_init_tick := n\<rparr>) k)"
| "rt_timer_control r RT_TIMER_CTRL_SET_ONESHOT k =
     ((RT_EOK, None), upd_tmr r (\<lambda>t. t\<lparr>tm_flag := tm_flag t AND NOT RT_TIMER_FLAG_PERIODIC\<rparr>) k)"
| "rt_timer_control r RT_TIMER_CTRL_SET_PERIODIC k =
     ((RT_EOK, None), upd_tmr r (\<lambda>t. t\<lparr>tm_flag := tm_flag t OR RT_TIMER_FLAG_PERIODIC\<rparr>) k)"
| "rt_timer_control r RT_TIMER_CTRL_GET_STATE k =
     ((RT_EOK, Some (if tm_flag (tmr k r) AND RT_TIMER_FLAG_ACTIVATED \<noteq> 0 then 1 else 0)), k)"

section \<open>Waking and suspending\<close>

definition rt_thread_resume :: "nat \<Rightarrow> kernel \<Rightarrow> (rt_err \<times> kernel) option" where
  "rt_thread_resume t k =
     (if th_stat k t \<noteq> RT_THREAD_SUSPEND then Some (- RT_ERROR, k)
      else do {
        k1 \<leftarrow> rt_schedule_insert_thread t (snd (rt_timer_stop (Thread_timer t) (rt_list_remove t k)));
        Some (RT_EOK, k1)
      })"

definition rt_thread_suspend :: "nat \<Rightarrow> kernel \<Rightarrow> (rt_err \<times> kernel) option" where
  "rt_thread_suspend t k =
     (if th_stat k t \<noteq> RT_THREAD_READY \<and> th_stat k t \<noteq> RT_THREAD_RUNNING then Some (- RT_ERROR, k)
      else if th_stat k t = RT_THREAD_RUNNING \<and> rt_current_thread k \<noteq> Some t then None
      else do {
        k1 \<leftarrow> rt_schedule_remove_thread t k;
        Some (RT_EOK, snd (rt_timer_stop (Thread_timer t) (upd_thr t (set_stat RT_THREAD_SUSPEND) k1)))
      })"

section \<open>Starting a timer\<close>

definition timer_later :: "kernel \<Rightarrow> timer_ref \<Rightarrow> timer_ref \<Rightarrow> bool" where
  "timer_later k r q \<longleftrightarrow> (let d = timeout_tick (tmr k q) - timeout_tick (tmr k r) in d \<noteq> 0 \<and> d < HALF_TICK_MAX)"

fun timer_insert :: "kernel \<Rightarrow> timer_ref \<Rightarrow> timer_ref list \<Rightarrow> timer_ref list" where
  "timer_insert k r [] = [r]"
| "timer_insert k r (q # qs) = (if timer_later k r q then r # q # qs else q # timer_insert k r qs)"

definition rt_timer_start :: "timer_ref \<Rightarrow> kernel \<Rightarrow> (rt_err \<times> kernel) option" where
  "rt_timer_start r k =
     (let k1 = timer_deactivate r (timer_remove r k)
      in if \<not> tm_init_tick (tmr k1 r) < HALF_TICK_MAX then None
         else let k2 = upd_tmr r (\<lambda>t. t\<lparr>timeout_tick := rt_tick k1 + tm_init_tick t\<rparr>) k1;
                  soft = (tm_flag (tmr k2 r) AND RT_TIMER_FLAG_SOFT_TIMER \<noteq> 0);
                  k3 = (if soft then k2\<lparr>rt_soft_timer_list := timer_insert k2 r (rt_soft_timer_list k2)\<rparr>
                        else k2\<lparr>rt_timer_list := timer_insert k2 r (rt_timer_list k2)\<rparr>);
                  k4 = upd_tmr r (\<lambda>t. t\<lparr>tm_flag := tm_flag t OR RT_TIMER_FLAG_ACTIVATED\<rparr>) k3
              in if soft \<and> soft_timer_status k4 = 1 \<and> th_stat k4 (timer_thread k4) = RT_THREAD_SUSPEND
                 then do {
                   (_, k5) \<leftarrow> rt_thread_resume (timer_thread k4) k4;
                   k6 \<leftarrow> rt_schedule k5;
                   Some (RT_EOK, k6)
                 }
                 else Some (RT_EOK, k4))"

definition rt_timer_list_next_timeout :: "timer_ref list \<Rightarrow> kernel \<Rightarrow> u32" where
  "rt_timer_list_next_timeout l k = (case l of [] \<Rightarrow> RT_TICK_MAX | r # _ \<Rightarrow> timeout_tick (tmr k r))"

definition rt_timer_next_timeout_tick :: "kernel \<Rightarrow> u32" where
  "rt_timer_next_timeout_tick k = rt_timer_list_next_timeout (rt_timer_list k) k"

section \<open>Threads\<close>

text \<open>The initial stack pointer: a stack frame of \<open>frame\<close> bytes (64, or 68 with the floating-point
  unit) below the end of the stack, which is aligned to 8 bytes. The first argument is the address that
  \<open>_rt_thread_init\<close> passes.\<close>

definition rt_hw_stack_init :: "nat \<Rightarrow> nat \<Rightarrow> nat" where
  "rt_hw_stack_init addr frame = (addr + 4) - (addr + 4) mod 8 - frame"

definition thread_init :: "nat \<Rightarrow> nat \<Rightarrow> nat \<Rightarrow> nat \<Rightarrow> nat \<Rightarrow> u32 \<Rightarrow> kernel \<Rightarrow> kernel option" where
  "thread_init frame t stack_start sz priority tick k =
     (if linked t k \<or> \<not> priority < RT_THREAD_PRIORITY_MAX then None
      else rt_timer_init (Thread_timer t) 0 0
        (upd_thr t (\<lambda>th. th\<lparr>stack_addr := stack_start, stack_size := sz,
             sp := rt_hw_stack_init (stack_start + sz - 4) frame, stack_byte := 0x23, init_priority := priority,
             current_priority := priority, number_mask := 0, init_tick := tick, remaining_tick := tick, th_error := RT_EOK,
             stat := RT_THREAD_INIT\<rparr>) k))"

definition rt_thread_init :: "nat \<Rightarrow> nat \<Rightarrow> nat option \<Rightarrow> nat \<Rightarrow> nat \<Rightarrow> u32 \<Rightarrow> kernel \<Rightarrow> (rt_err \<times> kernel) option" where
  "rt_thread_init frame t stack_start sz priority tick k =
     (case stack_start of
        None \<Rightarrow> None
      | Some a \<Rightarrow> map_option (Pair RT_EOK) (thread_init frame t a sz priority tick (upd_thr t (\<lambda>th. th\<lparr>systemobject := True\<rparr>) k)))"

text \<open>\<open>obj\<close> is the number of the object that is allocated and \<open>stack\<close> the address of its stack; \<open>None\<close> is no
  memory.\<close>

definition rt_thread_create :: "nat \<Rightarrow> nat option \<Rightarrow> nat option \<Rightarrow> nat \<Rightarrow> nat \<Rightarrow> u32 \<Rightarrow> kernel \<Rightarrow> (nat option \<times> kernel) option" where
  "rt_thread_create frame obj stack sz priority tick k =
     (case (obj, stack) of
        (Some t, Some a) \<Rightarrow> map_option (Pair (Some t)) (thread_init frame t a sz priority tick (upd_thr t (\<lambda>th. th\<lparr>systemobject := False\<rparr>) k))
      | _ \<Rightarrow> Some (None, k))"

definition rt_thread_startup :: "nat \<Rightarrow> kernel \<Rightarrow> (rt_err \<times> kernel) option" where
  "rt_thread_startup t k =
     (if th_stat k t \<noteq> RT_THREAD_INIT then None
      else do {
        (_, k1) \<leftarrow> rt_thread_resume t (upd_thr t (\<lambda>th. th\<lparr>current_priority := init_priority th,
            number_mask := push_bit (init_priority th) 1, stat := RT_THREAD_SUSPEND\<rparr>) k);
        k2 \<leftarrow> (if rt_current_thread k1 \<noteq> None then rt_schedule k1 else Some k1);
        Some (RT_EOK, k2)
      })"

text \<open>\<open>rt_list_insert_after\<close> with the head of the defunct list.\<close>

definition defunct_insert :: "nat \<Rightarrow> kernel \<Rightarrow> kernel option" where
  "defunct_insert t k = (if linked t k then None else Some (k\<lparr>rt_thread_defunct := t # rt_thread_defunct k\<rparr>))"

definition rt_thread_exit :: "kernel \<Rightarrow> kernel option" where
  "rt_thread_exit k = do {
     t \<leftarrow> rt_current_thread k;
     k1 \<leftarrow> rt_schedule_remove_thread t k;
     let k2 = rt_timer_detach (Thread_timer t) (upd_thr t (\<lambda>th. th\<lparr>stat := RT_THREAD_CLOSE\<rparr>) k1);
     k3 \<leftarrow> (if systemobject (thr k2 t) then Some k2 else defunct_insert t k2);
     rt_schedule k3
   }"

text \<open>Detaching a static thread and deleting one from the heap: the defunct list is for the latter.\<close>

definition thread_close :: "bool \<Rightarrow> nat \<Rightarrow> kernel \<Rightarrow> (rt_err \<times> kernel) option" where
  "thread_close static t k =
     (if th_stat k t = RT_THREAD_CLOSE then Some (RT_EOK, k)
      else do {
        k1 \<leftarrow> (if th_stat k t \<noteq> RT_THREAD_INIT then rt_schedule_remove_thread t k else Some k);
        let k2 = upd_thr t (\<lambda>th. th\<lparr>stat := RT_THREAD_CLOSE\<rparr>) (rt_timer_detach (Thread_timer t) k1);
        k3 \<leftarrow> (if static then Some k2 else defunct_insert t k2);
        Some (RT_EOK, k3)
      })"

definition rt_thread_detach :: "nat \<Rightarrow> kernel \<Rightarrow> (rt_err \<times> kernel) option" where
  "rt_thread_detach t k = (if systemobject (thr k t) then thread_close True t k else None)"

definition rt_thread_delete :: "nat \<Rightarrow> kernel \<Rightarrow> (rt_err \<times> kernel) option" where
  "rt_thread_delete t k = (if systemobject (thr k t) then None else thread_close False t k)"

definition rt_thread_yield :: "kernel \<Rightarrow> (rt_err \<times> kernel) option" where
  "rt_thread_yield k = do {
     t \<leftarrow> rt_current_thread k;
     k1 \<leftarrow> rt_schedule (upd_thr t (\<lambda>th. th\<lparr>remaining_tick := init_tick th, stat := stat th OR RT_THREAD_STAT_YIELD_MASK\<rparr>) k);
     Some (RT_EOK, k1)
   }"

definition rt_thread_sleep :: "u32 \<Rightarrow> kernel \<Rightarrow> kernel option" where
  "rt_thread_sleep tick k = do {
     t \<leftarrow> rt_current_thread k;
     (_, k1) \<leftarrow> rt_thread_suspend t k;
     (_, k2) \<leftarrow> rt_timer_start (Thread_timer t) (snd (rt_timer_control (Thread_timer t) (RT_TIMER_CTRL_SET_TIME tick) k1));
     rt_schedule k2
   }"

definition rt_thread_sleep_return :: "nat \<Rightarrow> kernel \<Rightarrow> rt_err \<times> kernel" where
  "rt_thread_sleep_return t k =
     (RT_EOK, if th_error (thr k t) = - RT_ETIMEOUT then upd_thr t (\<lambda>th. th\<lparr>th_error := RT_EOK\<rparr>) k else k)"

text \<open>\<open>rt_tick_from_millisecond\<close> at 1000 ticks per second.\<close>

definition rt_tick_from_millisecond :: "int \<Rightarrow> u32" where
  "rt_tick_from_millisecond ms =
     (if ms < 0 then - 1 else of_int (1000 * c_div ms 1000) + of_int (c_div (1000 * c_mod ms 1000 + 999) 1000))"

definition rt_thread_mdelay :: "int \<Rightarrow> kernel \<Rightarrow> kernel option" where
  "rt_thread_mdelay ms k = rt_thread_sleep (rt_tick_from_millisecond ms) k"

text \<open>Waiting until \<open>inc_tick\<close> ticks after \<open>*tick\<close>; without waiting the new wake-up tick is the current one.\<close>

definition rt_thread_delay_until :: "u32 \<Rightarrow> u32 \<Rightarrow> kernel \<Rightarrow> (u32 \<times> kernel) option" where
  "rt_thread_delay_until tick inc_tick k =
     (if rt_tick k - tick < inc_tick then map_option (Pair (tick + inc_tick - rt_tick k)) (rt_thread_sleep (tick + inc_tick - rt_tick k) k)
      else case rt_current_thread k of None \<Rightarrow> None | Some _ \<Rightarrow> Some (rt_tick k, k))"

definition change_priority :: "nat \<Rightarrow> rt_thread \<Rightarrow> rt_thread" where
  "change_priority p th = th\<lparr>current_priority := p, number_mask := push_bit p 1\<rparr>"

datatype thread_ctrl = RT_THREAD_CTRL_STARTUP | RT_THREAD_CTRL_CLOSE | RT_THREAD_CTRL_CHANGE_PRIORITY nat | Other_ctrl

fun rt_thread_control :: "nat \<Rightarrow> thread_ctrl \<Rightarrow> kernel \<Rightarrow> (rt_err \<times> kernel) option" where
  "rt_thread_control t (RT_THREAD_CTRL_CHANGE_PRIORITY p) k =
     (if th_stat k t = RT_THREAD_READY then do {
        k1 \<leftarrow> rt_schedule_remove_thread t k;
        k2 \<leftarrow> rt_schedule_insert_thread t (upd_thr t (change_priority p) k1);
        Some (RT_EOK, k2)
      } else Some (RT_EOK, upd_thr t (change_priority p) k))"
| "rt_thread_control t RT_THREAD_CTRL_STARTUP k = rt_thread_startup t k"
| "rt_thread_control t RT_THREAD_CTRL_CLOSE k = (if systemobject (thr k t) then rt_thread_detach t k else rt_thread_delete t k)"
| "rt_thread_control t Other_ctrl k = Some (RT_EOK, k)"

definition rt_thread_timeout :: "nat \<Rightarrow> kernel \<Rightarrow> kernel option" where
  "rt_thread_timeout t k =
     (if th_stat k t \<noteq> RT_THREAD_SUSPEND then None
      else do {
        k1 \<leftarrow> rt_schedule_insert_thread t (rt_list_remove t (upd_thr t (\<lambda>th. th\<lparr>th_error := - RT_ETIMEOUT\<rparr>) k));
        rt_schedule k1
      })"

section \<open>Clock\<close>

fun timer_fire :: "(nat \<Rightarrow> kernel \<Rightarrow> kernel option) \<Rightarrow> timer_ref \<Rightarrow> kernel \<Rightarrow> kernel option" where
  "timer_fire cb (Thread_timer t) k = rt_thread_timeout t k"
| "timer_fire cb (User_timer n) k = cb n k"

text \<open>One timer that is due, first in its list: it is unlinked and put into the local list, its function is called,
  and a periodic timer that was not stopped, detached or started meanwhile is started again.\<close>

definition timer_expire :: "(nat \<Rightarrow> kernel \<Rightarrow> kernel option) \<Rightarrow> timer_ref \<Rightarrow> kernel \<Rightarrow> kernel option" where
  "timer_expire cb r k = do {
     let k1 = timer_remove r k;
     let k2 = (if tm_flag (tmr k1 r) AND RT_TIMER_FLAG_PERIODIC = 0 then timer_deactivate r k1 else k1);
     k3 \<leftarrow> timer_fire cb r (k2\<lparr>rt_timer_tmp := r # rt_timer_tmp k2\<rparr>);
     (if rt_timer_tmp k3 = [] then Some k3
      else let k4 = timer_remove r k3
           in if tm_flag (tmr k4 r) AND RT_TIMER_FLAG_PERIODIC \<noteq> 0 \<and> tm_flag (tmr k4 r) AND RT_TIMER_FLAG_ACTIVATED \<noteq> 0
              then map_option snd (rt_timer_start r (timer_deactivate r k4))
              else Some k4)
   }"

partial_function (option) rt_timer_check :: "(nat \<Rightarrow> kernel \<Rightarrow> kernel option) \<Rightarrow> kernel \<Rightarrow> kernel option" where
  "rt_timer_check cb k =
     (case rt_timer_list k of
        [] \<Rightarrow> Some k
      | r # _ \<Rightarrow>
          (if rt_tick k - timeout_tick (tmr k r) < HALF_TICK_MAX then Option.bind (timer_expire cb r k) (rt_timer_check cb)
           else Some k))"

text \<open>The same for the soft timers, which the timer thread checks, and what that thread does before: with no soft timer it
  suspends itself, otherwise it sleeps until the first one is due.\<close>

definition soft_timer_expire :: "(nat \<Rightarrow> kernel \<Rightarrow> kernel option) \<Rightarrow> timer_ref \<Rightarrow> kernel \<Rightarrow> kernel option" where
  "soft_timer_expire cb r k = do {
     let k1 = timer_remove r k;
     let k2 = (if tm_flag (tmr k1 r) AND RT_TIMER_FLAG_PERIODIC = 0 then timer_deactivate r k1 else k1);
     k3 \<leftarrow> timer_fire cb r (k2\<lparr>rt_timer_tmp := r # rt_timer_tmp k2, soft_timer_status := 0\<rparr>);
     let k4 = k3\<lparr>soft_timer_status := 1\<rparr>;
     (if rt_timer_tmp k4 = [] then Some k4
      else let k5 = timer_remove r k4
           in if tm_flag (tmr k5 r) AND RT_TIMER_FLAG_PERIODIC \<noteq> 0 \<and> tm_flag (tmr k5 r) AND RT_TIMER_FLAG_ACTIVATED \<noteq> 0
              then map_option snd (rt_timer_start r (timer_deactivate r k5))
              else Some k5)
   }"

partial_function (option) rt_soft_timer_check :: "(nat \<Rightarrow> kernel \<Rightarrow> kernel option) \<Rightarrow> kernel \<Rightarrow> kernel option" where
  "rt_soft_timer_check cb k =
     (case rt_soft_timer_list k of
        [] \<Rightarrow> Some k
      | r # _ \<Rightarrow>
          (if rt_tick k - timeout_tick (tmr k r) < HALF_TICK_MAX then Option.bind (soft_timer_expire cb r k) (rt_soft_timer_check cb)
           else Some k))"

definition timer_thread_wait :: "kernel \<Rightarrow> kernel option" where
  "timer_thread_wait k =
     (let next_timeout = rt_timer_list_next_timeout (rt_soft_timer_list k) k
      in if next_timeout = RT_TICK_MAX then do {
           t \<leftarrow> rt_current_thread k;
           (_, k1) \<leftarrow> rt_thread_suspend t k;
           rt_schedule k1
         }
         else if next_timeout - rt_tick k < HALF_TICK_MAX then rt_thread_sleep (next_timeout - rt_tick k) k
         else Some k)"

definition rt_system_timer_init :: "kernel \<Rightarrow> kernel" where
  "rt_system_timer_init k = k\<lparr>rt_timer_list := []\<rparr>"

definition rt_tick_increase :: "(nat \<Rightarrow> kernel \<Rightarrow> kernel option) \<Rightarrow> kernel \<Rightarrow> kernel option" where
  "rt_tick_increase cb k = do {
     let k1 = k\<lparr>rt_tick := rt_tick k + 1\<rparr>;
     t \<leftarrow> rt_current_thread k1;
     let k2 = upd_thr t (\<lambda>th. th\<lparr>remaining_tick := remaining_tick th - 1\<rparr>) k1;
     k3 \<leftarrow> (if remaining_tick (thr k2 t) = 0
           then rt_schedule (upd_thr t (\<lambda>th. th\<lparr>remaining_tick := init_tick th, stat := stat th OR RT_THREAD_STAT_YIELD_MASK\<rparr>) k2)
           else Some k2);
     rt_timer_check cb k3
   }"

definition rt_interrupt_enter :: "kernel \<Rightarrow> kernel" where
  "rt_interrupt_enter k = k\<lparr>rt_interrupt_nest := rt_interrupt_nest k + 1\<rparr>"

definition rt_interrupt_leave :: "kernel \<Rightarrow> kernel" where
  "rt_interrupt_leave k = k\<lparr>rt_interrupt_nest := rt_interrupt_nest k - 1\<rparr>"

text \<open>The idle thread frees the defunct threads: the numbers of the threads whose stacks and objects are freed, in order.\<close>

fun idle_free :: "nat list \<Rightarrow> nat list" where
  "idle_free [] = []"
| "idle_free (t # ts) = t # idle_free (filter (\<lambda>u. u \<noteq> t) ts)"

definition rt_thread_idle_excute :: "kernel \<Rightarrow> (nat list \<times> kernel) option" where
  "rt_thread_idle_excute k =
     (if rt_interrupt_nest k \<noteq> 0 then None
      else Some (idle_free (rt_thread_defunct k), fold rt_list_remove (idle_free (rt_thread_defunct k)) k))"

section \<open>Start of the system\<close>

text \<open>The objects of the main thread (number and stack, from the heap), of the timer thread and of the idle thread are
  arguments, as is the size of the stack frame.\<close>

definition rt_application_init :: "nat \<Rightarrow> nat option \<Rightarrow> nat option \<Rightarrow> kernel \<Rightarrow> kernel option" where
  "rt_application_init frame obj stack k = do {
     (tid, k1) \<leftarrow> rt_thread_create frame obj stack 2048 10 20 k;
     t \<leftarrow> tid;
     (_, k2) \<leftarrow> rt_thread_startup t k1;
     Some k2
   }"

definition rt_system_timer_thread_init :: "nat \<Rightarrow> nat \<Rightarrow> kernel \<Rightarrow> kernel option" where
  "rt_system_timer_thread_init frame timer_thread_stack k = do {
     (_, k1) \<leftarrow> rt_thread_init frame (timer_thread k) (Some timer_thread_stack) 1024 4 10 (k\<lparr>rt_soft_timer_list := []\<rparr>);
     (_, k2) \<leftarrow> rt_thread_startup (timer_thread k) k1;
     Some k2
   }"

definition rt_thread_idle_init :: "nat \<Rightarrow> nat \<Rightarrow> nat \<Rightarrow> kernel \<Rightarrow> kernel option" where
  "rt_thread_idle_init frame idle idle_stack k = do {
     (_, k1) \<leftarrow> rt_thread_init frame idle (Some idle_stack) 256 (RT_THREAD_PRIORITY_MAX - 1) 32 k;
     (_, k2) \<leftarrow> rt_thread_startup idle k1;
     Some k2
   }"

definition rtthread_startup :: "nat \<Rightarrow> nat option \<Rightarrow> nat option \<Rightarrow> nat \<Rightarrow> nat \<Rightarrow> nat \<Rightarrow> kernel \<Rightarrow> kernel option" where
  "rtthread_startup frame obj stack timer_thread_stack idle idle_stack k = do {
     k1 \<leftarrow> rt_application_init frame obj stack (rt_system_scheduler_init (rt_system_timer_init k));
     k2 \<leftarrow> rt_system_timer_thread_init frame timer_thread_stack k1;
     k3 \<leftarrow> rt_thread_idle_init frame idle idle_stack k2;
     rt_system_scheduler_start k3
   }"

end
