(* ===== verification/Kernel_Timer.thy ===== *)
theory Kernel_Timer
  imports Kernel_Thread
begin

text \<open>
  The timers of sleeping threads and the clock: the invariant of the timer list (the timers that run are those of
  suspended threads, in the order of the time that remains), what suspending, resuming, sleeping and the clock
  tick do to it, and that a sleep lasts as long as it should.
\<close>

section \<open>Frames\<close>

lemma upd_tmr_sel [simp]:
  "tmr (upd_tmr r f k) = (tmr k)(r := f (tmr k r))" "thr (upd_tmr r f k) = thr k"
  "rt_thread_priority_table (upd_tmr r f k) = rt_thread_priority_table k"
  "rt_thread_ready_priority_group (upd_tmr r f k) = rt_thread_ready_priority_group k"
  "rt_scheduler_lock_nest (upd_tmr r f k) = rt_scheduler_lock_nest k"
  "rt_current_thread (upd_tmr r f k) = rt_current_thread k"
  "rt_thread_defunct (upd_tmr r f k) = rt_thread_defunct k" "suspend_thread (upd_tmr r f k) = suspend_thread k"
  "rt_tick (upd_tmr r f k) = rt_tick k" "rt_timer_list (upd_tmr r f k) = rt_timer_list k"
  "rt_timer_tmp (upd_tmr r f k) = rt_timer_tmp k" "rt_soft_timer_list (upd_tmr r f k) = rt_soft_timer_list k"
  "rt_interrupt_nest (upd_tmr r f k) = rt_interrupt_nest k"
  by (simp_all add: upd_tmr_def)

lemma timer_remove_sel [simp]:
  "tmr (timer_remove r k) = tmr k" "thr (timer_remove r k) = thr k"
  "rt_thread_priority_table (timer_remove r k) = rt_thread_priority_table k"
  "rt_thread_ready_priority_group (timer_remove r k) = rt_thread_ready_priority_group k"
  "rt_scheduler_lock_nest (timer_remove r k) = rt_scheduler_lock_nest k"
  "rt_current_thread (timer_remove r k) = rt_current_thread k"
  "rt_thread_defunct (timer_remove r k) = rt_thread_defunct k" "suspend_thread (timer_remove r k) = suspend_thread k"
  "rt_tick (timer_remove r k) = rt_tick k" "rt_timer_list (timer_remove r k) = filter (\<lambda>q. q \<noteq> r) (rt_timer_list k)"
  "rt_timer_tmp (timer_remove r k) = filter (\<lambda>q. q \<noteq> r) (rt_timer_tmp k)"
  "rt_soft_timer_list (timer_remove r k) = filter (\<lambda>q. q \<noteq> r) (rt_soft_timer_list k)"
  "rt_interrupt_nest (timer_remove r k) = rt_interrupt_nest k"
  by (simp_all add: timer_remove_def)

lemma rt_list_remove_sel [simp]:
  "tmr (rt_list_remove t k) = tmr k" "thr (rt_list_remove t k) = thr k"
  "rt_thread_ready_priority_group (rt_list_remove t k) = rt_thread_ready_priority_group k"
  "rt_scheduler_lock_nest (rt_list_remove t k) = rt_scheduler_lock_nest k"
  "rt_current_thread (rt_list_remove t k) = rt_current_thread k"
  "rt_tick (rt_list_remove t k) = rt_tick k" "rt_timer_list (rt_list_remove t k) = rt_timer_list k"
  "rt_timer_tmp (rt_list_remove t k) = rt_timer_tmp k" "rt_soft_timer_list (rt_list_remove t k) = rt_soft_timer_list k"
  "rt_interrupt_nest (rt_list_remove t k) = rt_interrupt_nest k"
  by (simp_all add: rt_list_remove_def)

lemma th_stat_cong: "thr k' = thr k \<Longrightarrow> th_stat k' = th_stat k"
  by (rule ext) (simp add: th_stat_def)

text \<open>Two states with the same threads and thread lists.\<close>

definition same_threads :: "kernel \<Rightarrow> kernel \<Rightarrow> bool" where
  "same_threads k k' \<longleftrightarrow> thr k' = thr k \<and> rt_thread_priority_table k' = rt_thread_priority_table k \<and>
     rt_thread_ready_priority_group k' = rt_thread_ready_priority_group k \<and> suspend_thread k' = suspend_thread k \<and>
     rt_thread_defunct k' = rt_thread_defunct k \<and> rt_current_thread k' = rt_current_thread k \<and>
     rt_scheduler_lock_nest k' = rt_scheduler_lock_nest k \<and> rt_tick k' = rt_tick k \<and> rt_interrupt_nest k' = rt_interrupt_nest k"

lemma same_threadsD:
  assumes "same_threads k k'"
  shows "th_stat k' = th_stat k" "klists X k' = klists X k" "kcur k' = kcur k" "kinv k' = kinv k"
proof -
  show st: "th_stat k' = th_stat k" using assms by (intro th_stat_cong) (simp add: same_threads_def)
  show kl: "klists X k' = klists X k" for X unfolding klists_def st using assms by (simp add: same_threads_def)
  show kc: "kcur k' = kcur k" unfolding kcur_def st using assms by (simp add: same_threads_def)
  show "kinv k' = kinv k" by (simp add: kinv_def kl kc)
qed

lemma timer_stop_threads: "same_threads k (snd (rt_timer_stop r k))"
  by (simp add: rt_timer_stop_def timer_deactivate_def same_threads_def)

section \<open>Timer invariant\<close>

definition remaining :: "u32 \<Rightarrow> kernel \<Rightarrow> timer_ref \<Rightarrow> nat" where
  "remaining b k r = unat (timeout_tick (tmr k r) - b)"

text \<open>The timers of sleeping threads, in the order of the time that remains from tick \<open>b\<close> on; no other timer runs.\<close>

definition tinv_at :: "u32 \<Rightarrow> kernel \<Rightarrow> bool" where
  "tinv_at b k \<longleftrightarrow> distinct (rt_timer_list k) \<and> rt_timer_tmp k = [] \<and> rt_soft_timer_list k = [] \<and>
     (\<forall>r. tm_flag (tmr k r) AND RT_TIMER_FLAG_ACTIVATED \<noteq> 0 \<longleftrightarrow> r \<in> set (rt_timer_list k)) \<and>
     (\<forall>t. tm_flag (tmr k (Thread_timer t)) \<in> {0, 1}) \<and>
     (\<forall>r\<in>set (rt_timer_list k). remaining b k r < 0x7fffffff \<and> (\<exists>t. r = Thread_timer t \<and> th_stat k t = RT_THREAD_SUSPEND)) \<and>
     sorted (map (remaining b k) (rt_timer_list k))"

abbreviation tinv :: "kernel \<Rightarrow> bool" where
  "tinv k \<equiv> tinv_at (rt_tick k) k"

lemma tinv_threads:
  assumes "tinv_at b k" "tmr k' = tmr k" "rt_timer_list k' = rt_timer_list k" "rt_timer_tmp k' = rt_timer_tmp k"
    "rt_soft_timer_list k' = rt_soft_timer_list k"
    "\<And>t. Thread_timer t \<in> set (rt_timer_list k) \<Longrightarrow> th_stat k' t = RT_THREAD_SUSPEND"
  shows "tinv_at b k'"
proof -
  have "remaining b k' = remaining b k" by (rule ext) (simp add: remaining_def assms(2))
  then show ?thesis using assms unfolding tinv_at_def by auto
qed

lemma unlinked_timer: "tinv_at b k \<Longrightarrow> Thread_timer t \<notin> set (rt_timer_list k) \<Longrightarrow> tm_flag (tmr k (Thread_timer t)) = 0"
proof -
  assume "tinv_at b k" "Thread_timer t \<notin> set (rt_timer_list k)"
  then have "tm_flag (tmr k (Thread_timer t)) AND 1 = 0" "tm_flag (tmr k (Thread_timer t)) \<in> {0, 1}"
    unfolding tinv_at_def by blast+
  then show ?thesis by auto
qed

lemma idle_timer:
  assumes "tinv_at b k" "th_stat k t \<noteq> RT_THREAD_SUSPEND"
  shows "Thread_timer t \<notin> set (rt_timer_list k)" "tm_flag (tmr k (Thread_timer t)) = 0"
proof -
  show 1: "Thread_timer t \<notin> set (rt_timer_list k)" using assms by (auto simp: tinv_at_def)
  show "tm_flag (tmr k (Thread_timer t)) = 0" by (rule unlinked_timer [OF assms(1) 1])
qed

lemma timer_off:
  assumes "tinv_at b k"
  shows "tinv_at b (timer_deactivate (Thread_timer t) (timer_remove (Thread_timer t) k))"
    and "snd (rt_timer_stop (Thread_timer t) k) = k \<or> snd (rt_timer_stop (Thread_timer t) k) = timer_deactivate (Thread_timer t) (timer_remove (Thread_timer t) k)"
proof -
  let ?r = "Thread_timer t" and ?k = "timer_deactivate (Thread_timer t) (timer_remove (Thread_timer t) k)"
  have rem: "remaining b ?k r = remaining b k r" for r by (simp add: remaining_def timer_deactivate_def)
  have f: "tm_flag (tmr k ?r) \<in> {0, 1}" using assms by (simp add: tinv_at_def)
  then have f0: "tm_flag (tmr ?k ?r) = 0" by (auto simp: timer_deactivate_def)
  have fo: "tm_flag (tmr ?k r) = tm_flag (tmr k r)" if "r \<noteq> ?r" for r using that by (simp add: timer_deactivate_def)
  have st: "th_stat ?k = th_stat k" by (rule th_stat_cong) (simp add: timer_deactivate_def)
  have l: "rt_timer_list ?k = filter (\<lambda>q. q \<noteq> ?r) (rt_timer_list k)" "rt_timer_tmp ?k = []" "rt_soft_timer_list ?k = []"
    using assms by (simp_all add: timer_deactivate_def tinv_at_def)
  have "tm_flag (tmr ?k r) AND 1 \<noteq> 0 \<longleftrightarrow> r \<in> set (rt_timer_list ?k)" for r
    using assms f0 fo [of r] unfolding l tinv_at_def by (cases "r = ?r") auto
  moreover have "tm_flag (tmr ?k (Thread_timer u)) \<in> {0, 1}" for u
    using assms f0 fo [of "Thread_timer u"] unfolding tinv_at_def by (cases "u = t") auto
  moreover have "sorted (map (remaining b ?k) (rt_timer_list ?k))"
    using assms unfolding l rem by (simp add: tinv_at_def sorted_filter)
  ultimately show "tinv_at b ?k" using assms unfolding tinv_at_def l st rem by auto
  show "snd (rt_timer_stop ?r k) = k \<or> snd (rt_timer_stop ?r k) = ?k" by (simp add: rt_timer_stop_def)
qed

section \<open>Waking and suspending\<close>

lemma list_remove_klists:
  assumes "klists X k" "th_stat k t \<noteq> RT_THREAD_READY"
  shows "klists (insert t X) (rt_list_remove t k)"
proof -
  have st: "th_stat (rt_list_remove t k) = th_stat k" by (rule th_stat_cong) simp
  have len: "length (rt_thread_priority_table k) = 32" using assms(1) by (rule klistsD(1))
  have q: "filter (\<lambda>u. u \<noteq> t) (rt_thread_priority_table k ! p) = rt_thread_priority_table k ! p" if "p < 32" for p
    using klistsD(4) [OF assms(1) that, of t] assms(2) by (intro filter_absent) auto
  have tab: "rt_thread_priority_table (rt_list_remove t k) = rt_thread_priority_table k"
    by (rule nth_equalityI) (simp_all add: rt_list_remove_def len q)
  have mem: "u \<in> set (rt_thread_priority_table k ! p) \<longleftrightarrow>
      u \<notin> insert t X \<and> th_stat k u = RT_THREAD_READY \<and> current_priority (thr k u) = p" if "p < 32" for p u
    using klistsD(4) [OF assms(1) that, of u] assms(2) by auto
  have s: "suspend_thread (rt_list_remove t k) = map (filter (\<lambda>u. u \<noteq> t)) (suspend_thread k)"
    "rt_thread_defunct (rt_list_remove t k) = filter (\<lambda>u. u \<noteq> t) (rt_thread_defunct k)" by (simp_all add: rt_list_remove_def)
  show ?thesis using assms(1) mem unfolding klists_def tab st s concat_filter by (simp del: set_concat)
qed

text \<open>A thread off the lists that is put into a status other than ready.\<close>

lemma klists_settle:
  assumes "klists {t} k" "stat (f (thr k t)) AND 7 \<noteq> RT_THREAD_READY" "stat (f (thr k t)) AND 7 \<in> live_stats \<Longrightarrow> th_ok (f (thr k t))"
  shows "klists {} (upd_thr t f k)"
proof (rule klists_back)
  show "klists {t} (upd_thr t f k)" using assms(1) by (rule klists_upd_off)
  have st: "th_stat (upd_thr t f k) t = stat (f (thr k t)) AND 7" by (simp add: th_stat_def)
  show "th_stat (upd_thr t f k) t \<noteq> RT_THREAD_READY" using assms(2) by (simp only: st not_False_eq_True)
  show "th_ok (thr (upd_thr t f k) t)" if "th_stat (upd_thr t f k) t \<in> live_stats" using assms(3) that by (simp only: st upd_thr_sel fun_upd_same)
qed simp

lemma active_suspended: "tinv_at b k \<Longrightarrow> Thread_timer t \<in> set (rt_timer_list k) \<Longrightarrow> th_stat k t = RT_THREAD_SUSPEND"
  by (auto simp: tinv_at_def)

lemma suspend_ok:
  assumes "kinv k" "tinv k" "th_stat k t \<in> {RT_THREAD_READY, RT_THREAD_RUNNING}"
  shows "\<exists>k'. rt_thread_suspend t k = Some (RT_EOK, k') \<and> kinv k' \<and> tinv k' \<and> \<not> linked t k' \<and>
     thr k' = (thr k)(t := set_stat RT_THREAD_SUSPEND (thr k t)) \<and> rt_current_thread k' = rt_current_thread k \<and>
     rt_scheduler_lock_nest k' = rt_scheduler_lock_nest k \<and> rt_tick k' = rt_tick k \<and> tmr k' = tmr k \<and>
     rt_timer_list k' = rt_timer_list k \<and> suspend_thread k' = suspend_thread k"
proof -
  have l: "klists {} k" and c: "kcur k" using assms(1) by (simp_all add: kinv_def)
  have ok: "th_ok (thr k t)" using klistsD(5) [OF l, of t] assms(3) by auto
  have rm: "rt_list_remove t k = k\<lparr>rt_thread_priority_table := map (filter (\<lambda>u. u \<noteq> t)) (rt_thread_priority_table k)\<rparr>"
    using assms(3) by (intro rt_list_remove_ready [OF l]) auto
  obtain G where G: "rt_schedule_remove_thread t k = Some (rt_list_remove t k\<lparr>rt_thread_ready_priority_group := G\<rparr>)"
    "klists {t} (rt_list_remove t k\<lparr>rt_thread_ready_priority_group := G\<rparr>)" using remove_klists [OF l ok] by blast
  define k1 where "k1 = rt_list_remove t k\<lparr>rt_thread_ready_priority_group := G\<rparr>"
  define k' where "k' = upd_thr t (set_stat RT_THREAD_SUSPEND) k1"
  have thr1: "thr k1 = thr k" by (simp add: k1_def)
  have s7: "stat (set_stat RT_THREAD_SUSPEND (thr k t)) AND 7 = RT_THREAD_SUSPEND" by (rule set_stat_bits) simp
  have st: "th_stat k' u = (if u = t then RT_THREAD_SUSPEND else th_stat k u)" for u
    using s7 by (simp add: th_stat_def k'_def thr1)
  have 1: "klists {t} k1" using G(2) by (simp add: k1_def)
  have kl: "klists {} k'" unfolding k'_def by (rule klists_settle [OF 1]) (use s7 ok in \<open>simp_all add: thr1\<close>)
  have "kcur k'" using c by (auto simp: kcur_def st) (simp_all add: k'_def k1_def)
  with kl have kinv: "kinv k'" by (simp add: kinv_def)
  have f0: "tm_flag (tmr k (Thread_timer t)) = 0" using assms(3) by (intro idle_timer(2) [OF assms(2)]) auto
  then have stop: "snd (rt_timer_stop (Thread_timer t) k') = k'" by (simp add: rt_timer_stop_def k'_def k1_def)
  have "tinv_at (rt_tick k) k'"
    using assms(2)
  proof (rule tinv_threads)
    show "th_stat k' u = RT_THREAD_SUSPEND" if "Thread_timer u \<in> set (rt_timer_list k)" for u
      using active_suspended [OF assms(2) that] by (simp add: st)
  qed (simp_all add: k'_def k1_def)
  moreover have "rt_tick k' = rt_tick k" by (simp add: k'_def k1_def)
  moreover have "\<not> linked t k'"
    using klists_off_unlinked [OF klists_upd_off [of t "{}" k1 "set_stat RT_THREAD_SUSPEND"], of t] 1 by (simp add: k'_def)
  moreover have "rt_thread_suspend t k = Some (RT_EOK, k')"
    using assms(3) c G(1) stop by (auto simp: rt_thread_suspend_def kcur_def k'_def k1_def)
  ultimately show ?thesis using kinv by (intro exI [of _ k']) (simp add: k'_def k1_def rm)
qed

lemma insert_any:
  assumes "klists {t} k" "th_ok (thr k t)"
  shows "\<exists>k'. rt_schedule_insert_thread t k = Some k' \<and> klists {} k' \<and>
     thr k' = (thr k)(t := set_stat (if rt_current_thread k = Some t then RT_THREAD_RUNNING else RT_THREAD_READY) (thr k t)) \<and>
     rt_current_thread k' = rt_current_thread k \<and> rt_scheduler_lock_nest k' = rt_scheduler_lock_nest k \<and> rt_tick k' = rt_tick k \<and>
     tmr k' = tmr k \<and> rt_timer_list k' = rt_timer_list k \<and> rt_timer_tmp k' = rt_timer_tmp k \<and>
     rt_soft_timer_list k' = rt_soft_timer_list k \<and> suspend_thread k' = suspend_thread k"
proof (cases "rt_current_thread k = Some t")
  case True
  have s7: "stat (set_stat RT_THREAD_RUNNING (thr k t)) AND 7 = RT_THREAD_RUNNING" by (rule set_stat_bits) simp
  have "klists {} (upd_thr t (set_stat RT_THREAD_RUNNING) k)" by (rule klists_settle [OF assms(1)]) (use s7 assms(2) in simp_all)
  with True show ?thesis by (simp add: rt_schedule_insert_thread_def)
next
  case False
  with insert_klists [of t "{}" k] assms show ?thesis by auto
qed

lemma insert_kcur:
  assumes "kcur k" "thr k' = (thr k)(t := set_stat (if rt_current_thread k = Some t then RT_THREAD_RUNNING else RT_THREAD_READY) th)"
    "rt_current_thread k' = rt_current_thread k"
  shows "kcur k'" "th_stat k' t = (if rt_current_thread k = Some t then RT_THREAD_RUNNING else RT_THREAD_READY)"
    "u \<noteq> t \<Longrightarrow> th_stat k' u = th_stat k u"
proof -
  let ?s = "if rt_current_thread k = Some t then RT_THREAD_RUNNING else RT_THREAD_READY"
  have s7: "stat (set_stat ?s th) AND 7 = ?s" by (rule set_stat_bits) simp
  show st: "th_stat k' t = ?s" using s7 by (simp add: th_stat_def assms(2))
  show so: "th_stat k' u = th_stat k u" if "u \<noteq> t" for u using that by (simp add: th_stat_def assms(2))
  have "rt_current_thread k = Some u" if "th_stat k' u = RT_THREAD_RUNNING" for u
  proof (cases "u = t")
    case True
    with that st show ?thesis by (simp split: if_splits)
  qed (use that so [of u] assms(1) in \<open>simp add: kcur_def\<close>)
  moreover have "th_stat k' c \<noteq> RT_THREAD_READY" if "rt_current_thread k = Some c" for c
  proof (cases "c = t")
    case True
    with that st show ?thesis by simp
  qed (use that so [of c] assms(1) in \<open>simp add: kcur_def\<close>)
  ultimately show "kcur k'" unfolding kcur_def assms(3) by blast
qed

lemma resume_ok:
  assumes "kinv k" "tinv k" "th_stat k t = RT_THREAD_SUSPEND"
  shows "\<exists>k'. rt_thread_resume t k = Some (RT_EOK, k') \<and> kinv k' \<and> tinv k' \<and>
     th_stat k' t = (if rt_current_thread k = Some t then RT_THREAD_RUNNING else RT_THREAD_READY) \<and>
     (\<forall>u. u \<noteq> t \<longrightarrow> thr k' u = thr k u) \<and> th_error (thr k' t) = th_error (thr k t) \<and>
     rt_current_thread k' = rt_current_thread k \<and> rt_scheduler_lock_nest k' = rt_scheduler_lock_nest k \<and> rt_tick k' = rt_tick k \<and>
     suspend_thread k' = map (filter (\<lambda>u. u \<noteq> t)) (suspend_thread k) \<and>
     thr k' = (thr k)(t := set_stat (if rt_current_thread k = Some t then RT_THREAD_RUNNING else RT_THREAD_READY) (thr k t))"
proof -
  have l: "klists {} k" and c: "kcur k" using assms(1) by (simp_all add: kinv_def)
  define k1 where "k1 = snd (rt_timer_stop (Thread_timer t) (rt_list_remove t k))"
  have s1: "same_threads (rt_list_remove t k) k1" unfolding k1_def by (rule timer_stop_threads)
  have e: "thr k1 = thr k" "rt_current_thread k1 = rt_current_thread k" "rt_tick k1 = rt_tick k"
    "rt_scheduler_lock_nest k1 = rt_scheduler_lock_nest k" "suspend_thread k1 = map (filter (\<lambda>u. u \<noteq> t)) (suspend_thread k)"
    using s1 by (simp_all add: same_threads_def rt_list_remove_def)
  have 1: "klists {t} k1" using list_remove_klists [OF l, of t] assms(3) same_threadsD(2) [OF s1] by simp
  have ok: "th_ok (thr k1 t)" using klistsD(5) [OF l, of t] assms(3) e by simp
  obtain k' where k': "rt_schedule_insert_thread t k1 = Some k'" "klists {} k'"
    "thr k' = (thr k1)(t := set_stat (if rt_current_thread k1 = Some t then RT_THREAD_RUNNING else RT_THREAD_READY) (thr k1 t))"
    "rt_current_thread k' = rt_current_thread k1" "rt_scheduler_lock_nest k' = rt_scheduler_lock_nest k1" "rt_tick k' = rt_tick k1"
    "tmr k' = tmr k1" "rt_timer_list k' = rt_timer_list k1" "rt_timer_tmp k' = rt_timer_tmp k1"
    "rt_soft_timer_list k' = rt_soft_timer_list k1" "suspend_thread k' = suspend_thread k1" using insert_any [OF 1 ok] by blast
  have st1: "th_stat k1 = th_stat k" by (rule th_stat_cong) (rule e(1))
  have kc1: "kcur k1" using c by (simp add: kcur_def st1 e)
  note kc = insert_kcur [OF kc1 k'(3,4)]
  have tr: "tinv_at (rt_tick k) (rt_list_remove t k)"
    using assms(2) by (rule tinv_threads) (use assms(2) in \<open>simp_all add: th_stat_def, auto simp: tinv_at_def th_stat_def\<close>)
  have t1: "tinv_at (rt_tick k) k1 \<and> Thread_timer t \<notin> set (rt_timer_list k1)"
  proof (cases "tm_flag (tmr k (Thread_timer t)) AND 1 = 0")
    case True
    then have "k1 = rt_list_remove t k" by (simp add: k1_def rt_timer_stop_def)
    with True tr assms(2) show ?thesis by (auto simp: tinv_at_def)
  next
    case False
    then have "k1 = timer_deactivate (Thread_timer t) (timer_remove (Thread_timer t) (rt_list_remove t k))"
      by (simp add: k1_def rt_timer_stop_def)
    with timer_off(1) [OF tr, of t] show ?thesis by (simp add: timer_deactivate_def)
  qed
  then have "tinv_at (rt_tick k) k'"
  proof (elim conjE, intro tinv_threads [of _ k1 k'])
    show "th_stat k' u = RT_THREAD_SUSPEND" if "Thread_timer u \<in> set (rt_timer_list k1)" for u
      using that t1 kc(3) [of u] by (cases "u = t") (auto simp: tinv_at_def)
  qed (use k' in simp_all)
  then have "tinv k'" using k'(6) e(3) by simp
  moreover have "kinv k'" using k'(2) kc(1) by (simp add: kinv_def)
  moreover have "rt_thread_resume t k = Some (RT_EOK, k')" using assms(3) k'(1) by (simp add: rt_thread_resume_def k1_def)
  ultimately show ?thesis using k' kc(2) e by (intro exI [of _ k']) simp
qed

section \<open>Scheduling and timers\<close>

lemma schedule_any:
  assumes "kinv k" "rt_current_thread k = Some c"
  shows "\<exists>k' t. rt_schedule k = Some k' \<and> kinv k' \<and> sched_frame k k' \<and> rt_current_thread k' = Some t"
proof (cases "rt_scheduler_lock_nest k = 0 \<and> rt_thread_ready_priority_group k \<noteq> 0")
  case True
  with schedule_ok [OF assms] show ?thesis by blast
next
  case False
  then have "rt_schedule k = Some k" by (auto simp: rt_schedule_def)
  with assms sched_frame_refl show ?thesis by blast
qed

lemma sched_frame_suspended:
  assumes "sched_frame k k'" "th_stat k t \<notin> {RT_THREAD_READY, RT_THREAD_RUNNING}"
  shows "thr k' t = thr k t" "th_stat k' t = th_stat k t"
  using assms unfolding sched_frame_def by (metis th_stat_def)+

lemma sched_frame_ready:
  "sched_frame k k' \<Longrightarrow> th_stat k t \<in> {RT_THREAD_READY, RT_THREAD_RUNNING} \<Longrightarrow> th_stat k' t \<in> {RT_THREAD_READY, RT_THREAD_RUNNING}"
  unfolding sched_frame_def by metis

lemma sched_frame_objects:
  assumes "sched_frame k k'"
  shows "tmr k' = tmr k" "rt_timer_list k' = rt_timer_list k" "rt_timer_tmp k' = rt_timer_tmp k"
    "rt_soft_timer_list k' = rt_soft_timer_list k" "rt_tick k' = rt_tick k" "suspend_thread k' = suspend_thread k"
    "rt_scheduler_lock_nest k' = rt_scheduler_lock_nest k"
  using assms unfolding sched_frame_def same_objects_def by blast+

lemma tinv_sched:
  assumes "tinv_at b k" "sched_frame k k'"
  shows "tinv_at b k'"
  using assms(1)
proof (rule tinv_threads)
  show "th_stat k' t = RT_THREAD_SUSPEND" if "Thread_timer t \<in> set (rt_timer_list k)" for t
    using active_suspended [OF assms(1) that] sched_frame_suspended(2) [OF assms(2), of t] by simp
qed (use sched_frame_objects [OF assms(2)] in simp_all)

text \<open>The circular comparison of two timeouts is the comparison of the remaining times.\<close>

lemma timer_later_iff:
  assumes "remaining b k q < 0x7fffffff" "remaining b k r < 0x7fffffff"
  shows "timer_later k r q \<longleftrightarrow> remaining b k r < remaining b k q"
proof -
  define x y where "x = timeout_tick (tmr k q) - b" and "y = timeout_tick (tmr k r) - b"
  have d: "timeout_tick (tmr k q) - timeout_tick (tmr k r) = x - y" by (simp add: x_def y_def)
  have b: "unat x < 0x7fffffff" "unat y < 0x7fffffff" using assms by (simp_all add: remaining_def x_def y_def)
  have u: "unat (x - y) = (if unat y \<le> unat x then unat x - unat y else unat x + 2 ^ 32 - unat y)"
    using unat_sub_if_size [of x y] by (simp add: word_size)
  have "x - y \<noteq> 0 \<longleftrightarrow> unat (x - y) \<noteq> 0" by (simp add: unat_eq_0)
  moreover have "x - y < 0x7fffffff \<longleftrightarrow> unat (x - y) < 0x7fffffff" by (simp add: word_less_nat_alt)
  ultimately have "timer_later k r q \<longleftrightarrow> unat (x - y) \<noteq> 0 \<and> unat (x - y) < 0x7fffffff" by (simp add: timer_later_def Let_def d)
  also have "\<dots> \<longleftrightarrow> unat y < unat x" unfolding u using b by auto
  finally show ?thesis by (simp add: remaining_def x_def y_def)
qed

lemma timer_insert_set: "set (timer_insert k r l) = insert r (set l)"
  by (induction l) auto

lemma timer_insert_distinct: "distinct l \<Longrightarrow> r \<notin> set l \<Longrightarrow> distinct (timer_insert k r l)"
  by (induction l) (auto simp: timer_insert_set)

lemma timer_insert_sorted:
  assumes "sorted (map (remaining b k) l)" "\<forall>q\<in>set l. remaining b k q < 0x7fffffff" "remaining b k r < 0x7fffffff"
  shows "sorted (map (remaining b k) (timer_insert k r l))"
  using assms
proof (induction l)
  case (Cons q qs)
  then have IH: "sorted (map (remaining b k) (timer_insert k r qs))" by simp
  have l: "timer_later k r q \<longleftrightarrow> remaining b k r < remaining b k q" using Cons.prems by (intro timer_later_iff) simp_all
  show ?case
  proof (cases "remaining b k r < remaining b k q")
    case True
    then show ?thesis using Cons.prems(1) l by fastforce
  next
    case False
    then show ?thesis using Cons.prems(1) l IH by (auto simp: timer_insert_set)
  qed
qed simp

lemma timer_start_ok:
  assumes "tinv k" "th_stat k t = RT_THREAD_SUSPEND" "tm_init_tick (tmr k (Thread_timer t)) < 0x7fffffff"
  shows "\<exists>k'. rt_timer_start (Thread_timer t) k = Some (RT_EOK, k') \<and> tinv k' \<and> same_threads k k' \<and>
     Thread_timer t \<in> set (rt_timer_list k') \<and> remaining (rt_tick k) k' (Thread_timer t) = unat (tm_init_tick (tmr k (Thread_timer t))) \<and>
     (\<forall>r. r \<noteq> Thread_timer t \<longrightarrow> tmr k' r = tmr k r \<and> (r \<in> set (rt_timer_list k') \<longleftrightarrow> r \<in> set (rt_timer_list k)))"
proof -
  let ?r = "Thread_timer t" and ?n = "tm_init_tick (tmr k (Thread_timer t))"
  define k1 where "k1 = timer_deactivate ?r (timer_remove ?r k)"
  have 1: "tinv_at (rt_tick k) k1" unfolding k1_def by (rule timer_off(1) [OF assms(1)])
  have e1: "tmr k1 ?r = (tmr k ?r)\<lparr>tm_flag := tm_flag (tmr k ?r) AND NOT 1\<rparr>" "rt_tick k1 = rt_tick k" "\<And>r. r \<noteq> ?r \<Longrightarrow> tmr k1 r = tmr k r"
    "rt_timer_list k1 = filter (\<lambda>q. q \<noteq> ?r) (rt_timer_list k)" "same_threads k k1"
    by (simp_all add: k1_def timer_deactivate_def same_threads_def)
  have f1: "tm_flag (tmr k1 ?r) = 0"
    by (rule unlinked_timer [OF 1]) (simp add: e1(4))
  define k2 where "k2 = upd_tmr ?r (\<lambda>x. x\<lparr>timeout_tick := rt_tick k1 + tm_init_tick x\<rparr>) k1"
  define k' where "k' = upd_tmr ?r (\<lambda>x. x\<lparr>tm_flag := tm_flag x OR 1\<rparr>) (k2\<lparr>rt_timer_list := timer_insert k2 ?r (rt_timer_list k2)\<rparr>)"
  have run: "rt_timer_start ?r k = Some (RT_EOK, k')"
    using assms(3) f1 e1(1) by (simp add: rt_timer_start_def Let_def k'_def k2_def flip: k1_def)
  have rem_r: "remaining (rt_tick k) k' ?r = unat ?n" "remaining (rt_tick k) k2 ?r = unat ?n"
    using e1 by (simp_all add: remaining_def k'_def k2_def)
  have rem: "remaining (rt_tick k) k' = remaining (rt_tick k) k2" by (rule ext) (simp add: remaining_def k'_def)
  have rem_o: "remaining (rt_tick k) k2 q = remaining (rt_tick k) k1 q" if "q \<noteq> ?r" for q using that by (simp add: remaining_def k2_def)
  have n: "unat ?n < 0x7fffffff" using assms(3) by (simp add: word_less_nat_alt)
  have nin: "?r \<notin> set (rt_timer_list k1)" using e1(4) by simp
  have l: "rt_timer_list k' = timer_insert k2 ?r (rt_timer_list k1)" by (simp add: k'_def k2_def)
  have st: "th_stat k' = th_stat k" "th_stat k1 = th_stat k"
    by (rule th_stat_cong, simp add: k'_def k2_def k1_def timer_deactivate_def)+
  have m: "map (remaining (rt_tick k) k2) (rt_timer_list k1) = map (remaining (rt_tick k) k1) (rt_timer_list k1)"
    by (rule map_cong [OF refl], rule rem_o) (use nin in blast)
  have bnd: "\<forall>q\<in>set (rt_timer_list k1). remaining (rt_tick k) k2 q < 0x7fffffff"
  proof
    fix q
    assume q: "q \<in> set (rt_timer_list k1)"
    then have "q \<noteq> ?r" using nin by blast
    then have "remaining (rt_tick k) k2 q = remaining (rt_tick k) k1 q" by (rule rem_o)
    moreover have "remaining (rt_tick k) k1 q < 0x7fffffff" using 1 q by (simp add: tinv_at_def)
    ultimately show "remaining (rt_tick k) k2 q < 0x7fffffff" by simp
  qed
  have "sorted (map (remaining (rt_tick k) k2) (timer_insert k2 ?r (rt_timer_list k1)))"
  proof (rule timer_insert_sorted)
    show "sorted (map (remaining (rt_tick k) k2) (rt_timer_list k1))" unfolding m using 1 by (simp add: tinv_at_def)
    show "remaining (rt_tick k) k2 ?r < 0x7fffffff" using n rem_r(2) by simp
  qed (rule bnd)
  then have srt: "sorted (map (remaining (rt_tick k) k') (rt_timer_list k'))" by (simp add: rem l)
  have fl: "tm_flag (tmr k' r) = (if r = ?r then 1 else tm_flag (tmr k1 r))" for r using f1 by (simp add: k'_def k2_def)
  have act: "tm_flag (tmr k' r) AND 1 \<noteq> 0 \<longleftrightarrow> r \<in> set (rt_timer_list k')" for r
    using 1 nin by (cases "r = ?r") (simp_all add: fl l timer_insert_set tinv_at_def)
  have flags: "tm_flag (tmr k' (Thread_timer u)) \<in> {0, 1}" for u using 1 by (simp add: fl tinv_at_def)
  have mem: "remaining (rt_tick k) k' r < 0x7fffffff \<and> (\<exists>u. r = Thread_timer u \<and> th_stat k' u = RT_THREAD_SUSPEND)"
    if "r \<in> set (rt_timer_list k')" for r
  proof (cases "r = ?r")
    case True
    then show ?thesis using rem_r n assms(2) st by simp
  next
    case False
    then have "r \<in> set (rt_timer_list k1)" using that by (simp add: l timer_insert_set)
    with 1 bnd show ?thesis unfolding tinv_at_def rem st by blast
  qed
  have d: "distinct (rt_timer_list k')" unfolding l using 1 nin by (intro timer_insert_distinct) (simp_all add: tinv_at_def)
  have tmp: "rt_timer_tmp k' = []" "rt_soft_timer_list k' = []" using 1 by (simp_all add: k'_def k2_def tinv_at_def)
  have tk: "rt_tick k' = rt_tick k" using e1(2) by (simp add: k'_def k2_def)
  have "tinv k'" unfolding tinv_at_def tk using d tmp act flags mem srt by blast
  moreover have "same_threads k k'" using e1(5) by (simp add: same_threads_def k'_def k2_def)
  moreover have "tmr k' r = tmr k r \<and> (r \<in> set (rt_timer_list k') \<longleftrightarrow> r \<in> set (rt_timer_list k))" if "r \<noteq> ?r" for r
    using that e1(3) [OF that] by (simp add: l timer_insert_set e1(4)) (simp add: k'_def k2_def)
  moreover have "?r \<in> set (rt_timer_list k')" by (simp add: l timer_insert_set)
  ultimately show ?thesis using run rem_r(1) by blast
qed

section \<open>Sleeping and waking\<close>

lemma kinv_cong:
  assumes "kinv k" "rt_thread_priority_table k' = rt_thread_priority_table k"
    "rt_thread_ready_priority_group k' = rt_thread_ready_priority_group k" "suspend_thread k' = suspend_thread k"
    "rt_thread_defunct k' = rt_thread_defunct k" "rt_current_thread k' = rt_current_thread k" "th_stat k' = th_stat k"
    "\<And>t. current_priority (thr k' t) = current_priority (thr k t)" "\<And>t. th_ok (thr k' t) = th_ok (thr k t)"
  shows "kinv k'"
  unfolding kinv_def
proof
  show "klists {} k'" by (rule klists_cong [OF _ assms(2-5,7-9)]) (use assms(1) in \<open>simp add: kinv_def\<close>)
  show "kcur k'" unfolding kcur_def assms(6,7) using assms(1) by (simp add: kinv_def kcur_def)
qed

lemma th_ok_updates [simp]:
  "th_ok (th\<lparr>th_error := e\<rparr>) = th_ok th" "th_ok (th\<lparr>remaining_tick := n\<rparr>) = th_ok th"
  by (simp_all add: th_ok_def rt_scheduler_stack_check_def)

definition awake :: "kernel \<Rightarrow> nat \<Rightarrow> bool" where
  "awake k t \<longleftrightarrow> th_stat k t = RT_THREAD_READY \<or> th_stat k t = RT_THREAD_RUNNING"

definition others_kept :: "nat set \<Rightarrow> kernel \<Rightarrow> kernel \<Rightarrow> bool" where
  "others_kept X k k' \<longleftrightarrow> (\<forall>u. u \<notin> X \<longrightarrow> th_error (thr k' u) = th_error (thr k u) \<and> (awake k u \<longrightarrow> awake k' u) \<and>
     (\<not> awake k u \<longrightarrow> th_stat k' u = th_stat k u))"

lemma others_kept_trans: "others_kept X k k' \<Longrightarrow> others_kept Y k' k'' \<Longrightarrow> others_kept (X \<union> Y) k k''"
  unfolding others_kept_def by (simp, metis awake_def)

lemma others_kept_mono: "others_kept X k k' \<Longrightarrow> X \<subseteq> Y \<Longrightarrow> others_kept Y k k'"
  unfolding others_kept_def by blast

lemma others_keptD: "others_kept X k k' \<Longrightarrow> u \<notin> X \<Longrightarrow> th_stat k u = RT_THREAD_SUSPEND \<Longrightarrow> th_stat k' u = RT_THREAD_SUSPEND"
  unfolding others_kept_def awake_def by auto

lemma sched_others: "sched_frame k k' \<Longrightarrow> others_kept {} k k'"
  using sched_frame_ready [of k k'] sched_frame_suspended [of k k'] sched_frame_sel(2) [of k k']
  unfolding others_kept_def awake_def by auto

text \<open>A woken thread is ready or running and no other thread is touched, apart from the switch.\<close>

lemma timeout_ok:
  assumes "kinv k" "th_stat k t = RT_THREAD_SUSPEND" "rt_current_thread k = Some c"
  shows "\<exists>k' c'. rt_thread_timeout t k = Some k' \<and> kinv k' \<and> rt_current_thread k' = Some c' \<and>
     awake k' t \<and> th_error (thr k' t) = - RT_ETIMEOUT \<and>
     tmr k' = tmr k \<and> rt_timer_list k' = rt_timer_list k \<and> rt_timer_tmp k' = rt_timer_tmp k \<and>
     rt_soft_timer_list k' = rt_soft_timer_list k \<and> rt_tick k' = rt_tick k \<and> rt_scheduler_lock_nest k' = rt_scheduler_lock_nest k \<and>
     others_kept {t} k k'"
proof -
  define k0 where "k0 = upd_thr t (\<lambda>th. th\<lparr>th_error := - RT_ETIMEOUT\<rparr>) k"
  have st0: "th_stat k0 = th_stat k" by (rule ext) (simp add: th_stat_def k0_def)
  have "kinv k0" using assms(1) by (rule kinv_cong) (simp_all add: st0, simp_all add: k0_def)
  then have 0: "klists {} k0" "kcur k0" by (simp_all add: kinv_def)
  define k1 where "k1 = rt_list_remove t k0"
  have 1: "klists {t} k1" unfolding k1_def by (rule list_remove_klists [OF 0(1)]) (simp add: st0 assms(2))
  have ok: "th_ok (thr k1 t)" using klistsD(5) [OF 0(1), of t] by (simp add: st0 assms(2) k1_def)
  obtain k2 where k2: "rt_schedule_insert_thread t k1 = Some k2" "klists {} k2"
    "thr k2 = (thr k1)(t := set_stat (if rt_current_thread k1 = Some t then RT_THREAD_RUNNING else RT_THREAD_READY) (thr k1 t))"
    "rt_current_thread k2 = rt_current_thread k1" "rt_scheduler_lock_nest k2 = rt_scheduler_lock_nest k1" "rt_tick k2 = rt_tick k1"
    "tmr k2 = tmr k1" "rt_timer_list k2 = rt_timer_list k1" "rt_timer_tmp k2 = rt_timer_tmp k1"
    "rt_soft_timer_list k2 = rt_soft_timer_list k1" using insert_any [OF 1 ok] by blast
  have st1: "th_stat k1 = th_stat k" unfolding st0 [symmetric] by (rule th_stat_cong) (simp add: k1_def)
  have cur1: "rt_current_thread k1 = rt_current_thread k0" by (simp add: k1_def)
  have "kcur k1" using 0(2) unfolding kcur_def st1 st0 cur1 .
  note kc = insert_kcur [OF this k2(3,4)]
  have "kinv k2" using k2(2) kc(1) by (simp add: kinv_def)
  moreover have "rt_current_thread k2 = Some c" using k2(4) assms(3) by (simp add: k1_def k0_def)
  ultimately obtain k' c' where k': "rt_schedule k2 = Some k'" "kinv k'" "sched_frame k2 k'" "rt_current_thread k' = Some c'"
    using schedule_any by blast
  have run: "rt_thread_timeout t k = Some k'"
    using assms(2) k2(1) k'(1) by (simp add: rt_thread_timeout_def k1_def k0_def)
  have so: "others_kept {} k2 k'" by (rule sched_others [OF k'(3)])
  have "awake k2 t" using kc(2) by (simp add: awake_def)
  then have st: "awake k' t" using so by (simp add: others_kept_def)
  have er: "th_error (thr k' u) = (if u = t then - RT_ETIMEOUT else th_error (thr k u))" for u
    using sched_frame_sel(2) [OF k'(3), of u] by (simp add: k2(3)) (simp add: k1_def k0_def)
  have "others_kept {t} k k2"
    using kc(3) unfolding others_kept_def awake_def by (simp add: k2(3) st1) (simp add: k1_def k0_def)
  then have other: "others_kept {t} k k'" using others_kept_trans [OF _ so, of "{t}"] by simp
  show ?thesis using run k'(2,4) st er other sched_frame_objects [OF k'(3)] k2
    by (intro exI [of _ k'] exI [of _ c']) (simp add: k1_def k0_def)
qed

lemma expire_ok:
  assumes "kinv k" "tinv_at b k" "rt_current_thread k = Some c" "rt_timer_list k = Thread_timer t # rs"
  shows "\<exists>k' c'. timer_expire cb (Thread_timer t) k = Some k' \<and> kinv k' \<and> tinv_at b k' \<and> rt_current_thread k' = Some c' \<and>
     rt_timer_list k' = rs \<and> rt_tick k' = rt_tick k \<and> rt_scheduler_lock_nest k' = rt_scheduler_lock_nest k \<and>
     (\<forall>r. remaining b k' r = remaining b k r) \<and>
     awake k' t \<and> th_error (thr k' t) = - RT_ETIMEOUT \<and>
     others_kept {t} k k'"
proof -
  let ?r = "Thread_timer t"
  have nin: "?r \<notin> set rs" and flag: "tm_flag (tmr k ?r) \<in> {0, 1}" and tmp: "rt_timer_tmp k = []"
    using assms(2,4) by (simp_all add: tinv_at_def)
  have sus: "th_stat k t = RT_THREAD_SUSPEND" using active_suspended [OF assms(2), of t] assms(4) by simp
  define k2 where "k2 = timer_deactivate ?r (timer_remove ?r k)"
  have t2: "tinv_at b k2" unfolding k2_def by (rule timer_off(1) [OF assms(2)])
  have same: "same_threads k k2" by (simp add: same_threads_def k2_def timer_deactivate_def)
  have f2: "tm_flag (tmr k2 ?r) = 0" by (rule unlinked_timer [OF t2]) (simp add: k2_def timer_deactivate_def)
  have list2: "rt_timer_list k2 = rs" using assms(4) nin by (simp add: k2_def timer_deactivate_def filter_absent)
  have tmp2: "rt_timer_tmp k2 = []" using tmp by (simp add: k2_def timer_deactivate_def)
  let ?k3 = "k2\<lparr>rt_timer_tmp := [?r]\<rparr>"
  have same3: "same_threads k ?k3" using same by (simp add: same_threads_def)
  have e3: "thr ?k3 = thr k" "rt_current_thread ?k3 = Some c" "rt_tick ?k3 = rt_tick k" "rt_scheduler_lock_nest ?k3 = rt_scheduler_lock_nest k"
    using same3 assms(3) by (simp_all add: same_threads_def)
  obtain k4 c' where k4: "rt_thread_timeout t ?k3 = Some k4" "kinv k4" "rt_current_thread k4 = Some c'"
    "awake k4 t" "th_error (thr k4 t) = - RT_ETIMEOUT"
    "tmr k4 = tmr k2" "rt_timer_list k4 = rs" "rt_timer_tmp k4 = [?r]" "rt_soft_timer_list k4 = rt_soft_timer_list k2"
    "rt_tick k4 = rt_tick k" "rt_scheduler_lock_nest k4 = rt_scheduler_lock_nest k"
    "others_kept {t} ?k3 k4"
    using timeout_ok [of ?k3 t c] same_threadsD(1,4) [OF same3] assms(1) sus e3 list2 by auto
  have ok4: "others_kept {t} k k4" using k4(12) unfolding others_kept_def awake_def e3(1) same_threadsD(1) [OF same3] .
  let ?k' = "timer_remove ?r k4"
  have "tm_flag (tmr k ?r) AND 2 = 0" using flag by auto
  then have run: "timer_expire cb ?r k = Some ?k'"
    using k4(1,6,8) tmp2 f2 by (simp add: timer_expire_def Let_def flip: k2_def)
  have st': "th_stat ?k' = th_stat k4" by (rule th_stat_cong) simp
  have "same_threads k4 ?k'" by (simp add: same_threads_def)
  then have "kinv ?k'" using k4(2) by (simp add: same_threadsD(4))
  moreover have "tinv_at b ?k'" using t2
  proof (rule tinv_threads)
    show "th_stat ?k' u = RT_THREAD_SUSPEND" if "Thread_timer u \<in> set (rt_timer_list k2)" for u
    proof -
      have "th_stat k u = RT_THREAD_SUSPEND" "u \<noteq> t"
        using active_suspended [OF assms(2), of u] that list2 assms(4) nin by auto
      then show ?thesis unfolding st' by (intro others_keptD [OF ok4]) auto
    qed
  qed (use k4(6-9) list2 tmp2 nin t2 in \<open>simp_all add: filter_absent tinv_at_def\<close>)
  moreover have "remaining b ?k' r = remaining b k r" for r by (simp add: remaining_def k4(6) k2_def timer_deactivate_def)
  moreover have "rt_timer_list ?k' = rs" using k4(7) nin by (simp add: filter_absent)
  moreover have "awake ?k' t" using k4(4) by (simp add: awake_def st')
  moreover have "others_kept {t} k ?k'" using ok4 by (simp add: others_kept_def awake_def st')
  ultimately show ?thesis using run k4(3,5,10,11) by (intro exI [of _ ?k'] exI [of _ c']) simp
qed

lemma timer_due_iff:
  assumes "remaining b k r < 0x7fffffff"
  shows "(b + 1) - timeout_tick (tmr k r) < 0x7fffffff \<longleftrightarrow> remaining b k r \<le> 1"
proof -
  define x where "x = timeout_tick (tmr k r) - b"
  have d: "(b + 1) - timeout_tick (tmr k r) = 1 - x" by (simp add: x_def)
  have b: "unat x < 0x7fffffff" using assms by (simp add: remaining_def x_def)
  have u: "unat (1 - x) = (if unat x \<le> 1 then 1 - unat x else 1 + 2 ^ 32 - unat x)"
    using unat_sub_if_size [of 1 x] by (simp add: word_size)
  have "1 - x < 0x7fffffff \<longleftrightarrow> unat (1 - x) < 0x7fffffff" by (simp add: word_less_nat_alt)
  also have "\<dots> \<longleftrightarrow> unat x \<le> 1" unfolding u using b by auto
  finally show ?thesis by (simp add: d remaining_def flip: x_def)
qed

lemma check_ok:
  assumes "rt_timer_list k = l" "kinv k" "tinv_at b k" "rt_current_thread k = Some c" "rt_tick k = b + 1"
  defines "due \<equiv> {t. Thread_timer t \<in> set (takeWhile (\<lambda>r. remaining b k r \<le> 1) l)}"
  shows "\<exists>k' c'. rt_timer_check cb k = Some k' \<and> kinv k' \<and> tinv_at b k' \<and> rt_current_thread k' = Some c' \<and>
     rt_tick k' = rt_tick k \<and> rt_scheduler_lock_nest k' = rt_scheduler_lock_nest k \<and>
     rt_timer_list k' = dropWhile (\<lambda>r. remaining b k r \<le> 1) l \<and> (\<forall>r. remaining b k' r = remaining b k r) \<and>
     (\<forall>t\<in>due. awake k' t \<and> th_error (thr k' t) = - RT_ETIMEOUT) \<and> others_kept due k k'"
  unfolding due_def using assms(1-5)
proof (induction l arbitrary: k c)
  case Nil
  then have "rt_timer_check cb k = Some k" by (subst rt_timer_check.simps) simp
  with Nil show ?case by (simp add: others_kept_def)
next
  case (Cons r rs)
  have r: "remaining b k r < 0x7fffffff" "\<exists>t. r = Thread_timer t" "r \<notin> set rs" using Cons.prems(1,3) by (auto simp: tinv_at_def)
  have due: "rt_tick k - timeout_tick (tmr k r) < 0x7fffffff \<longleftrightarrow> remaining b k r \<le> 1"
    unfolding Cons.prems(5) by (rule timer_due_iff [OF r(1)])
  show ?case
  proof (cases "remaining b k r \<le> 1")
    case False
    then have "rt_timer_check cb k = Some k" using due Cons.prems(1) by (subst rt_timer_check.simps) simp
    with False Cons.prems show ?thesis by (simp add: others_kept_def)
  next
    case True
    obtain t where t: "r = Thread_timer t" using r(2) by blast
    obtain k1 c1 where k1: "timer_expire cb r k = Some k1" "kinv k1" "tinv_at b k1" "rt_current_thread k1 = Some c1" "rt_timer_list k1 = rs"
      "rt_tick k1 = rt_tick k" "rt_scheduler_lock_nest k1 = rt_scheduler_lock_nest k" "\<And>q. remaining b k1 q = remaining b k q"
      "awake k1 t" "th_error (thr k1 t) = - RT_ETIMEOUT" "others_kept {t} k k1"
      using expire_ok [OF Cons.prems(2-4), of t rs cb] Cons.prems(1) t by blast
    let ?d = "{u. Thread_timer u \<in> set (takeWhile (\<lambda>r. remaining b k r \<le> 1) rs)}"
    obtain k' c' where k': "rt_timer_check cb k1 = Some k'" "kinv k'" "tinv_at b k'" "rt_current_thread k' = Some c'"
      "rt_tick k' = rt_tick k1" "rt_scheduler_lock_nest k' = rt_scheduler_lock_nest k1"
      "rt_timer_list k' = dropWhile (\<lambda>r. remaining b k r \<le> 1) rs" "\<forall>q. remaining b k' q = remaining b k q"
      "\<forall>u\<in>?d. awake k' u \<and> th_error (thr k' u) = - RT_ETIMEOUT" "others_kept ?d k1 k'"
      using Cons.IH [OF k1(5,2,3,4)] k1(6) Cons.prems(5) unfolding k1(8) by auto
    have run: "rt_timer_check cb k = Some k'"
      using Cons.prems(1) due True k1(1) k'(1) by (subst rt_timer_check.simps) simp
    have d: "{u. Thread_timer u \<in> set (takeWhile (\<lambda>r. remaining b k r \<le> 1) (r # rs))} = insert t ?d" using True t by auto
    have "t \<notin> ?d" using r(3) t by (auto dest: set_takeWhileD)
    then have "awake k' t \<and> th_error (thr k' t) = - RT_ETIMEOUT" using k'(10) k1(9,10) by (simp add: others_kept_def)
    moreover have "others_kept (insert t ?d) k k'" using others_kept_trans [OF k1(11) k'(10)] by simp
    ultimately show ?thesis unfolding d using run k' k1 True by (intro exI [of _ k'] exI [of _ c']) auto
  qed
qed

lemma sorted_pred: "sorted xs \<Longrightarrow> sorted (map (\<lambda>n. n - 1 :: nat) xs)"
  by (induction xs) (auto intro: diff_le_mono)

lemma tinv_shift:
  assumes "tinv_at b k" "\<forall>r\<in>set (rt_timer_list k). 1 \<le> remaining b k r"
  shows "tinv_at (b + 1) k" "r \<in> set (rt_timer_list k) \<Longrightarrow> remaining (b + 1) k r = remaining b k r - 1"
proof -
  have rem: "remaining (b + 1) k r = remaining b k r - 1" if "r \<in> set (rt_timer_list k)" for r
  proof -
    have "unat (timeout_tick (tmr k r) - b) \<noteq> 0" using assms(2) that unfolding remaining_def by fastforce
    then have "timeout_tick (tmr k r) - b \<noteq> 0" by (simp only: unat_eq_0 not_False_eq_True)
    then have "unat ((timeout_tick (tmr k r) - b) - 1) = unat (timeout_tick (tmr k r) - b) - 1" by (rule unat_minus_one)
    then show ?thesis by (simp add: remaining_def diff_diff_eq)
  qed
  then show "r \<in> set (rt_timer_list k) \<Longrightarrow> remaining (b + 1) k r = remaining b k r - 1" .
  have "map (remaining (b + 1) k) (rt_timer_list k) = map (\<lambda>n. n - 1) (map (remaining b k) (rt_timer_list k))" using rem by simp
  then have srt: "sorted (map (remaining (b + 1) k) (rt_timer_list k))"
    using sorted_pred [of "map (remaining b k) (rt_timer_list k)"] assms(1) by (simp only: tinv_at_def)
  have bnd: "remaining (b + 1) k r < 0x7fffffff \<and> (\<exists>t. r = Thread_timer t \<and> th_stat k t = RT_THREAD_SUSPEND)"
    if "r \<in> set (rt_timer_list k)" for r
  proof -
    have "remaining b k r < 0x7fffffff" "\<exists>t. r = Thread_timer t \<and> th_stat k t = RT_THREAD_SUSPEND"
      using assms(1) that unfolding tinv_at_def by blast+
    with rem [OF that] show ?thesis by simp
  qed
  show "tinv_at (b + 1) k" using assms(1) srt bnd unfolding tinv_at_def by blast
qed

lemma yield_kinv:
  assumes "kinv k"
  shows "kinv (upd_thr t (\<lambda>th. th\<lparr>remaining_tick := f th, stat := stat th OR 8\<rparr>) k)"
    "th_stat (upd_thr t (\<lambda>th. th\<lparr>remaining_tick := f th, stat := stat th OR 8\<rparr>) k) = th_stat k"
proof -
  show st: "th_stat (upd_thr t (\<lambda>th. th\<lparr>remaining_tick := f th, stat := stat th OR 8\<rparr>) k) = th_stat k"
    by (rule ext) (simp add: th_stat_def)
  show "kinv (upd_thr t (\<lambda>th. th\<lparr>remaining_tick := f th, stat := stat th OR 8\<rparr>) k)"
    by (rule kinv_cong [OF assms _ _ _ _ _ st]) (simp_all add: th_ok_def rt_scheduler_stack_check_def)
qed

text \<open>One tick of the clock: the timers that have one tick left, or none, fire, the others come one tick nearer.\<close>

definition tick_effect :: "kernel \<Rightarrow> kernel \<Rightarrow> bool" where
  "tick_effect k k' \<longleftrightarrow> rt_tick k' = rt_tick k + 1 \<and>
     (\<forall>t. if Thread_timer t \<in> set (rt_timer_list k) then
            (if remaining (rt_tick k) k (Thread_timer t) \<le> 1
             then Thread_timer t \<notin> set (rt_timer_list k') \<and> awake k' t \<and> th_error (thr k' t) = - RT_ETIMEOUT
             else Thread_timer t \<in> set (rt_timer_list k') \<and> th_stat k' t = RT_THREAD_SUSPEND \<and> th_error (thr k' t) = th_error (thr k t) \<and>
               remaining (rt_tick k') k' (Thread_timer t) = remaining (rt_tick k) k (Thread_timer t) - 1)
          else Thread_timer t \<notin> set (rt_timer_list k') \<and> th_error (thr k' t) = th_error (thr k t) \<and>
            (awake k t \<longrightarrow> awake k' t) \<and> (\<not> awake k t \<longrightarrow> th_stat k' t = th_stat k t))"

lemma sorted_split:
  assumes "sorted (map f l)"
  shows "set (takeWhile (\<lambda>r. f r \<le> (n :: nat)) l) = {r \<in> set l. f r \<le> n}" "set (dropWhile (\<lambda>r. f r \<le> n) l) = {r \<in> set l. n < f r}"
  using assms by (induction l) (auto)

lemma tick_ok:
  assumes "kinv k" "tinv k" "rt_current_thread k = Some c"
  shows "\<exists>k' c'. rt_tick_increase cb k = Some k' \<and> kinv k' \<and> tinv k' \<and> rt_current_thread k' = Some c' \<and> tick_effect k k' \<and>
     rt_scheduler_lock_nest k' = rt_scheduler_lock_nest k"
proof -
  let ?b = "rt_tick k" and ?l = "rt_timer_list k"
  define k1 where "k1 = upd_thr c (\<lambda>th. th\<lparr>remaining_tick := remaining_tick th - 1\<rparr>) (k\<lparr>rt_tick := ?b + 1\<rparr>)"
  have st1: "th_stat k1 = th_stat k" by (rule ext) (simp add: th_stat_def k1_def)
  have 1: "kinv k1" by (rule kinv_cong [OF assms(1) _ _ _ _ _ st1]) (simp_all add: k1_def)
  have t1: "tinv_at ?b k1" using assms(2) by (rule tinv_threads) (simp_all add: st1 active_suspended [OF assms(2)], simp_all add: k1_def)
  have o1: "others_kept {} k k1" unfolding others_kept_def awake_def st1 by (simp add: k1_def)
  define k2 where "k2 = upd_thr c (\<lambda>th. th\<lparr>remaining_tick := init_tick th, stat := stat th OR 8\<rparr>) k1"
  have e1: "rt_current_thread k1 = Some c" "rt_timer_list k1 = ?l" "rt_tick k1 = ?b + 1" "tmr k1 = tmr k"
    "rt_scheduler_lock_nest k1 = rt_scheduler_lock_nest k" using assms(3) by (simp_all add: k1_def)
  obtain k3 c3 where k3: "(if remaining_tick (thr k1 c) = 0 then rt_schedule k2 else Some k1) = Some k3" "kinv k3" "tinv_at ?b k3"
    "rt_current_thread k3 = Some c3" "rt_timer_list k3 = ?l" "rt_tick k3 = ?b + 1" "tmr k3 = tmr k" "others_kept {} k k3"
    "rt_scheduler_lock_nest k3 = rt_scheduler_lock_nest k"
  proof (cases "remaining_tick (thr k1 c) = 0")
    case False
    with 1 t1 o1 e1 that [of k1 c] show ?thesis by simp
  next
    case True
    have 2: "kinv k2" "th_stat k2 = th_stat k1" unfolding k2_def by (rule yield_kinv [OF 1])+
    have e2: "rt_current_thread k2 = Some c" "rt_timer_list k2 = ?l" "rt_tick k2 = ?b + 1" "tmr k2 = tmr k"
      "rt_scheduler_lock_nest k2 = rt_scheduler_lock_nest k" using e1 by (simp_all add: k2_def)
    have t2: "tinv_at ?b k2" using t1 by (rule tinv_threads) (simp_all add: 2(2) active_suspended [OF t1], simp_all add: k2_def)
    have o2: "others_kept {} k1 k2" unfolding others_kept_def awake_def 2(2) by (simp add: k2_def)
    obtain k3 c3 where s: "rt_schedule k2 = Some k3" "kinv k3" "sched_frame k2 k3" "rt_current_thread k3 = Some c3"
      using schedule_any [OF 2(1) e2(1)] by blast
    have "others_kept {} k k3" using others_kept_trans [OF others_kept_trans [OF o1 o2] sched_others [OF s(3)]] by simp
    then show ?thesis using that [of k3 c3] True s tinv_sched [OF t2 s(3)] sched_frame_objects [OF s(3)] e2 by simp
  qed
  have rem3: "remaining ?b k3 r = remaining ?b k r" for r by (simp add: remaining_def k3(7))
  let ?due = "{t. Thread_timer t \<in> set (takeWhile (\<lambda>r. remaining ?b k r \<le> 1) ?l)}"
  obtain k' c' where k': "rt_timer_check cb k3 = Some k'" "kinv k'" "tinv_at ?b k'" "rt_current_thread k' = Some c'"
    "rt_tick k' = ?b + 1" "rt_scheduler_lock_nest k' = rt_scheduler_lock_nest k"
    "rt_timer_list k' = dropWhile (\<lambda>r. remaining ?b k r \<le> 1) ?l" "\<And>r. remaining ?b k' r = remaining ?b k r"
    "\<And>t. t \<in> ?due \<Longrightarrow> awake k' t \<and> th_error (thr k' t) = - RT_ETIMEOUT" "others_kept ?due k3 k'"
    using check_ok [OF k3(5,2,3,4,6), of cb] unfolding rem3 k3(6,9) by blast
  have srt: "sorted (map (remaining ?b k) ?l)" using assms(2) by (simp add: tinv_at_def)
  note sp = sorted_split [OF srt, of 1]
  have set': "set (rt_timer_list k') = {r \<in> set ?l. 1 < remaining ?b k r}" unfolding k'(7) by (rule sp(2))
  have due: "?due = {t. Thread_timer t \<in> set ?l \<and> remaining ?b k (Thread_timer t) \<le> 1}" unfolding sp(1) by simp
  have all: "\<forall>r\<in>set (rt_timer_list k'). 1 \<le> remaining ?b k' r" unfolding k'(8) set' by simp
  note sh = tinv_shift [OF k'(3) all]
  have ok: "others_kept ?due k k'" using others_kept_trans [OF k3(8) k'(10)] by simp
  have "tick_effect k k'"
    unfolding tick_effect_def
  proof (intro conjI allI)
    show "rt_tick k' = rt_tick k + 1" by (rule k'(5))
    fix t
    let ?r = "Thread_timer t"
    consider "?r \<in> set ?l" "remaining ?b k ?r \<le> 1" | "?r \<in> set ?l" "1 < remaining ?b k ?r" | "?r \<notin> set ?l" by linarith
    then show "if ?r \<in> set ?l then (if remaining ?b k ?r \<le> 1
             then ?r \<notin> set (rt_timer_list k') \<and> awake k' t \<and> th_error (thr k' t) = - RT_ETIMEOUT
             else ?r \<in> set (rt_timer_list k') \<and> th_stat k' t = RT_THREAD_SUSPEND \<and> th_error (thr k' t) = th_error (thr k t) \<and>
               remaining (rt_tick k') k' ?r = remaining ?b k ?r - 1)
          else ?r \<notin> set (rt_timer_list k') \<and> th_error (thr k' t) = th_error (thr k t) \<and>
            (awake k t \<longrightarrow> awake k' t) \<and> (\<not> awake k t \<longrightarrow> th_stat k' t = th_stat k t)"
    proof cases
      case 1
      then have "t \<in> ?due" unfolding due by simp
      with k'(9) 1 show ?thesis by (simp add: set')
    next
      case 2
      then have nd: "t \<notin> ?due" unfolding due by simp
      moreover have "th_stat k t = RT_THREAD_SUSPEND" by (rule active_suspended [OF assms(2) 2(1)])
      ultimately have "th_stat k' t = RT_THREAD_SUSPEND" by (rule others_keptD [OF ok])
      moreover have "th_error (thr k' t) = th_error (thr k t)" using ok nd unfolding others_kept_def by blast
      moreover have "?r \<in> set (rt_timer_list k')" using 2 by (simp add: set')
      moreover from this have "remaining (rt_tick k') k' ?r = remaining ?b k ?r - 1" using sh(2) k'(5,8) by simp
      ultimately show ?thesis using 2 by simp
    next
      case 3
      then have "t \<notin> ?due" unfolding due by simp
      with ok have "th_error (thr k' t) = th_error (thr k t) \<and> (awake k t \<longrightarrow> awake k' t) \<and> (\<not> awake k t \<longrightarrow> th_stat k' t = th_stat k t)"
        unfolding others_kept_def by blast
      with 3 show ?thesis by (simp add: set')
    qed
  qed
  moreover have "tinv k'" using sh(1) by (simp add: k'(5))
  moreover have "rt_tick_increase cb k = Some k'"
  proof -
    have "rt_tick_increase cb k = Option.bind (if remaining_tick (thr k1 c) = 0 then rt_schedule k2 else Some k1) (rt_timer_check cb)"
      using assms(3) by (simp add: rt_tick_increase_def Let_def k2_def k1_def)
    then show ?thesis by (simp only: k3(1) k'(1) Option.bind.bind_lunit)
  qed
  ultimately show ?thesis using k'(2,4,6) by blast
qed

fun ticks :: "(nat \<Rightarrow> kernel \<Rightarrow> kernel option) \<Rightarrow> nat \<Rightarrow> kernel \<Rightarrow> kernel option" where
  "ticks cb 0 k = Some k"
| "ticks cb (Suc n) k = Option.bind (ticks cb n k) (rt_tick_increase cb)"

lemma sleep_ok:
  assumes "kinv k" "tinv k" "rt_current_thread k = Some c" "th_stat k c \<in> {RT_THREAD_RUNNING, RT_THREAD_SUSPEND}" "n < 0x7fffffff"
  shows "\<exists>k' c'. rt_thread_sleep n k = Some k' \<and> kinv k' \<and> tinv k' \<and> rt_current_thread k' = Some c' \<and>
     th_stat k' c = RT_THREAD_SUSPEND \<and> Thread_timer c \<in> set (rt_timer_list k') \<and>
     remaining (rt_tick k') k' (Thread_timer c) = unat n \<and> others_kept {c} k k' \<and>
     (rt_scheduler_lock_nest k = 0 \<and> (\<exists>u. th_stat k u = RT_THREAD_READY) \<longrightarrow> c' \<noteq> c \<and> th_stat k' c' = RT_THREAD_RUNNING)"
proof -
  let ?r = "Thread_timer c"
  obtain e k1 where k1: "rt_thread_suspend c k = Some (e, k1)" "kinv k1" "tinv k1" "th_stat k1 c = RT_THREAD_SUSPEND"
    "\<And>u. u \<noteq> c \<Longrightarrow> thr k1 u = thr k u" "rt_current_thread k1 = Some c" "rt_scheduler_lock_nest k1 = rt_scheduler_lock_nest k"
  proof (cases "th_stat k c = RT_THREAD_RUNNING")
    case True
    then obtain k1 where k1: "rt_thread_suspend c k = Some (RT_EOK, k1)" "kinv k1" "tinv k1"
      "thr k1 = (thr k)(c := set_stat RT_THREAD_SUSPEND (thr k c))" "rt_current_thread k1 = rt_current_thread k"
      "rt_scheduler_lock_nest k1 = rt_scheduler_lock_nest k" using suspend_ok [OF assms(1,2), of c] by auto
    have "th_stat k1 c = RT_THREAD_SUSPEND" unfolding th_stat_def k1(4) fun_upd_same by (rule set_stat_bits) simp
    with k1 assms(3) that [of RT_EOK k1] show ?thesis by simp
  next
    case False
    with assms that [of "- RT_ERROR" k] show ?thesis by (simp add: rt_thread_suspend_def)
  qed
  define k2 where "k2 = snd (rt_timer_control ?r (RT_TIMER_CTRL_SET_TIME n) k1)"
  have s12: "same_threads k1 k2" by (simp add: k2_def same_threads_def)
  have rem2: "remaining (rt_tick k1) k2 = remaining (rt_tick k1) k1" by (rule ext) (simp add: remaining_def k2_def)
  have t2: "tinv k2"
    using k1(3) same_threadsD(1) [OF s12] rem2 by (auto simp: tinv_at_def) (auto simp: k2_def split: if_splits)
  have "th_stat k2 c = RT_THREAD_SUSPEND" using same_threadsD(1) [OF s12] k1(4) by simp
  moreover have "tm_init_tick (tmr k2 ?r) = n" by (simp add: k2_def)
  ultimately obtain k3 where k3: "rt_timer_start ?r k2 = Some (RT_EOK, k3)" "tinv k3" "same_threads k2 k3" "?r \<in> set (rt_timer_list k3)"
    "remaining (rt_tick k2) k3 ?r = unat n" using timer_start_ok [OF t2, of c] assms(5) by auto
  have s13: "same_threads k1 k3" using s12 k3(3) by (simp add: same_threads_def)
  have 3: "kinv k3" "rt_current_thread k3 = Some c" "th_stat k3 = th_stat k1" "rt_tick k3 = rt_tick k2"
    "rt_scheduler_lock_nest k3 = rt_scheduler_lock_nest k"
    using same_threadsD [OF s13] s13 k3(3) k1(2,6,7) by (simp_all add: same_threads_def)
  obtain k' c' where k': "rt_schedule k3 = Some k'" "kinv k'" "sched_frame k3 k'" "rt_current_thread k' = Some c'"
    using schedule_any [OF 3(1,2)] by blast
  have sus: "th_stat k' c = RT_THREAD_SUSPEND" using sched_frame_suspended(2) [OF k'(3), of c] 3(3) k1(4) by simp
  have fr: "tmr k' = tmr k3" "rt_timer_list k' = rt_timer_list k3" "rt_tick k' = rt_tick k3" using sched_frame_objects [OF k'(3)] by auto
  have rem: "remaining (rt_tick k') k' ?r = unat n" using k3(5) by (simp add: remaining_def fr 3(4))
  have "others_kept {c} k k3"
    unfolding others_kept_def awake_def 3(3) using k1(5) s13 by (auto simp: th_stat_def same_threads_def)
  then have ok: "others_kept {c} k k'" using others_kept_trans [OF _ sched_others [OF k'(3)]] by simp
  have sw: "c' \<noteq> c \<and> th_stat k' c' = RT_THREAD_RUNNING" if lk: "rt_scheduler_lock_nest k = 0" "th_stat k u = RT_THREAD_READY" for u
  proof -
    have "u \<noteq> c" using lk(2) assms(4) by auto
    then have "th_stat k3 u = RT_THREAD_READY" using lk(2) k1(5) by (simp add: 3(3) th_stat_def)
    moreover have l3: "klists {} k3" using 3(1) by (simp add: kinv_def)
    ultimately have p: "current_priority (thr k3 u) < 32" "rt_thread_priority_table k3 ! current_priority (thr k3 u) \<noteq> []"
      using klistsD(5) [OF l3, of u] klistsD(4) [OF l3, of "current_priority (thr k3 u)" u] by (auto simp: th_ok_def)
    then have "bit (rt_thread_ready_priority_group k3) (current_priority (thr k3 u))" using klistsD(2) [OF l3] by blast
    then have "rt_thread_ready_priority_group k3 \<noteq> 0" by auto
    then have "th_stat k' c' = RT_THREAD_RUNNING" using schedule_ok [OF 3(1,2)] lk(1) 3(5) k'(1,4) by auto
    with sus show ?thesis by auto
  qed
  have "rt_thread_sleep n k = Some k'"
    using assms(3) k1(1) k3(1) k'(1) by (simp add: rt_thread_sleep_def k2_def)
  moreover have "tinv k'" using tinv_sched [OF k3(2) k'(3)] fr(3) by simp
  ultimately show ?thesis using k'(2,4) sus rem ok sw k3(4) fr(2) by (intro exI [of _ k'] exI [of _ c']) auto
qed

lemma ticks_ok:
  assumes "kinv k" "tinv k" "rt_current_thread k = Some c0" "Thread_timer t \<in> set (rt_timer_list k)"
  shows "\<exists>k' c'. ticks cb m k = Some k' \<and> kinv k' \<and> tinv k' \<and> rt_current_thread k' = Some c' \<and>
     (if m < max 1 (remaining (rt_tick k) k (Thread_timer t))
      then Thread_timer t \<in> set (rt_timer_list k') \<and> th_stat k' t = RT_THREAD_SUSPEND \<and>
        remaining (rt_tick k') k' (Thread_timer t) = remaining (rt_tick k) k (Thread_timer t) - m
      else Thread_timer t \<notin> set (rt_timer_list k') \<and> awake k' t \<and> th_error (thr k' t) = - RT_ETIMEOUT)"
proof (induction m)
  case 0
  then show ?case using assms active_suspended [OF assms(2,4)] by simp
next
  case (Suc m)
  let ?n = "remaining (rt_tick k) k (Thread_timer t)"
  from Suc obtain k1 c1 where k1: "ticks cb m k = Some k1" "kinv k1" "tinv k1" "rt_current_thread k1 = Some c1"
    "if m < max 1 ?n then Thread_timer t \<in> set (rt_timer_list k1) \<and> th_stat k1 t = RT_THREAD_SUSPEND \<and>
        remaining (rt_tick k1) k1 (Thread_timer t) = ?n - m
      else Thread_timer t \<notin> set (rt_timer_list k1) \<and> awake k1 t \<and> th_error (thr k1 t) = - RT_ETIMEOUT" by blast
  obtain k' c' where k': "rt_tick_increase cb k1 = Some k'" "kinv k'" "tinv k'" "rt_current_thread k' = Some c'" "tick_effect k1 k'"
    using tick_ok [OF k1(2-4)] by blast
  have e: "if Thread_timer t \<in> set (rt_timer_list k1) then
            (if remaining (rt_tick k1) k1 (Thread_timer t) \<le> 1
             then Thread_timer t \<notin> set (rt_timer_list k') \<and> awake k' t \<and> th_error (thr k' t) = - RT_ETIMEOUT
             else Thread_timer t \<in> set (rt_timer_list k') \<and> th_stat k' t = RT_THREAD_SUSPEND \<and> th_error (thr k' t) = th_error (thr k1 t) \<and>
               remaining (rt_tick k') k' (Thread_timer t) = remaining (rt_tick k1) k1 (Thread_timer t) - 1)
          else Thread_timer t \<notin> set (rt_timer_list k') \<and> th_error (thr k' t) = th_error (thr k1 t) \<and>
            (awake k1 t \<longrightarrow> awake k' t) \<and> (\<not> awake k1 t \<longrightarrow> th_stat k' t = th_stat k1 t)"
    using k'(5) unfolding tick_effect_def by blast
  have "if Suc m < max 1 ?n then Thread_timer t \<in> set (rt_timer_list k') \<and> th_stat k' t = RT_THREAD_SUSPEND \<and>
        remaining (rt_tick k') k' (Thread_timer t) = ?n - Suc m
      else Thread_timer t \<notin> set (rt_timer_list k') \<and> awake k' t \<and> th_error (thr k' t) = - RT_ETIMEOUT"
    using e k1(5) by (cases "m < max 1 ?n"; cases "?n - m \<le> 1") auto
  with k1(1) k' show ?case by (intro exI [of _ k'] exI [of _ c']) simp
qed

end
