(* ===== verification/Kernel_Calls.thy ===== *)
theory Kernel_Calls
  imports Kernel_Timer
begin

text \<open>
  The kernel in use: starting, closing and changing threads, the start of the system, and every sequence of calls
  and clock ticks. \<open>kernel_step\<close> is the step relation of permitted calls; the locale \<open>step_system\<close> carries the
  invariant \<open>kgood\<close> along it.
\<close>

section \<open>Starting and closing threads\<close>

lemma kcur_upd:
  assumes "kcur k" "rt_current_thread k' = rt_current_thread k" "\<And>u. th_stat k' u = (if u = t then s else th_stat k u)"
    "s \<noteq> RT_THREAD_READY" "s = RT_THREAD_RUNNING \<Longrightarrow> rt_current_thread k = Some t"
  shows "kcur k'"
  unfolding kcur_def assms(2)
proof (intro conjI allI impI)
  show "rt_current_thread k = Some u" if "th_stat k' u = RT_THREAD_RUNNING" for u
    using that assms(1,5) by (cases "u = t") (simp_all add: assms(3) kcur_def)
  show "th_stat k' d \<noteq> RT_THREAD_READY" if "rt_current_thread k = Some d" for d
    using that assms(1,4) by (cases "d = t") (simp_all add: assms(3) kcur_def)
qed

lemma startup_ok:
  assumes "kinv k" "tinv k" "th_stat k t = RT_THREAD_INIT" "init_priority (thr k t) < 32" "rt_scheduler_stack_check (thr k t)"
  shows "\<exists>k'. rt_thread_startup t k = Some (RT_EOK, k') \<and> kinv k' \<and> tinv k' \<and> awake k' t \<and> others_kept {t} k k' \<and>
     (rt_current_thread k' = None \<longleftrightarrow> rt_current_thread k = None) \<and> rt_scheduler_lock_nest k' = rt_scheduler_lock_nest k \<and>
     (rt_current_thread k = None \<longrightarrow> thr k' = (thr k)(t := (thr k t)\<lparr>current_priority := init_priority (thr k t),
        number_mask := push_bit (init_priority (thr k t)) 1, stat := RT_THREAD_READY\<rparr>))"
proof -
  have l: "klists {} k" and c: "kcur k" using assms(1) by (simp_all add: kinv_def)
  define f where "f th = th\<lparr>current_priority := init_priority th, number_mask := push_bit (init_priority th) 1, stat := RT_THREAD_SUSPEND\<rparr>" for th :: rt_thread
  define k1 where "k1 = upd_thr t f k"
  have st: "th_stat k1 u = (if u = t then RT_THREAD_SUSPEND else th_stat k u)" for u by (simp add: th_stat_def k1_def f_def)
  have ok: "th_ok (f (thr k t))"
    using assms(4,5) by (simp add: th_ok_def f_def rt_scheduler_stack_check_def push_bit_eq_mult)
  have "\<not> linked t k" using assms(3) by (intro klists_off_unlinked [OF l]) simp
  then have "klists {t} k" by (rule klists_off [OF l])
  then have "klists {} k1" unfolding k1_def by (rule klists_settle) (use ok in \<open>simp_all add: f_def\<close>)
  moreover have "kcur k1" by (rule kcur_upd [OF c _ st]) (simp_all add: k1_def)
  ultimately have 1: "kinv k1" by (simp add: kinv_def)
  have "tinv_at (rt_tick k) k1" using assms(2)
    by (rule tinv_threads) (use active_suspended [OF assms(2)] in \<open>simp_all add: st\<close>, simp_all add: k1_def)
  then have t1: "tinv k1" by (simp add: k1_def)
  have s1: "th_stat k1 t = RT_THREAD_SUSPEND" by (simp add: st)
  obtain k2 where k2: "rt_thread_resume t k1 = Some (RT_EOK, k2)" "kinv k2" "tinv k2"
    "th_stat k2 t = (if rt_current_thread k1 = Some t then RT_THREAD_RUNNING else RT_THREAD_READY)"
    "\<And>u. u \<noteq> t \<Longrightarrow> thr k2 u = thr k1 u" "rt_current_thread k2 = rt_current_thread k1"
    "rt_scheduler_lock_nest k2 = rt_scheduler_lock_nest k1"
    "thr k2 = (thr k1)(t := set_stat (if rt_current_thread k1 = Some t then RT_THREAD_RUNNING else RT_THREAD_READY) (thr k1 t))"
    using resume_ok [OF 1 t1 s1] by blast
  have o2: "others_kept {t} k k2"
    unfolding others_kept_def awake_def th_stat_def using k2(5) by (simp add: k1_def)
  have a2: "awake k2 t" using k2(4) by (simp add: awake_def)
  have run: "rt_thread_startup t k = map_option (Pair RT_EOK) (if rt_current_thread k2 \<noteq> None then rt_schedule k2 else Some k2)"
  proof -
    have fe: "(\<lambda>th. th\<lparr>current_priority := init_priority th, number_mask := push_bit (init_priority th) 1, stat := RT_THREAD_SUSPEND\<rparr>) = f"
      by (rule ext) (simp only: f_def)
    have "Option.bind X (\<lambda>y. Some (RT_EOK, y)) = map_option (Pair RT_EOK) X" for X :: "kernel option" by (cases X) simp_all
    then show ?thesis unfolding rt_thread_startup_def fe k1_def [symmetric] k2(1) using assms(3) by simp
  qed
  show ?thesis
  proof (cases "rt_current_thread k2")
    case None
    have e: "thr k2 = (thr k)(t := (thr k t)\<lparr>current_priority := init_priority (thr k t),
        number_mask := push_bit (init_priority (thr k t)) 1, stat := RT_THREAD_READY\<rparr>)"
      using None k2(6) by (simp add: k2(8) k1_def f_def set_stat_def)
    show ?thesis using run None k2(2,3,6,7) o2 a2 by (simp add: k1_def e)
  next
    case (Some d)
    then obtain k' c' where k': "rt_schedule k2 = Some k'" "kinv k'" "sched_frame k2 k'" "rt_current_thread k' = Some c'"
      using schedule_any [OF k2(2)] by blast
    have so: "others_kept {} k2 k'" by (rule sched_others [OF k'(3)])
    then have "awake k' t" using a2 by (simp add: others_kept_def)
    moreover have "others_kept {t} k k'" using others_kept_trans [OF o2 so] by simp
    moreover have "tinv k'" using tinv_sched [OF k2(3) k'(3)] sched_frame_objects(5) [OF k'(3)] by simp
    ultimately show ?thesis using run Some k' k2(6,7) sched_frame_objects(7) [OF k'(3)] by (simp add: k1_def)
  qed
qed

text \<open>Closing a thread: its lists and its timer let it go.\<close>

lemma defunct_klists:
  assumes "klists {t} k" "th_stat k t = RT_THREAD_CLOSE"
  shows "\<exists>k'. defunct_insert t k = Some k' \<and> klists {} k' \<and> thr k' = thr k \<and> rt_current_thread k' = rt_current_thread k \<and>
     tmr k' = tmr k \<and> rt_timer_list k' = rt_timer_list k \<and> rt_timer_tmp k' = rt_timer_tmp k \<and> rt_soft_timer_list k' = rt_soft_timer_list k \<and>
     rt_tick k' = rt_tick k \<and> rt_scheduler_lock_nest k' = rt_scheduler_lock_nest k"
proof -
  have un: "\<not> linked t k" using assms(1) by (intro klists_off_unlinked) auto
  let ?k' = "k\<lparr>rt_thread_defunct := t # rt_thread_defunct k\<rparr>"
  have st: "th_stat ?k' = th_stat k" by (rule th_stat_cong) simp
  have 0: "klists {} k" using assms(2) by (intro klists_back [OF assms(1)]) simp_all
  have "t \<notin> set (rt_thread_defunct k)" using un by (simp add: linked_def)
  then have "klists {} ?k'" using 0 assms(2) unfolding klists_def st by simp
  with un show ?thesis by (simp add: defunct_insert_def)
qed

lemma close_ok:
  assumes "kinv k" "tinv k" "th_stat k t \<in> insert RT_THREAD_INIT live_stats"
  shows "\<exists>k1 k'. (if th_stat k t \<noteq> RT_THREAD_INIT then rt_schedule_remove_thread t k else Some k) = Some k1 \<and>
     (if static then Some (upd_thr t (\<lambda>th. th\<lparr>stat := RT_THREAD_CLOSE\<rparr>) (rt_timer_detach (Thread_timer t) k1))
      else defunct_insert t (upd_thr t (\<lambda>th. th\<lparr>stat := RT_THREAD_CLOSE\<rparr>) (rt_timer_detach (Thread_timer t) k1))) = Some k' \<and>
     kinv k' \<and> tinv k' \<and> th_stat k' t = RT_THREAD_CLOSE \<and> others_kept {t} k k' \<and> rt_current_thread k' = rt_current_thread k \<and>
     rt_scheduler_lock_nest k' = rt_scheduler_lock_nest k"
proof -
  have l: "klists {} k" and c: "kcur k" using assms(1) by (simp_all add: kinv_def)
  obtain k1 where k1: "(if th_stat k t \<noteq> RT_THREAD_INIT then rt_schedule_remove_thread t k else Some k) = Some k1" "klists {t} k1"
    "thr k1 = thr k" "rt_current_thread k1 = rt_current_thread k" "tmr k1 = tmr k" "rt_timer_list k1 = rt_timer_list k"
    "rt_timer_tmp k1 = rt_timer_tmp k" "rt_soft_timer_list k1 = rt_soft_timer_list k" "rt_tick k1 = rt_tick k"
    "rt_scheduler_lock_nest k1 = rt_scheduler_lock_nest k"
  proof (cases "th_stat k t = RT_THREAD_INIT")
    case True
    then have "\<not> linked t k" by (intro klists_off_unlinked [OF l]) simp
    then have "klists {t} k" by (rule klists_off [OF l])
    with True that [of k] show ?thesis by simp
  next
    case False
    then have "th_ok (thr k t)" using assms(3) klistsD(5) [OF l, of t] by auto
    from remove_klists [OF l this] obtain G where
      "rt_schedule_remove_thread t k = Some (rt_list_remove t k\<lparr>rt_thread_ready_priority_group := G\<rparr>)"
      "klists {t} (rt_list_remove t k\<lparr>rt_thread_ready_priority_group := G\<rparr>)" by blast
    with False that [of "rt_list_remove t k\<lparr>rt_thread_ready_priority_group := G\<rparr>"] show ?thesis by simp
  qed
  have st1: "th_stat k1 = th_stat k" by (rule th_stat_cong) (rule k1(3))
  have t1: "tinv_at (rt_tick k) k1" using assms(2) by (rule tinv_threads) (use k1 active_suspended [OF assms(2)] in \<open>simp_all add: st1\<close>)
  define k2 where "k2 = rt_timer_detach (Thread_timer t) k1"
  have s2: "same_threads k1 k2" by (simp add: same_threads_def k2_def rt_timer_detach_def timer_deactivate_def)
  have t2: "tinv_at (rt_tick k) k2" unfolding k2_def rt_timer_detach_def by (rule timer_off(1) [OF t1])
  have n2: "Thread_timer t \<notin> set (rt_timer_list k2)" by (simp add: k2_def rt_timer_detach_def timer_deactivate_def)
  define k3 where "k3 = upd_thr t (\<lambda>th. th\<lparr>stat := RT_THREAD_CLOSE\<rparr>) k2"
  have thr2: "thr k2 = thr k" using s2 k1(3) by (simp add: same_threads_def)
  have st3: "th_stat k3 u = (if u = t then RT_THREAD_CLOSE else th_stat k u)" for u by (simp add: th_stat_def k3_def thr2)
  have l3: "klists {t} k3" unfolding k3_def by (rule klists_upd_off) (use k1(2) same_threadsD(2) [OF s2] in simp)
  have cur3: "rt_current_thread k3 = rt_current_thread k" "rt_scheduler_lock_nest k3 = rt_scheduler_lock_nest k" "rt_tick k3 = rt_tick k"
    using s2 k1 by (simp_all add: same_threads_def k3_def)
  have t3: "tinv_at (rt_tick k) k3" using t2
  proof (rule tinv_threads)
    show "th_stat k3 u = RT_THREAD_SUSPEND" if u: "Thread_timer u \<in> set (rt_timer_list k2)" for u
    proof -
      have "u \<noteq> t" using n2 u by auto
      moreover have "th_stat k u = RT_THREAD_SUSPEND" using active_suspended [OF t2 u] by (simp add: th_stat_def thr2)
      ultimately show ?thesis by (simp add: st3)
    qed
  qed (simp_all add: k3_def)
  obtain k' where k': "(if static then Some k3 else defunct_insert t k3) = Some k'" "klists {} k'" "thr k' = thr k3"
    "rt_current_thread k' = rt_current_thread k" "tinv_at (rt_tick k) k'" "rt_tick k' = rt_tick k"
    "rt_scheduler_lock_nest k' = rt_scheduler_lock_nest k"
  proof (cases static)
    case True
    have "klists {} k3" by (rule klists_back [OF l3]) (simp_all add: st3)
    with True that [of k3] t3 cur3 show ?thesis by simp
  next
    case False
    obtain k4 where k4: "defunct_insert t k3 = Some k4" "klists {} k4" "thr k4 = thr k3" "rt_current_thread k4 = rt_current_thread k3"
      "tmr k4 = tmr k3" "rt_timer_list k4 = rt_timer_list k3" "rt_timer_tmp k4 = rt_timer_tmp k3" "rt_soft_timer_list k4 = rt_soft_timer_list k3"
      "rt_tick k4 = rt_tick k3" "rt_scheduler_lock_nest k4 = rt_scheduler_lock_nest k3"
      using defunct_klists [OF l3] by (auto simp: st3)
    have "tinv_at (rt_tick k) k4"
      using t3 by (rule tinv_threads) (use k4 active_suspended [OF t3] in \<open>simp_all add: th_stat_def\<close>)
    with False k4 that [of k4] cur3 show ?thesis by simp
  qed
  have st': "th_stat k' u = (if u = t then RT_THREAD_CLOSE else th_stat k u)" for u using st3 by (simp add: th_stat_def k'(3))
  have "kcur k'" by (rule kcur_upd [OF c k'(4) st']) simp_all
  with k'(2) have "kinv k'" by (simp add: kinv_def)
  moreover have "others_kept {t} k k'"
    unfolding others_kept_def awake_def by (simp add: st') (simp add: k'(3) k3_def thr2)
  moreover have "(if static then Some (upd_thr t (\<lambda>th. th\<lparr>stat := RT_THREAD_CLOSE\<rparr>) (rt_timer_detach (Thread_timer t) k1))
      else defunct_insert t (upd_thr t (\<lambda>th. th\<lparr>stat := RT_THREAD_CLOSE\<rparr>) (rt_timer_detach (Thread_timer t) k1))) = Some k'"
    using k'(1) by (simp only: k3_def k2_def)
  moreover have "tinv k'" "th_stat k' t = RT_THREAD_CLOSE" using k'(5,6) st' by simp_all
  ultimately show ?thesis using k1(1) k'(4,7) by blast
qed

lemma detach_commute: "rt_timer_detach r (upd_thr t f k) = upd_thr t f (rt_timer_detach r k)"
  by (simp add: rt_timer_detach_def timer_deactivate_def timer_remove_def upd_tmr_def upd_thr_def)

lemma exit_ok:
  assumes "kinv k" "tinv k" "rt_current_thread k = Some c" "th_stat k c \<in> live_stats"
  shows "\<exists>k' c'. rt_thread_exit k = Some k' \<and> kinv k' \<and> tinv k' \<and> rt_current_thread k' = Some c' \<and> th_stat k' c = RT_THREAD_CLOSE"
proof -
  let ?s = "systemobject (thr k c)"
  obtain k1 k2 where k1: "rt_schedule_remove_thread c k = Some k1"
    and k2: "(if ?s then Some (upd_thr c (\<lambda>th. th\<lparr>stat := RT_THREAD_CLOSE\<rparr>) (rt_timer_detach (Thread_timer c) k1))
      else defunct_insert c (upd_thr c (\<lambda>th. th\<lparr>stat := RT_THREAD_CLOSE\<rparr>) (rt_timer_detach (Thread_timer c) k1))) = Some k2"
      "kinv k2" "tinv k2" "th_stat k2 c = RT_THREAD_CLOSE" "rt_current_thread k2 = Some c"
    using close_ok [OF assms(1,2), of c ?s] assms(3,4) by auto
  have thr1: "thr k1 = thr k"
    using k1 by (auto simp: rt_schedule_remove_thread_def Let_def split: if_splits)
  then have "systemobject (thr (upd_thr c (\<lambda>th. th\<lparr>stat := RT_THREAD_CLOSE\<rparr>) (rt_timer_detach (Thread_timer c) k1)) c) = ?s"
    by (simp add: rt_timer_detach_def timer_deactivate_def)
  then have run: "rt_thread_exit k = rt_schedule k2"
    using assms(3) k1 k2(1) by (simp add: rt_thread_exit_def detach_commute)
  obtain k' c' where k': "rt_schedule k2 = Some k'" "kinv k'" "sched_frame k2 k'" "rt_current_thread k' = Some c'"
    using schedule_any [OF k2(2,5)] by blast
  have "tinv k'" using tinv_sched [OF k2(3) k'(3)] sched_frame_objects(5) [OF k'(3)] by simp
  moreover have "th_stat k' c = RT_THREAD_CLOSE" using sched_frame_suspended(2) [OF k'(3), of c] k2(4) by simp
  ultimately show ?thesis using run k' by auto
qed

lemma thread_close_ok:
  assumes "kinv k" "tinv k" "th_stat k t \<in> insert RT_THREAD_CLOSE (insert RT_THREAD_INIT live_stats)"
  shows "\<exists>k'. thread_close static t k = Some (RT_EOK, k') \<and> kinv k' \<and> tinv k' \<and> th_stat k' t = RT_THREAD_CLOSE \<and>
     rt_current_thread k' = rt_current_thread k"
proof (cases "th_stat k t = RT_THREAD_CLOSE")
  case True
  with assms show ?thesis by (simp add: thread_close_def)
next
  case False
  with assms(3) have "th_stat k t \<in> insert RT_THREAD_INIT live_stats" by blast
  from close_ok [OF assms(1,2) this, of static] obtain k1 k' where
    k1: "(if th_stat k t \<noteq> RT_THREAD_INIT then rt_schedule_remove_thread t k else Some k) = Some k1"
    and k': "(if static then Some (upd_thr t (\<lambda>th. th\<lparr>stat := RT_THREAD_CLOSE\<rparr>) (rt_timer_detach (Thread_timer t) k1))
      else defunct_insert t (upd_thr t (\<lambda>th. th\<lparr>stat := RT_THREAD_CLOSE\<rparr>) (rt_timer_detach (Thread_timer t) k1))) = Some k'"
      "kinv k'" "tinv k'" "th_stat k' t = RT_THREAD_CLOSE" "rt_current_thread k' = rt_current_thread k" by blast
  have "thread_close static t k = Some (RT_EOK, k')"
    unfolding thread_close_def k1 using False k'(1) by simp
  with k' show ?thesis by blast
qed

lemma klists_priority:
  assumes "klists {} k" "th_stat k t \<noteq> RT_THREAD_READY" "p < 32"
  shows "klists {} (upd_thr t (change_priority p) k)"
proof -
  let ?k = "upd_thr t (change_priority p) k"
  have st: "th_stat ?k = th_stat k" by (rule ext) (simp add: th_stat_def change_priority_def)
  have mem: "u \<in> set (rt_thread_priority_table k ! q) \<longleftrightarrow> th_stat k u = RT_THREAD_READY \<and> current_priority (thr ?k u) = q" if "q < 32" for q u
    using klistsD(4) [OF assms(1) that, of u] assms(2) by (cases "u = t") auto
  have ok: "th_ok (thr ?k u)" if "th_stat k u \<in> live_stats" for u
    using klistsD(5) [OF assms(1), of u] that assms(3)
    by (cases "u = t") (simp_all add: th_ok_def change_priority_def rt_scheduler_stack_check_def push_bit_eq_mult)
  show ?thesis using assms(1) mem ok unfolding klists_def st by simp
qed

lemma priority_ok:
  assumes "kinv k" "tinv k" "p < 32"
  shows "\<exists>k'. rt_thread_control t (RT_THREAD_CTRL_CHANGE_PRIORITY p) k = Some (RT_EOK, k') \<and> kinv k' \<and> tinv k' \<and>
     th_stat k' = th_stat k \<and> rt_current_thread k' = rt_current_thread k \<and> current_priority (thr k' t) = p"
proof (cases "th_stat k t = RT_THREAD_READY")
  case False
  have l: "klists {} k" and c: "kcur k" using assms(1) by (simp_all add: kinv_def)
  let ?k = "upd_thr t (change_priority p) k"
  have st: "th_stat ?k = th_stat k" by (rule ext) (simp add: th_stat_def change_priority_def)
  have "kinv ?k" using klists_priority [OF l False assms(3)] c by (simp add: kinv_def kcur_def st)
  moreover have "tinv_at (rt_tick k) ?k" using assms(2) by (rule tinv_threads) (simp_all add: st active_suspended [OF assms(2)])
  ultimately show ?thesis using False st by (simp add: change_priority_def)
next
  case True
  have l: "klists {} k" and c: "kcur k" using assms(1) by (simp_all add: kinv_def)
  have ok: "th_ok (thr k t)" using klistsD(5) [OF l, of t] True by simp
  obtain G where G: "rt_schedule_remove_thread t k = Some (rt_list_remove t k\<lparr>rt_thread_ready_priority_group := G\<rparr>)"
    "klists {t} (rt_list_remove t k\<lparr>rt_thread_ready_priority_group := G\<rparr>)" using remove_klists [OF l ok] by blast
  define k1 where "k1 = rt_list_remove t k\<lparr>rt_thread_ready_priority_group := G\<rparr>"
  define k2 where "k2 = upd_thr t (change_priority p) k1"
  have 2: "klists {t} k2" unfolding k2_def by (rule klists_upd_off) (use G(2) in \<open>simp add: k1_def\<close>)
  have e: "thr k2 = (thr k)(t := change_priority p (thr k t))" "rt_current_thread k2 = rt_current_thread k" "tmr k2 = tmr k"
    "rt_timer_list k2 = rt_timer_list k" "rt_timer_tmp k2 = rt_timer_tmp k" "rt_soft_timer_list k2 = rt_soft_timer_list k" "rt_tick k2 = rt_tick k"
    by (simp_all add: k2_def k1_def)
  have nc: "rt_current_thread k2 \<noteq> Some t" using c True e(2) by (auto simp: kcur_def)
  have "th_ok (thr k2 t)"
    using ok assms(3) by (simp add: e th_ok_def change_priority_def rt_scheduler_stack_check_def push_bit_eq_mult)
  from insert_any [OF 2 this] obtain k' where k': "rt_schedule_insert_thread t k2 = Some k'" "klists {} k'"
    "thr k' = (thr k2)(t := set_stat (if rt_current_thread k2 = Some t then RT_THREAD_RUNNING else RT_THREAD_READY) (thr k2 t))"
    "rt_current_thread k' = rt_current_thread k2" "rt_tick k' = rt_tick k2" "tmr k' = tmr k2" "rt_timer_list k' = rt_timer_list k2"
    "rt_timer_tmp k' = rt_timer_tmp k2" "rt_soft_timer_list k' = rt_soft_timer_list k2" by blast
  have s7: "stat (set_stat RT_THREAD_READY (thr k2 t)) AND 7 = RT_THREAD_READY" by (rule set_stat_bits) simp
  have st: "th_stat k' u = th_stat k u" for u
    using s7 True nc by (cases "u = t") (simp_all add: th_stat_def k'(3), simp_all add: e)
  have ste: "th_stat k' = th_stat k" using st by (rule ext)
  have "kcur k'" using c by (simp add: kcur_def ste k'(4) e(2))
  then have "kinv k'" using k'(2) by (simp add: kinv_def)
  moreover have "tinv_at (rt_tick k) k'"
    using assms(2) by (rule tinv_threads) (use k' e active_suspended [OF assms(2)] in \<open>simp_all add: st\<close>)
  moreover have "rt_thread_control t (RT_THREAD_CTRL_CHANGE_PRIORITY p) k = Some (RT_EOK, k')"
    using True G(1) k'(1) by (simp add: k2_def k1_def)
  moreover have "current_priority (thr k' t) = p" by (simp add: k'(3) e change_priority_def)
  ultimately show ?thesis using ste k'(4,5) e by simp
qed

lemma tinv_lock: "tinv_at b (k\<lparr>rt_scheduler_lock_nest := n\<rparr>) = tinv_at b k"
proof -
  have "th_stat (k\<lparr>rt_scheduler_lock_nest := n\<rparr>) = th_stat k" by (rule th_stat_cong) simp
  moreover have "remaining b (k\<lparr>rt_scheduler_lock_nest := n\<rparr>) = remaining b k" by (rule ext) (simp add: remaining_def)
  ultimately show ?thesis by (simp add: tinv_at_def)
qed

lemma kinv_lock: "kinv (k\<lparr>rt_scheduler_lock_nest := n\<rparr>) = kinv k"
proof -
  have "th_stat (k\<lparr>rt_scheduler_lock_nest := n\<rparr>) = th_stat k" by (rule th_stat_cong) simp
  then show ?thesis by (simp add: kinv_def kcur_def klists_def linked_def)
qed

section \<open>Creating threads\<close>

lemma stack_init_ok:
  assumes "frame + 8 \<le> sz"
  shows "a < rt_hw_stack_init (a + sz - 4) frame" "rt_hw_stack_init (a + sz - 4) frame \<le> a + sz"
proof -
  have "(a + sz) mod 8 \<le> 7" by presburger
  then show "a < rt_hw_stack_init (a + sz - 4) frame" "rt_hw_stack_init (a + sz - 4) frame \<le> a + sz"
    using assms by (simp_all add: rt_hw_stack_init_def)
qed

lemma unlinked_new:
  assumes "klists {} k" "th_stat k t \<in> {RT_THREAD_INIT, RT_THREAD_CLOSE}" "t \<notin> set (rt_thread_defunct k)"
  shows "\<not> linked t k"
proof (cases "th_stat k t = RT_THREAD_INIT")
  case True
  then show ?thesis by (intro klists_off_unlinked [OF assms(1)]) simp
next
  case False
  with assms(2) have s: "th_stat k t = RT_THREAD_CLOSE" by simp
  have sq: "t \<notin> set (concat (suspend_thread k))" using assms(1) s by (auto simp: klists_def)
  have "t \<notin> set (rt_thread_priority_table k ! q)" if "q < 32" for q using klistsD(4) [OF assms(1) that, of t] s by simp
  then have nq: "t \<notin> set q" if "q \<in> set (rt_thread_priority_table k)" for q
    using that klistsD(1) [OF assms(1)] by (metis in_set_conv_nth)
  show ?thesis using assms(3) nq sq by (auto simp: linked_def)
qed

text \<open>A timer that does not run may be written.\<close>

lemma tinv_write_timer:
  assumes "tinv k" "Thread_timer t \<notin> set (rt_timer_list k)" "\<And>u. u \<noteq> t \<Longrightarrow> th_stat k' u = th_stat k u"
    "tmr k' = (tmr k)(Thread_timer t := tm)" "tm_flag tm = 0"
    "rt_timer_list k' = rt_timer_list k" "rt_timer_tmp k' = rt_timer_tmp k" "rt_soft_timer_list k' = rt_soft_timer_list k" "rt_tick k' = rt_tick k"
  shows "tinv k'"
proof -
  have rem: "remaining (rt_tick k) k' r = remaining (rt_tick k) k r" if "r \<in> set (rt_timer_list k)" for r
    using that assms(2,4) by (auto simp: remaining_def)
  have m: "map (remaining (rt_tick k) k') (rt_timer_list k) = map (remaining (rt_tick k) k) (rt_timer_list k)"
    using rem by (intro map_cong) simp_all
  have sus: "remaining (rt_tick k) k' r < 0x7fffffff \<and> (\<exists>u. r = Thread_timer u \<and> th_stat k' u = RT_THREAD_SUSPEND)"
    if r: "r \<in> set (rt_timer_list k)" for r
  proof -
    obtain u where u: "r = Thread_timer u" "th_stat k u = RT_THREAD_SUSPEND" "remaining (rt_tick k) k r < 0x7fffffff"
      using r assms(1) unfolding tinv_at_def by blast
    then have "th_stat k' u = RT_THREAD_SUSPEND" using r assms(2,3) by (cases "u = t") auto
    with u rem [OF r] show ?thesis by auto
  qed
  have fl: "tm_flag (tmr k' r) AND 1 \<noteq> 0 \<longleftrightarrow> r \<in> set (rt_timer_list k)" for r
    using assms(1,2,4,5) by (cases "r = Thread_timer t") (simp_all add: tinv_at_def)
  have fl2: "tm_flag (tmr k' (Thread_timer u)) \<in> {0, 1}" for u
    using assms(1,4,5) by (cases "u = t") (simp_all add: tinv_at_def)
  have b: "distinct (rt_timer_list k)" "rt_timer_tmp k = []" "rt_soft_timer_list k = []" "sorted (map (remaining (rt_tick k) k) (rt_timer_list k))"
    using assms(1) by (simp_all add: tinv_at_def)
  show ?thesis unfolding tinv_at_def assms(6-9) m using b fl fl2 sus by blast
qed

definition fresh_thread :: "nat \<Rightarrow> nat \<Rightarrow> nat \<Rightarrow> nat \<Rightarrow> u32 \<Rightarrow> rt_thread \<Rightarrow> rt_thread" where
  "fresh_thread frame a sz p tick th = th\<lparr>stack_addr := a, stack_size := sz,
     sp := rt_hw_stack_init (a + sz - 4) frame, stack_byte := 0x23, init_priority := p,
     current_priority := p, number_mask := 0, init_tick := tick, remaining_tick := tick, th_error := RT_EOK, stat := RT_THREAD_INIT\<rparr>"

lemma fresh_thread_sel:
  "stat (fresh_thread frame a sz p tick th) = 0" "init_priority (fresh_thread frame a sz p tick th) = p"
  "systemobject (fresh_thread frame a sz p tick th) = systemobject th"
  "frame + 8 \<le> sz \<Longrightarrow> rt_scheduler_stack_check (fresh_thread frame a sz p tick th)"
  using stack_init_ok [of frame sz a] by (simp_all add: fresh_thread_def rt_scheduler_stack_check_def)

lemma thread_init_eq:
  assumes "\<not> linked t k" "p < 32" "\<not> timer_linked (Thread_timer t) k"
  shows "thread_init frame t a sz p tick k =
    Some (upd_tmr (Thread_timer t) (\<lambda>_. \<lparr>tm_flag = 0, tm_init_tick = 0, timeout_tick = 0\<rparr>) (upd_thr t (fresh_thread frame a sz p tick) k))"
proof -
  have e: "fresh_thread frame a sz p tick = (\<lambda>th. th\<lparr>stack_addr := a, stack_size := sz,
     sp := rt_hw_stack_init (a + sz - 4) frame, stack_byte := 0x23, init_priority := p,
     current_priority := p, number_mask := 0, init_tick := tick, remaining_tick := tick, th_error := RT_EOK, stat := RT_THREAD_INIT\<rparr>)"
    by (rule ext) (rule fresh_thread_def)
  have "\<not> timer_linked (Thread_timer t) (upd_thr t (fresh_thread frame a sz p tick) k)" using assms(3) by (simp add: timer_linked_def)
  then show ?thesis unfolding thread_init_def e [symmetric] using assms(1,2) by (simp add: rt_timer_init_def)
qed

lemma thread_init_ok:
  assumes "kinv k" "tinv k" "th_stat k t \<in> {RT_THREAD_INIT, RT_THREAD_CLOSE}" "t \<notin> set (rt_thread_defunct k)"
    "p < 32" "frame + 8 \<le> sz"
  shows "\<exists>k'. thread_init frame t a sz p tick k = Some k' \<and> kinv k' \<and> tinv k' \<and> th_stat k' t = RT_THREAD_INIT \<and>
     init_priority (thr k' t) = p \<and> rt_scheduler_stack_check (thr k' t) \<and> (\<forall>u. u \<noteq> t \<longrightarrow> thr k' u = thr k u) \<and>
     systemobject (thr k' t) = systemobject (thr k t) \<and>
     rt_current_thread k' = rt_current_thread k \<and> rt_scheduler_lock_nest k' = rt_scheduler_lock_nest k \<and>
     rt_thread_defunct k' = rt_thread_defunct k \<and> timer_thread k' = timer_thread k"
proof -
  have l: "klists {} k" and c: "kcur k" using assms(1) by (simp_all add: kinv_def)
  note un = unlinked_new [OF l assms(3,4)]
  have nt: "Thread_timer t \<notin> set (rt_timer_list k)" using assms(3) by (intro idle_timer [OF assms(2)]) auto
  then have ntl: "\<not> timer_linked (Thread_timer t) k" using assms(2) by (simp add: timer_linked_def tinv_at_def)
  define g where "g = fresh_thread frame a sz p tick"
  define k1 where "k1 = upd_thr t g k"
  define k' where "k' = upd_tmr (Thread_timer t) (\<lambda>_. \<lparr>tm_flag = 0, tm_init_tick = 0, timeout_tick = 0\<rparr>) k1"
  have run: "thread_init frame t a sz p tick k = Some k'"
    unfolding k'_def k1_def g_def by (rule thread_init_eq [OF un assms(5) ntl])
  have e: "thr k' = (thr k)(t := g (thr k t))" "rt_current_thread k' = rt_current_thread k" "rt_scheduler_lock_nest k' = rt_scheduler_lock_nest k"
    "rt_thread_defunct k' = rt_thread_defunct k" "rt_timer_list k' = rt_timer_list k" "rt_timer_tmp k' = rt_timer_tmp k"
    "rt_soft_timer_list k' = rt_soft_timer_list k" "rt_tick k' = rt_tick k"
    "tmr k' = (tmr k)(Thread_timer t := \<lparr>tm_flag = 0, tm_init_tick = 0, timeout_tick = 0\<rparr>)"
    by (simp_all add: k'_def k1_def)
  have te: "timer_thread k' = timer_thread k" by (simp add: k'_def k1_def upd_tmr_def upd_thr_def)
  have st: "th_stat k' u = (if u = t then RT_THREAD_INIT else th_stat k u)" for u
    by (simp add: th_stat_def e g_def fresh_thread_sel)
  have "klists {} k1" unfolding k1_def
    by (rule klists_settle [OF klists_off [OF l un]]) (simp_all add: g_def fresh_thread_sel)
  moreover have s1: "same_threads k1 k'" by (simp add: same_threads_def k'_def)
  ultimately have "klists {} k'" using same_threadsD(2) by blast
  moreover have "kcur k'" by (rule kcur_upd [OF c e(2) st]) simp_all
  ultimately have ki: "kinv k'" by (simp add: kinv_def)
  have "tinv k'" by (rule tinv_write_timer [OF assms(2) nt _ e(9) _ e(5-8)]) (simp_all add: st)
  moreover have "rt_scheduler_stack_check (thr k' t)" "init_priority (thr k' t) = p" "\<forall>u. u \<noteq> t \<longrightarrow> thr k' u = thr k u"
    "systemobject (thr k' t) = systemobject (thr k t)" "th_stat k' t = RT_THREAD_INIT"
    using assms(6) by (simp_all add: e(1) g_def fresh_thread_sel st)
  ultimately show ?thesis using run ki e(2-4) te by blast
qed

section \<open>Boot\<close>

text \<open>Zero-initialised memory.\<close>

definition kernel_zero :: "kernel \<Rightarrow> bool" where
  "kernel_zero k \<longleftrightarrow> (\<forall>t. stat (thr k t) = 0) \<and> rt_current_thread k = None \<and> concat (suspend_thread k) = [] \<and>
     rt_timer_tmp k = [] \<and> rt_soft_timer_list k = [] \<and> (\<forall>r. tm_flag (tmr k r) = 0)"

lemma reset_ok:
  assumes "kernel_zero k"
  defines "k' \<equiv> rt_system_scheduler_init (rt_system_timer_init k)"
  shows "kinv k'" "tinv k'" "rt_current_thread k' = None" "\<And>t. th_stat k' t = RT_THREAD_INIT" "rt_thread_defunct k' = []"
    "rt_scheduler_lock_nest k' = 0" "timer_thread k' = timer_thread k"
proof -
  have e: "thr k' = thr k" "rt_current_thread k' = None" "rt_thread_priority_table k' = replicate 32 []" "rt_thread_ready_priority_group k' = 0"
    "rt_thread_defunct k' = []" "concat (suspend_thread k') = []" "rt_timer_list k' = []" "rt_timer_tmp k' = []" "rt_soft_timer_list k' = []"
    "tmr k' = tmr k" "rt_scheduler_lock_nest k' = 0" "timer_thread k' = timer_thread k"
    using assms(1) by (simp_all add: k'_def kernel_zero_def rt_system_scheduler_init_def rt_system_timer_init_def)
  show st: "th_stat k' t = RT_THREAD_INIT" for t using assms(1) by (simp add: th_stat_def e kernel_zero_def)
  show "rt_current_thread k' = None" "rt_thread_defunct k' = []" "rt_scheduler_lock_nest k' = 0" "timer_thread k' = timer_thread k"
    by (simp_all add: e)
  have "klists {} k'" by (simp only: klists_def st e) simp
  moreover have "kcur k'" by (simp add: kcur_def st e)
  ultimately show "kinv k'" by (simp add: kinv_def)
  show "tinv k'" using assms(1) by (simp add: tinv_at_def e kernel_zero_def)
qed

lemma insert_timer_thread: "rt_schedule_insert_thread t k = Some k' \<Longrightarrow> timer_thread k' = timer_thread k \<and> rt_current_thread k' = rt_current_thread k"
  by (auto simp: rt_schedule_insert_thread_def ready_insert_def bind_eq_Some_conv split: if_splits)

lemma stop_timer_thread: "timer_thread (snd (rt_timer_stop r k)) = timer_thread k" "rt_current_thread (snd (rt_timer_stop r k)) = rt_current_thread k"
  by (simp_all add: rt_timer_stop_def timer_deactivate_def timer_remove_def upd_tmr_def)

lemma startup_timer_thread:
  assumes "rt_thread_startup t k = Some (e, k')" "rt_current_thread k = None"
  shows "timer_thread k' = timer_thread k"
proof -
  define k1 where "k1 = upd_thr t (\<lambda>th. th\<lparr>current_priority := init_priority th, number_mask := push_bit (init_priority th) 1, stat := RT_THREAD_SUSPEND\<rparr>) k"
  have 1: "timer_thread k1 = timer_thread k" "rt_current_thread k1 = None" "th_stat k1 t = RT_THREAD_SUSPEND"
    using assms(2) by (simp_all add: k1_def th_stat_def)
  obtain e2 k2 where 2: "rt_thread_resume t k1 = Some (e2, k2)" "(if rt_current_thread k2 \<noteq> None then rt_schedule k2 else Some k2) = Some k'"
    using assms(1) unfolding rt_thread_startup_def k1_def [symmetric] by (auto simp: bind_eq_Some_conv split: if_splits)
  define k3 where "k3 = snd (rt_timer_stop (Thread_timer t) (rt_list_remove t k1))"
  have 3: "timer_thread k3 = timer_thread k" "rt_current_thread k3 = None"
    using 1(1,2) by (simp_all add: k3_def stop_timer_thread rt_list_remove_def)
  have "rt_schedule_insert_thread t k3 = Some k2" using 2(1) 1(3) by (auto simp: rt_thread_resume_def k3_def bind_eq_Some_conv)
  then have "timer_thread k2 = timer_thread k \<and> rt_current_thread k2 = None" using insert_timer_thread 3 by metis
  with 2(2) show ?thesis by simp
qed

text \<open>A thread that is made and started before the scheduler runs.\<close>

lemma make_thread_ok:
  assumes "kinv k" "tinv k" "rt_current_thread k = None" "th_stat k t = RT_THREAD_INIT" "p < 32" "frame + 8 \<le> sz"
  shows "\<exists>k1 k2. thread_init frame t a sz p tick k = Some k1 \<and> rt_thread_startup t k1 = Some (RT_EOK, k2) \<and> kinv k2 \<and> tinv k2 \<and>
     rt_current_thread k2 = None \<and> th_stat k2 t = RT_THREAD_READY \<and> current_priority (thr k2 t) = p \<and>
     (\<forall>u. u \<noteq> t \<longrightarrow> thr k2 u = thr k u) \<and> rt_scheduler_lock_nest k2 = rt_scheduler_lock_nest k \<and> timer_thread k2 = timer_thread k"
proof -
  have "klists {} k" using assms(1) by (simp add: kinv_def)
  then have d: "t \<notin> set (rt_thread_defunct k)" using assms(4) by (auto simp: klists_def)
  have s: "th_stat k t \<in> {RT_THREAD_INIT, RT_THREAD_CLOSE}" using assms(4) by simp
  obtain k1 where k1: "thread_init frame t a sz p tick k = Some k1" "kinv k1" "tinv k1" "th_stat k1 t = RT_THREAD_INIT"
     "init_priority (thr k1 t) = p" "rt_scheduler_stack_check (thr k1 t)" "\<And>u. u \<noteq> t \<Longrightarrow> thr k1 u = thr k u"
     "rt_current_thread k1 = None" "rt_scheduler_lock_nest k1 = rt_scheduler_lock_nest k" "timer_thread k1 = timer_thread k"
    using thread_init_ok [OF assms(1,2) s d assms(5,6), of a tick] assms(3) by auto
  then obtain k2 where k2: "rt_thread_startup t k1 = Some (RT_EOK, k2)" "kinv k2" "tinv k2" "rt_current_thread k2 = None"
     "rt_scheduler_lock_nest k2 = rt_scheduler_lock_nest k1"
     "thr k2 = (thr k1)(t := (thr k1 t)\<lparr>current_priority := init_priority (thr k1 t),
        number_mask := push_bit (init_priority (thr k1 t)) 1, stat := RT_THREAD_READY\<rparr>)"
    using startup_ok [OF k1(2-4)] assms(5) by auto
  have "th_stat k2 t = RT_THREAD_READY" "current_priority (thr k2 t) = p" "\<forall>u. u \<noteq> t \<longrightarrow> thr k2 u = thr k u"
    using k1(5,7) by (simp_all add: th_stat_def k2(6))
  moreover have "timer_thread k2 = timer_thread k" using startup_timer_thread [OF k2(1) k1(8)] k1(10) by simp
  ultimately show ?thesis using k1 k2 by auto
qed

lemma scheduler_start_ok:
  assumes "kinv k" "tinv k" "rt_current_thread k = None" "th_stat k t = RT_THREAD_READY"
    "\<And>u. th_stat k u = RT_THREAD_READY \<Longrightarrow> u \<noteq> t \<Longrightarrow> current_priority (thr k t) < current_priority (thr k u)"
  shows "\<exists>k'. rt_system_scheduler_start k = Some k' \<and> kinv k' \<and> tinv k' \<and> rt_current_thread k' = Some t \<and>
     (\<forall>u. th_stat k' u = (if u = t then RT_THREAD_RUNNING else th_stat k u)) \<and>
     (\<forall>u. current_priority (thr k' u) = current_priority (thr k u)) \<and> rt_scheduler_lock_nest k' = rt_scheduler_lock_nest k \<and>
     rt_soft_timer_list k' = rt_soft_timer_list k"
proof -
  have l: "klists {} k" using assms(1) by (simp add: kinv_def)
  let ?p = "current_priority (thr k t)"
  have p: "?p < 32" using klistsD(5) [OF l, of t] assms(4) by (simp add: th_ok_def)
  have mem: "t \<in> set (rt_thread_priority_table k ! ?p)" using klistsD(4) [OF l p] assms(4) by simp
  have "bit (rt_thread_ready_priority_group k) ?p" using klistsD(2) [OF l p] mem by fastforce
  then have "rt_thread_ready_priority_group k \<noteq> 0" by auto
  then obtain u rest q where h: "get_highest_priority_thread k = Some (u, q)" "q < 32" "rt_thread_priority_table k ! q = u # rest"
    "\<And>m. m < q \<Longrightarrow> rt_thread_priority_table k ! m = []" using highest_priority [OF l] by blast
  note hd = ready_head [OF l h(2,3)]
  have "q \<le> ?p" using h(4) [of ?p] mem by (cases "?p < q") auto
  then have u: "u = t" using assms(5) [of u] hd(2,3) by (cases "u = t") auto
  define k1 where "k1 = k\<lparr>rt_current_thread := Some t\<rparr>"
  have st1: "th_stat k1 = th_stat k" by (rule th_stat_cong) (simp add: k1_def)
  have 1: "klists {} k1" using l by (rule klists_cong) (simp_all only: st1, simp_all add: k1_def)
  have e1: "rt_thread_priority_table k1 ! q = t # rest" "rt_current_thread k1 = Some t" using h(3) u by (simp_all add: k1_def)
  obtain k3 k' where k': "rt_schedule_remove_thread t k1 = Some k3" "k' = upd_thr t (set_stat RT_THREAD_RUNNING) k3"
    "klists {} k'" "sched_frame k1 k'" "rt_current_thread k' = Some t"
    "\<And>u. th_stat k' u = (if u = t then RT_THREAD_RUNNING else th_stat k1 u)"
    using dispatch_ok [OF 1 h(2) e1] by blast
  define kk where "kk = upd_thr t (\<lambda>th. th\<lparr>stat := RT_THREAD_RUNNING\<rparr>) k3"
  have e: "rt_thread_priority_table kk = rt_thread_priority_table k'" "rt_thread_ready_priority_group kk = rt_thread_ready_priority_group k'"
    "suspend_thread kk = suspend_thread k'" "rt_thread_defunct kk = rt_thread_defunct k'" "rt_current_thread kk = rt_current_thread k'"
    "rt_scheduler_lock_nest kk = rt_scheduler_lock_nest k'" "tmr kk = tmr k'" "rt_timer_list kk = rt_timer_list k'"
    "rt_timer_tmp kk = rt_timer_tmp k'" "rt_soft_timer_list kk = rt_soft_timer_list k'" "rt_tick kk = rt_tick k'"
    by (simp_all add: kk_def k'(2))
  have ek: "rt_tick k' = rt_tick k" "rt_scheduler_lock_nest k' = rt_scheduler_lock_nest k" "tmr k' = tmr k" "rt_timer_list k' = rt_timer_list k"
    "rt_timer_tmp k' = rt_timer_tmp k" "rt_soft_timer_list k' = rt_soft_timer_list k"
    using sched_frame_objects [OF k'(4)] by (simp_all add: k1_def)
  have pr: "current_priority (thr kk v) = current_priority (thr k' v)" "th_ok (thr kk v) = th_ok (thr k' v)" for v
    by (simp_all add: kk_def k'(2) set_stat_def th_ok_def rt_scheduler_stack_check_def)
  have st: "th_stat kk v = th_stat k' v" for v
    using k'(6) [of v] by (cases "v = t") (simp_all add: th_stat_def kk_def k'(2))
  have ste: "th_stat kk = th_stat k'" by (rule ext) (rule st)
  have kc: "kcur k'" using assms(1,3) unfolding kinv_def kcur_def k'(5) by (auto simp: k'(6) st1)
  then have "kinv k'" using k'(3) by (simp add: kinv_def)
  then have "kinv kk" by (rule kinv_cong) (simp_all only: e ste pr)
  moreover have "tinv_at (rt_tick k) kk"
    using assms(2)
  proof (rule tinv_threads)
    show "th_stat kk v = RT_THREAD_SUSPEND" if "Thread_timer v \<in> set (rt_timer_list k)" for v
      using active_suspended [OF assms(2) that] assms(4) by (auto simp: ste k'(6) st1)
  qed (simp_all only: e ek)
  moreover have "rt_system_scheduler_start k = Some kk"
    using h(1) k'(1) by (simp add: rt_system_scheduler_start_def u kk_def k1_def)
  moreover have "current_priority (thr kk v) = current_priority (thr k v)" for v
    using sched_frame_sel(1) [OF k'(4)] by (simp add: pr k1_def)
  ultimately show ?thesis
    by (intro exI [of _ kk]) (simp add: e ek ste k'(5,6) st1)
qed

lemma startup_thr_ok:
  "kinv k \<Longrightarrow> kinv (upd_thr t (\<lambda>th. th\<lparr>systemobject := b\<rparr>) k)"
  "th_stat (upd_thr t (\<lambda>th. th\<lparr>systemobject := b\<rparr>) k) = th_stat k"
  "tinv_at n k \<Longrightarrow> tinv_at n (upd_thr t (\<lambda>th. th\<lparr>systemobject := b\<rparr>) k)"
proof -
  let ?k = "upd_thr t (\<lambda>th. th\<lparr>systemobject := b\<rparr>) k"
  show st: "th_stat ?k = th_stat k" by (rule ext) (simp add: th_stat_def)
  show "kinv ?k" if "kinv k" using that
    by (rule kinv_cong) (simp_all only: st, simp_all add: th_ok_def rt_scheduler_stack_check_def)
  show "tinv_at n ?k" if t: "tinv_at n k" using t
    by (rule tinv_threads) (simp_all only: st active_suspended [OF t], simp_all)
qed

text \<open>A system thread made and started before the scheduler runs; the second is what \<open>rt_thread_init\<close> does with the object type.\<close>

lemma boot_thread_ok:
  assumes "kinv k" "tinv k" "rt_current_thread k = None" "th_stat k t = RT_THREAD_INIT" "p < 32" "frame + 8 \<le> sz"
  shows "\<exists>k1 k2. thread_init frame t a sz p tick (upd_thr t (\<lambda>th. th\<lparr>systemobject := b\<rparr>) k) = Some k1 \<and>
     rt_thread_startup t k1 = Some (RT_EOK, k2) \<and> kinv k2 \<and> tinv k2 \<and>
     rt_current_thread k2 = None \<and> th_stat k2 t = RT_THREAD_READY \<and> current_priority (thr k2 t) = p \<and>
     (\<forall>u. u \<noteq> t \<longrightarrow> thr k2 u = thr k u) \<and> rt_scheduler_lock_nest k2 = rt_scheduler_lock_nest k \<and> timer_thread k2 = timer_thread k"
proof -
  let ?k = "upd_thr t (\<lambda>th. th\<lparr>systemobject := b\<rparr>) k"
  have e: "rt_current_thread ?k = None" "rt_scheduler_lock_nest ?k = rt_scheduler_lock_nest k" "rt_tick ?k = rt_tick k" using assms(3) by simp_all
  have te: "timer_thread ?k = timer_thread k" by (simp add: upd_thr_def)
  have i: "th_stat ?k t = RT_THREAD_INIT" using assms(4) by (simp add: startup_thr_ok(2))
  have tv: "tinv ?k" using startup_thr_ok(3) [OF assms(2)] e(3) by simp
  obtain k1 k2 where 2: "thread_init frame t a sz p tick ?k = Some k1" "rt_thread_startup t k1 = Some (RT_EOK, k2)" "kinv k2" "tinv k2"
     "rt_current_thread k2 = None" "th_stat k2 t = RT_THREAD_READY" "current_priority (thr k2 t) = p"
     "\<And>u. u \<noteq> t \<Longrightarrow> thr k2 u = thr ?k u" "rt_scheduler_lock_nest k2 = rt_scheduler_lock_nest ?k" "timer_thread k2 = timer_thread ?k"
    using make_thread_ok [OF startup_thr_ok(1) [OF assms(1)] tv e(1) i assms(5,6), of a tick] by blast
  have "\<forall>u. u \<noteq> t \<longrightarrow> thr k2 u = thr k u" using 2(8) by simp
  then show ?thesis using 2 e(2) te by auto
qed

text \<open>The start of the system: the timer thread runs first, the main thread and the idle thread are ready.\<close>

lemma boot_ok:
  assumes z: "kernel_zero k" and d: "m \<noteq> timer_thread k" "m \<noteq> i" "timer_thread k \<noteq> i" and f: "frame \<le> 248"
  shows "\<exists>k'. rtthread_startup frame (Some m) (Some a) b i c k = Some k' \<and> kinv k' \<and> tinv k' \<and>
     rt_current_thread k' = Some (timer_thread k) \<and> rt_scheduler_lock_nest k' = 0 \<and>
     (\<forall>u. th_stat k' u = (if u = timer_thread k then RT_THREAD_RUNNING else if u \<in> {m, i} then RT_THREAD_READY else RT_THREAD_INIT)) \<and>
     current_priority (thr k' (timer_thread k)) = 4 \<and> current_priority (thr k' m) = 10 \<and> current_priority (thr k' i) = 31"
proof -
  let ?t = "timer_thread k"
  define k0 where "k0 = rt_system_scheduler_init (rt_system_timer_init k)"
  note r = reset_ok [OF z, folded k0_def]
  obtain a1 k1 where 1: "thread_init frame m a 2048 10 20 (upd_thr m (\<lambda>th. th\<lparr>systemobject := False\<rparr>) k0) = Some a1"
     "rt_thread_startup m a1 = Some (RT_EOK, k1)" "kinv k1" "tinv k1"
     "rt_current_thread k1 = None" "th_stat k1 m = RT_THREAD_READY" "current_priority (thr k1 m) = 10"
     "\<And>u. u \<noteq> m \<Longrightarrow> thr k1 u = thr k0 u" "rt_scheduler_lock_nest k1 = 0" "timer_thread k1 = ?t"
    using boot_thread_ok [OF r(1,2,3,4), of 10 frame 2048 m a 20 False] f r(6,7) by auto
  have s1: "rt_soft_timer_list k1 = []" using 1(4) by (simp add: tinv_at_def)
  then have l1: "k1\<lparr>rt_soft_timer_list := []\<rparr> = k1" by simp
  have st1: "th_stat k1 u = (if u = m then RT_THREAD_READY else RT_THREAD_INIT)" for u
    using 1(6) r(4) [of u] by (cases "u = m") (simp_all add: th_stat_def 1(8))
  have i1: "th_stat k1 ?t = RT_THREAD_INIT" using d(1) by (simp add: st1)
  obtain a2 k2 where 2: "thread_init frame ?t b 1024 4 10 (upd_thr ?t (\<lambda>th. th\<lparr>systemobject := True\<rparr>) k1) = Some a2"
     "rt_thread_startup ?t a2 = Some (RT_EOK, k2)" "kinv k2" "tinv k2"
     "rt_current_thread k2 = None" "th_stat k2 ?t = RT_THREAD_READY" "current_priority (thr k2 ?t) = 4"
     "\<And>u. u \<noteq> ?t \<Longrightarrow> thr k2 u = thr k1 u" "rt_scheduler_lock_nest k2 = 0"
    using boot_thread_ok [OF 1(3-5) i1, of 4 frame 1024 b 10 True] f 1(9) by auto
  have st2: "th_stat k2 u = (if u = ?t then RT_THREAD_READY else th_stat k1 u)" for u
    using 2(6) by (cases "u = ?t") (simp_all add: th_stat_def 2(8))
  have i2: "th_stat k2 i = RT_THREAD_INIT" using d by (simp add: st1 st2)
  obtain a3 k3 where 3: "thread_init frame i c 256 31 32 (upd_thr i (\<lambda>th. th\<lparr>systemobject := True\<rparr>) k2) = Some a3"
     "rt_thread_startup i a3 = Some (RT_EOK, k3)" "kinv k3" "tinv k3"
     "rt_current_thread k3 = None" "th_stat k3 i = RT_THREAD_READY" "current_priority (thr k3 i) = 31"
     "\<And>u. u \<noteq> i \<Longrightarrow> thr k3 u = thr k2 u" "rt_scheduler_lock_nest k3 = 0"
    using boot_thread_ok [OF 2(3-5) i2, of 31 frame 256 c 32 True] f 2(9) by auto
  have st3: "th_stat k3 u = (if u = i \<or> u = ?t \<or> u = m then RT_THREAD_READY else RT_THREAD_INIT)" for u
    using 3(6) st2 [of u] by (cases "u = i") (simp_all add: th_stat_def [of k3] th_stat_def [of k2] 3(8) st1)
  have pr: "current_priority (thr k3 ?t) = 4" "current_priority (thr k3 m) = 10" "current_priority (thr k3 i) = 31"
    using d 1(7) 2(7) 3(7) by (simp_all add: 2(8) 3(8))
  have run: "rtthread_startup frame (Some m) (Some a) b i c k = rt_system_scheduler_start k3"
    by (simp add: rtthread_startup_def rt_application_init_def rt_thread_create_def rt_system_timer_thread_init_def rt_thread_idle_init_def
        rt_thread_init_def 1(1,2,10) 2(1,2) 3(1,2) l1 flip: k0_def)
  have t: "th_stat k3 ?t = RT_THREAD_READY" by (simp add: st3)
  have "current_priority (thr k3 ?t) < current_priority (thr k3 u)" if "th_stat k3 u = RT_THREAD_READY" "u \<noteq> ?t" for u
    using that pr st3 [of u] by (auto split: if_splits)
  then obtain k' where k': "rt_system_scheduler_start k3 = Some k'" "kinv k'" "tinv k'" "rt_current_thread k' = Some ?t"
     "\<And>u. th_stat k' u = (if u = ?t then RT_THREAD_RUNNING else th_stat k3 u)"
     "\<And>u. current_priority (thr k' u) = current_priority (thr k3 u)" "rt_scheduler_lock_nest k' = 0"
    using scheduler_start_ok [OF 3(3-5) t] 3(9) by auto
  then show ?thesis using run pr by (auto simp: st3)
qed

lemma tinv_schedule: "tinv k \<Longrightarrow> sched_frame k k' \<Longrightarrow> tinv k'"
  using tinv_sched sched_frame_objects(5) by metis

lemma yield_ok:
  assumes "kinv k" "tinv k" "rt_current_thread k = Some c"
  shows "\<exists>k' c'. rt_thread_yield k = Some (RT_EOK, k') \<and> kinv k' \<and> tinv k' \<and> rt_current_thread k' = Some c'"
proof -
  define k1 where "k1 = upd_thr c (\<lambda>th. th\<lparr>remaining_tick := init_tick th, stat := stat th OR RT_THREAD_STAT_YIELD_MASK\<rparr>) k"
  have 1: "kinv k1" "th_stat k1 = th_stat k" unfolding k1_def by (rule yield_kinv [OF assms(1)])+
  have e: "tmr k1 = tmr k" "rt_timer_list k1 = rt_timer_list k" "rt_timer_tmp k1 = rt_timer_tmp k"
    "rt_soft_timer_list k1 = rt_soft_timer_list k" "rt_tick k1 = rt_tick k" "rt_current_thread k1 = Some c"
    using assms(3) by (simp_all add: k1_def)
  have "tinv_at (rt_tick k) k1" using assms(2) by (rule tinv_threads) (simp_all only: e 1(2) active_suspended [OF assms(2)])
  then have t1: "tinv k1" by (simp add: e)
  obtain k' c' where k': "rt_schedule k1 = Some k'" "kinv k'" "sched_frame k1 k'" "rt_current_thread k' = Some c'"
    using schedule_any [OF 1(1) e(6)] by blast
  then show ?thesis using assms(3) tinv_schedule [OF t1 k'(3)] by (simp add: rt_thread_yield_def flip: k1_def)
qed

lemma exit_critical_ok:
  assumes "kinv k" "tinv k" "rt_current_thread k = Some c"
  shows "\<exists>k' c'. rt_exit_critical k = Some k' \<and> kinv k' \<and> tinv k' \<and> rt_current_thread k' = Some c'"
proof (cases "to_s16 (rt_scheduler_lock_nest k - 1) \<le> 0")
  case False
  then show ?thesis using assms by (simp add: rt_exit_critical_def Let_def kinv_lock tinv_lock)
next
  case True
  define k1 where "k1 = k\<lparr>rt_scheduler_lock_nest := 0\<rparr>"
  have 1: "kinv k1" "tinv k1" "rt_current_thread k1 = Some c" using assms by (simp_all add: k1_def kinv_lock tinv_lock)
  obtain k' c' where k': "rt_schedule k1 = Some k'" "kinv k'" "sched_frame k1 k'" "rt_current_thread k' = Some c'"
    using schedule_any [OF 1(1,3)] by blast
  moreover have "rt_exit_critical k = rt_schedule k1" using True assms(3) by (simp add: rt_exit_critical_def k1_def)
  ultimately show ?thesis using tinv_schedule [OF 1(2) k'(3)] by simp
qed

lemma idle_free_distinct: "distinct l \<Longrightarrow> idle_free l = l"
proof (induction l rule: idle_free.induct)
  case (2 t ts)
  then have "filter (\<lambda>u. u \<noteq> t) ts = ts" by (intro filter_True) auto
  with 2 show ?case by simp
qed simp

lemma drop_closed:
  assumes "kinv k" "tinv k" "th_stat k t = RT_THREAD_CLOSE"
  shows "kinv (rt_list_remove t k)" "tinv (rt_list_remove t k)" "th_stat (rt_list_remove t k) = th_stat k"
proof -
  have l: "klists {} k" and c: "kcur k" using assms(1) by (simp_all add: kinv_def)
  show st: "th_stat (rt_list_remove t k) = th_stat k" by (rule th_stat_cong) simp
  have "klists {t} (rt_list_remove t k)" using list_remove_klists [OF l, of t] assms(3) by simp
  then have "klists {} (rt_list_remove t k)" by (rule klists_back) (simp_all add: st assms(3))
  then show "kinv (rt_list_remove t k)" using c by (simp add: kinv_def kcur_def st)
  have "tinv_at (rt_tick k) (rt_list_remove t k)" using assms(2)
    by (rule tinv_threads) (simp_all only: st active_suspended [OF assms(2)], simp_all)
  then show "tinv (rt_list_remove t k)" by simp
qed

lemma idle_ok:
  assumes "kinv k" "tinv k" "rt_interrupt_nest k = 0"
  shows "\<exists>k'. rt_thread_idle_excute k = Some (rt_thread_defunct k, k') \<and> kinv k' \<and> tinv k' \<and> rt_thread_defunct k' = [] \<and>
     thr k' = thr k \<and> rt_current_thread k' = rt_current_thread k"
proof -
  have step: "kinv k' \<and> tinv k' \<and> rt_thread_defunct k' = filter (\<lambda>u. u \<notin> set l) (rt_thread_defunct q) \<and> thr k' = thr q \<and> rt_current_thread k' = rt_current_thread q"
    if "kinv q" "tinv q" "\<forall>t\<in>set l. th_stat q t = RT_THREAD_CLOSE" "k' = fold rt_list_remove l q" for l q k'
    using that
  proof (induction l arbitrary: q)
    case (Cons t l)
    note d = drop_closed [OF Cons.prems(1,2), of t]
    have "kinv k' \<and> tinv k' \<and> rt_thread_defunct k' = filter (\<lambda>u. u \<notin> set l) (rt_thread_defunct (rt_list_remove t q)) \<and>
        thr k' = thr (rt_list_remove t q) \<and> rt_current_thread k' = rt_current_thread (rt_list_remove t q)"
      using Cons.IH [of "rt_list_remove t q"] d Cons.prems(3,4) by simp
    moreover have "rt_thread_defunct (rt_list_remove t q) = filter (\<lambda>u. u \<noteq> t) (rt_thread_defunct q)" by (simp add: rt_list_remove_def)
    ultimately show ?case by (auto intro!: filter_cong)
  qed simp
  have l: "klists {} k" using assms(1) by (simp add: kinv_def)
  have f: "idle_free (rt_thread_defunct k) = rt_thread_defunct k" using l by (intro idle_free_distinct) (simp add: klists_def)
  have "\<forall>t\<in>set (rt_thread_defunct k). th_stat k t = RT_THREAD_CLOSE" using l by (simp add: klists_def)
  from step [OF assms(1,2) this refl] show ?thesis using assms(3) by (simp add: rt_thread_idle_excute_def f)
qed

section \<open>Sequences of kernel calls\<close>

text \<open>The calls a thread or an interrupt makes. \<open>kcall_ok\<close> is what the kernel asks of its callers: objects that are fit for the
  call, priorities in range, a sleep below half the tick range, and a caller that is not already closed when it sleeps or exits.\<close>

datatype kcall = Init_thread nat nat nat nat nat u32 | Startup nat | Detach nat | Delete nat | Suspend_thread nat | Resume_thread nat
  | Priority nat nat | Sleep u32 | Yield | Exit | Enter_critical | Exit_critical | Idle | Tick

fun kernel_call :: "(nat \<Rightarrow> kernel \<Rightarrow> kernel option) \<Rightarrow> kcall \<Rightarrow> kernel \<Rightarrow> kernel option" where
  "kernel_call cb (Init_thread frame t a sz p tick) k = map_option snd (rt_thread_init frame t (Some a) sz p tick k)"
| "kernel_call cb (Startup t) k = map_option snd (rt_thread_startup t k)"
| "kernel_call cb (Detach t) k = map_option snd (rt_thread_detach t k)"
| "kernel_call cb (Delete t) k = map_option snd (rt_thread_delete t k)"
| "kernel_call cb (Suspend_thread t) k = map_option snd (rt_thread_suspend t k)"
| "kernel_call cb (Resume_thread t) k = map_option snd (rt_thread_resume t k)"
| "kernel_call cb (Priority t p) k = map_option snd (rt_thread_control t (RT_THREAD_CTRL_CHANGE_PRIORITY p) k)"
| "kernel_call cb (Sleep n) k = rt_thread_sleep n k"
| "kernel_call cb Yield k = map_option snd (rt_thread_yield k)"
| "kernel_call cb Exit k = rt_thread_exit k"
| "kernel_call cb Enter_critical k = Some (rt_enter_critical k)"
| "kernel_call cb Exit_critical k = rt_exit_critical k"
| "kernel_call cb Idle k = map_option snd (rt_thread_idle_excute k)"
| "kernel_call cb Tick k = rt_tick_increase cb k"

abbreviation cur_stat :: "kernel \<Rightarrow> u8" where
  "cur_stat k \<equiv> (case rt_current_thread k of None \<Rightarrow> RT_THREAD_CLOSE | Some c \<Rightarrow> th_stat k c)"

fun kcall_ok :: "kcall \<Rightarrow> kernel \<Rightarrow> bool" where
  "kcall_ok (Init_thread frame t a sz p tick) k \<longleftrightarrow>
     th_stat k t \<in> {RT_THREAD_INIT, RT_THREAD_CLOSE} \<and> t \<notin> set (rt_thread_defunct k) \<and> p < 32 \<and> frame + 8 \<le> sz"
| "kcall_ok (Startup t) k \<longleftrightarrow> th_stat k t = RT_THREAD_INIT \<and> init_priority (thr k t) < 32 \<and> rt_scheduler_stack_check (thr k t)"
| "kcall_ok (Detach t) k \<longleftrightarrow> systemobject (thr k t) \<and> th_stat k t \<le> RT_THREAD_CLOSE"
| "kcall_ok (Delete t) k \<longleftrightarrow> \<not> systemobject (thr k t) \<and> th_stat k t \<le> RT_THREAD_CLOSE"
| "kcall_ok (Priority t p) k \<longleftrightarrow> p < 32"
| "kcall_ok (Sleep n) k \<longleftrightarrow> n < 0x7fffffff \<and> cur_stat k \<in> {RT_THREAD_RUNNING, RT_THREAD_SUSPEND}"
| "kcall_ok Exit k \<longleftrightarrow> cur_stat k \<in> live_stats"
| "kcall_ok Idle k \<longleftrightarrow> rt_interrupt_nest k = 0"
| "kcall_ok _ k \<longleftrightarrow> True"

definition kgood :: "kernel \<Rightarrow> bool" where
  "kgood k \<longleftrightarrow> kinv k \<and> tinv k \<and> rt_current_thread k \<noteq> None"

lemma kgoodI: "kinv k \<Longrightarrow> tinv k \<Longrightarrow> rt_current_thread k = Some c \<Longrightarrow> kgood k"
  by (simp add: kgood_def)

lemma stat_le_close:
  assumes "(s :: u8) \<le> 4"
  shows "s \<in> {0, 1, 2, 3, 4}"
proof -
  have "unat s \<le> 4" using assms by (simp add: word_le_nat_alt)
  then consider "unat s = 0" | "unat s = 1" | "unat s = 2" | "unat s = 3" | "unat s = 4" by linarith
  then show ?thesis by cases (auto dest: arg_cong [of _ _ "of_nat :: nat \<Rightarrow> u8"])
qed

lemma close_call:
  assumes "kgood k" "th_stat k t \<le> RT_THREAD_CLOSE"
  shows "\<exists>k'. map_option snd (thread_close static t k) = Some k' \<and> kgood k'"
proof -
  have "th_stat k t \<in> insert RT_THREAD_CLOSE (insert RT_THREAD_INIT live_stats)" using stat_le_close [OF assms(2)] by auto
  then show ?thesis using thread_close_ok [of k t static] assms(1) by (auto simp: kgood_def)
qed

lemma suspend_call:
  assumes "kgood k"
  shows "\<exists>k'. map_option snd (rt_thread_suspend t k) = Some k' \<and> kgood k'"
proof (cases "th_stat k t \<in> {RT_THREAD_READY, RT_THREAD_RUNNING}")
  case True
  then show ?thesis using suspend_ok [of k t] assms by (auto simp: kgood_def)
qed (use assms in \<open>simp add: rt_thread_suspend_def\<close>)

lemma resume_call:
  assumes "kgood k"
  shows "\<exists>k'. map_option snd (rt_thread_resume t k) = Some k' \<and> kgood k'"
proof (cases "th_stat k t = RT_THREAD_SUSPEND")
  case True
  then show ?thesis using resume_ok [of k t] assms by (auto simp: kgood_def)
qed (use assms in \<open>simp add: rt_thread_resume_def\<close>)

lemma init_call:
  assumes "kgood k" "kcall_ok (Init_thread frame t a sz p tick) k"
  shows "\<exists>k'. map_option snd (rt_thread_init frame t (Some a) sz p tick k) = Some k' \<and> kgood k'"
proof -
  define k1 where "k1 = upd_thr t (\<lambda>th. th\<lparr>systemobject := True\<rparr>) k"
  have "kinv k" "tinv k" using assms(1) by (simp_all add: kgood_def)
  then have 1: "kinv k1" "tinv k1" "th_stat k1 = th_stat k"
    using startup_thr_ok(1) [of k t True] startup_thr_ok(2) [of t True k] startup_thr_ok(3) [of "rt_tick k" k t True] by (simp_all add: k1_def)
  have e: "rt_thread_defunct k1 = rt_thread_defunct k" "rt_current_thread k1 = rt_current_thread k" by (simp_all add: k1_def)
  obtain k' where "thread_init frame t a sz p tick k1 = Some k'" "kinv k'" "tinv k'" "rt_current_thread k' = rt_current_thread k1"
    using thread_init_ok [OF 1(1,2), of t p frame sz a tick] assms(2) e 1(3) by auto
  then show ?thesis using assms(1) e by (simp add: rt_thread_init_def kgood_def flip: k1_def)
qed

text \<open>Every permitted call returns and leaves a consistent kernel.\<close>

lemma kernel_call_ok:
  assumes g: "kgood k" and ok: "kcall_ok c k"
  shows "\<exists>k'. kernel_call cb c k = Some k' \<and> kgood k'"
proof -
  obtain d where k: "kinv k" "tinv k" "rt_current_thread k = Some d" using g by (auto simp: kgood_def)
  show ?thesis
  proof (cases c)
    case (Startup t)
    then show ?thesis using startup_ok [OF k(1,2), of t] ok k(3) by (auto simp: kgood_def)
  next
    case (Priority t p)
    then obtain k' where "rt_thread_control t (RT_THREAD_CTRL_CHANGE_PRIORITY p) k = Some (RT_EOK, k')" "kinv k'" "tinv k'"
      "rt_current_thread k' = rt_current_thread k" using priority_ok [OF k(1,2), of p t] ok by fastforce
    then show ?thesis using k(3) unfolding Priority kernel_call.simps kgood_def by simp
  next
    case (Sleep n)
    then show ?thesis using sleep_ok [OF k, of n] ok k(3) by (auto simp: kgood_def)
  next
    case Exit
    then show ?thesis using exit_ok [OF k] ok k(3) by (auto simp: kgood_def)
  next
    case Yield
    then show ?thesis using yield_ok [OF k] by (auto simp: kgood_def)
  next
    case Exit_critical
    then show ?thesis using exit_critical_ok [OF k] by (auto simp: kgood_def)
  next
    case Idle
    then show ?thesis using idle_ok [OF k(1,2)] ok k(3) by (auto simp: kgood_def)
  next
    case Tick
    then show ?thesis using tick_ok [OF k, of cb] by (auto simp: kgood_def)
  next
    case Enter_critical
    then show ?thesis using k by (simp add: kgood_def rt_enter_critical_def kinv_lock tinv_lock)
  qed (use g ok close_call [OF g] suspend_call [OF g] resume_call [OF g] init_call [OF g] in
      \<open>simp_all add: rt_thread_detach_def rt_thread_delete_def\<close>)
qed

inductive kernel_step :: "(nat \<Rightarrow> kernel \<Rightarrow> kernel option) \<Rightarrow> kernel \<Rightarrow> kernel \<Rightarrow> bool" for cb where
  Call: "kcall_ok c k \<Longrightarrow> kernel_call cb c k = Some k' \<Longrightarrow> kernel_step cb k k'"

inductive_cases kernel_step_cases: "kernel_step cb k k'"

lemma kernel_step_good: "kernel_step cb k k' \<Longrightarrow> kgood k \<Longrightarrow> kgood k'"
proof (elim kernel_step_cases)
  fix c
  assume "kgood k" "kcall_ok c k" "kernel_call cb c k = Some k'"
  then show "kgood k'" using kernel_call_ok [of k c cb] by simp
qed

interpretation kernel_sys: step_system "kernel_step cb" kgood for cb
  by unfold_locales (rule kernel_step_good)

text \<open>The memory of the kernel before it starts.\<close>

definition kernel_bss :: kernel where
  "kernel_bss = \<lparr>thr = (\<lambda>_. \<lparr>stack_addr = 0, stack_size = 0, sp = 0, stack_byte = 0, th_error = 0, stat = 0, current_priority = 0,
       init_priority = 0, number_mask = 0, init_tick = 0, remaining_tick = 0, systemobject = False, event_set = 0, event_info = 0\<rparr>),
     rt_thread_priority_table = [], rt_thread_ready_priority_group = 0, rt_scheduler_lock_nest = 0, rt_current_thread = None,
     rt_current_priority = 0, rt_thread_defunct = [], suspend_thread = replicate 4 [], rt_interrupt_nest = 0, rt_tick = 0,
     tmr = (\<lambda>_. \<lparr>tm_flag = 0, tm_init_tick = 0, timeout_tick = 0\<rparr>), rt_timer_list = [], rt_timer_tmp = [], rt_soft_timer_list = [],
     soft_timer_status = 1, timer_thread = 1\<rparr>"

lemma kernel_bss_zero: "kernel_zero kernel_bss" "timer_thread kernel_bss = 1"
  by (simp_all add: kernel_zero_def kernel_bss_def)



lemma wait_suspends:
  assumes "rt_soft_timer_list k = []" "rt_current_thread k = Some t"
  shows "timer_thread_wait k = Option.bind (rt_thread_suspend t k) (\<lambda>(_, k1). rt_schedule k1)"
  using assms by (simp add: timer_thread_wait_def rt_timer_list_next_timeout_def)

text \<open>A timer that is due at the greatest tick is taken for no timer: the timer thread suspends itself with nothing to wake it.\<close>

lemma soft_timer_at_max_missed:
  assumes "rt_soft_timer_list k = r # rs" "timeout_tick (tmr k r) = RT_TICK_MAX" "rt_current_thread k = Some t"
  shows "timer_thread_wait k = Option.bind (rt_thread_suspend t k) (\<lambda>(_, k1). rt_schedule k1)"
  using assms by (simp add: timer_thread_wait_def rt_timer_list_next_timeout_def)

lemma ready_group: "klists {} k \<Longrightarrow> th_stat k m = RT_THREAD_READY \<Longrightarrow> rt_thread_ready_priority_group k \<noteq> 0"
proof
  assume l: "klists {} k" and m: "th_stat k m = RT_THREAD_READY" and z: "rt_thread_ready_priority_group k = 0"
  have p: "current_priority (thr k m) < 32" using klistsD(5) [OF l, of m] m by (simp add: th_ok_def)
  show False using klistsD(2) [OF l p] klistsD(4) [OF l p, of m] m z by simp
qed

text \<open>With a current thread that no longer runs, the ready thread with the only highest priority is chosen.\<close>

lemma schedule_picks:
  assumes "kinv k" "rt_current_thread k = Some c" "rt_scheduler_lock_nest k = 0" "th_stat k c = RT_THREAD_SUSPEND" "th_stat k m = RT_THREAD_READY"
    "\<And>u. th_stat k u = RT_THREAD_READY \<Longrightarrow> u \<noteq> m \<Longrightarrow> current_priority (thr k m) < current_priority (thr k u)"
  shows "\<exists>k'. rt_schedule k = Some k' \<and> kinv k' \<and> sched_frame k k' \<and> rt_current_thread k' = Some m \<and> th_stat k' m = RT_THREAD_RUNNING \<and>
     th_stat k' c = RT_THREAD_SUSPEND \<and> (\<forall>u. u \<noteq> m \<longrightarrow> th_stat k u = RT_THREAD_READY \<longrightarrow> th_stat k' u = RT_THREAD_READY)"
proof -
  have l: "klists {} k" and kc: "kcur k" using assms(1) by (simp_all add: kinv_def)
  have g: "th_stat k c = RT_THREAD_RUNNING \<or> rt_thread_ready_priority_group k \<noteq> 0" using ready_group [OF l assms(5)] by simp
  from schedule_ok [OF assms(1-3) g] obtain k' t where k': "rt_schedule k = Some k'" "kinv k'" "sched_frame k k'" "rt_current_thread k' = Some t"
     "th_stat k' t = RT_THREAD_RUNNING" "\<forall>q<current_priority (thr k' t). rt_thread_priority_table k' ! q = []" by blast
  have c': "th_stat k' c = RT_THREAD_SUSPEND" using sched_frame_suspended(2) [OF k'(3), of c] assms(4) by simp
  have l': "klists {} k'" and kc': "kcur k'" using k'(2) by (simp_all add: kinv_def)
  have run: "u = t" if "th_stat k' u = RT_THREAD_RUNNING" for u using kc' k'(4) that by (simp add: kcur_def)
  have rdy: "th_stat k' u = RT_THREAD_READY" if "th_stat k u = RT_THREAD_READY" "u \<noteq> t" for u
    using sched_frame_ready [OF k'(3), of u] that run by auto
  have pr: "current_priority (thr k' u) = current_priority (thr k u)" for u by (rule sched_frame_sel(1) [OF k'(3)])
  have tr: "th_stat k t = RT_THREAD_READY"
  proof (rule ccontr)
    assume n: "th_stat k t \<noteq> RT_THREAD_READY"
    moreover have "th_stat k t \<noteq> RT_THREAD_RUNNING" using kc assms(2,4) by (auto simp: kcur_def)
    ultimately have "th_stat k' t = th_stat k t" using sched_frame_suspended(2) [OF k'(3), of t] by simp
    with \<open>th_stat k t \<noteq> RT_THREAD_RUNNING\<close> k'(5) show False by simp
  qed
  have "t = m"
  proof (rule ccontr)
    assume n: "t \<noteq> m"
    have "th_stat k' m = RT_THREAD_READY" using rdy [OF assms(5)] n by simp
    moreover have "current_priority (thr k' m) < current_priority (thr k' t)" using assms(6) [OF tr n] by (simp add: pr)
    moreover have "current_priority (thr k' m) < 32" using klistsD(5) [OF l', of m] calculation(1) by (simp add: th_ok_def)
    ultimately show False using klistsD(4) [OF l', of "current_priority (thr k' m)" m] k'(6) by simp
  qed
  with k' c' rdy show ?thesis by blast
qed

text \<open>C30: After the start of the system the timer thread runs first, finds no timer and suspends itself; then the main
  thread runs, with the idle thread ready behind it.\<close>

theorem main_thread_runs:
  assumes "kernel_zero k" "distinct [m, timer_thread k, i]" "frame \<le> 248"
  shows "\<exists>k1 k2. rtthread_startup frame (Some m) (Some a) b i c k = Some k1 \<and> rt_current_thread k1 = Some (timer_thread k) \<and>
     timer_thread_wait k1 = Some k2 \<and> rt_current_thread k2 = Some m \<and> th_stat k2 m = RT_THREAD_RUNNING \<and>
     th_stat k2 (timer_thread k) = RT_THREAD_SUSPEND \<and> th_stat k2 i = RT_THREAD_READY \<and> kgood k2"
proof -
  let ?t = "timer_thread k"
  have d: "m \<noteq> ?t" "m \<noteq> i" "?t \<noteq> i" using assms(2) by auto
  obtain k1 where k1: "rtthread_startup frame (Some m) (Some a) b i c k = Some k1" "kinv k1" "tinv k1" "rt_current_thread k1 = Some ?t"
     "rt_scheduler_lock_nest k1 = 0"
     "\<And>u. th_stat k1 u = (if u = ?t then RT_THREAD_RUNNING else if u \<in> {m, i} then RT_THREAD_READY else RT_THREAD_INIT)"
     "current_priority (thr k1 m) = 10" "current_priority (thr k1 i) = 31"
    using boot_ok [OF assms(1) d assms(3), of a b c] by blast
  have nt: "rt_soft_timer_list k1 = []" using k1(3) by (simp add: tinv_at_def)
  have "th_stat k1 ?t \<in> {RT_THREAD_READY, RT_THREAD_RUNNING}" using k1(6) [of ?t] by simp
  then obtain k2 where k2: "rt_thread_suspend ?t k1 = Some (RT_EOK, k2)" "kinv k2" "tinv k2" "thr k2 = (thr k1)(?t := set_stat RT_THREAD_SUSPEND (thr k1 ?t))"
    "rt_current_thread k2 = rt_current_thread k1" "rt_scheduler_lock_nest k2 = rt_scheduler_lock_nest k1"
    using suspend_ok [OF k1(2,3)] by blast
  have e2: "rt_current_thread k2 = Some ?t" "rt_scheduler_lock_nest k2 = 0" using k1(4,5) k2(5,6) by simp_all
  have s7: "stat (set_stat RT_THREAD_SUSPEND (thr k1 ?t)) AND 7 = RT_THREAD_SUSPEND" by (rule set_stat_bits) simp
  have st2: "th_stat k2 u = (if u = ?t then RT_THREAD_SUSPEND else th_stat k1 u)" for u
    using s7 by (cases "u = ?t") (simp_all add: th_stat_def k2(4))
  have st: "th_stat k2 ?t = RT_THREAD_SUSPEND" "th_stat k2 m = RT_THREAD_READY" "th_stat k2 i = RT_THREAD_READY"
    using d by (simp_all add: st2 k1(6))
  have pr: "current_priority (thr k2 m) < current_priority (thr k2 u)" if "th_stat k2 u = RT_THREAD_READY" "u \<noteq> m" for u
  proof -
    have "u = i" using that st2 [of u] k1(6) [of u] by (simp split: if_splits)
    with d k1(7,8) show ?thesis by (simp add: k2(4))
  qed
  from schedule_picks [OF k2(2) e2 st(1,2) pr] obtain k3 where k3: "rt_schedule k2 = Some k3" "kinv k3" "sched_frame k2 k3"
    "rt_current_thread k3 = Some m" "th_stat k3 m = RT_THREAD_RUNNING" "th_stat k3 ?t = RT_THREAD_SUSPEND"
    "\<And>u. u \<noteq> m \<Longrightarrow> th_stat k2 u = RT_THREAD_READY \<Longrightarrow> th_stat k3 u = RT_THREAD_READY" by blast
  have "th_stat k3 i = RT_THREAD_READY" using k3(7) [of i] st(3) d(2) by simp
  moreover have "kgood k3" using kgoodI [OF k3(2) tinv_schedule [OF k2(3) k3(3)] k3(4)] .
  moreover have "timer_thread_wait k1 = Some k3" using wait_suspends [OF nt k1(4)] k2(1) k3(1) by simp
  ultimately show ?thesis using k1(1,4) k3(4-6) by blast
qed

theorem main_thread_runs_witness:
  "\<exists>k1 k2. rtthread_startup 64 (Some 0) (Some 0x20001000) 0x20002000 2 0x20003000 kernel_bss = Some k1 \<and>
     rt_current_thread k1 = Some (timer_thread kernel_bss) \<and>
     timer_thread_wait k1 = Some k2 \<and> rt_current_thread k2 = Some 0 \<and> th_stat k2 0 = RT_THREAD_RUNNING \<and>
     th_stat k2 (timer_thread kernel_bss) = RT_THREAD_SUSPEND \<and> th_stat k2 2 = RT_THREAD_READY \<and> kgood k2"
  by (rule main_thread_runs) (simp_all add: kernel_bss_zero)

lemma booted:
  "\<exists>k. rtthread_startup 64 (Some 0) (Some 0x20001000) 0x20002000 2 0x20003000 kernel_bss = Some k \<and> kgood k \<and>
     rt_current_thread k = Some 1 \<and> th_stat k 1 = RT_THREAD_RUNNING \<and> rt_scheduler_lock_nest k = 0 \<and> th_stat k 0 = RT_THREAD_READY"
  using boot_ok [OF kernel_bss_zero(1), where m = 0 and i = 2 and frame = 64 and a = "0x20001000" and b = "0x20002000" and c = "0x20003000"]
  by (auto simp: kgood_def kernel_bss_zero)

text \<open>C34: A thread that sleeps for \<open>n\<close> ticks, below half the tick range, is suspended until the clock has ticked
  exactly \<open>n\<close> times (once when \<open>n\<close> is 0), across the wrap of the 32-bit tick, and then it is ready or running again with the
  error of a timeout; meanwhile another thread runs, when one is ready and the scheduler is not locked. \<open>ticks m\<close> are
  \<open>m\<close> clock interrupts with nothing between them.\<close>

theorem sleep_exact:
  assumes "kgood k" "rt_current_thread k = Some c" "th_stat k c = RT_THREAD_RUNNING" "n < 0x7fffffff"
  shows "\<exists>k1. rt_thread_sleep n k = Some k1 \<and>
     (rt_scheduler_lock_nest k = 0 \<and> (\<exists>u. th_stat k u = RT_THREAD_READY) \<longrightarrow>
        (\<exists>u. rt_current_thread k1 = Some u \<and> u \<noteq> c \<and> th_stat k1 u = RT_THREAD_RUNNING)) \<and>
     (\<forall>m. \<exists>k2. ticks cb m k1 = Some k2 \<and> kgood k2 \<and>
        (if m < max 1 (unat n) then th_stat k2 c = RT_THREAD_SUSPEND
         else th_stat k2 c \<in> {RT_THREAD_READY, RT_THREAD_RUNNING} \<and> th_error (thr k2 c) = - RT_ETIMEOUT))"
proof -
  have k: "kinv k" "tinv k" using assms(1) by (simp_all add: kgood_def)
  obtain k1 c1 where k1: "rt_thread_sleep n k = Some k1" "kinv k1" "tinv k1" "rt_current_thread k1 = Some c1"
     "Thread_timer c \<in> set (rt_timer_list k1)" "remaining (rt_tick k1) k1 (Thread_timer c) = unat n"
     "rt_scheduler_lock_nest k = 0 \<and> (\<exists>u. th_stat k u = RT_THREAD_READY) \<longrightarrow> c1 \<noteq> c \<and> th_stat k1 c1 = RT_THREAD_RUNNING"
    using sleep_ok [OF k assms(2) _ assms(4)] assms(3) by auto
  have "\<exists>k2. ticks cb m k1 = Some k2 \<and> kgood k2 \<and> (if m < max 1 (unat n) then th_stat k2 c = RT_THREAD_SUSPEND
         else th_stat k2 c \<in> {RT_THREAD_READY, RT_THREAD_RUNNING} \<and> th_error (thr k2 c) = - RT_ETIMEOUT)" for m
  proof -
    obtain k2 c2 where "ticks cb m k1 = Some k2" "kinv k2" "tinv k2" "rt_current_thread k2 = Some c2"
      "if m < max 1 (unat n) then th_stat k2 c = RT_THREAD_SUSPEND else awake k2 c \<and> th_error (thr k2 c) = - RT_ETIMEOUT"
      using ticks_ok [OF k1(2-5), of cb m] unfolding k1(6) by (auto split: if_splits)
    then show ?thesis by (auto simp: kgood_def awake_def split: if_splits)
  qed
  with k1 show ?thesis by blast
qed

theorem sleep_exact_witness:
  "\<exists>k. rtthread_startup 64 (Some 0) (Some 0x20001000) 0x20002000 2 0x20003000 kernel_bss = Some k \<and>
     (\<exists>k1. rt_thread_sleep 1000 k = Some k1 \<and>
       (rt_scheduler_lock_nest k = 0 \<and> (\<exists>u. th_stat k u = RT_THREAD_READY) \<longrightarrow>
          (\<exists>u. rt_current_thread k1 = Some u \<and> u \<noteq> 1 \<and> th_stat k1 u = RT_THREAD_RUNNING)) \<and>
       (\<forall>m. \<exists>k2. ticks (\<lambda>_. Some) m k1 = Some k2 \<and> kgood k2 \<and>
          (if m < max 1 (unat (1000 :: u32)) then th_stat k2 1 = RT_THREAD_SUSPEND
           else th_stat k2 1 \<in> {RT_THREAD_READY, RT_THREAD_RUNNING} \<and> th_error (thr k2 1) = - RT_ETIMEOUT)))"
proof -
  obtain k where k: "rtthread_startup 64 (Some 0) (Some 0x20001000) 0x20002000 2 0x20003000 kernel_bss = Some k" "kgood k"
     "rt_current_thread k = Some 1" "th_stat k 1 = RT_THREAD_RUNNING" using booted by blast
  have "(1000 :: u32) < 0x7fffffff" by simp
  from sleep_exact [OF k(2-4) this, of "\<lambda>_. Some"] k(1) show ?thesis by blast
qed

text \<open>C40: After a call of \<open>rt_schedule\<close> with an unlocked scheduler the thread with the highest priority runs:
  the call returns, the kernel's lists are consistent again, the current thread is running and no
  ready thread has a higher priority. A switch goes to the thread that was ready longest in its list, a
  running thread is only displaced by a higher priority or, when it yields, by an equal one, and then
  it is the last of its list.\<close>

theorem schedule_highest:
  assumes "kinv k" "rt_current_thread k = Some c" "rt_scheduler_lock_nest k = 0"
    "th_stat k c = RT_THREAD_RUNNING \<or> rt_thread_ready_priority_group k \<noteq> 0"
  shows "\<exists>k' t. rt_schedule k = Some k' \<and> kinv k' \<and> rt_current_thread k' = Some t \<and> th_stat k' t = RT_THREAD_RUNNING \<and>
     (\<forall>u. th_stat k' u = RT_THREAD_READY \<longrightarrow> current_priority (thr k' t) \<le> current_priority (thr k' u)) \<and>
     (t \<noteq> c \<longrightarrow> hd (rt_thread_priority_table k ! current_priority (thr k' t)) = t \<and>
        (th_stat k c = RT_THREAD_RUNNING \<longrightarrow> current_priority (thr k' t) < current_priority (thr k c) \<or>
           current_priority (thr k' t) = current_priority (thr k c) \<and> stat (thr k c) AND RT_THREAD_STAT_YIELD_MASK \<noteq> 0 \<and>
           last (rt_thread_priority_table k' ! current_priority (thr k' t)) = c))"
proof -
  let ?p = "\<lambda>k' t. current_priority (thr k' t)"
  obtain k' t where k': "rt_schedule k = Some k'" "kinv k'" "rt_current_thread k' = Some t" "th_stat k' t = RT_THREAD_RUNNING"
    "\<forall>q<?p k' t. rt_thread_priority_table k' ! q = []"
    "if t = c then rt_thread_priority_table k' = rt_thread_priority_table k
     else \<exists>rest. rt_thread_priority_table k ! ?p k' t = t # rest \<and>
        rt_thread_priority_table k' ! ?p k' t = rest @ (if th_stat k c = RT_THREAD_RUNNING \<and> ?p k c = ?p k' t then [c] else []) \<and>
        (th_stat k c = RT_THREAD_RUNNING \<longrightarrow> ?p k' t < ?p k c \<or> ?p k' t = ?p k c \<and> stat (thr k c) AND 8 \<noteq> 0)"
    using schedule_ok [OF assms] by blast
  have l: "klists {} k'" using k'(2) by (simp add: kinv_def)
  have "current_priority (thr k' t) \<le> current_priority (thr k' u)" if "th_stat k' u = RT_THREAD_READY" for u
  proof -
    have "current_priority (thr k' u) < 32" using klistsD(5) [OF l, of u] that by (simp add: th_ok_def)
    then have "u \<in> set (rt_thread_priority_table k' ! current_priority (thr k' u))" using klistsD(4) [OF l] that by simp
    then show ?thesis using k'(5) by (metis empty_iff empty_set leI)
  qed
  moreover have "hd (rt_thread_priority_table k ! current_priority (thr k' t)) = t \<and>
        (th_stat k c = RT_THREAD_RUNNING \<longrightarrow> current_priority (thr k' t) < current_priority (thr k c) \<or>
           current_priority (thr k' t) = current_priority (thr k c) \<and> stat (thr k c) AND 8 \<noteq> 0 \<and>
           last (rt_thread_priority_table k' ! current_priority (thr k' t)) = c)" if "t \<noteq> c"
    using k'(6) that by auto
  ultimately show ?thesis using k'(1-4) by (intro exI [of _ k'] exI [of _ t]) simp
qed

theorem schedule_highest_witness:
  "\<exists>k c. rtthread_startup 64 (Some 0) (Some 0x20001000) 0x20002000 2 0x20003000 kernel_bss = Some k \<and>
     (\<exists>k' t. rt_schedule k = Some k' \<and> kinv k' \<and> rt_current_thread k' = Some t \<and> th_stat k' t = RT_THREAD_RUNNING \<and>
     (\<forall>u. th_stat k' u = RT_THREAD_READY \<longrightarrow> current_priority (thr k' t) \<le> current_priority (thr k' u)) \<and>
     (t \<noteq> c \<longrightarrow> hd (rt_thread_priority_table k ! current_priority (thr k' t)) = t \<and>
        (th_stat k c = RT_THREAD_RUNNING \<longrightarrow> current_priority (thr k' t) < current_priority (thr k c) \<or>
           current_priority (thr k' t) = current_priority (thr k c) \<and> stat (thr k c) AND RT_THREAD_STAT_YIELD_MASK \<noteq> 0 \<and>
           last (rt_thread_priority_table k' ! current_priority (thr k' t)) = c)))"
proof -
  obtain k where k: "rtthread_startup 64 (Some 0) (Some 0x20001000) 0x20002000 2 0x20003000 kernel_bss = Some k" "kinv k"
     "rt_current_thread k = Some 1" "th_stat k 1 = RT_THREAD_RUNNING" "rt_scheduler_lock_nest k = 0" using booted by (auto simp: kgood_def)
  from schedule_highest [OF k(2,3,5)] k(1,4) show ?thesis by blast
qed

end
