(* ===== verification/Ipc.thy ===== *)
theory Ipc
  imports Kernel_Calls
begin

text \<open>
  Semaphores, mutexes and events (\<open>src/smart-building-mcu/rt-thread/src/ipc.c\<close>) on the kernel of \<open>Kernel_Thread\<close>. An
  object is a record of its own fields with the number of its suspend list, one of the lists \<open>suspend_thread\<close> of
  the kernel, and an operation takes and returns the object and the kernel.

  A call that has to wait ends at its \<open>rt_schedule\<close> with the value \<open>Waiting t\<close>, and what it does when thread \<open>t\<close> runs again
  is a function of its own (\<open>_return\<close>). \<open>None\<close> is a failed assertion or a list that would be corrupted, as in the
  kernel.
\<close>

section \<open>Suspend lists\<close>

abbreviation (input) RT_IPC_FLAG_FIFO :: u8 where "RT_IPC_FLAG_FIFO \<equiv> 0"
abbreviation (input) RT_IPC_FLAG_PRIO :: u8 where "RT_IPC_FLAG_PRIO \<equiv> 1"

datatype ipc_result = Returned rt_err | Waiting nat

text \<open>\<open>RT_DEBUG_IN_THREAD_CONTEXT\<close>: a thread is current and no interrupt is being served.\<close>

definition in_thread_context :: "kernel \<Rightarrow> bool" where
  "in_thread_context k \<longleftrightarrow> rt_current_thread k \<noteq> None \<and> rt_interrupt_nest k = 0"

definition rt_ipc_object_init :: "nat \<Rightarrow> kernel \<Rightarrow> kernel option" where
  "rt_ipc_object_init l k = (if l < length (suspend_thread k) \<and> suspend_thread k ! l = [] then Some k else None)"

fun prio_insert :: "(nat \<Rightarrow> nat) \<Rightarrow> nat \<Rightarrow> nat list \<Rightarrow> nat list" where
  "prio_insert pr t [] = [t]"
| "prio_insert pr t (u # us) = (if pr t < pr u then t # u # us else u # prio_insert pr t us)"

definition ipc_insert :: "nat \<Rightarrow> u8 \<Rightarrow> nat \<Rightarrow> kernel \<Rightarrow> nat list" where
  "ipc_insert l flag t k =
     (if flag = RT_IPC_FLAG_FIFO then suspend_thread k ! l @ [t]
      else if flag = RT_IPC_FLAG_PRIO then prio_insert (\<lambda>u. current_priority (thr k u)) t (suspend_thread k ! l)
      else suspend_thread k ! l)"

definition rt_ipc_list_suspend :: "nat \<Rightarrow> nat \<Rightarrow> u8 \<Rightarrow> kernel \<Rightarrow> kernel option" where
  "rt_ipc_list_suspend l t flag k = do {
     (_, k1) \<leftarrow> rt_thread_suspend t k;
     (if \<not> l < length (suspend_thread k1) \<or> flag \<in> {RT_IPC_FLAG_FIFO, RT_IPC_FLAG_PRIO} \<and> linked t k1 then None
      else Some (k1\<lparr>suspend_thread := (suspend_thread k1)[l := ipc_insert l flag t k1]\<rparr>))
   }"

definition rt_ipc_list_resume :: "nat \<Rightarrow> kernel \<Rightarrow> kernel option" where
  "rt_ipc_list_resume l k =
     (if l < length (suspend_thread k)
      then (case suspend_thread k ! l of [] \<Rightarrow> None | t # _ \<Rightarrow> map_option snd (rt_thread_resume t k)) else None)"

partial_function (option) rt_ipc_list_resume_all :: "nat \<Rightarrow> kernel \<Rightarrow> kernel option" where
  "rt_ipc_list_resume_all l k =
     (if l < length (suspend_thread k)
      then (case suspend_thread k ! l of
              [] \<Rightarrow> Some k
            | t # _ \<Rightarrow> Option.bind (rt_thread_resume t (upd_thr t (\<lambda>th. th\<lparr>th_error := - RT_ERROR\<rparr>) k))
                (\<lambda>(_, k1). rt_ipc_list_resume_all l k1))
      else None)"

text \<open>What every waiting call does: the thread is suspended on the list, its timer is started when the wait is limited, and the
  processor is given away.\<close>

definition ipc_block :: "nat \<Rightarrow> u8 \<Rightarrow> int \<Rightarrow> nat \<Rightarrow> kernel \<Rightarrow> kernel option" where
  "ipc_block l flag time t k = do {
     k1 \<leftarrow> rt_ipc_list_suspend l t flag k;
     k2 \<leftarrow> (if time > 0
           then map_option snd (rt_timer_start (Thread_timer t)
             (snd (rt_timer_control (Thread_timer t) (RT_TIMER_CTRL_SET_TIME (of_int time)) k1)))
           else Some k1);
     rt_schedule k2
   }"

definition set_error :: "rt_err \<Rightarrow> nat \<Rightarrow> kernel \<Rightarrow> kernel" where
  "set_error e t k = upd_thr t (\<lambda>th. th\<lparr>th_error := e\<rparr>) k"

section \<open>Semaphores\<close>

abbreviation (input) RT_SEM_VALUE_MAX :: u16 where "RT_SEM_VALUE_MAX \<equiv> 0xffff"

record rt_semaphore =
  sem_flag :: u8
  sem_value :: u16
  sem_list :: nat

definition rt_sem_init :: "nat \<Rightarrow> u32 \<Rightarrow> u8 \<Rightarrow> kernel \<Rightarrow> (rt_semaphore \<times> kernel) option" where
  "rt_sem_init l value flag k =
     (if \<not> value < 0x10000 then None
      else map_option (Pair \<lparr>sem_flag = flag, sem_value = ucast value, sem_list = l\<rparr>) (rt_ipc_object_init l k))"

definition rt_sem_create :: "nat option \<Rightarrow> u32 \<Rightarrow> u8 \<Rightarrow> kernel \<Rightarrow> (rt_semaphore option \<times> kernel) option" where
  "rt_sem_create obj value flag k =
     (if rt_interrupt_nest k \<noteq> 0 \<or> \<not> value < 0x10000 then None
      else case obj of
        None \<Rightarrow> Some (None, k)
      | Some l \<Rightarrow> map_option (Pair (Some \<lparr>sem_flag = flag, sem_value = ucast value, sem_list = l\<rparr>)) (rt_ipc_object_init l k))"

definition rt_sem_detach :: "rt_semaphore \<Rightarrow> kernel \<Rightarrow> kernel option" where
  "rt_sem_detach s k = rt_ipc_list_resume_all (sem_list s) k"

definition rt_sem_delete :: "rt_semaphore \<Rightarrow> kernel \<Rightarrow> kernel option" where
  "rt_sem_delete s k = (if rt_interrupt_nest k \<noteq> 0 then None else rt_ipc_list_resume_all (sem_list s) k)"

definition rt_sem_take :: "int \<Rightarrow> rt_semaphore \<Rightarrow> kernel \<Rightarrow> (ipc_result \<times> rt_semaphore \<times> kernel) option" where
  "rt_sem_take time s k =
     (if sem_value s > 0 then Some (Returned RT_EOK, s\<lparr>sem_value := sem_value s - 1\<rparr>, k)
      else if time = 0 then Some (Returned (- RT_ETIMEOUT), s, k)
      else if \<not> in_thread_context k then None
      else do {
        t \<leftarrow> rt_current_thread k;
        k1 \<leftarrow> ipc_block (sem_list s) (sem_flag s) time t (set_error RT_EOK t k);
        Some (Waiting t, s, k1)
      })"

definition rt_sem_take_return :: "nat \<Rightarrow> kernel \<Rightarrow> rt_err" where
  "rt_sem_take_return t k = th_error (thr k t)"

definition rt_sem_trytake :: "rt_semaphore \<Rightarrow> kernel \<Rightarrow> (ipc_result \<times> rt_semaphore \<times> kernel) option" where
  "rt_sem_trytake s k = rt_sem_take 0 s k"

definition rt_sem_release :: "rt_semaphore \<Rightarrow> kernel \<Rightarrow> (rt_err \<times> rt_semaphore \<times> kernel) option" where
  "rt_sem_release s k =
     (if suspend_thread k ! sem_list s \<noteq> [] then do {
        k1 \<leftarrow> rt_ipc_list_resume (sem_list s) k;
        k2 \<leftarrow> rt_schedule k1;
        Some (RT_EOK, s, k2)
      }
      else if sem_value s < RT_SEM_VALUE_MAX then Some (RT_EOK, s\<lparr>sem_value := sem_value s + 1\<rparr>, k)
      else Some (- RT_EFULL, s, k))"

text \<open>The command is \<open>RT_IPC_CMD_RESET\<close> with its new value, or any other.\<close>

definition rt_sem_control :: "u32 option \<Rightarrow> rt_semaphore \<Rightarrow> kernel \<Rightarrow> (rt_err \<times> rt_semaphore \<times> kernel) option" where
  "rt_sem_control reset s k =
     (case reset of
        None \<Rightarrow> Some (- RT_ERROR, s, k)
      | Some value \<Rightarrow> do {
          k1 \<leftarrow> rt_ipc_list_resume_all (sem_list s) k;
          k2 \<leftarrow> rt_schedule k1;
          Some (RT_EOK, s\<lparr>sem_value := ucast value\<rparr>, k2)
        })"

section \<open>Mutexes\<close>

abbreviation (input) RT_MUTEX_VALUE_MAX :: u16 where "RT_MUTEX_VALUE_MAX \<equiv> 0xffff"
abbreviation (input) RT_MUTEX_HOLD_MAX :: u8 where "RT_MUTEX_HOLD_MAX \<equiv> 0xff"

record rt_mutex =
  mx_flag :: u8
  mx_value :: u16
  original_priority :: nat
  mx_hold :: u8
  mx_owner :: "nat option"
  mx_list :: nat

definition rt_mutex_init :: "nat \<Rightarrow> u8 \<Rightarrow> kernel \<Rightarrow> (rt_mutex \<times> kernel) option" where
  "rt_mutex_init l flag k = map_option
     (Pair \<lparr>mx_flag = flag, mx_value = 1, original_priority = 0xff, mx_hold = 0, mx_owner = None, mx_list = l\<rparr>) (rt_ipc_object_init l k)"

definition rt_mutex_create :: "nat option \<Rightarrow> u8 \<Rightarrow> kernel \<Rightarrow> (rt_mutex option \<times> kernel) option" where
  "rt_mutex_create obj flag k =
     (if rt_interrupt_nest k \<noteq> 0 then None
      else case obj of
        None \<Rightarrow> Some (None, k)
      | Some l \<Rightarrow> map_option (\<lambda>(m, k1). (Some m, k1)) (rt_mutex_init l flag k))"

definition rt_mutex_detach :: "rt_mutex \<Rightarrow> kernel \<Rightarrow> kernel option" where
  "rt_mutex_detach m k = rt_ipc_list_resume_all (mx_list m) k"

definition rt_mutex_delete :: "rt_mutex \<Rightarrow> kernel \<Rightarrow> kernel option" where
  "rt_mutex_delete m k = (if rt_interrupt_nest k \<noteq> 0 then None else rt_ipc_list_resume_all (mx_list m) k)"

text \<open>The priority of the owner is raised to that of a thread that waits (\<open>mutex_inherit\<close>).\<close>

definition mutex_inherit :: "rt_mutex \<Rightarrow> nat \<Rightarrow> kernel \<Rightarrow> kernel option" where
  "mutex_inherit m t k = do {
     ow \<leftarrow> mx_owner m;
     (if current_priority (thr k t) < current_priority (thr k ow)
      then map_option snd (rt_thread_control ow (RT_THREAD_CTRL_CHANGE_PRIORITY (current_priority (thr k t))) k) else Some k)
   }"

definition rt_mutex_take :: "int \<Rightarrow> rt_mutex \<Rightarrow> kernel \<Rightarrow> (ipc_result \<times> rt_mutex \<times> kernel) option" where
  "rt_mutex_take time m k =
     (if \<not> in_thread_context k then None
      else do {
        t \<leftarrow> rt_current_thread k;
        let k1 = set_error RT_EOK t k;
        (if mx_owner m = Some t then
           (if mx_hold m < RT_MUTEX_HOLD_MAX then Some (Returned RT_EOK, m\<lparr>mx_hold := mx_hold m + 1\<rparr>, k1)
            else Some (Returned (- RT_EFULL), m, k1))
         else if mx_value m > 0 then
           (let m1 = m\<lparr>mx_value := mx_value m - 1, mx_owner := Some t, original_priority := current_priority (thr k1 t)\<rparr>
            in if mx_hold m1 < RT_MUTEX_HOLD_MAX then Some (Returned RT_EOK, m1\<lparr>mx_hold := mx_hold m1 + 1\<rparr>, k1)
               else Some (Returned (- RT_EFULL), m1, k1))
         else if time = 0 then Some (Returned (- RT_ETIMEOUT), m, set_error (- RT_ETIMEOUT) t k1)
         else do {
           k2 \<leftarrow> mutex_inherit m t k1;
           k3 \<leftarrow> ipc_block (mx_list m) (mx_flag m) time t k2;
           Some (Waiting t, m, k3)
         })
      })"

definition rt_mutex_take_return :: "nat \<Rightarrow> kernel \<Rightarrow> rt_err" where
  "rt_mutex_take_return t k = th_error (thr k t)"

text \<open>The last release: the owner gets its priority back, and the first waiting thread becomes the owner.\<close>

definition mutex_restore :: "rt_mutex \<Rightarrow> nat \<Rightarrow> kernel \<Rightarrow> kernel option" where
  "mutex_restore m t k =
     (if original_priority m \<noteq> current_priority (thr k t)
      then map_option snd (rt_thread_control t (RT_THREAD_CTRL_CHANGE_PRIORITY (original_priority m)) k) else Some k)"

definition mutex_pass_on :: "rt_mutex \<Rightarrow> kernel \<Rightarrow> (rt_err \<times> rt_mutex \<times> kernel) option" where
  "mutex_pass_on m k =
     (case suspend_thread k ! mx_list m of
        [] \<Rightarrow> (if mx_value m < RT_MUTEX_VALUE_MAX
              then Some (RT_EOK, m\<lparr>mx_value := mx_value m + 1, mx_owner := None, original_priority := 0xff\<rparr>, k)
              else Some (- RT_EFULL, m, k))
      | u # _ \<Rightarrow>
          (let m1 = m\<lparr>mx_owner := Some u, original_priority := current_priority (thr k u)\<rparr>
           in if mx_hold m1 < RT_MUTEX_HOLD_MAX then do {
                k1 \<leftarrow> rt_ipc_list_resume (mx_list m) k;
                k2 \<leftarrow> rt_schedule k1;
                Some (RT_EOK, m1\<lparr>mx_hold := mx_hold m1 + 1\<rparr>, k2)
              }
              else Some (- RT_EFULL, m1, k)))"

definition rt_mutex_release :: "rt_mutex \<Rightarrow> kernel \<Rightarrow> (rt_err \<times> rt_mutex \<times> kernel) option" where
  "rt_mutex_release m k =
     (if \<not> in_thread_context k then None
      else do {
        t \<leftarrow> rt_current_thread k;
        (if mx_owner m \<noteq> Some t then Some (- RT_ERROR, m, set_error (- RT_ERROR) t k)
         else let m1 = m\<lparr>mx_hold := mx_hold m - 1\<rparr>
              in if mx_hold m1 = 0 then do {
                   k1 \<leftarrow> mutex_restore m1 t k;
                   mutex_pass_on m1 k1
                 }
                 else Some (RT_EOK, m1, k))
      })"

definition rt_mutex_control :: "rt_mutex \<Rightarrow> rt_err" where
  "rt_mutex_control m = - RT_ERROR"

section \<open>Events\<close>

abbreviation (input) RT_EVENT_FLAG_AND :: u8 where "RT_EVENT_FLAG_AND \<equiv> 0x01"
abbreviation (input) RT_EVENT_FLAG_OR :: u8 where "RT_EVENT_FLAG_OR \<equiv> 0x02"
abbreviation (input) RT_EVENT_FLAG_CLEAR :: u8 where "RT_EVENT_FLAG_CLEAR \<equiv> 0x04"

record rt_event =
  ev_flag :: u8
  ev_set :: u32
  ev_list :: nat

definition rt_event_init :: "nat \<Rightarrow> u8 \<Rightarrow> kernel \<Rightarrow> (rt_event \<times> kernel) option" where
  "rt_event_init l flag k = map_option (Pair \<lparr>ev_flag = flag, ev_set = 0, ev_list = l\<rparr>) (rt_ipc_object_init l k)"

definition rt_event_create :: "nat option \<Rightarrow> u8 \<Rightarrow> kernel \<Rightarrow> (rt_event option \<times> kernel) option" where
  "rt_event_create obj flag k =
     (if rt_interrupt_nest k \<noteq> 0 then None
      else case obj of
        None \<Rightarrow> Some (None, k)
      | Some l \<Rightarrow> map_option (\<lambda>(e, k1). (Some e, k1)) (rt_event_init l flag k))"

definition rt_event_detach :: "rt_event \<Rightarrow> kernel \<Rightarrow> kernel option" where
  "rt_event_detach e k = rt_ipc_list_resume_all (ev_list e) k"

definition rt_event_delete :: "rt_event \<Rightarrow> kernel \<Rightarrow> kernel option" where
  "rt_event_delete e k = (if rt_interrupt_nest k \<noteq> 0 then None else rt_ipc_list_resume_all (ev_list e) k)"

text \<open>Whether a waiting thread gets its events out of \<open>set\<close>, and which ones; \<open>None\<close> is a thread with neither mode.\<close>

definition event_match :: "u8 \<Rightarrow> u32 \<Rightarrow> u32 \<Rightarrow> u32 option option" where
  "event_match info want have_set =
     (if info AND RT_EVENT_FLAG_AND \<noteq> 0 then Some (if want AND have_set = want then Some want else None)
      else if info AND RT_EVENT_FLAG_OR \<noteq> 0 then Some (if want AND have_set \<noteq> 0 then Some (want AND have_set) else None)
      else None)"

text \<open>The walk over the suspend list. The result tells whether the walk was broken off with \<open>-RT_EINVAL\<close> and whether a thread was
  resumed.\<close>

fun event_walk :: "nat list \<Rightarrow> bool \<Rightarrow> rt_event \<Rightarrow> kernel \<Rightarrow> (bool \<times> bool \<times> rt_event \<times> kernel) option" where
  "event_walk [] need_schedule e k = Some (False, need_schedule, e, k)"
| "event_walk (t # ts) need_schedule e k =
     (case event_match (event_info (thr k t)) (event_set (thr k t)) (ev_set e) of
        None \<Rightarrow> Some (True, need_schedule, e, k)
      | Some None \<Rightarrow> event_walk ts need_schedule e k
      | Some (Some got) \<Rightarrow>
          (let k1 = upd_thr t (\<lambda>th. th\<lparr>event_set := got\<rparr>) k;
               e1 = (if event_info (thr k1 t) AND RT_EVENT_FLAG_CLEAR \<noteq> 0 then e\<lparr>ev_set := ev_set e AND NOT got\<rparr> else e)
           in Option.bind (rt_thread_resume t k1) (\<lambda>(_, k2). event_walk ts True e1 k2)))"

definition rt_event_send :: "u32 \<Rightarrow> rt_event \<Rightarrow> kernel \<Rightarrow> (rt_err \<times> rt_event \<times> kernel) option" where
  "rt_event_send evs e k =
     (if evs = 0 then Some (- RT_ERROR, e, k)
      else do {
        (broken, need_schedule, e1, k1) \<leftarrow> event_walk (suspend_thread k ! ev_list e) False (e\<lparr>ev_set := ev_set e OR evs\<rparr>) k;
        (if broken then Some (- RT_EINVAL, e1, k1)
         else if need_schedule then map_option (\<lambda>k2. (RT_EOK, e1, k2)) (rt_schedule k1)
         else Some (RT_EOK, e1, k1))
      })"

text \<open>The second result is what is stored through \<open>recved\<close>.\<close>

definition rt_event_recv :: "u32 \<Rightarrow> u8 \<Rightarrow> int \<Rightarrow> rt_event \<Rightarrow> kernel \<Rightarrow> ((ipc_result \<times> u32 option) \<times> rt_event \<times> kernel) option" where
  "rt_event_recv evs opt timeout e k =
     (if \<not> in_thread_context k then None
      else if evs = 0 then Some ((Returned (- RT_ERROR), None), e, k)
      else do {
        t \<leftarrow> rt_current_thread k;
        let k1 = set_error RT_EOK t k;
        status \<leftarrow> event_match opt evs (ev_set e);
        (if status \<noteq> None then
           (let k2 = upd_thr t (\<lambda>th. th\<lparr>event_set := ev_set e AND evs, event_info := opt\<rparr>) k1;
                e1 = (if opt AND RT_EVENT_FLAG_CLEAR \<noteq> 0 then e\<lparr>ev_set := ev_set e AND NOT evs\<rparr> else e)
            in Some ((Returned RT_EOK, Some (ev_set e AND evs)), e1, k2))
         else if timeout = 0 then Some ((Returned (- RT_ETIMEOUT), None), e, set_error (- RT_ETIMEOUT) t k1)
         else do {
           k2 \<leftarrow> ipc_block (ev_list e) (ev_flag e) timeout t (upd_thr t (\<lambda>th. th\<lparr>event_set := evs, event_info := opt\<rparr>) k1);
           Some ((Waiting t, None), e, k2)
         })
      })"

definition rt_event_recv_return :: "nat \<Rightarrow> kernel \<Rightarrow> rt_err \<times> u32 option" where
  "rt_event_recv_return t k = (if th_error (thr k t) \<noteq> RT_EOK then (th_error (thr k t), None) else (RT_EOK, Some (event_set (thr k t))))"

definition rt_event_control :: "bool \<Rightarrow> rt_event \<Rightarrow> kernel \<Rightarrow> (rt_err \<times> rt_event \<times> kernel) option" where
  "rt_event_control reset e k =
     (if \<not> reset then Some (- RT_ERROR, e, k)
      else do {
        k1 \<leftarrow> rt_ipc_list_resume_all (ev_list e) k;
        k2 \<leftarrow> rt_schedule k1;
        Some (RT_EOK, e\<lparr>ev_set := 0\<rparr>, k2)
      })"

end
