(* ===== verification/Ipc_Wait.thy ===== *)
theory Ipc_Wait
  imports Ipc "HOL-Library.Multiset"
begin

text \<open>
  What the IPC objects share (\<open>src/smart-building-mcu/rt-thread/src/ipc.c\<close>): how a thread joins and leaves a list of
  waiting threads, that every other kernel call only takes threads out of such lists (\<open>shrinks\<close>), that waking all threads of a
  deleted object returns, and the interface \<open>ipc_object\<close>: an object whose calls follow an abstract
  automaton does so in every sequence of calls.
\<close>

section \<open>Lists of waiting threads\<close>

lemma concat_upd:
  assumes "l < length xs"
  shows "mset (concat (xs[l := ys])) + mset (xs ! l) = mset (concat xs) + mset ys"
proof -
  have "concat xs = concat (take l xs) @ xs ! l @ concat (drop (Suc l) xs)"
    by (subst id_take_nth_drop [OF assms]) simp
  moreover have "concat (xs[l := ys]) = concat (take l xs) @ ys @ concat (drop (Suc l) xs)"
    by (simp add: upd_conv_take_nth_drop [OF assms])
  ultimately show ?thesis by simp
qed

lemma distinct_concat_add:
  assumes "distinct (concat xs)" "l < length xs" "t \<notin> set (concat xs)" "mset ys = add_mset t (mset (xs ! l))"
  shows "distinct (concat (xs[l := ys]))" "set (concat (xs[l := ys])) = insert t (set (concat xs))"
proof -
  have m: "mset (concat (xs[l := ys])) = add_mset t (mset (concat xs))"
    using concat_upd [OF assms(2), of ys] assms(4) by simp
  then show s: "set (concat (xs[l := ys])) = insert t (set (concat xs))"
    by (metis set_mset_add_mset_insert set_mset_mset)
  have "mset (concat (xs[l := ys])) = mset (t # concat xs)" using m by simp
  then show "distinct (concat (xs[l := ys]))"
    using assms(1,3) by (metis distinct.simps(2) mset_eq_imp_distinct_iff)
qed

lemma filter_concat_mem:
  assumes "distinct (concat xs)" "l < length xs" "t \<in> set (xs ! l)"
  shows "map (filter (\<lambda>u. u \<noteq> t)) xs = xs[l := remove1 t (xs ! l)]"
proof (rule nth_equalityI)
  fix i
  assume "i < length (map (filter (\<lambda>u. u \<noteq> t)) xs)"
  then have i: "i < length xs" by simp
  have d: "distinct (xs ! l)" using assms(1,2) by (simp add: distinct_concat_iff)
  show "map (filter (\<lambda>u. u \<noteq> t)) xs ! i = xs[l := remove1 t (xs ! l)] ! i"
  proof (cases "i = l")
    case True
    have "filter (\<lambda>u. u \<noteq> t) (xs ! l) = remove1 t (xs ! l)"
      using d by (auto simp: distinct_remove1_removeAll removeAll_filter_not_eq intro: filter_cong)
    with True i show ?thesis by simp
  next
    case False
    have split: "concat xs = concat (take l xs) @ xs ! l @ concat (drop (Suc l) xs)"
      by (subst id_take_nth_drop [OF assms(2)]) simp
    have "t \<notin> set (xs ! i)"
    proof
      assume t: "t \<in> set (xs ! i)"
      have "xs ! i \<in> set (take l xs) \<or> xs ! i \<in> set (drop (Suc l) xs)"
      proof (cases "i < l")
        case True
        then have "xs ! i = take l xs ! i" "i < length (take l xs)" using assms(2) by simp_all
        then show ?thesis by (metis nth_mem)
      next
        case False
        then have "xs ! i = drop (Suc l) xs ! (i - Suc l)" "i - Suc l < length (drop (Suc l) xs)" using \<open>i \<noteq> l\<close> i by simp_all
        then show ?thesis by (metis nth_mem)
      qed
      then have "t \<in> set (concat (take l xs)) \<or> t \<in> set (concat (drop (Suc l) xs))" using t by auto
      with assms(1,3) split show False by auto
    qed
    then have "filter (\<lambda>u. u \<noteq> t) (xs ! i) = xs ! i" by (intro filter_True) auto
    with False i show ?thesis by simp
  qed
qed simp

lemma prio_insert_mset: "mset (prio_insert pr t l) = add_mset t (mset l)"
  by (induction l) auto

lemma prio_insert_sorted: "sorted (map pr l) \<Longrightarrow> sorted (map pr (prio_insert pr t l))"
proof (induction l)
  case (Cons u l)
  have "set (prio_insert pr t l) = insert t (set l)" using prio_insert_mset [of pr t l] by (metis set_mset_add_mset_insert set_mset_mset)
  with Cons show ?case by auto
qed simp

lemma ipc_insert_mset:
  "flag \<in> {RT_IPC_FLAG_FIFO, RT_IPC_FLAG_PRIO} \<Longrightarrow> mset (ipc_insert l flag t k) = add_mset t (mset (suspend_thread k ! l))"
  by (auto simp: ipc_insert_def prio_insert_mset)

lemma klists_suspend:
  assumes "klists {} k" "th_stat k t = RT_THREAD_SUSPEND" "\<not> linked t k" "l < length (suspend_thread k)"
    "mset q = add_mset t (mset (suspend_thread k ! l))"
  shows "klists {} (k\<lparr>suspend_thread := (suspend_thread k)[l := q]\<rparr>)"
proof -
  let ?k = "k\<lparr>suspend_thread := (suspend_thread k)[l := q]\<rparr>"
  have st: "th_stat ?k = th_stat k" by (rule th_stat_cong) simp
  have nt: "t \<notin> set (concat (suspend_thread k))" using assms(3) by (auto simp: linked_def)
  have d: "distinct (concat (suspend_thread k))" using assms(1) by (simp add: klists_def)
  note a = distinct_concat_add [OF d assms(4) nt assms(5)]
  have "th_stat k u = RT_THREAD_SUSPEND" if "u \<in> set (concat ((suspend_thread k)[l := q]))" for u
    using that assms(1,2) unfolding a(2) klists_def by auto
  then show ?thesis using assms(1) a(1) unfolding klists_def st by simp
qed

lemma waiting_suspended:
  assumes "kinv k" "l < length (suspend_thread k)" "t \<in> set (suspend_thread k ! l)"
  shows "th_stat k t = RT_THREAD_SUSPEND"
proof -
  have "t \<in> set (concat (suspend_thread k))" using assms(2,3) nth_mem by (metis UN_I set_concat)
  then show ?thesis using assms(1) unfolding kinv_def klists_def by blast
qed

lemma current_not_waiting:
  "kinv k \<Longrightarrow> th_stat k c = RT_THREAD_RUNNING \<Longrightarrow> l < length (suspend_thread k) \<Longrightarrow> c \<notin> set (suspend_thread k ! l)"
  using waiting_suspended [of k l c] by auto

lemma waiting_distinct: "kinv k \<Longrightarrow> l < length (suspend_thread k) \<Longrightarrow> distinct (suspend_thread k ! l)"
  by (simp add: kinv_def klists_def distinct_concat_iff)

text \<open>Waking a thread of a list, and the first one.\<close>

lemma resume_waiting_ok:
  assumes "kinv k" "tinv k" "l < length (suspend_thread k)" "t \<in> set (suspend_thread k ! l)"
  shows "\<exists>k'. rt_thread_resume t k = Some (RT_EOK, k') \<and> kinv k' \<and> tinv k' \<and>
     thr k' = (thr k)(t := set_stat (if rt_current_thread k = Some t then RT_THREAD_RUNNING else RT_THREAD_READY) (thr k t)) \<and>
     awake k' t \<and> suspend_thread k' = (suspend_thread k)[l := remove1 t (suspend_thread k ! l)] \<and>
     rt_current_thread k' = rt_current_thread k \<and> rt_scheduler_lock_nest k' = rt_scheduler_lock_nest k \<and> rt_tick k' = rt_tick k"
proof -
  have d: "distinct (concat (suspend_thread k))" using assms(1) by (simp add: kinv_def klists_def)
  obtain k' where k': "rt_thread_resume t k = Some (RT_EOK, k')" "kinv k'" "tinv k'"
     "th_stat k' t = (if rt_current_thread k = Some t then RT_THREAD_RUNNING else RT_THREAD_READY)"
     "thr k' = (thr k)(t := set_stat (if rt_current_thread k = Some t then RT_THREAD_RUNNING else RT_THREAD_READY) (thr k t))"
     "rt_current_thread k' = rt_current_thread k" "rt_scheduler_lock_nest k' = rt_scheduler_lock_nest k" "rt_tick k' = rt_tick k"
     "suspend_thread k' = map (filter (\<lambda>u. u \<noteq> t)) (suspend_thread k)"
    using resume_ok [OF assms(1,2) waiting_suspended [OF assms(1,3,4)]] by blast
  have "awake k' t" using k'(4) by (simp add: awake_def)
  moreover have "suspend_thread k' = (suspend_thread k)[l := remove1 t (suspend_thread k ! l)]"
    using k'(9) filter_concat_mem [OF d assms(3,4)] by simp
  ultimately show ?thesis using k' by blast
qed

lemma ipc_resume_ok:
  assumes "kinv k" "tinv k" "l < length (suspend_thread k)" "suspend_thread k ! l = t # rest"
  shows "\<exists>k'. rt_ipc_list_resume l k = Some k' \<and> kinv k' \<and> tinv k' \<and>
     thr k' = (thr k)(t := set_stat (if rt_current_thread k = Some t then RT_THREAD_RUNNING else RT_THREAD_READY) (thr k t)) \<and>
     awake k' t \<and> suspend_thread k' = (suspend_thread k)[l := rest] \<and> rt_current_thread k' = rt_current_thread k \<and>
     rt_scheduler_lock_nest k' = rt_scheduler_lock_nest k \<and> rt_tick k' = rt_tick k"
  using resume_waiting_ok [OF assms(1-3), of t] assms(3,4) by (auto simp: rt_ipc_list_resume_def)


lemma unat_of_time: "0 \<le> time \<Longrightarrow> time < 2 ^ 32 \<Longrightarrow> unat (of_int time :: u32) = nat time"
  by (simp add: unsigned_of_int take_bit_int_eq_self)

lemma timed_ok:
  assumes "tinv k" "th_stat k c = RT_THREAD_SUSPEND" "n < 0x7fffffff"
  shows "\<exists>k'. map_option snd (rt_timer_start (Thread_timer c) (snd (rt_timer_control (Thread_timer c) (RT_TIMER_CTRL_SET_TIME n) k))) = Some k' \<and>
     tinv k' \<and> same_threads k k' \<and> Thread_timer c \<in> set (rt_timer_list k') \<and> remaining (rt_tick k') k' (Thread_timer c) = unat n"
proof -
  let ?r = "Thread_timer c"
  define k2 where "k2 = snd (rt_timer_control ?r (RT_TIMER_CTRL_SET_TIME n) k)"
  have s2: "same_threads k k2" by (simp add: k2_def same_threads_def)
  have rem2: "remaining (rt_tick k) k2 = remaining (rt_tick k) k" by (rule ext) (simp add: remaining_def k2_def)
  have t2: "tinv k2"
    using assms(1) same_threadsD(1) [OF s2] rem2 by (auto simp: tinv_at_def) (auto simp: k2_def split: if_splits)
  have "th_stat k2 c = RT_THREAD_SUSPEND" using same_threadsD(1) [OF s2] assms(2) by simp
  moreover have "tm_init_tick (tmr k2 ?r) = n" by (simp add: k2_def)
  ultimately obtain k3 where k3: "rt_timer_start ?r k2 = Some (RT_EOK, k3)" "tinv k3" "same_threads k2 k3" "?r \<in> set (rt_timer_list k3)"
    "remaining (rt_tick k2) k3 ?r = unat n" using timer_start_ok [OF t2, of c] assms(3) by auto
  have "same_threads k k3" using s2 k3(3) by (simp add: same_threads_def)
  moreover have "rt_tick k3 = rt_tick k2" using k3(3) by (simp add: same_threads_def)
  moreover have "map_option snd (rt_timer_start ?r (snd (rt_timer_control ?r (RT_TIMER_CTRL_SET_TIME n) k))) = Some k3"
    unfolding k2_def [symmetric] k3(1) by simp
  ultimately show ?thesis using k3 by auto
qed

text \<open>Waiting on a list: the current thread is suspended there and its timer runs when the wait is limited.\<close>

lemma ipc_suspend_ok:
  assumes "kinv k" "tinv k" "rt_current_thread k = Some c" "th_stat k c = RT_THREAD_RUNNING" "l < length (suspend_thread k)"
    "flag \<in> {RT_IPC_FLAG_FIFO, RT_IPC_FLAG_PRIO}"
  shows "\<exists>k'. rt_ipc_list_suspend l c flag k = Some k' \<and> kinv k' \<and> tinv k' \<and> rt_current_thread k' = Some c \<and>
     suspend_thread k' = (suspend_thread k)[l := ipc_insert l flag c k] \<and> thr k' = (thr k)(c := set_stat RT_THREAD_SUSPEND (thr k c)) \<and>
     th_stat k' c = RT_THREAD_SUSPEND \<and> rt_scheduler_lock_nest k' = rt_scheduler_lock_nest k \<and> rt_tick k' = rt_tick k \<and>
     Thread_timer c \<notin> set (rt_timer_list k')"
proof -
  obtain k1 where k1: "rt_thread_suspend c k = Some (RT_EOK, k1)" "kinv k1" "tinv k1" "\<not> linked c k1"
     "thr k1 = (thr k)(c := set_stat RT_THREAD_SUSPEND (thr k c))" "rt_current_thread k1 = rt_current_thread k"
     "rt_scheduler_lock_nest k1 = rt_scheduler_lock_nest k" "rt_tick k1 = rt_tick k" "rt_timer_list k1 = rt_timer_list k"
     "suspend_thread k1 = suspend_thread k"
    using suspend_ok [OF assms(1,2), of c] assms(4) by blast
  have s1: "th_stat k1 c = RT_THREAD_SUSPEND" unfolding th_stat_def k1(5) fun_upd_same by (rule set_stat_bits) simp
  have pr: "current_priority (thr k1 u) = current_priority (thr k u)" for u by (simp add: k1(5) set_stat_def)
  have ins: "ipc_insert l flag c k1 = ipc_insert l flag c k" by (simp add: ipc_insert_def k1(10) pr)
  define k2 where "k2 = k1\<lparr>suspend_thread := (suspend_thread k1)[l := ipc_insert l flag c k1]\<rparr>"
  have l1: "klists {} k1" and c1: "kcur k1" using k1(2) by (simp_all add: kinv_def)
  have "klists {} k2" unfolding k2_def
    by (rule klists_suspend [OF l1 s1 k1(4) _ ipc_insert_mset [OF assms(6)]]) (simp add: k1(10) assms(5))
  moreover have st2: "th_stat k2 = th_stat k1" by (rule th_stat_cong) (simp add: k2_def)
  moreover have "kcur k2" using c1 unfolding kcur_def st2 by (simp add: k2_def)
  ultimately have i2: "kinv k2" by (simp add: kinv_def)
  have "tinv_at (rt_tick k1) k2" using k1(3)
    by (rule tinv_threads) (simp_all only: st2 active_suspended [OF k1(3)], simp_all add: k2_def)
  then have t2: "tinv k2" by (simp add: k2_def)
  have nt: "Thread_timer c \<notin> set (rt_timer_list k)" using idle_timer(1) [OF assms(2), of c] assms(4) by simp
  have "rt_ipc_list_suspend l c flag k = Some k2"
    unfolding rt_ipc_list_suspend_def k1(1) using k1(4) assms(5) by (simp add: k2_def k1(10))
  then show ?thesis using i2 t2 nt s1 st2 assms(3)
    by (intro exI [of _ k2]) (simp add: k2_def k1 ins)
qed

lemma ipc_block_ok:
  assumes "kinv k" "tinv k" "rt_current_thread k = Some c" "th_stat k c = RT_THREAD_RUNNING" "l < length (suspend_thread k)"
    "flag \<in> {RT_IPC_FLAG_FIFO, RT_IPC_FLAG_PRIO}" "time < 0x7fffffff"
  shows "\<exists>k' c'. ipc_block l flag time c k = Some k' \<and> kinv k' \<and> tinv k' \<and> rt_current_thread k' = Some c' \<and>
     th_stat k' c = RT_THREAD_SUSPEND \<and> suspend_thread k' = (suspend_thread k)[l := ipc_insert l flag c k] \<and>
     (\<forall>u. th_error (thr k' u) = th_error (thr k u) \<and> current_priority (thr k' u) = current_priority (thr k u) \<and>
        event_set (thr k' u) = event_set (thr k u) \<and> event_info (thr k' u) = event_info (thr k u)) \<and>
     (if time > 0 then Thread_timer c \<in> set (rt_timer_list k') \<and> remaining (rt_tick k') k' (Thread_timer c) = nat time
      else Thread_timer c \<notin> set (rt_timer_list k')) \<and>
     rt_scheduler_lock_nest k' = rt_scheduler_lock_nest k \<and> rt_tick k' = rt_tick k"
proof -
  obtain k1 where k1: "rt_ipc_list_suspend l c flag k = Some k1" "kinv k1" "tinv k1" "rt_current_thread k1 = Some c"
     "suspend_thread k1 = (suspend_thread k)[l := ipc_insert l flag c k]" "thr k1 = (thr k)(c := set_stat RT_THREAD_SUSPEND (thr k c))"
     "th_stat k1 c = RT_THREAD_SUSPEND" "rt_scheduler_lock_nest k1 = rt_scheduler_lock_nest k" "rt_tick k1 = rt_tick k"
     "Thread_timer c \<notin> set (rt_timer_list k1)" using ipc_suspend_ok [OF assms(1-6)] by blast
  obtain k2 where k2: "(if time > 0 then map_option snd (rt_timer_start (Thread_timer c)
             (snd (rt_timer_control (Thread_timer c) (RT_TIMER_CTRL_SET_TIME (of_int time)) k1))) else Some k1) = Some k2"
     "tinv k2" "same_threads k1 k2" "if time > 0 then Thread_timer c \<in> set (rt_timer_list k2) \<and> remaining (rt_tick k2) k2 (Thread_timer c) = nat time
      else Thread_timer c \<notin> set (rt_timer_list k2)"
  proof (cases "time > 0")
    case True
    have u: "unat (of_int time :: u32) = nat time" using True assms(7) by (intro unat_of_time) simp_all
    then have "(of_int time :: u32) < 0x7fffffff" using True assms(7) by (simp add: word_less_nat_alt)
    from timed_ok [OF k1(3,7) this] that True u show ?thesis by auto
  next
    case False
    with that [of k1] k1(3,10) show ?thesis by (simp add: same_threads_def)
  qed
  have i2: "kinv k2" "rt_current_thread k2 = Some c" using same_threadsD(4) [OF k2(3)] k2(3) k1(2,4) by (simp_all add: same_threads_def)
  obtain k' c' where k': "rt_schedule k2 = Some k'" "kinv k'" "sched_frame k2 k'" "rt_current_thread k' = Some c'"
    using schedule_any [OF i2] by blast
  have s2: "th_stat k2 c = RT_THREAD_SUSPEND" using same_threadsD(1) [OF k2(3)] k1(7) by simp
  have f: "th_error (thr k' u) = th_error (thr k u) \<and> current_priority (thr k' u) = current_priority (thr k u) \<and>
        event_set (thr k' u) = event_set (thr k u) \<and> event_info (thr k' u) = event_info (thr k u)" for u
  proof -
    have "thr k' u = (thr k2 u)\<lparr>stat := stat (thr k' u)\<rparr>" using k'(3) unfolding sched_frame_def by blast
    moreover have "thr k2 u = thr k1 u" using k2(3) by (simp add: same_threads_def)
    ultimately obtain s where "thr k' u = (thr k1 u)\<lparr>stat := s\<rparr>" by metis
    then show ?thesis by (simp add: k1(6) set_stat_def)
  qed
  note ob = sched_frame_objects [OF k'(3)]
  have rem: "remaining (rt_tick k') k' (Thread_timer c) = remaining (rt_tick k2) k2 (Thread_timer c)" by (simp add: remaining_def ob)
  have e2: "suspend_thread k2 = suspend_thread k1" "rt_scheduler_lock_nest k2 = rt_scheduler_lock_nest k1" "rt_tick k2 = rt_tick k1"
    using k2(3) by (simp_all add: same_threads_def)
  have "ipc_block l flag time c k = Some k'" unfolding ipc_block_def k1(1) using k2(1) k'(1) by simp
  moreover have "th_stat k' c = RT_THREAD_SUSPEND" using sched_frame_suspended(2) [OF k'(3), of c] s2 by simp
  moreover have "tinv k'" by (rule tinv_schedule [OF k2(2) k'(3)])
  moreover have "if time > 0 then Thread_timer c \<in> set (rt_timer_list k') \<and> remaining (rt_tick k') k' (Thread_timer c) = nat time
      else Thread_timer c \<notin> set (rt_timer_list k')" unfolding rem ob(2) by (rule k2(4))
  moreover have "suspend_thread k' = (suspend_thread k)[l := ipc_insert l flag c k]" "rt_scheduler_lock_nest k' = rt_scheduler_lock_nest k"
    "rt_tick k' = rt_tick k" using ob(5-7) e2 k1(5,8,9) by simp_all
  ultimately show ?thesis using k'(2,4) f by blast
qed

section \<open>Kernel calls and the lists of waiting threads\<close>

text \<open>Kernel calls only take threads out of the suspend lists, and leave alone what the others wait for. \<open>sh k f X\<close> is the rule format: if \<open>X\<close> returns, the kernel in its result
  is reached from \<open>k\<close> in this way.\<close>

definition wait_data :: "rt_thread \<Rightarrow> rt_err \<times> u32 \<times> u8" where
  "wait_data th = (th_error th, event_set th, event_info th)"

lemma wait_data_sel [simp]: "wait_data (set_stat s th) = wait_data th" "wait_data (change_priority p th) = wait_data th"
  by (simp_all add: wait_data_def set_stat_def change_priority_def)

lemma wait_data_upd [simp]:
  "wait_data (th\<lparr>stat := st\<rparr>) = wait_data th" "wait_data (th\<lparr>current_priority := p\<rparr>) = wait_data th"
  "wait_data (th\<lparr>number_mask := m\<rparr>) = wait_data th" "wait_data (th\<lparr>remaining_tick := n\<rparr>) = wait_data th"
  "wait_data (th\<lparr>systemobject := b\<rparr>) = wait_data th"
  by (simp_all add: wait_data_def)

definition shrinks :: "kernel \<Rightarrow> kernel \<Rightarrow> bool" where
  "shrinks k k' \<longleftrightarrow> (\<exists>P. suspend_thread k' = map (filter P) (suspend_thread k)) \<and> rt_interrupt_nest k' = rt_interrupt_nest k \<and>
     (\<forall>u\<in>set (concat (suspend_thread k')). wait_data (thr k' u) = wait_data (thr k u))"

definition sh :: "kernel \<Rightarrow> ('a \<Rightarrow> kernel) \<Rightarrow> 'a option \<Rightarrow> bool" where
  "sh k f X \<longleftrightarrow> (\<forall>y. X = Some y \<longrightarrow> shrinks k (f y))"

lemma shD: "sh k f X \<Longrightarrow> X = Some y \<Longrightarrow> shrinks k (f y)"
  by (simp add: sh_def)

lemma map_filter_True: "map (filter (\<lambda>_. True)) xs = xs"
  by (induction xs) simp_all

lemma shrinks_same:
  "suspend_thread k' = suspend_thread k \<Longrightarrow> rt_interrupt_nest k' = rt_interrupt_nest k \<Longrightarrow> (\<And>u. wait_data (thr k' u) = wait_data (thr k u)) \<Longrightarrow> shrinks k k'"
  unfolding shrinks_def by (intro conjI exI [of _ "\<lambda>_. True"]) (simp_all only: map_filter_True, simp_all)

lemma shrinks_trans:
  assumes "shrinks k k'" "shrinks k' k''"
  shows "shrinks k k''"
proof -
  obtain P where P: "suspend_thread k' = map (filter P) (suspend_thread k)" using assms(1) unfolding shrinks_def by blast
  obtain Q where Q: "suspend_thread k'' = map (filter Q) (suspend_thread k')" using assms(2) unfolding shrinks_def by blast
  have "suspend_thread k'' = map (filter (\<lambda>x. P x \<and> Q x)) (suspend_thread k)" by (simp add: Q P)
  moreover have "rt_interrupt_nest k'' = rt_interrupt_nest k" using assms by (simp add: shrinks_def)
  moreover have "wait_data (thr k'' u) = wait_data (thr k u)" if u: "u \<in> set (concat (suspend_thread k''))" for u
  proof -
    have "u \<in> set (concat (suspend_thread k'))" using u by (auto simp: Q)
    then have "wait_data (thr k' u) = wait_data (thr k u)" using assms(1) unfolding shrinks_def by blast
    moreover have "wait_data (thr k'' u) = wait_data (thr k' u)" using assms(2) u unfolding shrinks_def by blast
    ultimately show ?thesis by simp
  qed
  ultimately show ?thesis unfolding shrinks_def by blast
qed

lemma shrinks_remove: "shrinks k (rt_list_remove t (upd_thr t f k))"
  unfolding shrinks_def
  by (intro conjI exI [of _ "\<lambda>u. u \<noteq> t"]) (auto simp: rt_list_remove_def upd_thr_def)

lemma shrinks_unlinked: "\<not> linked t k \<Longrightarrow> shrinks k (upd_thr t f k)"
  unfolding shrinks_def
  by (intro conjI exI [of _ "\<lambda>_. True"]) (auto simp: map_filter_True linked_def upd_thr_def)

lemma upd_thr_id: "upd_thr t (\<lambda>th. th) k = k"
  by (simp add: upd_thr_def)

named_theorems shrink \<open>the calls that only take threads out of suspend lists\<close>

lemma shrinks_fields [shrink]:
  "shrinks k k" "shrinks k k1 \<Longrightarrow> (\<And>th. wait_data (f th) = wait_data th) \<Longrightarrow> shrinks k (upd_thr t f k1)" "shrinks k k1 \<Longrightarrow> shrinks k (upd_tmr r g k1)"
  "shrinks k k1 \<Longrightarrow> shrinks k (timer_remove r k1)" "shrinks k k1 \<Longrightarrow> shrinks k (timer_deactivate r k1)"
  "shrinks k k1 \<Longrightarrow> shrinks k (snd (rt_timer_stop r k1))" "shrinks k k1 \<Longrightarrow> shrinks k (rt_list_remove t k1)"
  "shrinks k k1 \<Longrightarrow> shrinks k (k1\<lparr>rt_current_priority := p, rt_current_thread := c\<rparr>)"
  "shrinks k k1 \<Longrightarrow> shrinks k (k1\<lparr>rt_soft_timer_list := rs\<rparr>)" "shrinks k k1 \<Longrightarrow> shrinks k (k1\<lparr>rt_timer_list := rs\<rparr>)"
  "shrinks k k1 \<Longrightarrow> shrinks k (k1\<lparr>rt_timer_tmp := rs\<rparr>)" "shrinks k k1 \<Longrightarrow> shrinks k (k1\<lparr>rt_tick := n\<rparr>)"
  "shrinks k k1 \<Longrightarrow> shrinks k (k1\<lparr>rt_scheduler_lock_nest := z\<rparr>)" "shrinks k k1 \<Longrightarrow> shrinks k (k1\<lparr>rt_thread_defunct := d\<rparr>)"
  "shrinks k k1 \<Longrightarrow> shrinks k (k1\<lparr>rt_thread_priority_table := tb\<rparr>)" "shrinks k k1 \<Longrightarrow> shrinks k (k1\<lparr>rt_thread_ready_priority_group := gr\<rparr>)"
  by (auto elim!: shrinks_trans intro: shrinks_same shrinks_remove [of k1 t "\<lambda>th. th", unfolded upd_thr_id]
      simp: rt_timer_stop_def timer_deactivate_def upd_thr_def upd_tmr_def timer_remove_def)

lemma shrinks_taken [shrink]: "shrinks k k1 \<Longrightarrow> shrinks k (rt_list_remove t (upd_thr t f k1))"
  using shrinks_remove shrinks_trans by blast

lemma sh_intros [shrink]:
  "sh k f None" "shrinks k (f y) \<Longrightarrow> sh k f (Some y)" "sh k (\<lambda>y. f (h y)) X \<Longrightarrow> sh k f (map_option h X)"
  "(b \<Longrightarrow> sh k f X) \<Longrightarrow> (\<not> b \<Longrightarrow> sh k f Y) \<Longrightarrow> sh k f (if b then X else Y)"
  by (auto simp: sh_def)

lemma sh_bind:
  "sh k (\<lambda>y. y) X \<Longrightarrow> (\<And>y. shrinks k y \<Longrightarrow> sh k f (F y)) \<Longrightarrow> sh k f (Option.bind X F)"
  by (auto simp: sh_def bind_eq_Some_conv)

lemma sh_bind2:
  "sh k snd X \<Longrightarrow> (\<And>e y. shrinks k y \<Longrightarrow> sh k f (F e y)) \<Longrightarrow> sh k f (Option.bind X (\<lambda>(e, y). F e y))"
  by (auto simp: sh_def bind_eq_Some_conv)

lemma sh_bind0: "(\<And>y. X = Some y \<Longrightarrow> sh k f (F y)) \<Longrightarrow> sh k f (Option.bind X F)"
  by (auto simp: sh_def bind_eq_Some_conv)

lemma sh_bind02: "(\<And>a b. X = Some (a, b) \<Longrightarrow> sh k f (F a b)) \<Longrightarrow> sh k f (Option.bind X (\<lambda>(a, b). F a b))"
  by (auto simp: sh_def bind_eq_Some_conv)

lemma sh_insert [shrink]: "shrinks k k1 \<Longrightarrow> sh k (\<lambda>y. y) (rt_schedule_insert_thread t k1)"
  unfolding rt_schedule_insert_thread_def ready_insert_def
  by (intro sh_intros sh_bind) (auto intro!: shrinks_fields)

lemma sh_remove_thread [shrink]: "shrinks k k1 \<Longrightarrow> sh k (\<lambda>y. y) (rt_schedule_remove_thread t k1)"
  unfolding rt_schedule_remove_thread_def Let_def by (intro sh_intros) (auto intro!: shrinks_fields)

lemma sh_switch: "shrinks k k1 \<Longrightarrow> sh k (\<lambda>y. y) (schedule_switch b f t p k1)"
  unfolding schedule_switch_def Let_def
  by (intro sh_bind sh_intros sh_insert sh_remove_thread shrinks_fields wait_data_sel) assumption+

lemma sh_stay: "shrinks k k1 \<Longrightarrow> sh k (\<lambda>y. y) (schedule_stay t k1)"
  unfolding schedule_stay_def by (intro sh_bind sh_intros sh_remove_thread shrinks_fields wait_data_sel) assumption+

lemma sh_schedule [shrink]: "shrinks k k1 \<Longrightarrow> sh k (\<lambda>y. y) (rt_schedule k1)"
  unfolding rt_schedule_def Let_def
  by (intro sh_intros(4) sh_bind02 sh_bind0 sh_switch sh_stay) (auto intro!: shrinks_fields sh_intros)

lemma sh_resume [shrink]: "shrinks k k1 \<Longrightarrow> sh k snd (rt_thread_resume t k1)"
  unfolding rt_thread_resume_def
  by (intro sh_intros(4) sh_bind sh_insert) (auto intro!: shrinks_fields sh_intros)

lemma sh_suspend [shrink]: "shrinks k k1 \<Longrightarrow> sh k snd (rt_thread_suspend t k1)"
  unfolding rt_thread_suspend_def
  by (intro sh_intros(4) sh_bind sh_remove_thread) (auto intro!: shrinks_fields sh_intros)

lemma sh_timer_start [shrink]: "shrinks k k1 \<Longrightarrow> sh k snd (rt_timer_start r k1)"
  unfolding rt_timer_start_def Let_def
  by (intro sh_intros(4) sh_bind2 sh_bind sh_resume sh_schedule) (auto intro!: shrinks_fields sh_intros)

lemma sh_startup [shrink]: "shrinks k k1 \<Longrightarrow> sh k snd (rt_thread_startup t k1)"
  unfolding rt_thread_startup_def
  by (intro sh_intros(4) sh_bind2 sh_bind sh_resume sh_schedule) (auto intro!: shrinks_fields sh_intros)

lemma sh_defunct [shrink]: "shrinks k k1 \<Longrightarrow> sh k (\<lambda>y. y) (defunct_insert t k1)"
  unfolding defunct_insert_def by (intro sh_intros shrinks_fields)

lemma sh_exit [shrink]: "shrinks k k1 \<Longrightarrow> sh k (\<lambda>y. y) (rt_thread_exit k1)"
  unfolding rt_thread_exit_def Let_def rt_timer_detach_def
  by (rule sh_bind0, rule sh_bind, erule sh_remove_thread, rule sh_bind)
    (auto intro!: sh_intros sh_defunct shrinks_fields sh_schedule)

lemma sh_close [shrink]: "shrinks k k1 \<Longrightarrow> sh k snd (thread_close b t k1)"
  unfolding thread_close_def Let_def rt_timer_detach_def
  by (intro sh_intros(4) sh_bind sh_remove_thread sh_defunct) (auto intro!: shrinks_fields sh_intros)

lemma sh_yield [shrink]: "shrinks k k1 \<Longrightarrow> sh k snd (rt_thread_yield k1)"
  unfolding rt_thread_yield_def by (rule sh_bind0, rule sh_bind) (auto intro!: shrinks_fields sh_intros sh_schedule)

lemma sh_sleep [shrink]: "shrinks k k1 \<Longrightarrow> sh k (\<lambda>y. y) (rt_thread_sleep n k1)"
  unfolding rt_thread_sleep_def
  by (rule sh_bind0, rule sh_bind2, erule sh_suspend, rule sh_bind2) (auto intro!: sh_timer_start shrinks_fields sh_schedule)

lemma sh_priority [shrink]: "shrinks k k1 \<Longrightarrow> sh k snd (rt_thread_control t (RT_THREAD_CTRL_CHANGE_PRIORITY p) k1)"
  unfolding rt_thread_control.simps
  by (intro sh_intros(4) sh_bind sh_remove_thread sh_insert) (auto intro!: shrinks_fields sh_intros)

lemma sh_timeout [shrink]: "shrinks k k1 \<Longrightarrow> sh k (\<lambda>y. y) (rt_thread_timeout t k1)"
  unfolding rt_thread_timeout_def by (intro sh_intros(1,4) sh_bind sh_insert sh_schedule shrinks_taken) assumption+

lemma sh_thread_init [shrink]:
  assumes "shrinks k k1"
  shows "sh k (\<lambda>y. y) (thread_init fr t a sz p tick k1)"
proof (cases "linked t k1 \<or> \<not> p < 32")
  case True
  then have "thread_init fr t a sz p tick k1 = None" by (simp add: thread_init_def)
  then show ?thesis by (simp add: sh_intros(1))
next
  case False
  then have "\<not> linked t k1" by simp
  then have "shrinks k (upd_thr t f k1)" for f using assms shrinks_unlinked shrinks_trans by blast
  then show ?thesis unfolding thread_init_def rt_timer_init_def by (auto intro!: sh_intros shrinks_fields(3))
qed

text \<open>What is asked of the functions of user timers.\<close>

definition cb_shrinks :: "(nat \<Rightarrow> kernel \<Rightarrow> kernel option) \<Rightarrow> bool" where
  "cb_shrinks cb \<longleftrightarrow> (\<forall>n k k'. cb n k = Some k' \<longrightarrow> shrinks k k')"

lemma sh_fire: "cb_shrinks cb \<Longrightarrow> shrinks k k1 \<Longrightarrow> sh k (\<lambda>y. y) (timer_fire cb r k1)"
proof (cases r)
  case (Thread_timer t)
  assume "shrinks k k1"
  then show ?thesis unfolding Thread_timer timer_fire.simps by (rule sh_timeout)
next
  case (User_timer n)
  assume "cb_shrinks cb" "shrinks k k1"
  then show ?thesis unfolding User_timer timer_fire.simps sh_def cb_shrinks_def using shrinks_trans by blast
qed

lemma sh_map_snd: "sh k snd X \<Longrightarrow> sh k (\<lambda>y. y) (map_option snd X)"
  by (auto simp: sh_def)

lemma sh_expire: "cb_shrinks cb \<Longrightarrow> shrinks k k1 \<Longrightarrow> sh k (\<lambda>y. y) (timer_expire cb r k1)"
  unfolding timer_expire_def Let_def
  by (rule sh_bind, rule sh_fire)
    (auto intro!: shrinks_fields sh_intros(1,2,4) sh_map_snd sh_timer_start)

lemma shrinks_check:
  assumes "cb_shrinks cb" "rt_timer_check cb k = Some k'"
  shows "shrinks k k'"
  using assms(2,1)
proof (induction rule: rt_timer_check.raw_induct [rotated 1, consumes 1, case_names step])
  case (step f cb k k')
  show ?case
  proof (cases "rt_timer_list k")
    case Nil
    with step.hyps show ?thesis by (simp add: shrinks_fields)
  next
    case (Cons r rs)
    show ?thesis
    proof (cases "rt_tick k - timeout_tick (tmr k r) < 0x7fffffff")
      case True
      then obtain k1 where k1: "timer_expire cb r k = Some k1" "f cb k1 = Some k'" using step.hyps Cons by (auto simp: bind_eq_Some_conv)
      have "shrinks k k1" using shD [OF sh_expire [OF step.prems shrinks_fields(1)] k1(1)] .
      then show ?thesis using step.IH [OF k1(2) step.prems] shrinks_trans by blast
    next
      case False
      with step.hyps Cons show ?thesis by (simp add: shrinks_fields)
    qed
  qed
qed

lemma sh_tick: "cb_shrinks cb \<Longrightarrow> shrinks k k1 \<Longrightarrow> sh k (\<lambda>y. y) (rt_tick_increase cb k1)"
proof -
  assume cb: "cb_shrinks cb" and k1: "shrinks k k1"
  have check: "sh k (\<lambda>y. y) (rt_timer_check cb q)" if "shrinks k q" for q
    unfolding sh_def using shrinks_check [OF cb] that shrinks_trans by blast
  show ?thesis unfolding rt_tick_increase_def Let_def
    by (rule sh_bind0, rule sh_bind [OF _ check]) (use k1 in \<open>auto intro!: sh_intros sh_schedule shrinks_fields\<close>)
qed

lemma sh_exit_critical: "shrinks k k1 \<Longrightarrow> sh k (\<lambda>y. y) (rt_exit_critical k1)"
  unfolding rt_exit_critical_def Let_def by (intro sh_intros sh_schedule shrinks_fields)

lemma shrinks_fold: "shrinks k k1 \<Longrightarrow> shrinks k (fold rt_list_remove ts k1)"
  by (induction ts arbitrary: k1) (auto intro: shrinks_fields)

lemma sh_idle: "shrinks k k1 \<Longrightarrow> sh k snd (rt_thread_idle_excute k1)"
  unfolding rt_thread_idle_excute_def by (intro sh_intros) (simp add: shrinks_fold)

lemma kernel_call_shrinks:
  assumes "cb_shrinks cb" "kernel_call cb c k = Some k'"
  shows "shrinks k k'"
proof -
  have "sh k (\<lambda>y. y) (kernel_call cb c k)"
  proof (cases c)
    case (Init_thread frame t a sz p tick)
    have i: "sh k (\<lambda>y. y) (thread_init frame t a sz p tick (upd_thr t (\<lambda>th. th\<lparr>systemobject := True\<rparr>) k))"
      by (intro sh_thread_init shrinks_fields) simp
    have "map_option snd (map_option (Pair RT_EOK) X) = X" for X :: "kernel option" by (cases X) simp_all
    with i show ?thesis unfolding Init_thread kernel_call.simps rt_thread_init_def by simp
  qed (use assms(1) in \<open>simp_all only: kernel_call.simps rt_thread_detach_def rt_thread_delete_def rt_enter_critical_def\<close>,
      (intro sh_map_snd sh_intros shrinks_fields sh_startup sh_close sh_suspend sh_resume sh_priority sh_sleep sh_yield sh_exit sh_exit_critical
        sh_idle sh_tick; assumption?)+)
  then show ?thesis using assms(2) by (rule shD)
qed

lemma shrinks_waiting:
  assumes "shrinks k k'" "l < length (suspend_thread k)"
  shows "length (suspend_thread k') = length (suspend_thread k)" "set (suspend_thread k' ! l) \<subseteq> set (suspend_thread k ! l)"
    "suspend_thread k ! l = [] \<Longrightarrow> suspend_thread k' ! l = []"
    "u \<in> set (suspend_thread k' ! l) \<Longrightarrow> wait_data (thr k' u) = wait_data (thr k u)"
proof -
  obtain P where P: "suspend_thread k' = map (filter P) (suspend_thread k)" using assms(1) unfolding shrinks_def by blast
  show "length (suspend_thread k') = length (suspend_thread k)" "set (suspend_thread k' ! l) \<subseteq> set (suspend_thread k ! l)"
    "suspend_thread k ! l = [] \<Longrightarrow> suspend_thread k' ! l = []" using assms(2) by (auto simp: P)
  assume u: "u \<in> set (suspend_thread k' ! l)"
  have "suspend_thread k' ! l \<in> set (suspend_thread k')" using assms(2) P by simp
  then have "u \<in> set (concat (suspend_thread k'))" using u by auto
  then show "wait_data (thr k' u) = wait_data (thr k u)" using assms(1) unfolding shrinks_def by blast
qed

section \<open>What a waiting thread is told\<close>

text \<open>Changing only the error number and the event fields of a thread.\<close>

lemma upd_wait_ok:
  assumes "kgood k" "\<And>th. f th = th\<lparr>th_error := th_error (f th), event_set := event_set (f th), event_info := event_info (f th)\<rparr>"
  shows "kgood (upd_thr t f k)" "th_stat (upd_thr t f k) = th_stat k" "current_priority (thr (upd_thr t f k) u) = current_priority (thr k u)"
proof -
  let ?k = "upd_thr t f k"
  have f: "stat (f th) = stat th" "current_priority (f th) = current_priority th" "th_ok (f th) = th_ok th" for th
    by (subst assms(2), simp add: th_ok_def rt_scheduler_stack_check_def)+
  show st: "th_stat ?k = th_stat k" by (rule ext) (simp add: th_stat_def f)
  show "current_priority (thr ?k u) = current_priority (thr k u)" by (simp add: f)
  have "kinv k" "tinv k" using assms(1) by (simp_all add: kgood_def)
  from this(1) have "kinv ?k" by (rule kinv_cong) (simp_all only: st, simp_all add: f)
  moreover have "tinv_at (rt_tick k) ?k" using \<open>tinv k\<close>
    by (rule tinv_threads) (simp_all only: st active_suspended [OF \<open>tinv k\<close>], simp_all)
  ultimately show "kgood ?k" using assms(1) by (simp add: kgood_def)
qed

lemma set_error_ok:
  assumes "kgood k"
  shows "kgood (set_error e t k)" "th_stat (set_error e t k) = th_stat k" "suspend_thread (set_error e t k) = suspend_thread k"
    "rt_current_thread (set_error e t k) = rt_current_thread k" "rt_scheduler_lock_nest (set_error e t k) = rt_scheduler_lock_nest k"
    "rt_tick (set_error e t k) = rt_tick k"
  using upd_wait_ok [OF assms, of "\<lambda>th. th\<lparr>th_error := e\<rparr>" t] by (simp_all add: set_error_def)

text \<open>Waking all threads of a list, as deleting or resetting an object does: they run again with an error.\<close>

lemma resume_all_ok:
  assumes "kgood k" "l < length (suspend_thread k)"
  shows "\<exists>k'. rt_ipc_list_resume_all l k = Some k' \<and> kgood k' \<and> suspend_thread k' = (suspend_thread k)[l := []] \<and>
     (\<forall>t\<in>set (suspend_thread k ! l). awake k' t \<and> th_error (thr k' t) = - RT_ERROR) \<and>
     (\<forall>t. t \<notin> set (suspend_thread k ! l) \<longrightarrow> thr k' t = thr k t)"
  using assms
proof (induction "suspend_thread k ! l" arbitrary: k)
  case Nil
  have "(suspend_thread k)[l := []] = suspend_thread k" using Nil(1) by (metis list_update_id)
  with Nil show ?case by (subst rt_ipc_list_resume_all.simps) (simp add: Nil(1) [symmetric])
next
  case (Cons t rest)
  define k1 where "k1 = set_error (- RT_ERROR) t k"
  note e = set_error_ok [OF Cons.prems(1), of "- RT_ERROR" t, folded k1_def]
  have i: "kinv k1" "tinv k1" "l < length (suspend_thread k1)" "suspend_thread k1 ! l = t # rest"
    using e Cons.prems(2) Cons.hyps(2) by (simp_all add: kgood_def)
  have d: "t \<notin> set rest" using waiting_distinct [OF i(1,3)] i(4) by simp
  have "t \<in> set (suspend_thread k1 ! l)" by (simp add: i(4))
  from resume_waiting_ok [OF i(1-3) this]
  obtain k2 where k2: "rt_thread_resume t k1 = Some (RT_EOK, k2)" "kinv k2" "tinv k2"
     "thr k2 = (thr k1)(t := set_stat (if rt_current_thread k1 = Some t then RT_THREAD_RUNNING else RT_THREAD_READY) (thr k1 t))"
     "awake k2 t" "suspend_thread k2 = (suspend_thread k1)[l := rest]" "rt_current_thread k2 = rt_current_thread k1"
    using i(4) by auto
  have g: "kgood k2" using k2(2,3,7) e(1) by (simp add: kgood_def)
  have l2: "l < length (suspend_thread k2)" "rest = suspend_thread k2 ! l" using i(3) by (simp_all add: k2(6))
  from Cons.hyps(1) [OF l2(2) g l2(1)] obtain k' where k': "rt_ipc_list_resume_all l k2 = Some k'" "kgood k'"
     "suspend_thread k' = (suspend_thread k2)[l := []]" "\<forall>u\<in>set rest. awake k' u \<and> th_error (thr k' u) = - RT_ERROR"
     "\<forall>u. u \<notin> set rest \<longrightarrow> thr k' u = thr k2 u" unfolding l2(2) [symmetric] by blast
  have "rt_ipc_list_resume_all l k = Some k'"
    using Cons.prems(2) k2(1) k'(1) by (subst rt_ipc_list_resume_all.simps) (simp add: Cons.hyps(2) [symmetric] k1_def set_error_def)
  moreover have "suspend_thread k' = (suspend_thread k)[l := []]" by (simp add: k'(3) k2(6) e(3))
  moreover have "thr k' t = thr k2 t" using k'(5) d by blast
  then have "awake k' t" "th_error (thr k' t) = - RT_ERROR" using k2(5) by (simp_all add: awake_def th_stat_def k2(4) k1_def set_error_def set_stat_def)
  moreover have "thr k' u = thr k u" if "u \<notin> set (t # rest)" for u using that k'(5) by (simp add: k2(4) k1_def set_error_def)
  ultimately show ?case using k'(2,4) by (auto simp: Cons.hyps(2) [symmetric])
qed

section \<open>The start of the system\<close>

lemma sh_start_thread:
  assumes "shrinks k k1"
  shows "sh k (\<lambda>y. y) (Option.bind (rt_thread_init frame t (Some a) sz p tick k1) (\<lambda>(_, k1). Option.bind (rt_thread_startup t k1) (\<lambda>(_, k2). Some k2)))"
proof (intro sh_bind2)
  show "sh k snd (rt_thread_init frame t (Some a) sz p tick k1)"
    unfolding rt_thread_init_def using sh_thread_init [OF shrinks_fields(2) [OF assms, of "\<lambda>th. th\<lparr>systemobject := True\<rparr>" t]]
    by (auto simp: sh_def)
qed (auto intro!: sh_startup sh_intros)

lemma sh_application:
  assumes "shrinks k k1"
  shows "sh k (\<lambda>y. y) (rt_application_init frame (Some m) (Some a) k1)"
proof -
  have "sh k snd (rt_thread_create frame (Some m) (Some a) 2048 10 20 k1)"
    unfolding rt_thread_create_def using sh_thread_init [OF shrinks_fields(2) [OF assms, of "\<lambda>th. th\<lparr>systemobject := False\<rparr>" m]]
    by (auto simp: sh_def)
  then show ?thesis unfolding rt_application_init_def by (intro sh_bind2 sh_bind0 sh_startup sh_intros) auto
qed

lemma shrinks_current: "shrinks k k1 \<Longrightarrow> shrinks k (k1\<lparr>rt_current_thread := c\<rparr>)"
  by (erule shrinks_trans) (auto intro: shrinks_same)

lemma sh_start: "shrinks k k1 \<Longrightarrow> sh k (\<lambda>y. y) (rt_system_scheduler_start k1)"
  unfolding rt_system_scheduler_start_def
  by (intro sh_bind02 sh_bind sh_remove_thread sh_intros shrinks_current) (auto intro!: shrinks_fields)

lemma boot_shrinks:
  assumes "rtthread_startup frame (Some m) (Some a) b i c k = Some k'"
  shows "shrinks k k'"
proof -
  have "shrinks k (rt_system_scheduler_init (rt_system_timer_init k))"
    by (rule shrinks_same) (simp_all add: rt_system_scheduler_init_def rt_system_timer_init_def)
  then have "sh k (\<lambda>y. y) (rtthread_startup frame (Some m) (Some a) b i c k)"
    unfolding rtthread_startup_def rt_system_timer_thread_init_def rt_thread_idle_init_def
    by (intro sh_bind sh_application sh_start_thread sh_start) (auto intro!: shrinks_fields)
  then show ?thesis using assms by (rule shD)
qed

lemma trivial_callbacks: "cb_shrinks (\<lambda>_. Some)"
  by (simp add: cb_shrinks_def shrinks_fields(1))

text \<open>The system that is started in the examples: its suspend lists are empty and the timer thread runs.\<close>

lemma booted_ipc:
  "\<exists>k. rtthread_startup 64 (Some 0) (Some 0x20001000) 0x20002000 2 0x20003000 kernel_bss = Some k \<and> kgood k \<and>
     rt_current_thread k = Some 1 \<and> th_stat k 1 = RT_THREAD_RUNNING \<and> th_stat k 0 = RT_THREAD_READY \<and>
     suspend_thread k = replicate 4 [] \<and> in_thread_context k"
proof -
  obtain k where k: "rtthread_startup 64 (Some 0) (Some 0x20001000) 0x20002000 2 0x20003000 kernel_bss = Some k" "kgood k"
     "rt_current_thread k = Some 1" "th_stat k 1 = RT_THREAD_RUNNING" "th_stat k 0 = RT_THREAD_READY" using booted by blast
  have sh: "shrinks kernel_bss k" by (rule boot_shrinks [OF k(1)])
  have b: "suspend_thread kernel_bss = replicate 4 []" "rt_interrupt_nest kernel_bss = 0" by (simp_all add: kernel_bss_def)
  obtain P where "suspend_thread k = map (filter P) (replicate 4 [])" using sh unfolding shrinks_def b by blast
  moreover have "rt_interrupt_nest k = 0" using sh b by (simp add: shrinks_def)
  ultimately show ?thesis using k by (auto simp: in_thread_context_def map_replicate_const)
qed

section \<open>Objects under any sequence of calls\<close>

text \<open>Calls on an object, between any other kernel calls. A call that is not permitted in the state it meets is left out; the others give the
  events that the callers see.\<close>

datatype 'op ipc_op = On 'op | Kernel kcall

fun ipc_run :: "(nat \<Rightarrow> kernel \<Rightarrow> kernel option) \<Rightarrow> ('op \<Rightarrow> 'o \<Rightarrow> kernel \<Rightarrow> bool) \<Rightarrow>
    ('op \<Rightarrow> 'o \<Rightarrow> kernel \<Rightarrow> ('e list \<times> 'o \<times> kernel) option) \<Rightarrow> 'op ipc_op list \<Rightarrow> 'o \<Rightarrow> kernel \<Rightarrow> ('e list \<times> 'o \<times> kernel) option" where
  "ipc_run cb ok exec [] x k = Some ([], x, k)"
| "ipc_run cb ok exec (Kernel c # ops) x k =
     (if kcall_ok c k then Option.bind (kernel_call cb c k) (ipc_run cb ok exec ops x) else ipc_run cb ok exec ops x k)"
| "ipc_run cb ok exec (On op # ops) x k =
     (if ok op x k then do {
        (es, x1, k1) \<leftarrow> exec op x k;
        (es', x2, k2) \<leftarrow> ipc_run cb ok exec ops x1 k1;
        Some (es @ es', x2, k2)
      } else ipc_run cb ok exec ops x k)"

text \<open>What an object promises is a partial automaton on the events: \<open>replay step a es\<close> is its state after the events \<open>es\<close>,
  and \<open>None\<close> when one of them is not allowed.\<close>

fun replay :: "('a \<Rightarrow> 'e \<Rightarrow> 'a option) \<Rightarrow> 'a \<Rightarrow> 'e list \<Rightarrow> 'a option" where
  "replay step a [] = Some a"
| "replay step a (e # es) = Option.bind (step a e) (\<lambda>a'. replay step a' es)"

lemma replay_append: "replay step a (es @ es') = Option.bind (replay step a es) (\<lambda>a'. replay step a' es')"
proof (induction es arbitrary: a)
  case (Cons e es)
  then show ?case by (cases "step a e") simp_all
qed simp

text \<open>The interface of an object: \<open>holds a x k\<close> relates the state of its automaton to the object and the kernel. It is kept by everything that
  only takes threads out of suspend lists, and a permitted call gives events that the automaton allows.\<close>

locale ipc_object =
  fixes ok :: "'op \<Rightarrow> 'o \<Rightarrow> kernel \<Rightarrow> bool"
    and exec :: "'op \<Rightarrow> 'o \<Rightarrow> kernel \<Rightarrow> ('e list \<times> 'o \<times> kernel) option"
    and holds :: "'a \<Rightarrow> 'o \<Rightarrow> kernel \<Rightarrow> bool"
    and step :: "'a \<Rightarrow> 'e \<Rightarrow> 'a option"
  assumes good: "holds a x k \<Longrightarrow> kgood k"
    and kept: "holds a x k \<Longrightarrow> shrinks k k' \<Longrightarrow> kgood k' \<Longrightarrow> holds a x k'"
    and exec_ok: "holds a x k \<Longrightarrow> ok op x k \<Longrightarrow>
      \<exists>es x' k' a'. exec op x k = Some (es, x', k') \<and> replay step a es = Some a' \<and> holds a' x' k'"
begin

lemma call_ok:
  assumes "cb_shrinks cb" "holds a x k" "kcall_ok c k"
  shows "\<exists>k'. kernel_call cb c k = Some k' \<and> holds a x k'"
proof -
  obtain k' where k': "kernel_call cb c k = Some k'" "kgood k'" using kernel_call_ok [OF good [OF assms(2)] assms(3), of cb] by blast
  then show ?thesis using kept [OF assms(2) kernel_call_shrinks [OF assms(1) k'(1)] k'(2)] by blast
qed

lemma run_refines:
  assumes "cb_shrinks cb" "holds a x k"
  shows "\<exists>es x' k' a'. ipc_run cb ok exec ops x k = Some (es, x', k') \<and> replay step a es = Some a' \<and> holds a' x' k'"
  using assms(2)
proof (induction ops arbitrary: a x k)
  case (Cons p ops)
  show ?case
  proof (cases p)
    case (Kernel c)
    show ?thesis
    proof (cases "kcall_ok c k")
      case True
      from call_ok [OF assms(1) Cons.prems True] obtain k1 where "kernel_call cb c k = Some k1" "holds a x k1" by blast
      then show ?thesis using Cons.IH [of a x k1] True Kernel by simp
    qed (use Cons Kernel in simp)
  next
    case (On op)
    show ?thesis
    proof (cases "ok op x k")
      case True
      from exec_ok [OF Cons.prems True] obtain es x1 k1 a1 where 1: "exec op x k = Some (es, x1, k1)" "replay step a es = Some a1"
        "holds a1 x1 k1" by blast
      from Cons.IH [OF 1(3)] obtain es' x2 k2 a2 where 2: "ipc_run cb ok exec ops x1 k1 = Some (es', x2, k2)" "replay step a1 es' = Some a2"
        "holds a2 x2 k2" by blast
      have "ipc_run cb ok exec (p # ops) x k = Some (es @ es', x2, k2)" using True 1(1) 2(1) On by simp
      moreover have "replay step a (es @ es') = Some a2" using 1(2) 2(2) by (simp add: replay_append)
      ultimately show ?thesis using 2(3) by blast
    qed (use Cons On in simp)
  qed
qed simp

end

end
