(* ===== verification/Ipc_Locks.thy ===== *)
theory Ipc_Locks
  imports Ipc_Wait
begin

text \<open>
  Semaphores and mutexes of \<open>src/smart-building-mcu/rt-thread/src/ipc.c\<close>: under any sequence of calls a semaphore follows the
  automaton of a counter and a mutex that of a lock with one owner; a limited wait ends after its ticks;
  the owner of a mutex inherits the priority of the threads that wait for it and gives it back.
\<close>

section \<open>Semaphores\<close>

abbreviation sem_queue :: "rt_semaphore \<Rightarrow> kernel \<Rightarrow> nat list" where
  "sem_queue s k \<equiv> suspend_thread k ! sem_list s"

definition sem_inv :: "rt_semaphore \<Rightarrow> kernel \<Rightarrow> bool" where
  "sem_inv s k \<longleftrightarrow> kgood k \<and> sem_list s < length (suspend_thread k) \<and> sem_flag s \<in> {RT_IPC_FLAG_FIFO, RT_IPC_FLAG_PRIO} \<and>
     (sem_value s > 0 \<longrightarrow> sem_queue s k = []) \<and> (\<forall>t\<in>set (sem_queue s k). th_error (thr k t) = RT_EOK)"

text \<open>The promise: a counter that is not taken from when it is 0.\<close>

datatype sem_op = Sem_take int | Sem_release

datatype sem_event = Taken | Given

fun counter :: "nat \<Rightarrow> sem_event \<Rightarrow> nat option" where
  "counter v Taken = (if v = 0 then None else Some (v - 1))"
| "counter v Given = (if v < 0xffff then Some (v + 1) else None)"

text \<open>The events are the calls of \<open>rt_sem_take\<close> and \<open>rt_sem_release\<close> that succeed; a thread that waits has taken a unit when it is woken by a release.\<close>

fun sem_exec :: "sem_op \<Rightarrow> rt_semaphore \<Rightarrow> kernel \<Rightarrow> (sem_event list \<times> rt_semaphore \<times> kernel) option" where
  "sem_exec (Sem_take time) s k =
     map_option (\<lambda>(r, s', k'). (if r = Returned RT_EOK then [Taken] else [], s', k')) (rt_sem_take time s k)"
| "sem_exec Sem_release s k =
     map_option (\<lambda>(e, s', k'). ((if e = RT_EOK then [Given] else []) @ (if sem_queue s k \<noteq> [] then [Taken] else []), s', k')) (rt_sem_release s k)"

fun sem_op_ok :: "sem_op \<Rightarrow> rt_semaphore \<Rightarrow> kernel \<Rightarrow> bool" where
  "sem_op_ok (Sem_take time) s k \<longleftrightarrow>
     time < 0x7fffffff \<and> (sem_value s = 0 \<and> time \<noteq> 0 \<longrightarrow> in_thread_context k \<and> cur_stat k = RT_THREAD_RUNNING)"
| "sem_op_ok Sem_release s k \<longleftrightarrow> True"

definition sem_holds :: "nat \<Rightarrow> rt_semaphore \<Rightarrow> kernel \<Rightarrow> bool" where
  "sem_holds v s k \<longleftrightarrow> sem_inv s k \<and> v = unat (sem_value s)"

text \<open>Taking a semaphore without a free unit: the current thread waits.\<close>

lemma sem_take_waits:
  assumes "sem_inv s k" "sem_value s = 0" "time \<noteq> 0" "time < 0x7fffffff" "in_thread_context k" "rt_current_thread k = Some c"
    "th_stat k c = RT_THREAD_RUNNING"
  shows "\<exists>k'. rt_sem_take time s k = Some (Waiting c, s, k') \<and> sem_inv s k' \<and> th_stat k' c = RT_THREAD_SUSPEND \<and>
     sem_queue s k' = ipc_insert (sem_list s) (sem_flag s) c k \<and>
     (if time > 0 then Thread_timer c \<in> set (rt_timer_list k') \<and> remaining (rt_tick k') k' (Thread_timer c) = nat time
      else Thread_timer c \<notin> set (rt_timer_list k'))"
proof -
  let ?l = "sem_list s"
  have i: "kgood k" "?l < length (suspend_thread k)" "sem_flag s \<in> {RT_IPC_FLAG_FIFO, RT_IPC_FLAG_PRIO}"
    "\<forall>t\<in>set (sem_queue s k). th_error (thr k t) = RT_EOK" using assms(1) by (simp_all add: sem_inv_def)
  define k1 where "k1 = set_error RT_EOK c k"
  note e = set_error_ok [OF i(1), of RT_EOK c, folded k1_def]
  have 1: "kinv k1" "tinv k1" "rt_current_thread k1 = Some c" "th_stat k1 c = RT_THREAD_RUNNING" "?l < length (suspend_thread k1)"
    using e assms(6,7) i(2) by (simp_all add: kgood_def)
  have ins: "ipc_insert ?l (sem_flag s) c k1 = ipc_insert ?l (sem_flag s) c k"
  proof -
    have "current_priority (thr k1 u) = current_priority (thr k u)" for u by (simp add: k1_def set_error_def)
    then show ?thesis by (simp add: ipc_insert_def e(3))
  qed
  obtain k' c' where k': "ipc_block ?l (sem_flag s) time c k1 = Some k'" "kinv k'" "tinv k'" "rt_current_thread k' = Some c'"
     "th_stat k' c = RT_THREAD_SUSPEND" "suspend_thread k' = (suspend_thread k1)[?l := ipc_insert ?l (sem_flag s) c k1]"
     "\<And>u. th_error (thr k' u) = th_error (thr k1 u)"
     "if time > 0 then Thread_timer c \<in> set (rt_timer_list k') \<and> remaining (rt_tick k') k' (Thread_timer c) = nat time
      else Thread_timer c \<notin> set (rt_timer_list k')"
    using ipc_block_ok [OF 1 i(3) assms(4)] by blast
  have q: "sem_queue s k' = ipc_insert ?l (sem_flag s) c k" using i(2) by (simp add: k'(6) e(3) ins)
  have "set (sem_queue s k') = insert c (set (sem_queue s k))"
    using ipc_insert_mset [OF i(3), of ?l c k] unfolding q by (metis set_mset_add_mset_insert set_mset_mset)
  moreover have "th_error (thr k' t) = RT_EOK" if "t = c \<or> t \<in> set (sem_queue s k)" for t
    using that i(4) by (auto simp: k'(7) k1_def set_error_def)
  ultimately have "sem_inv s k'"
    using k'(2-4,6) i(2,3) assms(2) by (simp add: sem_inv_def kgood_def e(3))
  moreover have "rt_sem_take time s k = Some (Waiting c, s, k')"
    using assms(2,3,5,6) k'(1) by (simp add: rt_sem_take_def k1_def)
  ultimately show ?thesis using k'(5,8) q by blast
qed

text \<open>Releasing it: the thread that waits first gets the unit.\<close>

lemma sem_release_ok:
  assumes "sem_inv s k" "sem_queue s k = t # rest"
  shows "\<exists>k'. rt_sem_release s k = Some (RT_EOK, s, k') \<and> sem_inv s k' \<and> sem_queue s k' = rest \<and> awake k' t \<and>
     rt_sem_take_return t k' = RT_EOK \<and> Thread_timer t \<notin> set (rt_timer_list k')"
proof -
  let ?l = "sem_list s"
  have i: "kinv k" "tinv k" "?l < length (suspend_thread k)" "\<forall>t\<in>set (sem_queue s k). th_error (thr k t) = RT_EOK"
    using assms(1) by (simp_all add: sem_inv_def kgood_def)
  obtain c where c: "rt_current_thread k = Some c" using assms(1) by (auto simp: sem_inv_def kgood_def)
  obtain k1 where k1: "rt_ipc_list_resume ?l k = Some k1" "kinv k1" "tinv k1"
     "thr k1 = (thr k)(t := set_stat (if rt_current_thread k = Some t then RT_THREAD_RUNNING else RT_THREAD_READY) (thr k t))"
     "awake k1 t" "suspend_thread k1 = (suspend_thread k)[?l := rest]" "rt_current_thread k1 = Some c"
    using ipc_resume_ok [OF i(1-3) assms(2)] c by auto
  obtain k' c' where k': "rt_schedule k1 = Some k'" "kinv k'" "sched_frame k1 k'" "rt_current_thread k' = Some c'"
    using schedule_any [OF k1(2,7)] by blast
  have a: "awake k' t" using sched_frame_ready [OF k'(3), of t] k1(5) by (auto simp: awake_def)
  have er: "th_error (thr k' u) = th_error (thr k u)" for u
    using sched_frame_sel(2) [OF k'(3), of u] by (cases "u = t") (simp_all add: k1(4) set_stat_def)
  have q: "suspend_thread k' = (suspend_thread k)[?l := rest]" using sched_frame_objects(6) [OF k'(3)] k1(6) by simp
  have sub: "set rest \<subseteq> set (sem_queue s k)" using assms(2) by auto
  have "sem_value s = 0" using assms by (auto simp: sem_inv_def word_gt_0)
  moreover have tv: "tinv k'" by (rule tinv_schedule [OF k1(3) k'(3)])
  ultimately have inv: "sem_inv s k'" using assms(1) k'(2,4) i(3,4) sub by (auto simp: sem_inv_def kgood_def q er)
  moreover have "rt_sem_release s k = Some (RT_EOK, s, k')" using assms(2) k1(1) k'(1) by (simp add: rt_sem_release_def)
  moreover have "rt_sem_take_return t k' = RT_EOK" using i(4) assms(2) by (simp add: rt_sem_take_return_def er)
  moreover have "Thread_timer t \<notin> set (rt_timer_list k')" using idle_timer(1) [OF tv, of t] a by (auto simp: awake_def)
  ultimately show ?thesis using a q i(3) by auto
qed

lemma sem_good: "sem_inv s k \<Longrightarrow> kgood k"
  by (simp add: sem_inv_def)

lemma sem_kept:
  assumes "sem_inv s k" "shrinks k k'" "kgood k'"
  shows "sem_inv s k'"
proof -
  have l: "sem_list s < length (suspend_thread k)" using assms(1) by (simp add: sem_inv_def)
  note w = shrinks_waiting [OF assms(2) l]
  have "th_error (thr k' t) = RT_EOK" if t: "t \<in> set (sem_queue s k')" for t
  proof -
    have "t \<in> set (sem_queue s k)" using w(2) t by blast
    then have "th_error (thr k t) = RT_EOK" using assms(1) by (simp add: sem_inv_def)
    then show ?thesis using w(4) [OF t] by (simp add: wait_data_def)
  qed
  then show ?thesis using assms(1,3) l w(1,3) by (simp add: sem_inv_def)
qed

lemma sem_take_ok:
  assumes "sem_inv s k" "sem_op_ok (Sem_take time) s k"
  shows "\<exists>es s' k'. sem_exec (Sem_take time) s k = Some (es, s', k') \<and> replay counter (unat (sem_value s)) es = Some (unat (sem_value s')) \<and> sem_inv s' k'"
proof (cases "sem_value s = 0")
  case False
  then have "0 < sem_value s" "0 < unat (sem_value s)" by (simp_all add: word_gt_0 unat_gt_0)
  then show ?thesis using assms(1) by (simp add: rt_sem_take_def sem_inv_def unat_minus_one)
next
  case True
  show ?thesis
  proof (cases "time = 0")
    case True
    with \<open>sem_value s = 0\<close> assms(1) show ?thesis by (simp add: rt_sem_take_def)
  next
    case False
    then have "in_thread_context k" "cur_stat k = RT_THREAD_RUNNING" "time < 0x7fffffff" using assms(2) True by simp_all
    moreover from this(2) obtain c where "rt_current_thread k = Some c" "th_stat k c = RT_THREAD_RUNNING"
      by (auto split: option.splits)
    ultimately obtain k' where "rt_sem_take time s k = Some (Waiting c, s, k')" "sem_inv s k'"
      using sem_take_waits [OF assms(1) True False] by blast
    then show ?thesis by simp
  qed
qed

lemma sem_give_ok:
  assumes "sem_inv s k"
  shows "\<exists>es s' k'. sem_exec Sem_release s k = Some (es, s', k') \<and> replay counter (unat (sem_value s)) es = Some (unat (sem_value s')) \<and> sem_inv s' k'"
proof (cases "sem_queue s k")
  case (Cons t rest)
  then have "sem_value s = 0" using assms by (auto simp: sem_inv_def word_gt_0)
  then show ?thesis using sem_release_ok [OF assms Cons] Cons by auto
next
  case Nil
  show ?thesis
  proof (cases "sem_value s < RT_SEM_VALUE_MAX")
    case True
    then have "unat (sem_value s + 1) = unat (sem_value s) + 1" "unat (sem_value s) < 0xffff"
      by (simp_all add: unat_plus_if_size word_size word_less_nat_alt)
    then show ?thesis using True Nil assms by (simp add: rt_sem_release_def sem_inv_def)
  next
    case False
    then show ?thesis using Nil assms by (simp add: rt_sem_release_def)
  qed
qed

interpretation sem: ipc_object sem_op_ok sem_exec sem_holds counter
proof (unfold_locales, goal_cases)
  case (3 a x k op)
  show ?case
  proof (cases op)
    case (Sem_take time)
    then show ?thesis using sem_take_ok [of x k time] 3 by (auto simp: sem_holds_def simp del: sem_exec.simps)
  next
    case Sem_release
    then show ?thesis using sem_give_ok [of x k] 3 by (auto simp: sem_holds_def simp del: sem_exec.simps)
  qed
qed (auto simp: sem_holds_def intro: sem_good sem_kept)



text \<open>C8: A limited wait ends in time: a thread that takes an empty semaphore with a timeout of \<open>time\<close> ticks joins its
  queue, is suspended until the clock has ticked exactly \<open>time\<close> times when nothing else happens, and then it is ready or
  running, out of every suspend list, and its call returns \<open>-RT_ETIMEOUT\<close>.\<close>

theorem sem_wait_times_out:
  assumes "sem_inv s k" "sem_value s = 0" "0 < time" "time < 0x7fffffff" "in_thread_context k" "rt_current_thread k = Some c"
    "th_stat k c = RT_THREAD_RUNNING"
  shows "\<exists>k1. rt_sem_take time s k = Some (Waiting c, s, k1) \<and> c \<in> set (sem_queue s k1) \<and>
     (\<forall>m. \<exists>k2. ticks cb m k1 = Some k2 \<and> kgood k2 \<and>
        (if m < nat time then th_stat k2 c = RT_THREAD_SUSPEND
         else awake k2 c \<and> rt_sem_take_return c k2 = - RT_ETIMEOUT \<and> (\<forall>q\<in>set (suspend_thread k2). c \<notin> set q)))"
proof -
  obtain k1 where k1: "rt_sem_take time s k = Some (Waiting c, s, k1)" "sem_inv s k1" "th_stat k1 c = RT_THREAD_SUSPEND"
     "sem_queue s k1 = ipc_insert (sem_list s) (sem_flag s) c k"
     "Thread_timer c \<in> set (rt_timer_list k1)" "remaining (rt_tick k1) k1 (Thread_timer c) = nat time"
    using sem_take_waits [OF assms(1,2) _ assms(4-7)] assms(3) by auto
  have f: "sem_flag s \<in> {RT_IPC_FLAG_FIFO, RT_IPC_FLAG_PRIO}" using assms(1) by (simp add: sem_inv_def)
  have "c \<in> set (sem_queue s k1)"
    using ipc_insert_mset [OF f, of "sem_list s" c k] unfolding k1(4) by (metis insertI1 set_mset_add_mset_insert set_mset_mset)
  moreover have "\<exists>k2. ticks cb m k1 = Some k2 \<and> kgood k2 \<and> (if m < nat time then th_stat k2 c = RT_THREAD_SUSPEND
         else awake k2 c \<and> rt_sem_take_return c k2 = - RT_ETIMEOUT \<and> (\<forall>q\<in>set (suspend_thread k2). c \<notin> set q))" for m
  proof -
    obtain c1 where i: "kinv k1" "tinv k1" "rt_current_thread k1 = Some c1" using k1(2) by (auto simp: sem_inv_def kgood_def)
    obtain k2 c2 where k2: "ticks cb m k1 = Some k2" "kinv k2" "tinv k2" "rt_current_thread k2 = Some c2"
      "if m < nat time then th_stat k2 c = RT_THREAD_SUSPEND else awake k2 c \<and> th_error (thr k2 c) = - RT_ETIMEOUT"
      using ticks_ok [OF i k1(5), of cb m] assms(3) unfolding k1(6) by (auto simp: max_def split: if_splits)
    have "c \<notin> set q" if "awake k2 c" "q \<in> set (suspend_thread k2)" for q
    proof
      assume "c \<in> set q"
      then have "c \<in> set (concat (suspend_thread k2))" using that(2) by auto
      then have "th_stat k2 c = RT_THREAD_SUSPEND" using k2(2) unfolding kinv_def klists_def by blast
      with that(1) show False by (simp add: awake_def)
    qed
    with k2 show ?thesis by (auto simp: kgood_def rt_sem_take_return_def split: if_splits)
  qed
  ultimately show ?thesis using k1(1) by blast
qed

theorem sem_wait_times_out_witness:
  "\<exists>k s. rtthread_startup 64 (Some 0) (Some 0x20001000) 0x20002000 2 0x20003000 kernel_bss = Some k \<and>
     rt_sem_init 0 0 RT_IPC_FLAG_PRIO k = Some (s, k) \<and>
     (\<exists>k1. rt_sem_take 100 s k = Some (Waiting 1, s, k1) \<and> 1 \<in> set (sem_queue s k1) \<and>
     (\<forall>m. \<exists>k2. ticks (\<lambda>_. Some) m k1 = Some k2 \<and> kgood k2 \<and>
        (if m < nat 100 then th_stat k2 1 = RT_THREAD_SUSPEND
         else awake k2 1 \<and> rt_sem_take_return 1 k2 = - RT_ETIMEOUT \<and> (\<forall>q\<in>set (suspend_thread k2). 1 \<notin> set q))))"
proof -
  obtain k where k: "rtthread_startup 64 (Some 0) (Some 0x20001000) 0x20002000 2 0x20003000 kernel_bss = Some k" "kgood k"
     "suspend_thread k = replicate 4 []" "in_thread_context k" "rt_current_thread k = Some 1" "th_stat k 1 = RT_THREAD_RUNNING"
    using booted_ipc by blast
  define s where "s = \<lparr>sem_flag = 1, sem_value = 0, sem_list = 0\<rparr>"
  have i: "rt_sem_init 0 0 1 k = Some (s, k)" using k(3) by (simp add: rt_sem_init_def rt_ipc_object_init_def s_def)
  have "sem_inv s k" "sem_value s = 0" using k(2,3) by (simp_all add: sem_inv_def s_def)
  from sem_wait_times_out [OF this _ _ k(4-6), of 100 "\<lambda>_. Some"] i k(1) show ?thesis by fastforce
qed

text \<open>In a semaphore with priority order the queue stays sorted when a thread joins it, so that the first one has the highest priority.\<close>

lemma prio_queue_sorted:
  assumes "sorted (map (\<lambda>u. current_priority (thr k u)) (suspend_thread k ! l))"
  shows "sorted (map (\<lambda>u. current_priority (thr k u)) (ipc_insert l RT_IPC_FLAG_PRIO c k))"
  using prio_insert_sorted [OF assms] by (simp add: ipc_insert_def)

section \<open>Mutexes\<close>

lemma priority_frame:
  assumes "kinv k" "rt_thread_control t (RT_THREAD_CTRL_CHANGE_PRIORITY p) k = Some (e, k')"
  shows "suspend_thread k' = suspend_thread k" "rt_interrupt_nest k' = rt_interrupt_nest k" "u \<noteq> t \<Longrightarrow> thr k' u = thr k u"
    "wait_data (thr k' u) = wait_data (thr k u)"
proof -
  have l: "klists {} k" using assms(1) by (simp add: kinv_def)
  obtain k1 k2 where 1: "suspend_thread k1 = suspend_thread k" "rt_interrupt_nest k1 = rt_interrupt_nest k" "thr k1 = thr k"
    "k2 = upd_thr t (change_priority p) k1" "k' = k2 \<or> rt_schedule_insert_thread t k2 = Some k'"
  proof (cases "th_stat k t = RT_THREAD_READY")
    case True
    then obtain k1 where k1: "rt_schedule_remove_thread t k = Some k1" "rt_schedule_insert_thread t (upd_thr t (change_priority p) k1) = Some k'"
      using assms(2) by (auto simp: bind_eq_Some_conv)
    have rm: "rt_list_remove t k = k\<lparr>rt_thread_priority_table := map (filter (\<lambda>u. u \<noteq> t)) (rt_thread_priority_table k)\<rparr>"
      using True by (intro rt_list_remove_ready [OF l]) simp
    have "suspend_thread (rt_list_remove t k) = suspend_thread k" unfolding rm by simp
    then have "suspend_thread k1 = suspend_thread k" "rt_interrupt_nest k1 = rt_interrupt_nest k" "thr k1 = thr k"
      using k1(1) by (auto simp: rt_schedule_remove_thread_def Let_def split: if_splits)
    with that [of k1] k1(2) show ?thesis by blast
  next
    case False
    then show ?thesis using that [of k "upd_thr t (change_priority p) k"] assms(2) by simp
  qed
  have 2: "suspend_thread k2 = suspend_thread k" "rt_interrupt_nest k2 = rt_interrupt_nest k" "thr k2 = (thr k)(t := change_priority p (thr k t))"
    using 1(1-4) by simp_all
  have ins: "suspend_thread k' = suspend_thread k2 \<and> rt_interrupt_nest k' = rt_interrupt_nest k2 \<and>
      (\<exists>s. thr k' = (thr k2)(t := (thr k2 t)\<lparr>stat := s\<rparr>))" if "rt_schedule_insert_thread t k2 = Some k'"
    using that by (auto simp: rt_schedule_insert_thread_def ready_insert_def bind_eq_Some_conv set_stat_def upd_thr_def split: if_splits)
  have "thr k2 = (thr k2)(t := (thr k2 t)\<lparr>stat := stat (thr k2 t)\<rparr>)" by simp
  then obtain s where s: "thr k' = (thr k2)(t := (thr k2 t)\<lparr>stat := s\<rparr>)" "suspend_thread k' = suspend_thread k2" "rt_interrupt_nest k' = rt_interrupt_nest k2"
    using 1(5) ins by metis
  show "suspend_thread k' = suspend_thread k" "rt_interrupt_nest k' = rt_interrupt_nest k" using s 2 by simp_all
  show "u \<noteq> t \<Longrightarrow> thr k' u = thr k u" by (simp add: s 2)
  show "wait_data (thr k' u) = wait_data (thr k u)" by (cases "u = t") (simp_all add: s 2)
qed

text \<open>Changing a priority, with everything the mutex relies on.\<close>

lemma priority_full:
  assumes "kgood k" "p < 32"
  shows "\<exists>k'. rt_thread_control t (RT_THREAD_CTRL_CHANGE_PRIORITY p) k = Some (RT_EOK, k') \<and> kgood k' \<and> th_stat k' = th_stat k \<and>
     rt_current_thread k' = rt_current_thread k \<and> current_priority (thr k' t) = p \<and> suspend_thread k' = suspend_thread k \<and>
     rt_interrupt_nest k' = rt_interrupt_nest k \<and> (\<forall>u. u \<noteq> t \<longrightarrow> thr k' u = thr k u) \<and> (\<forall>u. wait_data (thr k' u) = wait_data (thr k u))"
proof -
  have i: "kinv k" "tinv k" using assms(1) by (simp_all add: kgood_def)
  obtain k' where k': "rt_thread_control t (RT_THREAD_CTRL_CHANGE_PRIORITY p) k = Some (RT_EOK, k')" "kinv k'" "tinv k'"
     "th_stat k' = th_stat k" "rt_current_thread k' = rt_current_thread k" "current_priority (thr k' t) = p"
    using priority_ok [OF i assms(2)] by blast
  have "kgood k'" using assms(1) k'(2,3,5) by (simp add: kgood_def)
  then show ?thesis using k' priority_frame [OF i(1) k'(1)] by blast
qed

abbreviation mx_queue :: "rt_mutex \<Rightarrow> kernel \<Rightarrow> nat list" where
  "mx_queue m k \<equiv> suspend_thread k ! mx_list m"

definition mx_inv :: "rt_mutex \<Rightarrow> kernel \<Rightarrow> bool" where
  "mx_inv m k \<longleftrightarrow> kgood k \<and> mx_list m < length (suspend_thread k) \<and> mx_flag m \<in> {RT_IPC_FLAG_FIFO, RT_IPC_FLAG_PRIO} \<and>
     (\<forall>t\<in>set (mx_queue m k). th_error (thr k t) = RT_EOK) \<and>
     (case mx_owner m of
        None \<Rightarrow> mx_value m = 1 \<and> mx_hold m = 0 \<and> mx_queue m k = []
      | Some t \<Rightarrow> mx_value m = 0 \<and> mx_hold m \<noteq> 0 \<and> t \<notin> set (mx_queue m k) \<and> original_priority m < 32)"

lemma mx_invD:
  assumes "mx_inv m k"
  shows "kgood k" "mx_list m < length (suspend_thread k)" "mx_flag m \<in> {RT_IPC_FLAG_FIFO, RT_IPC_FLAG_PRIO}"
    "t \<in> set (mx_queue m k) \<Longrightarrow> th_error (thr k t) = RT_EOK"
    "mx_owner m = None \<Longrightarrow> mx_value m = 1 \<and> mx_hold m = 0 \<and> mx_queue m k = []"
    "mx_owner m = Some t \<Longrightarrow> mx_value m = 0 \<and> mx_hold m \<noteq> 0 \<and> t \<notin> set (mx_queue m k) \<and> original_priority m < 32"
  using assms by (simp_all add: mx_inv_def split: option.splits)

lemma mutex_take_waits:
  assumes "mx_inv m k" "in_thread_context k" "rt_current_thread k = Some c" "th_stat k c = RT_THREAD_RUNNING"
    "mx_owner m = Some ow" "ow \<noteq> c" "time \<noteq> 0" "time < 0x7fffffff"
  shows "\<exists>k'. rt_mutex_take time m k = Some (Waiting c, m, k') \<and> mx_inv m k' \<and> th_stat k' c = RT_THREAD_SUSPEND \<and>
     set (mx_queue m k') = insert c (set (mx_queue m k)) \<and>
     current_priority (thr k' ow) = min (current_priority (thr k ow)) (current_priority (thr k c)) \<and>
     (\<forall>u. u \<noteq> ow \<longrightarrow> current_priority (thr k' u) = current_priority (thr k u))"
proof -
  let ?l = "mx_list m" and ?p = "current_priority (thr k c)"
  note i = mx_invD [OF assms(1)]
  define k1 where "k1 = set_error RT_EOK c k"
  note e = set_error_ok [OF i(1), of RT_EOK c, folded k1_def]
  have pr1: "current_priority (thr k1 u) = current_priority (thr k u)" for u by (simp add: k1_def set_error_def)
  have "klists {} k" using i(1) by (simp add: kgood_def kinv_def)
  then have p: "?p < 32" using klistsD(5) [of "{}" k c] assms(4) by (simp add: th_ok_def)
  obtain k2 where k2: "mutex_inherit m c k1 = Some k2" "kgood k2" "th_stat k2 = th_stat k1" "rt_current_thread k2 = rt_current_thread k1"
     "suspend_thread k2 = suspend_thread k1" "\<And>u. wait_data (thr k2 u) = wait_data (thr k1 u)"
     "current_priority (thr k2 ow) = min (current_priority (thr k ow)) ?p"
     "\<And>u. u \<noteq> ow \<Longrightarrow> current_priority (thr k2 u) = current_priority (thr k u)"
  proof (cases "?p < current_priority (thr k ow)")
    case True
    obtain k2 where k2: "rt_thread_control ow (RT_THREAD_CTRL_CHANGE_PRIORITY ?p) k1 = Some (RT_EOK, k2)" "kgood k2" "th_stat k2 = th_stat k1"
      "rt_current_thread k2 = rt_current_thread k1" "current_priority (thr k2 ow) = ?p" "suspend_thread k2 = suspend_thread k1"
      "\<forall>u. u \<noteq> ow \<longrightarrow> thr k2 u = thr k1 u" "\<forall>u. wait_data (thr k2 u) = wait_data (thr k1 u)"
      using priority_full [OF e(1) p, of ow] by blast
    have run: "mutex_inherit m c k1 = Some k2" unfolding mutex_inherit_def assms(5) pr1 using True k2(1) by (simp del: rt_thread_control.simps)
    show ?thesis by (rule that [OF run k2(2-4,6)]) (use k2(5,7,8) True in \<open>simp_all add: pr1\<close>)
  next
    case False
    then have "mutex_inherit m c k1 = Some k1" by (simp add: mutex_inherit_def assms(5) pr1)
    with False show ?thesis using that [of k1] e(1) by (simp add: pr1)
  qed
  have 2: "kinv k2" "tinv k2" "rt_current_thread k2 = Some c" "th_stat k2 c = RT_THREAD_RUNNING" "?l < length (suspend_thread k2)"
    using k2(2-5) e assms(3,4) i(2) by (simp_all add: kgood_def)
  obtain k' c' where k': "ipc_block ?l (mx_flag m) time c k2 = Some k'" "kinv k'" "tinv k'" "rt_current_thread k' = Some c'"
     "th_stat k' c = RT_THREAD_SUSPEND" "suspend_thread k' = (suspend_thread k2)[?l := ipc_insert ?l (mx_flag m) c k2]"
     "\<And>u. th_error (thr k' u) = th_error (thr k2 u)" "\<And>u. current_priority (thr k' u) = current_priority (thr k2 u)"
    using ipc_block_ok [OF 2 i(3) assms(8)] by blast
  have q: "mx_queue m k' = ipc_insert ?l (mx_flag m) c k2" using i(2) by (simp add: k'(6) k2(5) e(3))
  have qs: "set (mx_queue m k') = insert c (set (mx_queue m k))"
    using ipc_insert_mset [OF i(3), of ?l c k2] unfolding q k2(5) e(3) by (metis set_mset_add_mset_insert set_mset_mset)
  have er: "th_error (thr k' u) = (if u = c then RT_EOK else th_error (thr k u))" for u
    using k2(6) [of u] by (simp add: k'(7) wait_data_def k1_def set_error_def split: if_splits)
  have len: "?l < length (suspend_thread k')" using i(2) by (simp add: k'(6) k2(5) e(3))
  have "mx_inv m k'"
    using k'(2-4) len i(3,4) i(6) [OF assms(5)] assms(5,6) unfolding mx_inv_def qs by (auto simp: er kgood_def)
  moreover have "rt_mutex_take time m k = Some (Waiting c, m, k')"
    using assms(2,3,5,6,7) i(6) [OF assms(5)] k2(1) k'(1) by (simp add: rt_mutex_take_def k1_def)
  ultimately show ?thesis using k'(5,8) qs k2(7,8) by auto
qed

lemma unat_pred: "(x :: u8) \<noteq> 0 \<Longrightarrow> unat (x - 1) = unat x - 1" "(x :: u8) \<noteq> 0 \<Longrightarrow> 0 < unat x"
  by (simp_all add: unat_minus_one unat_gt_0)

text \<open>The last release by the owner: its priority is the one it had when it took the mutex, and the mutex is free or belongs to the
  thread that waited first.\<close>

lemma mutex_last_release:
  assumes "mx_inv m k" "in_thread_context k" "rt_current_thread k = Some c" "mx_owner m = Some c" "mx_hold m = 1"
  shows "\<exists>m' k'. rt_mutex_release m k = Some (RT_EOK, m', k') \<and> mx_inv m' k' \<and> current_priority (thr k' c) = original_priority m \<and>
     (case mx_queue m k of
        [] \<Rightarrow> mx_owner m' = None
      | u # rest \<Rightarrow> mx_owner m' = Some u \<and> mx_hold m' = 1 \<and> mx_queue m' k' = rest \<and> awake k' u \<and> rt_mutex_take_return u k' = RT_EOK \<and>
          original_priority m' = current_priority (thr k u))"
proof -
  let ?l = "mx_list m"
  note i = mx_invD [OF assms(1)]
  note o = i(6) [OF assms(4)]
  define m1 where "m1 = m\<lparr>mx_hold := 0\<rparr>"
  obtain k1 where k1: "mutex_restore m1 c k = Some k1" "kgood k1" "th_stat k1 = th_stat k" "rt_current_thread k1 = rt_current_thread k"
     "suspend_thread k1 = suspend_thread k" "\<And>u. wait_data (thr k1 u) = wait_data (thr k u)"
     "current_priority (thr k1 c) = original_priority m" "\<And>u. u \<noteq> c \<Longrightarrow> current_priority (thr k1 u) = current_priority (thr k u)"
  proof (cases "original_priority m = current_priority (thr k c)")
    case True
    then have "mutex_restore m1 c k = Some k" by (simp add: mutex_restore_def m1_def)
    with True show ?thesis using that [of k] i(1) by simp
  next
    case False
    obtain k1 where k1: "rt_thread_control c (RT_THREAD_CTRL_CHANGE_PRIORITY (original_priority m)) k = Some (RT_EOK, k1)" "kgood k1" "th_stat k1 = th_stat k"
      "rt_current_thread k1 = rt_current_thread k" "current_priority (thr k1 c) = original_priority m" "suspend_thread k1 = suspend_thread k"
      "\<forall>u. u \<noteq> c \<longrightarrow> thr k1 u = thr k u" "\<forall>u. wait_data (thr k1 u) = wait_data (thr k u)"
      using priority_full [OF i(1), of "original_priority m" c] o by blast
    have run: "mutex_restore m1 c k = Some k1" unfolding mutex_restore_def m1_def using False k1(1) by (simp del: rt_thread_control.simps)
    show ?thesis by (rule that [OF run k1(2-4,6)]) (use k1(5,7,8) in simp_all)
  qed
  have rel: "rt_mutex_release m k = mutex_pass_on m1 k1"
    using assms(2-5) k1(1) by (simp add: rt_mutex_release_def m1_def)
  have er: "th_error (thr k1 u) = th_error (thr k u)" for u using k1(6) [of u] by (simp add: wait_data_def)
  show ?thesis
  proof (cases "mx_queue m k")
    case Nil
    then have "mutex_pass_on m1 k1 = Some (RT_EOK, m1\<lparr>mx_value := 1, mx_owner := None, original_priority := 0xff\<rparr>, k1)"
      using o by (simp add: mutex_pass_on_def m1_def k1(5))
    moreover have "mx_inv (m1\<lparr>mx_value := 1, mx_owner := None, original_priority := 0xff\<rparr>) k1"
      using k1(2) i(2,3) Nil by (simp add: mx_inv_def m1_def k1(5))
    ultimately show ?thesis using Nil k1(7) by (simp add: rel)
  next
    case (Cons u rest)
    have uc: "u \<noteq> c" using o Cons by auto
    have q1: "suspend_thread k1 ! ?l = u # rest" "?l < length (suspend_thread k1)" using Cons i(2) by (simp_all add: k1(5))
    have 1: "kinv k1" "tinv k1" "rt_current_thread k1 = Some c" using k1(2,4) assms(3) by (simp_all add: kgood_def)
    obtain k2 where k2: "rt_ipc_list_resume ?l k1 = Some k2" "kinv k2" "tinv k2"
       "thr k2 = (thr k1)(u := set_stat (if rt_current_thread k1 = Some u then RT_THREAD_RUNNING else RT_THREAD_READY) (thr k1 u))"
       "awake k2 u" "suspend_thread k2 = (suspend_thread k1)[?l := rest]" "rt_current_thread k2 = Some c"
      using ipc_resume_ok [OF 1(1,2) q1(2,1)] 1(3) by auto
    obtain k' c' where k': "rt_schedule k2 = Some k'" "kinv k'" "sched_frame k2 k'" "rt_current_thread k' = Some c'"
      using schedule_any [OF k2(2,7)] by blast
    have a: "awake k' u" using sched_frame_ready [OF k'(3), of u] k2(5) by (auto simp: awake_def)
    have er': "th_error (thr k' v) = th_error (thr k v)" for v
      using sched_frame_sel(2) [OF k'(3), of v] by (cases "v = u") (simp_all add: k2(4) set_stat_def er)
    have pr': "current_priority (thr k' v) = current_priority (thr k1 v)" for v
      using sched_frame_sel(1) [OF k'(3), of v] by (cases "v = u") (simp_all add: k2(4) set_stat_def)
    have q: "suspend_thread k' = (suspend_thread k)[?l := rest]" using sched_frame_objects(6) [OF k'(3)] by (simp add: k2(6) k1(5))
    define m' where "m' = m1\<lparr>mx_owner := Some u, original_priority := current_priority (thr k1 u), mx_hold := 1\<rparr>"
    have "mutex_pass_on m1 k1 = Some (RT_EOK, m', k')"
      using q1 k2(1) k'(1) by (simp add: mutex_pass_on_def m1_def m'_def)
    moreover have "mx_inv m' k'"
    proof -
      have l: "klists {} k" using i(1) by (simp add: kgood_def kinv_def)
      have "mx_queue m k \<in> set (suspend_thread k)" using i(2) by simp
      then have "u \<in> set (concat (suspend_thread k))" and d: "distinct (mx_queue m k)" using Cons l
        by (auto simp: klists_def distinct_concat_iff intro!: bexI [of _ "mx_queue m k"])
      then have "th_stat k u = RT_THREAD_SUSPEND" using l unfolding klists_def by blast
      then have "current_priority (thr k u) < 32" using klistsD(5) [OF l, of u] by (simp add: th_ok_def)
      moreover have "u \<notin> set rest" using d Cons by simp
      moreover have "tinv k'" by (rule tinv_schedule [OF k2(3) k'(3)])
      moreover have "th_error (thr k' t) = RT_EOK" if "t \<in> set rest" for t using i(4) [of t] that Cons by (simp add: er')
      ultimately show ?thesis using k'(2,4) i(2,3) o uc by (auto simp: mx_inv_def m'_def m1_def q k1(8) kgood_def)
    qed
    moreover have "rt_mutex_take_return u k' = RT_EOK" using i(4) [of u] Cons by (simp add: rt_mutex_take_return_def er')
    moreover have "current_priority (thr k' c) = original_priority m" using k1(7) by (simp add: pr')
    ultimately show ?thesis using Cons a i(2) uc by (simp add: rel m'_def m1_def q k1(8))
  qed
qed

text \<open>The promise: a lock with one owner, who may take it more than once.\<close>

datatype mx_op = Mx_take int | Mx_release

datatype mx_event = Acquired nat | Released nat

fun lock :: "(nat \<times> nat) option \<Rightarrow> mx_event \<Rightarrow> (nat \<times> nat) option option" where
  "lock None (Acquired t) = Some (Some (t, 1))"
| "lock None (Released t) = None"
| "lock (Some (u, n)) (Acquired t) = (if t = u then Some (Some (u, n + 1)) else None)"
| "lock (Some (u, n)) (Released t) = (if t = u then Some (if n = 1 then None else Some (u, n - 1)) else None)"

definition mx_abs :: "rt_mutex \<Rightarrow> (nat \<times> nat) option" where
  "mx_abs m = map_option (\<lambda>t. (t, unat (mx_hold m))) (mx_owner m)"

text \<open>The events are the calls that succeed: a thread that waits acquires the mutex when it is handed over.\<close>

fun mx_exec :: "mx_op \<Rightarrow> rt_mutex \<Rightarrow> kernel \<Rightarrow> (mx_event list \<times> rt_mutex \<times> kernel) option" where
  "mx_exec (Mx_take time) m k = do {
     c \<leftarrow> rt_current_thread k;
     (r, m', k') \<leftarrow> rt_mutex_take time m k;
     Some (if r = Returned RT_EOK then [Acquired c] else [], m', k')
   }"
| "mx_exec Mx_release m k = do {
     c \<leftarrow> rt_current_thread k;
     (e, m', k') \<leftarrow> rt_mutex_release m k;
     Some (if e = RT_EOK then Released c # (if mx_owner m' \<noteq> Some c then map Acquired (take 1 (mx_queue m k)) else []) else [], m', k')
   }"

fun mx_op_ok :: "mx_op \<Rightarrow> rt_mutex \<Rightarrow> kernel \<Rightarrow> bool" where
  "mx_op_ok (Mx_take time) m k \<longleftrightarrow> time < 0x7fffffff \<and> in_thread_context k \<and> cur_stat k = RT_THREAD_RUNNING"
| "mx_op_ok Mx_release m k \<longleftrightarrow> in_thread_context k \<and> cur_stat k = RT_THREAD_RUNNING"

definition mx_holds :: "(nat \<times> nat) option \<Rightarrow> rt_mutex \<Rightarrow> kernel \<Rightarrow> bool" where
  "mx_holds a m k \<longleftrightarrow> mx_inv m k \<and> a = mx_abs m"

lemma mx_inv_hold:
  assumes "mx_inv m k" "mx_owner m = Some c" "h \<noteq> 0"
  shows "mx_inv (m\<lparr>mx_hold := h\<rparr>) k"
  using assms by (simp add: mx_inv_def)

lemma mx_inv_error:
  assumes "mx_inv m k" "c \<notin> set (mx_queue m k)"
  shows "mx_inv m (set_error e c k)"
proof -
  note i = mx_invD [OF assms(1)]
  note s = set_error_ok [OF i(1), of e c]
  have "th_error (thr (set_error e c k) t) = th_error (thr k t)" if "t \<noteq> c" for t using that by (simp add: set_error_def)
  then have "\<forall>t\<in>set (mx_queue m k). th_error (thr (set_error e c k) t) = RT_EOK" using i(4) assms(2) by metis
  then show ?thesis using assms(1) s(1) unfolding mx_inv_def s(3) by simp
qed

lemma mx_take_step:
  assumes "mx_inv m k" "mx_op_ok (Mx_take time) m k"
  shows "\<exists>es m' k'. mx_exec (Mx_take time) m k = Some (es, m', k') \<and> mx_inv m' k' \<and> replay lock (mx_abs m) es = Some (mx_abs m')"
proof -
  note i = mx_invD [OF assms(1)]
  obtain c where c: "rt_current_thread k = Some c" "th_stat k c = RT_THREAD_RUNNING" "in_thread_context k" "time < 0x7fffffff"
    using assms(2) by (auto split: option.splits)
  have ki: "kinv k" using i(1) by (simp add: kgood_def)
  have nq: "c \<notin> set (mx_queue m k)" by (rule current_not_waiting [OF ki c(2) i(2)])
  define k1 where "k1 = set_error RT_EOK c k"
  have k1: "mx_inv m k1" "mx_queue m k1 = mx_queue m k" unfolding k1_def by (rule mx_inv_error [OF assms(1) nq]) (simp add: set_error_def)
  have pr1: "current_priority (thr k1 c) = current_priority (thr k c)" by (simp add: k1_def set_error_def)
  consider "mx_owner m = Some c" "mx_hold m < 0xff" | "mx_owner m = Some c" "\<not> mx_hold m < 0xff" | "mx_owner m = None"
    | ow where "mx_owner m = Some ow" "ow \<noteq> c" by (cases "mx_owner m") auto
  then show ?thesis
  proof cases
    case 1
    have h: "unat (mx_hold m + 1) = unat (mx_hold m) + 1" using 1(2) by (simp add: unat_plus_if_size word_size word_less_nat_alt)
    then have "mx_hold m + 1 \<noteq> 0" by (metis Suc_eq_plus1 nat.distinct(1) unat_0)
    then have "mx_inv (m\<lparr>mx_hold := mx_hold m + 1\<rparr>) k1" using mx_inv_hold [OF k1(1) 1(1)] by blast
    moreover have "mx_exec (Mx_take time) m k = Some ([Acquired c], m\<lparr>mx_hold := mx_hold m + 1\<rparr>, k1)"
      using 1 c by (simp add: rt_mutex_take_def k1_def)
    moreover have "replay lock (mx_abs m) [Acquired c] = Some (mx_abs (m\<lparr>mx_hold := mx_hold m + 1\<rparr>))" using 1(1) h by (simp add: mx_abs_def)
    ultimately show ?thesis by blast
  next
    case 2
    then show ?thesis using c k1(1) by (simp add: rt_mutex_take_def k1_def)
  next
    case 3
    note f = i(5) [OF 3]
    have "klists {} k" using ki by (simp add: kinv_def)
    then have p: "current_priority (thr k c) < 32" using klistsD(5) [of "{}" k c] c(2) by (simp add: th_ok_def)
    let ?m = "m\<lparr>mx_value := 0, mx_owner := Some c, original_priority := current_priority (thr k1 c), mx_hold := 1\<rparr>"
    have "mx_exec (Mx_take time) m k = Some ([Acquired c], ?m, k1)"
      using 3 f c by (simp add: rt_mutex_take_def k1_def Let_def)
    moreover have "mx_inv ?m k1" using k1 f p by (simp add: mx_inv_def pr1 3)
    moreover have "replay lock (mx_abs m) [Acquired c] = Some (mx_abs ?m)" using 3 by (simp add: mx_abs_def)
    ultimately show ?thesis by blast
  next
    case (4 ow)
    note f = i(6) [OF 4(1)]
    show ?thesis
    proof (cases "time = 0")
      case True
      have "mx_inv m (set_error (- RT_ETIMEOUT) c k1)" by (rule mx_inv_error [OF k1(1)]) (simp add: k1(2) nq)
      then show ?thesis using True 4 f c by (simp add: rt_mutex_take_def k1_def)
    next
      case False
      from mutex_take_waits [OF assms(1) c(3,1,2) 4 False c(4)] obtain k' where "rt_mutex_take time m k = Some (Waiting c, m, k')" "mx_inv m k'" by blast
      then show ?thesis using c by simp
    qed
  qed
qed

lemma mx_release_step:
  assumes "mx_inv m k" "mx_op_ok Mx_release m k"
  shows "\<exists>es m' k'. mx_exec Mx_release m k = Some (es, m', k') \<and> mx_inv m' k' \<and> replay lock (mx_abs m) es = Some (mx_abs m')"
proof -
  note i = mx_invD [OF assms(1)]
  obtain c where c: "rt_current_thread k = Some c" "th_stat k c = RT_THREAD_RUNNING" "in_thread_context k"
    using assms(2) by (auto split: option.splits)
  have nq: "c \<notin> set (mx_queue m k)" using i(1) by (intro current_not_waiting [OF _ c(2) i(2)]) (simp add: kgood_def)
  show ?thesis
  proof (cases "mx_owner m = Some c")
    case False
    then show ?thesis using c mx_inv_error [OF assms(1) nq, of "- RT_ERROR"] by (simp add: rt_mutex_release_def)
  next
    case True
    note o = i(6) [OF True]
    show ?thesis
    proof (cases "mx_hold m = 1")
      case False
      have h: "mx_hold m - 1 \<noteq> 0" "unat (mx_hold m - 1) = unat (mx_hold m) - 1" "0 < unat (mx_hold m)"
        using False o unat_pred [of "mx_hold m"] by simp_all
      have h1: "unat (mx_hold m) \<noteq> 1" using False by (metis unat_1 word_unat_eq_iff)
      from h have "mx_exec Mx_release m k = Some ([Released c], m\<lparr>mx_hold := mx_hold m - 1\<rparr>, k)"
        using True c False by (simp add: rt_mutex_release_def)
      moreover have "mx_inv (m\<lparr>mx_hold := mx_hold m - 1\<rparr>) k" by (rule mx_inv_hold [OF assms(1) True h(1)])
      moreover have "replay lock (mx_abs m) [Released c] = Some (mx_abs (m\<lparr>mx_hold := mx_hold m - 1\<rparr>))" using True h h1 by (simp add: mx_abs_def)
      ultimately show ?thesis by blast
    next
      case hold: True
      from mutex_last_release [OF assms(1) c(3,1) True hold] obtain m' k' where k': "rt_mutex_release m k = Some (RT_EOK, m', k')" "mx_inv m' k'"
        "case mx_queue m k of [] \<Rightarrow> mx_owner m' = None
         | u # rest \<Rightarrow> mx_owner m' = Some u \<and> mx_hold m' = 1 \<and> mx_queue m' k' = rest \<and> awake k' u \<and> rt_mutex_take_return u k' = RT_EOK \<and>
             original_priority m' = current_priority (thr k u)" by blast
      show ?thesis
      proof (cases "mx_queue m k")
        case Nil
        then show ?thesis using k' c True hold by (simp add: mx_abs_def)
      next
        case (Cons u rest)
        then have "u \<noteq> c" using nq by auto
        then show ?thesis using Cons k' c True hold by (simp add: mx_abs_def)
      qed
    qed
  qed
qed

lemma mx_kept:
  assumes "mx_inv m k" "shrinks k k'" "kgood k'"
  shows "mx_inv m k'"
proof -
  note i = mx_invD [OF assms(1)]
  note w = shrinks_waiting [OF assms(2) i(2)]
  have "th_error (thr k' t) = RT_EOK" if t: "t \<in> set (mx_queue m k')" for t
  proof -
    have "th_error (thr k t) = RT_EOK" using w(2) t i(4) by blast
    then show ?thesis using w(4) [OF t] by (simp add: wait_data_def)
  qed
  then show ?thesis using assms(1,3) w(1-3) unfolding mx_inv_def by (auto split: option.splits)
qed

interpretation mutex: ipc_object mx_op_ok mx_exec mx_holds lock
proof (unfold_locales, goal_cases)
  case (3 a m k op)
  show ?case
  proof (cases op)
    case (Mx_take time)
    then show ?thesis using mx_take_step [of m k time] 3 by (auto simp: mx_holds_def simp del: mx_exec.simps)
  next
    case Mx_release
    then show ?thesis using mx_release_step [of m k] 3 by (auto simp: mx_holds_def simp del: mx_exec.simps)
  qed
qed (auto simp: mx_holds_def intro: mx_invD(1) mx_kept)





text \<open>C18: The last release: the owner has again the priority it had when it took the mutex. When threads wait, the first one of the
  queue owns the mutex, once, is ready or running and its call returns success; otherwise the mutex is free.\<close>

theorem mutex_hands_over:
  assumes "mx_inv m k" "in_thread_context k" "rt_current_thread k = Some c" "mx_owner m = Some c" "mx_hold m = 1"
  shows "\<exists>m' k'. rt_mutex_release m k = Some (RT_EOK, m', k') \<and> mx_inv m' k' \<and> current_priority (thr k' c) = original_priority m \<and>
     (case suspend_thread k ! mx_list m of
        [] \<Rightarrow> mx_owner m' = None
      | u # rest \<Rightarrow> mx_owner m' = Some u \<and> mx_hold m' = 1 \<and> suspend_thread k' ! mx_list m' = rest \<and> awake k' u \<and>
          rt_mutex_take_return u k' = RT_EOK \<and> original_priority m' = current_priority (thr k u))"
  by (rule mutex_last_release [OF assms])

theorem mutex_hands_over_witness:
  "\<exists>k m. rtthread_startup 64 (Some 0) (Some 0x20001000) 0x20002000 2 0x20003000 kernel_bss = Some k \<and> mx_owner m = Some 1 \<and>
     (\<exists>m' k'. rt_mutex_release m k = Some (RT_EOK, m', k') \<and> mx_inv m' k' \<and> current_priority (thr k' 1) = original_priority m \<and>
     (case suspend_thread k ! mx_list m of
        [] \<Rightarrow> mx_owner m' = None
      | u # rest \<Rightarrow> mx_owner m' = Some u \<and> mx_hold m' = 1 \<and> suspend_thread k' ! mx_list m' = rest \<and> awake k' u \<and>
          rt_mutex_take_return u k' = RT_EOK \<and> original_priority m' = current_priority (thr k u)))"
proof -
  obtain k where k: "rtthread_startup 64 (Some 0) (Some 0x20001000) 0x20002000 2 0x20003000 kernel_bss = Some k" "kgood k"
     "suspend_thread k = replicate 4 []" "in_thread_context k" "rt_current_thread k = Some 1" using booted_ipc by blast
  define m where "m = \<lparr>mx_flag = 1, mx_value = 0, original_priority = 10, mx_hold = 1, mx_owner = Some 1, mx_list = 0\<rparr>"
  have i: "mx_inv m k" and o: "mx_owner m = Some 1" "mx_hold m = 1" using k(2,3) by (simp_all add: mx_inv_def m_def)
  note r = mutex_hands_over [OF i k(4,5) o]
  show ?thesis by (intro exI [of _ k] exI [of _ m] conjI k(1) o(1) r)
qed

end
