(* ===== verification/Ipc_Event.thy ===== *)
theory Ipc_Event
  imports Ipc_Wait
begin

text \<open>
  Events (\<open>rt_event_send\<close>, \<open>rt_event_recv\<close> of \<open>src/smart-building-mcu/rt-thread/src/ipc.c\<close>): under any sequence of calls an event
  object follows the automaton of a set of flags, and no thread is left waiting for flags that are set.
\<close>

unbundle bit_operations_syntax

abbreviation ev_queue :: "rt_event \<Rightarrow> kernel \<Rightarrow> nat list" where
  "ev_queue e k \<equiv> suspend_thread k ! ev_list e"

text \<open>Whether the flags of a set meet a request is monotone in the set.\<close>

definition unmet :: "rt_thread \<Rightarrow> u32 \<Rightarrow> bool" where
  "unmet th S \<longleftrightarrow> th_error th = RT_EOK \<and> event_match (event_info th) (event_set th) S = Some None"

lemma match_mono:
  assumes "event_match info want S = Some None" "S' AND S = S'"
  shows "event_match info want S' = Some None"
proof -
  have e: "(want AND S') AND S = want AND S'" "(want AND S) AND S' = want AND S'"
    by (simp_all only: and.assoc and.commute [of S S'] assms(2))
  have 1: "want AND S = want" if "want AND S' = want" using e(1) by (simp only: that)
  have 2: "want AND S' = 0" if "want AND S = 0" using e(2) by (simp only: that and_zero_eq zero_and_eq)
  show ?thesis using assms(1) 1 2 by (auto simp: event_match_def split: if_splits)
qed

lemma unmet_mono: "unmet th S \<Longrightarrow> S' AND S = S' \<Longrightarrow> unmet th S'"
  using match_mono [of "event_info th" "event_set th" S S'] by (simp add: unmet_def)

lemma unmet_wait: "wait_data th' = wait_data th \<Longrightarrow> unmet th' S = unmet th S"
  by (simp add: unmet_def wait_data_def)

lemma match_mode: "event_match info want S = None \<longleftrightarrow> event_match info want S' = None"
  by (simp add: event_match_def)

lemma clear_sub: "(if b then S AND NOT got else S) AND S = (if b then S AND NOT got else (S :: u32))"
  by (simp add: and.assoc and.commute)

text \<open>The promise: a set of flags, in which a thread finds what it asked for, and takes it out with the clear option.\<close>

datatype ev_event = Sent u32 | Received u8 u32 u32

fun flags :: "u32 \<Rightarrow> ev_event \<Rightarrow> u32 option" where
  "flags S (Sent evs) = Some (S OR evs)"
| "flags S (Received opt want got) =
     (if event_match opt want S = Some (Some got) then Some (if opt AND RT_EVENT_FLAG_CLEAR \<noteq> 0 then S AND NOT got else S) else None)"

definition ev_inv :: "rt_event \<Rightarrow> kernel \<Rightarrow> bool" where
  "ev_inv e k \<longleftrightarrow> kgood k \<and> ev_list e < length (suspend_thread k) \<and> ev_flag e \<in> {RT_IPC_FLAG_FIFO, RT_IPC_FLAG_PRIO} \<and>
     (\<forall>t\<in>set (ev_queue e k). unmet (thr k t) (ev_set e))"

lemma ev_good: "ev_inv e k \<Longrightarrow> kgood k"
  by (simp add: ev_inv_def)

lemma ev_kept:
  assumes "ev_inv e k" "shrinks k k'" "kgood k'"
  shows "ev_inv e k'"
proof -
  have l: "ev_list e < length (suspend_thread k)" using assms(1) by (simp add: ev_inv_def)
  note w = shrinks_waiting [OF assms(2) l]
  have "unmet (thr k' t) (ev_set e)" if t: "t \<in> set (ev_queue e k')" for t
    using unmet_wait [OF w(4) [OF t]] w(2) t assms(1) by (auto simp: ev_inv_def)
  then show ?thesis using assms(1,3) l w(1) by (simp add: ev_inv_def)
qed

text \<open>The thread that is met is told what it received and resumed.\<close>

lemma deliver_ok:
  assumes "kgood k" "l < length (suspend_thread k)" "t \<in> set (suspend_thread k ! l)"
  shows "\<exists>k2. rt_thread_resume t (upd_thr t (\<lambda>th. th\<lparr>event_set := got\<rparr>) k) = Some (RT_EOK, k2) \<and> kgood k2 \<and> suspend_thread k2 = (suspend_thread k)[l := remove1 t (suspend_thread k ! l)] \<and>
     awake k2 t \<and> wait_data (thr k2 t) = (th_error (thr k t), got, event_info (thr k t)) \<and> (\<forall>u. u \<noteq> t \<longrightarrow> thr k2 u = thr k u)"
proof -
  define k1 where "k1 = upd_thr t (\<lambda>th. th\<lparr>event_set := got\<rparr>) k"
  have g: "kgood k1" unfolding k1_def by (rule upd_wait_ok [OF assms(1)]) simp
  have s: "suspend_thread k1 = suspend_thread k" "rt_current_thread k1 = rt_current_thread k" by (simp_all add: k1_def)
  have i: "kinv k1" "tinv k1" "l < length (suspend_thread k1)" "t \<in> set (suspend_thread k1 ! l)"
    using g assms(2,3) by (simp_all add: kgood_def s)
  from resume_waiting_ok [OF i] obtain k2 where k2: "rt_thread_resume t k1 = Some (RT_EOK, k2)" "kinv k2" "tinv k2"
     "thr k2 = (thr k1)(t := set_stat (if rt_current_thread k1 = Some t then RT_THREAD_RUNNING else RT_THREAD_READY) (thr k1 t))"
     "awake k2 t" "suspend_thread k2 = (suspend_thread k1)[l := remove1 t (suspend_thread k1 ! l)]" "rt_current_thread k2 = rt_current_thread k1"
    by blast
  have "kgood k2" using k2(2,3,7) g by (simp add: kgood_def)
  moreover have "wait_data (thr k2 t) = (th_error (thr k t), got, event_info (thr k t))" by (simp add: k2(4), simp add: wait_data_def k1_def)
  moreover have "thr k2 u = thr k u" if "u \<noteq> t" for u using that by (simp add: k2(4) k1_def)
  ultimately show ?thesis using k2(1,5,6) s by (auto simp: k1_def)
qed

definition receipts :: "kernel \<Rightarrow> kernel \<Rightarrow> nat list \<Rightarrow> ev_event list" where
  "receipts k k' ts = map (\<lambda>t. Received (event_info (thr k t)) (event_set (thr k t)) (event_set (thr k' t))) ts"

lemma receipts_cong:
  "(\<And>t. t \<in> set ts \<Longrightarrow> thr k1 t = thr k t) \<Longrightarrow> receipts k1 k' ts = receipts k k' ts"
  by (simp add: receipts_def)

lemma receipts_Cons:
  "receipts k k' (t # ts) = Received (event_info (thr k t)) (event_set (thr k t)) (event_set (thr k' t)) # receipts k k' ts"
  by (simp add: receipts_def)

text \<open>What the walk over the rest \<open>ts\<close> of a queue reaches when its first part \<open>pre\<close> is already passed: the threads of \<open>rest\<close> go on
  waiting, unmet, and the others are told what they receive.\<close>

definition walked :: "nat \<Rightarrow> nat list \<Rightarrow> nat list \<Rightarrow> u32 \<Rightarrow> kernel \<Rightarrow> u32 \<Rightarrow> kernel \<Rightarrow> nat list \<Rightarrow> bool" where
  "walked l pre ts S0 k S k' rest \<longleftrightarrow> kgood k' \<and> suspend_thread k' = (suspend_thread k)[l := pre @ rest] \<and> set rest \<subseteq> set ts \<and>
     (\<forall>t\<in>set (pre @ rest). unmet (thr k' t) S \<and> thr k' t = thr k t) \<and> (\<forall>t. t \<notin> set ts \<longrightarrow> thr k' t = thr k t) \<and>
     (\<forall>t\<in>set ts - set rest. awake k' t \<and> th_error (thr k' t) = RT_EOK) \<and>
     replay flags S0 (receipts k k' (filter (\<lambda>t. t \<notin> set rest) ts)) = Some S"

lemma walked_skip:
  assumes "walked l (pre @ [t]) ts S0 k S k' rest" "t \<notin> set ts"
  shows "walked l pre (t # ts) S0 k S k' (t # rest)"
proof -
  have "filter (\<lambda>u. u \<notin> set (t # rest)) (t # ts) = filter (\<lambda>u. u \<notin> set rest) ts" using assms(2) by (auto intro: filter_cong)
  moreover have "pre @ t # rest = (pre @ [t]) @ rest" by simp
  moreover have "set (t # rest) \<subseteq> set (t # ts)" "set (t # ts) - set (t # rest) \<subseteq> set ts - set rest" using assms unfolding walked_def by auto
  ultimately show ?thesis using assms(1) unfolding walked_def by (simp only:) (meson list.set_intros(2) subsetD)
qed

lemma walked_wake:
  assumes "walked l pre ts S1 k2 S k' rest" "distinct (pre @ t # ts)" "suspend_thread k2 = (suspend_thread k)[l := pre @ ts]"
    "awake k2 t" "wait_data (thr k2 t) = (RT_EOK, got, event_info (thr k t))" "\<And>u. u \<noteq> t \<Longrightarrow> thr k2 u = thr k u"
    "flags S0 (Received (event_info (thr k t)) (event_set (thr k t)) got) = Some S1"
  shows "walked l pre (t # ts) S0 k S k' rest"
proof -
  have w: "kgood k'" "suspend_thread k' = (suspend_thread k2)[l := pre @ rest]" "set rest \<subseteq> set ts"
     "\<forall>u\<in>set (pre @ rest). unmet (thr k' u) S \<and> thr k' u = thr k2 u" "\<forall>u. u \<notin> set ts \<longrightarrow> thr k' u = thr k2 u"
     "\<forall>u\<in>set ts - set rest. awake k' u \<and> th_error (thr k' u) = RT_EOK"
     "replay flags S1 (receipts k2 k' (filter (\<lambda>u. u \<notin> set rest) ts)) = Some S" using assms(1) unfolding walked_def by blast+
  have tt: "thr k' t = thr k2 t" "t \<notin> set rest" using w(3,5) assms(2) by auto
  have "receipts k2 k' (filter (\<lambda>u. u \<notin> set rest) ts) = receipts k k' (filter (\<lambda>u. u \<notin> set rest) ts)"
    by (rule receipts_cong, rule assms(6)) (use assms(2) in auto)
  then have "receipts k k' (filter (\<lambda>u. u \<notin> set rest) (t # ts)) =
      Received (event_info (thr k t)) (event_set (thr k t)) got # receipts k2 k' (filter (\<lambda>u. u \<notin> set rest) ts)"
    using tt assms(5) by (simp add: receipts_Cons wait_data_def)
  then have "replay flags S0 (receipts k k' (filter (\<lambda>u. u \<notin> set rest) (t # ts))) = Some S" using w(7) assms(7) by (simp del: flags.simps)
  moreover have "awake k' t" "th_error (thr k' t) = RT_EOK" using assms(4,5) tt(1) by (simp_all add: awake_def th_stat_def wait_data_def)
  then have "\<forall>u\<in>set (t # ts) - set rest. awake k' u \<and> th_error (thr k' u) = RT_EOK" using w(6) by auto
  moreover have kept: "thr k' u = thr k u" if "u \<in> set (pre @ rest) \<or> u \<notin> set (t # ts)" for u
  proof -
    have "u \<noteq> t" using that w(3) assms(2) by auto
    moreover have "thr k' u = thr k2 u" using that w(4,5) by auto
    ultimately show ?thesis using assms(6) by simp
  qed
  then have "\<forall>u\<in>set (pre @ rest). unmet (thr k' u) S \<and> thr k' u = thr k u" using w(4) by blast
  moreover have "suspend_thread k' = (suspend_thread k)[l := pre @ rest]" "set rest \<subseteq> set (t # ts)" using w(2,3) by (auto simp: assms(3))
  ultimately show ?thesis unfolding walked_def using w(1) kept by blast
qed

lemma walk_ok:
  assumes "kgood k" "l < length (suspend_thread k)" "suspend_thread k ! l = pre @ ts"
    "\<And>t. t \<in> set pre \<Longrightarrow> unmet (thr k t) (ev_set e)"
    "\<And>t. t \<in> set ts \<Longrightarrow> th_error (thr k t) = RT_EOK \<and> event_match (event_info (thr k t)) (event_set (thr k t)) (ev_set e) \<noteq> None"
  shows "\<exists>b S k' rest. event_walk ts ns e k = Some (False, b, e\<lparr>ev_set := S\<rparr>, k') \<and> walked l pre ts (ev_set e) k S k' rest"
  using assms
proof (induction ts arbitrary: pre e k ns)
  case Nil
  then have "(suspend_thread k)[l := pre @ []] = suspend_thread k" by (metis list_update_id)
  then show ?case using Nil by (intro exI [of _ ns] exI [of _ "ev_set e"] exI [of _ k] exI [of _ "[]"]) (simp add: receipts_def walked_def)
next
  case (Cons t ts)
  let ?th = "thr k t"
  have d: "distinct (pre @ t # ts)" using waiting_distinct [of k l] Cons.prems(1-3) by (simp add: kgood_def)
  obtain r where r: "event_match (event_info ?th) (event_set ?th) (ev_set e) = Some r" "th_error ?th = RT_EOK" using Cons.prems(5) [of t] by auto
  show ?case
  proof (cases r)
    case None
    have 1: "suspend_thread k ! l = (pre @ [t]) @ ts" by (simp add: Cons.prems(3))
    have 2: "unmet (thr k u) (ev_set e)" if "u \<in> set (pre @ [t])" for u using that r None Cons.prems(4) by (auto simp: unmet_def)
    have 3: "th_error (thr k u) = RT_EOK \<and> event_match (event_info (thr k u)) (event_set (thr k u)) (ev_set e) \<noteq> None" if "u \<in> set ts" for u
      using that Cons.prems(5) by simp
    obtain b S k' rest where w: "event_walk ts ns e k = Some (False, b, e\<lparr>ev_set := S\<rparr>, k')" "walked l (pre @ [t]) ts (ev_set e) k S k' rest"
      using Cons.IH [OF Cons.prems(1,2) 1 2 3, of ns] by blast
    have "event_walk (t # ts) ns e k = Some (False, b, e\<lparr>ev_set := S\<rparr>, k')" using w(1) r None by simp
    moreover have "t \<notin> set ts" using d by simp
    ultimately show ?thesis using walked_skip [OF w(2)] by blast
  next
    case (Some got)
    let ?S = "if event_info ?th AND RT_EVENT_FLAG_CLEAR \<noteq> 0 then ev_set e AND NOT got else ev_set e"
    define e1 where "e1 = e\<lparr>ev_set := ?S\<rparr>"
    have "t \<in> set (suspend_thread k ! l)" by (simp add: Cons.prems(3))
    from deliver_ok [OF Cons.prems(1,2) this, of got] r(2) obtain k2 where k2:
       "rt_thread_resume t (upd_thr t (\<lambda>th. th\<lparr>event_set := got\<rparr>) k) = Some (RT_EOK, k2)" "kgood k2"
       "suspend_thread k2 = (suspend_thread k)[l := remove1 t (suspend_thread k ! l)]"
       "awake k2 t" "wait_data (thr k2 t) = (RT_EOK, got, event_info ?th)" "\<And>u. u \<noteq> t \<Longrightarrow> thr k2 u = thr k u" by metis
    have q: "suspend_thread k2 = (suspend_thread k)[l := pre @ ts]" using k2(3) d by (simp add: Cons.prems(3) remove1_append)
    have l2: "l < length (suspend_thread k2)" "suspend_thread k2 ! l = pre @ ts" using Cons.prems(2) by (simp_all add: q)
    have o: "thr k2 u = thr k u" if "u \<in> set pre \<or> u \<in> set ts" for u using d that by (intro k2(6)) auto
    have pre: "unmet (thr k2 u) (ev_set e1)" if "u \<in> set pre" for u
      using unmet_mono [OF Cons.prems(4) [OF that] clear_sub] o [of u] that unfolding e1_def by simp
    have ts: "th_error (thr k2 u) = RT_EOK \<and> event_match (event_info (thr k2 u)) (event_set (thr k2 u)) (ev_set e1) \<noteq> None" if "u \<in> set ts" for u
      using Cons.prems(5) [of u] that o [of u] match_mode [of "event_info (thr k u)" "event_set (thr k u)" "ev_set e1" "ev_set e"] by simp
    obtain b S k' rest where w: "event_walk ts True e1 k2 = Some (False, b, e1\<lparr>ev_set := S\<rparr>, k')" "walked l pre ts (ev_set e1) k2 S k' rest"
      using Cons.IH [OF k2(2) l2 pre ts] by blast
    have "event_walk (t # ts) ns e k = Some (False, b, e\<lparr>ev_set := S\<rparr>, k')"
      using r(1) Some k2(1) w(1) by (cases "event_info ?th AND RT_EVENT_FLAG_CLEAR = 0") (simp_all add: e1_def)
    moreover have "flags (ev_set e) (Received (event_info ?th) (event_set ?th) got) = Some (ev_set e1)" using r(1) Some by (simp add: e1_def)
    ultimately show ?thesis using walked_wake [OF w(2) d q k2(4-6)] by blast
  qed
qed

datatype ev_op = Ev_send u32 | Ev_recv u32 u8 int

text \<open>The events are the calls that succeed; a thread that waits has received its flags when it is woken by a send.\<close>

fun ev_exec :: "ev_op \<Rightarrow> rt_event \<Rightarrow> kernel \<Rightarrow> (ev_event list \<times> rt_event \<times> kernel) option" where
  "ev_exec (Ev_send evs) e k =
     map_option (\<lambda>(r, e', k'). (if r = RT_EOK then Sent evs # receipts k k' (filter (\<lambda>t. t \<notin> set (ev_queue e k')) (ev_queue e k)) else [], e', k'))
       (rt_event_send evs e k)"
| "ev_exec (Ev_recv evs opt timeout) e k =
     map_option (\<lambda>((r, got), e', k'). (case got of Some S \<Rightarrow> [Received opt evs S] | None \<Rightarrow> [], e', k')) (rt_event_recv evs opt timeout e k)"

fun ev_op_ok :: "ev_op \<Rightarrow> rt_event \<Rightarrow> kernel \<Rightarrow> bool" where
  "ev_op_ok (Ev_send evs) e k \<longleftrightarrow> True"
| "ev_op_ok (Ev_recv evs opt timeout) e k \<longleftrightarrow>
     (opt AND RT_EVENT_FLAG_AND \<noteq> 0 \<or> opt AND RT_EVENT_FLAG_OR \<noteq> 0) \<and> timeout < 0x7fffffff \<and> in_thread_context k \<and> cur_stat k = RT_THREAD_RUNNING"

definition ev_holds :: "u32 \<Rightarrow> rt_event \<Rightarrow> kernel \<Rightarrow> bool" where
  "ev_holds S e k \<longleftrightarrow> ev_inv e k \<and> S = ev_set e"

lemma sched_frame_wait: "sched_frame k k' \<Longrightarrow> wait_data (thr k' u) = wait_data (thr k u)"
proof -
  assume "sched_frame k k'"
  then obtain s where "thr k' u = (thr k u)\<lparr>stat := s\<rparr>" unfolding sched_frame_def by blast
  then show ?thesis by simp
qed

lemma send_ok:
  assumes "ev_inv e k" "evs \<noteq> 0"
  shows "\<exists>e' k'. rt_event_send evs e k = Some (RT_EOK, e', k') \<and> ev_inv e' k' \<and> ev_list e' = ev_list e \<and>
     set (ev_queue e k') \<subseteq> set (ev_queue e k) \<and> (\<forall>t\<in>set (ev_queue e k) - set (ev_queue e k'). awake k' t \<and> th_error (thr k' t) = RT_EOK) \<and>
     replay flags (ev_set e) (Sent evs # receipts k k' (filter (\<lambda>t. t \<notin> set (ev_queue e k')) (ev_queue e k))) = Some (ev_set e')"
proof -
  let ?l = "ev_list e" and ?e = "e\<lparr>ev_set := ev_set e OR evs\<rparr>"
  have i: "kgood k" "?l < length (suspend_thread k)" "suspend_thread k ! ?l = [] @ ev_queue e k"
    "\<And>t. t \<in> set (ev_queue e k) \<Longrightarrow> unmet (thr k t) (ev_set e)" using assms(1) by (simp_all add: ev_inv_def)
  have q: "th_error (thr k t) = RT_EOK \<and> event_match (event_info (thr k t)) (event_set (thr k t)) (ev_set ?e) \<noteq> None" if "t \<in> set (ev_queue e k)" for t
    using i(4) [OF that] match_mode [of "event_info (thr k t)" "event_set (thr k t)" "ev_set ?e" "ev_set e"] by (simp only: unmet_def) simp
  have n: "\<And>t. t \<in> set [] \<Longrightarrow> unmet (thr k t) (ev_set ?e)" by simp
  obtain b S k1 rest where w: "event_walk (ev_queue e k) False ?e k = Some (False, b, ?e\<lparr>ev_set := S\<rparr>, k1)" "kgood k1"
     "suspend_thread k1 = (suspend_thread k)[?l := [] @ rest]" "set rest \<subseteq> set (ev_queue e k)"
     "\<forall>t\<in>set ([] @ rest). unmet (thr k1 t) S \<and> thr k1 t = thr k t"
     "\<forall>t\<in>set (ev_queue e k) - set rest. awake k1 t \<and> th_error (thr k1 t) = RT_EOK"
     "replay flags (ev_set ?e) (receipts k k1 (filter (\<lambda>t. t \<notin> set rest) (ev_queue e k))) = Some S"
    using walk_ok [OF i(1-3) n q, of False] unfolding walked_def by blast
  obtain c where c: "kinv k1" "tinv k1" "rt_current_thread k1 = Some c" using w(2) by (auto simp: kgood_def)
  obtain k' where k': "(if b then map_option (\<lambda>k2. (RT_EOK, ?e\<lparr>ev_set := S\<rparr>, k2)) (rt_schedule k1) else Some (RT_EOK, ?e\<lparr>ev_set := S\<rparr>, k1)) =
       Some (RT_EOK, ?e\<lparr>ev_set := S\<rparr>, k')" "kgood k'" "suspend_thread k' = suspend_thread k1" "\<And>u. wait_data (thr k' u) = wait_data (thr k1 u)"
     "\<And>u. awake k1 u \<Longrightarrow> awake k' u"
  proof (cases b)
    case False
    then show ?thesis using that [of k1] w(2) by simp
  next
    case True
    obtain k' c' where k': "rt_schedule k1 = Some k'" "kinv k'" "sched_frame k1 k'" "rt_current_thread k' = Some c'"
      using schedule_any [OF c(1,3)] by blast
    show ?thesis
    proof (rule that [of k'])
      show "kgood k'" by (rule kgoodI [OF k'(2) tinv_schedule [OF c(2) k'(3)] k'(4)])
      show "awake k' u" if "awake k1 u" for u using sched_frame_ready [OF k'(3), of u] that by (auto simp: awake_def)
    qed (use True k'(1,3) in \<open>simp_all add: sched_frame_objects sched_frame_wait\<close>)
  qed
  have len: "ev_queue e k' = rest" "length (suspend_thread k') = length (suspend_thread k)" using i(2) by (simp_all add: k'(3) w(3))
  have u: "unmet (thr k' t) S" if "t \<in> set rest" for t
  proof -
    have "unmet (thr k1 t) S" using w(5) that by auto
    then show ?thesis by (simp only: unmet_wait [OF k'(4)])
  qed
  have "rt_event_send evs e k = Some (RT_EOK, ?e\<lparr>ev_set := S\<rparr>, k')" using assms(2) w(1) k'(1) by (cases b) (simp_all add: rt_event_send_def)
  moreover have "ev_inv (?e\<lparr>ev_set := S\<rparr>) k'" using k'(2) assms(1) u len by (simp add: ev_inv_def)
  moreover have "receipts k k' ts = receipts k k1 ts" for ts using k'(4) by (simp add: receipts_def wait_data_def)
  moreover have "th_error (thr k' t) = th_error (thr k1 t)" for t using k'(4) [of t] by (simp add: wait_data_def)
  ultimately show ?thesis using w(4,6,7) k'(5) len by auto
qed

lemma match_got:
  assumes "event_match opt want S = Some (Some got)"
  shows "got = S AND want" "S AND NOT got = S AND NOT want"
proof -
  show g: "got = S AND want" using assms by (auto simp: event_match_def and.commute split: if_splits)
  show "S AND NOT got = S AND NOT want" unfolding g by (rule bit_word_eqI) (auto simp: bit_simps)
qed

lemma recv_ok:
  assumes "ev_inv e k" "ev_op_ok (Ev_recv evs opt timeout) e k"
  shows "\<exists>es e' k'. ev_exec (Ev_recv evs opt timeout) e k = Some (es, e', k') \<and> replay flags (ev_set e) es = Some (ev_set e') \<and> ev_inv e' k'"
proof -
  let ?l = "ev_list e"
  have i: "kgood k" "?l < length (suspend_thread k)" "ev_flag e \<in> {RT_IPC_FLAG_FIFO, RT_IPC_FLAG_PRIO}"
    "\<And>t. t \<in> set (ev_queue e k) \<Longrightarrow> unmet (thr k t) (ev_set e)" using assms(1) by (simp_all add: ev_inv_def)
  obtain c where c: "rt_current_thread k = Some c" "th_stat k c = RT_THREAD_RUNNING" "in_thread_context k" "timeout < 0x7fffffff"
    using assms(2) by (auto split: option.splits)
  have m: "event_match opt evs (ev_set e) \<noteq> None" using assms(2) by (auto simp: event_match_def)
  have nq: "c \<notin> set (ev_queue e k)" using i(1) by (intro current_not_waiting [OF _ c(2) i(2)]) (simp add: kgood_def)
  define upd where "upd f = upd_thr c f k" for f
  have keep: "ev_inv (e\<lparr>ev_set := S\<rparr>) (upd f)" if S: "S AND ev_set e = S"
    and f: "\<And>th. f th = th\<lparr>th_error := th_error (f th), event_set := event_set (f th), event_info := event_info (f th)\<rparr>" for f S
  proof -
    have "unmet (thr (upd f) t) S" if t: "t \<in> set (ev_queue e k)" for t
      using unmet_mono [OF i(4) [OF t] S] t nq by (auto simp: upd_def)
    then show ?thesis using assms(1) upd_wait_ok(1) [OF i(1) f, of c] by (simp add: ev_inv_def upd_def)
  qed
  have same: "e\<lparr>ev_set := ev_set e\<rparr> = e" by simp
  consider "evs = 0" | got where "evs \<noteq> 0" "event_match opt evs (ev_set e) = Some (Some got)" | "evs \<noteq> 0" "event_match opt evs (ev_set e) = Some None"
    using m by (cases "event_match opt evs (ev_set e)") auto
  then show ?thesis
  proof cases
    case 1
    then show ?thesis using c assms(1) by (simp add: rt_event_recv_def)
  next
    case (2 got)
    let ?S = "if opt AND RT_EVENT_FLAG_CLEAR \<noteq> 0 then ev_set e AND NOT got else ev_set e"
    let ?f = "\<lambda>th. th\<lparr>th_error := RT_EOK, event_set := got, event_info := opt\<rparr>"
    note g = match_got [OF 2(2)]
    have "ev_exec (Ev_recv evs opt timeout) e k = Some ([Received opt evs got], e\<lparr>ev_set := ?S\<rparr>, upd ?f)"
      using 2 c g by (simp add: rt_event_recv_def upd_def set_error_def upd_thr_def)
    moreover have "ev_inv (e\<lparr>ev_set := ?S\<rparr>) (upd ?f)" by (rule keep [OF clear_sub]) simp
    moreover have "replay flags (ev_set e) [Received opt evs got] = Some (ev_set (e\<lparr>ev_set := ?S\<rparr>))" using 2(2) by simp
    ultimately show ?thesis by blast
  next
    case 3
    show ?thesis
    proof (cases "timeout = 0")
      case True
      have "ev_exec (Ev_recv evs opt timeout) e k = Some ([], e, upd (\<lambda>th. th\<lparr>th_error := - RT_ETIMEOUT\<rparr>))"
        using 3 c True by (simp add: rt_event_recv_def upd_def set_error_def upd_thr_def)
      moreover have "ev_inv e (upd (\<lambda>th. th\<lparr>th_error := - RT_ETIMEOUT\<rparr>))" by (rule keep [of "ev_set e", unfolded same]) simp_all
      ultimately show ?thesis using replay.simps(1) [of flags "ev_set e"] by blast
    next
      case False
      define k1 where "k1 = upd (\<lambda>th. th\<lparr>th_error := RT_EOK, event_set := evs, event_info := opt\<rparr>)"
      have inv1: "ev_inv e k1" unfolding k1_def by (rule keep [of "ev_set e", unfolded same]) simp_all
      have st: "th_stat k1 = th_stat k" unfolding k1_def upd_def by (rule upd_wait_ok(2) [OF i(1)]) simp
      have s1: "suspend_thread k1 = suspend_thread k" "rt_current_thread k1 = Some c" using c by (simp_all add: k1_def upd_def)
      have 1: "kinv k1" "tinv k1" "rt_current_thread k1 = Some c" "th_stat k1 c = RT_THREAD_RUNNING" "?l < length (suspend_thread k1)"
        using inv1 c s1 st by (simp_all add: ev_inv_def kgood_def)
      obtain k' c' where k': "ipc_block ?l (ev_flag e) timeout c k1 = Some k'" "kinv k'" "tinv k'" "rt_current_thread k' = Some c'"
         "suspend_thread k' = (suspend_thread k1)[?l := ipc_insert ?l (ev_flag e) c k1]" "\<And>u. wait_data (thr k' u) = wait_data (thr k1 u)"
        using ipc_block_ok [OF 1 i(3) c(4)] unfolding wait_data_def by auto
      have "set (ev_queue e k') = insert c (set (ev_queue e k1))"
        using ipc_insert_mset [OF i(3), of ?l c k1] i(2) by (simp add: k'(5) s1) (metis set_mset_add_mset_insert set_mset_mset s1(1))
      moreover have "unmet (thr k1 c) (ev_set e)" using 3 by (simp add: unmet_def k1_def upd_def)
      ultimately have "unmet (thr k' t) (ev_set e)" if "t \<in> set (ev_queue e k')" for t
        using that inv1 unmet_wait [OF k'(6) [of t]] by (auto simp: ev_inv_def)
      then have "ev_inv e k'" using inv1 k'(2-5) by (simp add: ev_inv_def kgood_def)
      moreover have "ev_exec (Ev_recv evs opt timeout) e k = Some ([], e, k')"
        using 3 c False k'(1) by (simp add: rt_event_recv_def k1_def upd_def set_error_def upd_thr_def)
      ultimately show ?thesis using replay.simps(1) [of flags "ev_set e"] by blast
    qed
  qed
qed

interpretation event: ipc_object ev_op_ok ev_exec ev_holds flags
proof (unfold_locales, goal_cases)
  case (3 S e k op)
  then have e: "ev_inv e k" "S = ev_set e" by (simp_all add: ev_holds_def)
  show ?case
  proof (cases op)
    case (Ev_recv evs opt timeout)
    then show ?thesis using recv_ok [OF e(1), of evs opt timeout] 3 e(2) unfolding ev_holds_def by blast
  next
    case (Ev_send evs)
    show ?thesis
    proof (cases "evs = 0")
      case True
      then show ?thesis using e Ev_send by (simp add: rt_event_send_def ev_holds_def)
    next
      case False
      obtain e' k' where k': "rt_event_send evs e k = Some (RT_EOK, e', k')" "ev_inv e' k'"
        "replay flags (ev_set e) (Sent evs # receipts k k' (filter (\<lambda>t. t \<notin> set (ev_queue e k')) (ev_queue e k))) = Some (ev_set e')"
        using send_ok [OF e(1) False] by blast
      have "ev_exec op e k = Some (Sent evs # receipts k k' (filter (\<lambda>t. t \<notin> set (ev_queue e k')) (ev_queue e k)), e', k')"
        using k'(1) Ev_send by simp
      then show ?thesis using k'(2,3) unfolding ev_holds_def e(2) by blast
    qed
  qed
qed (auto simp: ev_holds_def intro: ev_good ev_kept)



end
