(* ===== verification/Ipc_Mailbox.thy ===== *)
theory Ipc_Mailbox
  imports Ipc_Wait
begin

text \<open>
  Mailboxes (\<open>rt_mb_*\<close> of \<open>src/smart-building-mcu/rt-thread/src/ipc.c\<close>): a ring of words with a list of waiting receivers and one
  of waiting senders. Under any sequence of calls a mailbox is a bounded queue.

  The loops in which a call waits are modelled turn by turn: the call itself ends at \<open>rt_schedule\<close> with \<open>Waiting t\<close>, and the
  function with the suffix \<open>_resume\<close> goes on when thread \<open>t\<close> runs again, with the variables of the call (the remaining timeout
  and the tick at which the wait began) as arguments.
\<close>

section \<open>Mailboxes\<close>

record rt_mailbox =
  mb_flag :: u8
  msg_pool :: "u32 list"
  mb_size :: nat
  mb_entry :: nat
  in_offset :: nat
  out_offset :: nat
  mb_list :: nat
  mb_sender_list :: nat

abbreviation (input) RT_MB_ENTRY_MAX :: nat where "RT_MB_ENTRY_MAX \<equiv> 0xffff"

definition rt_mb_init :: "nat \<Rightarrow> nat \<Rightarrow> u32 list \<Rightarrow> nat \<Rightarrow> u8 \<Rightarrow> kernel \<Rightarrow> (rt_mailbox \<times> kernel) option" where
  "rt_mb_init l ls msgpool sz flag k = do {
     k1 \<leftarrow> rt_ipc_object_init l k;
     k2 \<leftarrow> rt_ipc_object_init ls k1;
     Some (\<lparr>mb_flag = flag, msg_pool = msgpool, mb_size = sz mod 2 ^ 16, mb_entry = 0, in_offset = 0, out_offset = 0,
       mb_list = l, mb_sender_list = ls\<rparr>, k2)
   }"

text \<open>The object and its pool come from the heap; \<open>None\<close> is no memory. The pool has the size of the field, after its
  truncation to 16 bits.\<close>

definition rt_mb_create :: "(nat \<times> nat) option \<Rightarrow> u32 list option \<Rightarrow> nat \<Rightarrow> u8 \<Rightarrow> kernel \<Rightarrow> (rt_mailbox option \<times> kernel) option" where
  "rt_mb_create obj pool sz flag k =
     (if rt_interrupt_nest k \<noteq> 0 then None
      else case (obj, pool) of
        (Some (l, ls), Some msgpool) \<Rightarrow> map_option (\<lambda>(mb, k1). (Some mb, k1)) (rt_mb_init l ls msgpool sz flag k)
      | _ \<Rightarrow> Some (None, k))"

definition ipc_resume_both :: "nat \<Rightarrow> nat \<Rightarrow> kernel \<Rightarrow> kernel option" where
  "ipc_resume_both l ls k = Option.bind (rt_ipc_list_resume_all l k) (rt_ipc_list_resume_all ls)"

definition rt_mb_detach :: "rt_mailbox \<Rightarrow> kernel \<Rightarrow> kernel option" where
  "rt_mb_detach mb k = ipc_resume_both (mb_list mb) (mb_sender_list mb) k"

definition rt_mb_delete :: "rt_mailbox \<Rightarrow> kernel \<Rightarrow> kernel option" where
  "rt_mb_delete mb k = (if rt_interrupt_nest k \<noteq> 0 then None else ipc_resume_both (mb_list mb) (mb_sender_list mb) k)"

text \<open>What a successful call does last: it wakes the first thread that waits on the other side.\<close>

definition ipc_wake :: "nat \<Rightarrow> kernel \<Rightarrow> kernel option" where
  "ipc_wake l k = (if suspend_thread k ! l \<noteq> [] then Option.bind (rt_ipc_list_resume l k) rt_schedule else Some k)"

definition mb_next :: "rt_mailbox \<Rightarrow> nat \<Rightarrow> nat" where
  "mb_next mb i = (if i + 1 \<ge> mb_size mb then 0 else i + 1)"

definition mb_store :: "u32 \<Rightarrow> rt_mailbox \<Rightarrow> kernel \<Rightarrow> (rt_err \<times> rt_mailbox \<times> kernel) option" where
  "mb_store value mb k =
     (if \<not> in_offset mb < length (msg_pool mb) then None
      else let mb1 = mb\<lparr>msg_pool := (msg_pool mb)[in_offset mb := value], in_offset := mb_next mb (in_offset mb)\<rparr>
           in if mb_entry mb1 < RT_MB_ENTRY_MAX
              then map_option (\<lambda>k1. (RT_EOK, mb1\<lparr>mb_entry := mb_entry mb1 + 1\<rparr>, k1)) (ipc_wake (mb_list mb1) k)
              else Some (- RT_EFULL, mb1, k))"

definition mb_fetch :: "rt_mailbox \<Rightarrow> kernel \<Rightarrow> ((rt_err \<times> u32) \<times> rt_mailbox \<times> kernel) option" where
  "mb_fetch mb k =
     (if \<not> out_offset mb < length (msg_pool mb) then None
      else let value = msg_pool mb ! out_offset mb;
               mb1 = mb\<lparr>out_offset := mb_next mb (out_offset mb), mb_entry := mb_entry mb - 1\<rparr>
           in map_option (\<lambda>k1. ((RT_EOK, value), mb1, k1)) (ipc_wake (mb_sender_list mb1) k))"

text \<open>The time that is left after a wait that began at tick \<open>start\<close>.\<close>

definition time_left :: "int \<Rightarrow> u32 \<Rightarrow> u32 \<Rightarrow> int" where
  "time_left timeout start now =
     (if timeout > 0 then (let r = to_s32 (timeout - uint (now - start)) in if r < 0 then 0 else r) else timeout)"

definition mb_send_turn :: "u32 \<Rightarrow> int \<Rightarrow> rt_mailbox \<Rightarrow> kernel \<Rightarrow> (ipc_result \<times> rt_mailbox \<times> kernel) option" where
  "mb_send_turn value timeout mb k =
     (if mb_entry mb = mb_size mb then do {
        t \<leftarrow> rt_current_thread k;
        let k1 = set_error RT_EOK t k;
        (if timeout = 0 then Some (Returned (- RT_EFULL), mb, k1)
         else if \<not> in_thread_context k1 then None
         else map_option (\<lambda>k2. (Waiting t, mb, k2)) (ipc_block (mb_sender_list mb) (mb_flag mb) timeout t k1))
      }
      else map_option (\<lambda>(e, mb1, k1). (Returned e, mb1, k1)) (mb_store value mb k))"

definition rt_mb_send_wait :: "u32 \<Rightarrow> int \<Rightarrow> rt_mailbox \<Rightarrow> kernel \<Rightarrow> (ipc_result \<times> rt_mailbox \<times> kernel) option" where
  "rt_mb_send_wait value timeout mb k =
     (if mb_entry mb = mb_size mb \<and> timeout = 0 then Some (Returned (- RT_EFULL), mb, k) else mb_send_turn value timeout mb k)"

definition rt_mb_send_resume :: "u32 \<Rightarrow> int \<Rightarrow> u32 \<Rightarrow> nat \<Rightarrow> rt_mailbox \<Rightarrow> kernel \<Rightarrow> (ipc_result \<times> rt_mailbox \<times> kernel) option" where
  "rt_mb_send_resume value timeout start t mb k =
     (if th_error (thr k t) \<noteq> RT_EOK then Some (Returned (th_error (thr k t)), mb, k)
      else mb_send_turn value (time_left timeout start (rt_tick k)) mb k)"

definition rt_mb_send :: "u32 \<Rightarrow> rt_mailbox \<Rightarrow> kernel \<Rightarrow> (ipc_result \<times> rt_mailbox \<times> kernel) option" where
  "rt_mb_send value mb k = rt_mb_send_wait value 0 mb k"

text \<open>The second result of receiving is the mail.\<close>

definition mb_recv_turn :: "int \<Rightarrow> rt_mailbox \<Rightarrow> kernel \<Rightarrow> ((ipc_result \<times> u32 option) \<times> rt_mailbox \<times> kernel) option" where
  "mb_recv_turn timeout mb k =
     (if mb_entry mb = 0 then do {
        t \<leftarrow> rt_current_thread k;
        let k1 = set_error RT_EOK t k;
        (if timeout = 0 then Some ((Returned (- RT_ETIMEOUT), None), mb, set_error (- RT_ETIMEOUT) t k1)
         else if \<not> in_thread_context k1 then None
         else map_option (\<lambda>k2. ((Waiting t, None), mb, k2)) (ipc_block (mb_list mb) (mb_flag mb) timeout t k1))
      }
      else map_option (\<lambda>((e, value), mb1, k1). ((Returned e, Some value), mb1, k1)) (mb_fetch mb k))"

definition rt_mb_recv :: "int \<Rightarrow> rt_mailbox \<Rightarrow> kernel \<Rightarrow> ((ipc_result \<times> u32 option) \<times> rt_mailbox \<times> kernel) option" where
  "rt_mb_recv timeout mb k =
     (if mb_entry mb = 0 \<and> timeout = 0 then Some ((Returned (- RT_ETIMEOUT), None), mb, k) else mb_recv_turn timeout mb k)"

definition rt_mb_recv_resume :: "int \<Rightarrow> u32 \<Rightarrow> nat \<Rightarrow> rt_mailbox \<Rightarrow> kernel \<Rightarrow> ((ipc_result \<times> u32 option) \<times> rt_mailbox \<times> kernel) option" where
  "rt_mb_recv_resume timeout start t mb k =
     (if th_error (thr k t) \<noteq> RT_EOK then Some ((Returned (th_error (thr k t)), None), mb, k)
      else mb_recv_turn (time_left timeout start (rt_tick k)) mb k)"

definition rt_mb_control :: "bool \<Rightarrow> rt_mailbox \<Rightarrow> kernel \<Rightarrow> (rt_err \<times> rt_mailbox \<times> kernel) option" where
  "rt_mb_control reset mb k =
     (if \<not> reset then Some (- RT_ERROR, mb, k)
      else do {
        k1 \<leftarrow> ipc_resume_both (mb_list mb) (mb_sender_list mb) k;
        k2 \<leftarrow> rt_schedule k1;
        Some (RT_EOK, mb\<lparr>mb_entry := 0, in_offset := 0, out_offset := 0\<rparr>, k2)
      })"

section \<open>Waiting and waking with two lists\<close>

definition both_ok :: "nat \<Rightarrow> nat \<Rightarrow> u8 \<Rightarrow> kernel \<Rightarrow> bool" where
  "both_ok l ls flag k \<longleftrightarrow> kgood k \<and> l < length (suspend_thread k) \<and> ls < length (suspend_thread k) \<and> flag \<in> {RT_IPC_FLAG_FIFO, RT_IPC_FLAG_PRIO}"

definition may_wait :: "int \<Rightarrow> kernel \<Rightarrow> bool" where
  "may_wait timeout k \<longleftrightarrow> timeout < 0x7fffffff \<and> in_thread_context k \<and> cur_stat k = RT_THREAD_RUNNING"

lemma wake_ok:
  assumes "both_ok l ls flag k" "q < length (suspend_thread k)"
  shows "\<exists>k'. ipc_wake q k = Some k' \<and> both_ok l ls flag k'"
proof (cases "suspend_thread k ! q")
  case Nil
  then show ?thesis using assms by (simp add: ipc_wake_def)
next
  case (Cons t rest)
  obtain c where k: "kinv k" "tinv k" "rt_current_thread k = Some c" using assms(1) by (auto simp: both_ok_def kgood_def)
  obtain k1 where k1: "rt_ipc_list_resume q k = Some k1" "kinv k1" "tinv k1" "suspend_thread k1 = (suspend_thread k)[q := rest]"
    "rt_current_thread k1 = Some c" using ipc_resume_ok [OF k(1,2) assms(2) Cons] k(3) by auto
  obtain k' c' where k': "rt_schedule k1 = Some k'" "kinv k'" "sched_frame k1 k'" "rt_current_thread k' = Some c'"
    using schedule_any [OF k1(2,5)] by blast
  have "length (suspend_thread k') = length (suspend_thread k)" using sched_frame_objects(6) [OF k'(3)] k1(4) by simp
  moreover have "kgood k'" using kgoodI [OF k'(2) tinv_schedule [OF k1(3) k'(3)] k'(4)] .
  ultimately have "both_ok l ls flag k'" using assms(1) by (simp add: both_ok_def)
  then show ?thesis using Cons k1(1) k'(1) by (simp add: ipc_wake_def)
qed

lemma set_error_both: "both_ok l ls flag k \<Longrightarrow> both_ok l ls flag (set_error e t k)"
  using set_error_ok [of k e t] by (auto simp: both_ok_def)

lemma block_both:
  assumes "both_ok l ls flag k" "q < length (suspend_thread k)" "may_wait timeout k" "rt_current_thread k = Some c"
  shows "\<exists>k'. ipc_block q flag timeout c (set_error RT_EOK c k) = Some k' \<and> both_ok l ls flag k'"
proof -
  have g: "kgood k" and f: "flag \<in> {RT_IPC_FLAG_FIFO, RT_IPC_FLAG_PRIO}" using assms(1) by (simp_all add: both_ok_def)
  note e = set_error_ok [OF g, of RT_EOK c]
  have r: "th_stat k c = RT_THREAD_RUNNING" "timeout < 0x7fffffff" using assms(3,4) by (simp_all add: may_wait_def)
  define k1 where "k1 = set_error RT_EOK c k"
  note e = e [folded k1_def]
  have 1: "kinv k1" "tinv k1" "rt_current_thread k1 = Some c" "th_stat k1 c = RT_THREAD_RUNNING" "q < length (suspend_thread k1)"
    using e assms(2,4) r by (simp_all add: kgood_def)
  obtain k' c' where k': "ipc_block q flag timeout c k1 = Some k'" "kinv k'" "tinv k'" "rt_current_thread k' = Some c'"
     "suspend_thread k' = (suspend_thread k1)[q := ipc_insert q flag c k1]" using ipc_block_ok [OF 1 f r(2)] by blast
  then have "both_ok l ls flag k'" using assms(1) kgoodI [OF k'(2-4)] e(3) by (simp add: both_ok_def)
  then show ?thesis using k'(1) by (auto simp: k1_def)
qed

lemma both_good: "both_ok l ls flag k \<Longrightarrow> kgood k"
  by (simp add: both_ok_def)

lemma both_kept: "both_ok l ls flag k \<Longrightarrow> shrinks k k' \<Longrightarrow> kgood k' \<Longrightarrow> both_ok l ls flag k'"
  using shrinks_waiting(1) [of k k' l] by (simp add: both_ok_def)

lemma both_init:
  assumes "kgood k" "flag \<in> {RT_IPC_FLAG_FIFO, RT_IPC_FLAG_PRIO}" "rt_ipc_object_init l k = Some k1" "rt_ipc_object_init ls k1 = Some k2"
  shows "k2 = k" "both_ok l ls flag k"
  using assms by (auto simp: both_ok_def rt_ipc_object_init_def split: if_splits)

text \<open>Resetting or deleting the object: every waiting thread runs again.\<close>

lemma resume_both_ok:
  assumes "both_ok l ls flag k"
  shows "\<exists>k'. ipc_resume_both l ls k = Some k' \<and> both_ok l ls flag k' \<and> suspend_thread k' ! l = [] \<and> suspend_thread k' ! ls = []"
proof -
  have i: "kgood k" "l < length (suspend_thread k)" "ls < length (suspend_thread k)" using assms by (simp_all add: both_ok_def)
  from resume_all_ok [OF i(1,2)] obtain k1 where k1: "rt_ipc_list_resume_all l k = Some k1" "kgood k1" "suspend_thread k1 = (suspend_thread k)[l := []]" by blast
  then have l1: "ls < length (suspend_thread k1)" using i(3) by simp
  from resume_all_ok [OF k1(2) l1] obtain k2 where k2: "rt_ipc_list_resume_all ls k1 = Some k2" "kgood k2" "suspend_thread k2 = (suspend_thread k1)[ls := []]" by blast
  have "suspend_thread k2 ! l = []" "suspend_thread k2 ! ls = []" using i by (cases "l = ls"; simp add: k1(3) k2(3))+
  then show ?thesis using k1 k2 assms by (simp add: ipc_resume_both_def both_ok_def)
qed

lemma schedule_both:
  assumes "both_ok l ls flag k"
  shows "\<exists>k'. rt_schedule k = Some k' \<and> both_ok l ls flag k' \<and> suspend_thread k' = suspend_thread k"
proof -
  obtain c where c: "kinv k" "tinv k" "rt_current_thread k = Some c" using assms by (auto simp: both_ok_def kgood_def)
  obtain k' c' where k': "rt_schedule k = Some k'" "kinv k'" "sched_frame k k'" "rt_current_thread k' = Some c'"
    using schedule_any [OF c(1,3)] by blast
  then show ?thesis using assms kgoodI [OF k'(2) tinv_schedule [OF c(2) k'(3)] k'(4)] sched_frame_objects(6) [OF k'(3)]
    by (simp add: both_ok_def)
qed

section \<open>A mailbox is a bounded queue\<close>

definition mb_msgs :: "rt_mailbox \<Rightarrow> u32 list" where
  "mb_msgs mb = map (\<lambda>i. msg_pool mb ! ((out_offset mb + i) mod mb_size mb)) [0..<mb_entry mb]"

definition mb_ring :: "rt_mailbox \<Rightarrow> bool" where
  "mb_ring mb \<longleftrightarrow> 0 < mb_size mb \<and> mb_size mb < 2 ^ 16 \<and> mb_size mb \<le> length (msg_pool mb) \<and> mb_entry mb \<le> mb_size mb \<and>
     out_offset mb < mb_size mb \<and> in_offset mb = (out_offset mb + mb_entry mb) mod mb_size mb"

lemma mb_next_mod: "i < mb_size mb \<Longrightarrow> mb_next mb i = (i + 1) mod mb_size mb"
  by (cases "Suc i = mb_size mb") (auto simp: mb_next_def)

lemma ring_neq:
  assumes "i < e" "e < (n :: nat)" "b < n"
  shows "(b + i) mod n \<noteq> (b + e) mod n"
proof
  assume "(b + i) mod n = (b + e) mod n"
  then have "(b + e - (b + i)) mod n = 0" using assms(1) mod_eq_dvd_iff_nat [of "b + i" "b + e" n] by simp
  then have "(e - i) mod n = 0" by simp
  with assms show False by simp
qed

lemma mb_store_ok:
  assumes "mb_ring mb" "mb_entry mb \<noteq> mb_size mb" "both_ok (mb_list mb) (mb_sender_list mb) (mb_flag mb) k"
  shows "\<exists>mb' k'. mb_store v mb k = Some (RT_EOK, mb', k') \<and> mb_ring mb' \<and> mb_msgs mb' = mb_msgs mb @ [v] \<and> mb_size mb' = mb_size mb \<and>
     both_ok (mb_list mb') (mb_sender_list mb') (mb_flag mb') k'"
proof -
  let ?n = "mb_size mb"
  have r: "0 < ?n" "?n < 2 ^ 16" "?n \<le> length (msg_pool mb)" "mb_entry mb < ?n" "out_offset mb < ?n" "in_offset mb = (out_offset mb + mb_entry mb) mod ?n"
    using assms(1,2) by (auto simp: mb_ring_def)
  have "in_offset mb < ?n" using r(1) by (simp add: r(6))
  then have i: "in_offset mb < ?n" "in_offset mb < length (msg_pool mb)" using r(3) by simp_all
  define mb' where "mb' = mb\<lparr>msg_pool := (msg_pool mb)[in_offset mb := v], in_offset := mb_next mb (in_offset mb), mb_entry := mb_entry mb + 1\<rparr>"
  have "mb_list mb < length (suspend_thread k)" using assms(3) by (simp add: both_ok_def)
  from wake_ok [OF assms(3) this] obtain k' where k': "ipc_wake (mb_list mb) k = Some k'" "both_ok (mb_list mb) (mb_sender_list mb) (mb_flag mb) k'" by blast
  have "mb_store v mb k = Some (RT_EOK, mb', k')" using i(2) r(2,4) k'(1) by (simp add: mb_store_def mb'_def)
  moreover have "mb_ring mb'" using r by (simp add: mb_ring_def mb'_def mb_next_mod i(1) mod_Suc_eq)
  moreover have "mb_msgs mb' = mb_msgs mb @ [v]"
  proof -
    have "msg_pool mb' ! ((out_offset mb + j) mod ?n) = msg_pool mb ! ((out_offset mb + j) mod ?n)" if "j < mb_entry mb" for j
      using ring_neq [OF that r(4,5)] by (simp add: mb'_def r(6))
    then have "map (\<lambda>j. msg_pool mb' ! ((out_offset mb + j) mod ?n)) [0..<mb_entry mb] = mb_msgs mb" by (auto simp: mb_msgs_def)
    moreover have "msg_pool mb' ! ((out_offset mb + mb_entry mb) mod ?n) = v" using i(2) by (simp add: mb'_def r(6))
    ultimately show ?thesis by (simp add: mb_msgs_def mb'_def)
  qed
  moreover have "mb_list mb' = mb_list mb" "mb_sender_list mb' = mb_sender_list mb" "mb_flag mb' = mb_flag mb" "mb_size mb' = mb_size mb" by (simp_all add: mb'_def)
  ultimately show ?thesis using k'(2) by metis
qed

lemma mb_fetch_ok:
  assumes "mb_ring mb" "mb_entry mb \<noteq> 0" "both_ok (mb_list mb) (mb_sender_list mb) (mb_flag mb) k"
  shows "\<exists>v mb' k'. mb_fetch mb k = Some ((RT_EOK, v), mb', k') \<and> mb_ring mb' \<and> mb_msgs mb = v # mb_msgs mb' \<and> mb_size mb' = mb_size mb \<and>
     both_ok (mb_list mb') (mb_sender_list mb') (mb_flag mb') k'"
proof -
  let ?n = "mb_size mb"
  obtain e where e: "mb_entry mb = Suc e" using assms(2) by (cases "mb_entry mb") auto
  have r: "0 < ?n" "?n < 2 ^ 16" "?n \<le> length (msg_pool mb)" "Suc e \<le> ?n" "out_offset mb < ?n" "in_offset mb = (out_offset mb + Suc e) mod ?n"
    using assms(1) e by (auto simp: mb_ring_def)
  define mb' where "mb' = mb\<lparr>out_offset := mb_next mb (out_offset mb), mb_entry := e\<rparr>"
  have "mb_sender_list mb < length (suspend_thread k)" using assms(3) by (simp add: both_ok_def)
  from wake_ok [OF assms(3) this] obtain k' where k': "ipc_wake (mb_sender_list mb) k = Some k'" "both_ok (mb_list mb) (mb_sender_list mb) (mb_flag mb) k'" by blast
  have "mb_fetch mb k = Some ((RT_EOK, msg_pool mb ! out_offset mb), mb', k')"
    using r(3,5) k'(1) by (simp add: mb_fetch_def mb'_def e)
  moreover have "mb_ring mb'"
    using r by (simp add: mb_ring_def mb'_def mb_next_mod mod_add_left_eq)
  moreover have "mb_msgs mb = msg_pool mb ! out_offset mb # mb_msgs mb'"
    using r(5) by (simp add: mb_msgs_def mb'_def e mb_next_mod upt_rec [of 0] map_Suc_upt [symmetric] mod_add_left_eq del: upt_Suc)
  moreover have "mb_list mb' = mb_list mb" "mb_sender_list mb' = mb_sender_list mb" "mb_flag mb' = mb_flag mb" "mb_size mb' = mb_size mb" by (simp_all add: mb'_def)
  ultimately show ?thesis using k'(2) by metis
qed

abbreviation mb_inv :: "rt_mailbox \<Rightarrow> kernel \<Rightarrow> bool" where
  "mb_inv mb k \<equiv> mb_ring mb \<and> both_ok (mb_list mb) (mb_sender_list mb) (mb_flag mb) k"

text \<open>The promise: a queue of at most \<open>n\<close> mails.\<close>

datatype mb_op = Mb_send u32 int | Mb_send_again u32 int u32 | Mb_recv int | Mb_recv_again int u32

datatype mb_event = Mail_in u32 | Mail_out u32

fun mails :: "nat \<times> u32 list \<Rightarrow> mb_event \<Rightarrow> (nat \<times> u32 list) option" where
  "mails (n, Q) (Mail_in v) = (if length Q < n then Some (n, Q @ [v]) else None)"
| "mails (n, Q) (Mail_out v) = (case Q of [] \<Rightarrow> None | x # Q' \<Rightarrow> if x = v then Some (n, Q') else None)"

text \<open>The events are the mails that were accepted and delivered. A call that waited goes on with \<open>Mb_send_again\<close> or \<open>Mb_recv_again\<close>.\<close>

definition mb_sent :: "u32 \<Rightarrow> ipc_result \<times> rt_mailbox \<times> kernel \<Rightarrow> mb_event list \<times> rt_mailbox \<times> kernel" where
  "mb_sent v = (\<lambda>(r, mb, k). (if r = Returned RT_EOK then [Mail_in v] else [], mb, k))"

definition mb_got :: "(ipc_result \<times> u32 option) \<times> rt_mailbox \<times> kernel \<Rightarrow> mb_event list \<times> rt_mailbox \<times> kernel" where
  "mb_got = (\<lambda>((r, v), mb, k). (case v of Some x \<Rightarrow> [Mail_out x] | None \<Rightarrow> [], mb, k))"

fun mb_exec :: "mb_op \<Rightarrow> rt_mailbox \<Rightarrow> kernel \<Rightarrow> (mb_event list \<times> rt_mailbox \<times> kernel) option" where
  "mb_exec (Mb_send v timeout) mb k = map_option (mb_sent v) (rt_mb_send_wait v timeout mb k)"
| "mb_exec (Mb_send_again v timeout start) mb k =
     Option.bind (rt_current_thread k) (\<lambda>c. map_option (mb_sent v) (rt_mb_send_resume v timeout start c mb k))"
| "mb_exec (Mb_recv timeout) mb k = map_option mb_got (rt_mb_recv timeout mb k)"
| "mb_exec (Mb_recv_again timeout start) mb k =
     Option.bind (rt_current_thread k) (\<lambda>c. map_option mb_got (rt_mb_recv_resume timeout start c mb k))"

fun mb_op_ok :: "mb_op \<Rightarrow> rt_mailbox \<Rightarrow> kernel \<Rightarrow> bool" where
  "mb_op_ok (Mb_send v timeout) mb k \<longleftrightarrow> timeout = 0 \<or> may_wait timeout k"
| "mb_op_ok (Mb_send_again v timeout start) mb k \<longleftrightarrow> may_wait (time_left timeout start (rt_tick k)) k"
| "mb_op_ok (Mb_recv timeout) mb k \<longleftrightarrow> timeout = 0 \<or> may_wait timeout k"
| "mb_op_ok (Mb_recv_again timeout start) mb k \<longleftrightarrow> may_wait (time_left timeout start (rt_tick k)) k"

definition mb_abs :: "rt_mailbox \<Rightarrow> nat \<times> u32 list" where
  "mb_abs mb = (mb_size mb, mb_msgs mb)"

definition mb_holds :: "nat \<times> u32 list \<Rightarrow> rt_mailbox \<Rightarrow> kernel \<Rightarrow> bool" where
  "mb_holds a mb k \<longleftrightarrow> mb_inv mb k \<and> a = mb_abs mb"

lemma mb_length: "length (mb_msgs mb) = mb_entry mb"
  by (simp add: mb_msgs_def)

lemma send_turn_ok:
  assumes "mb_inv mb k" "mb_entry mb = mb_size mb \<Longrightarrow> may_wait timeout k"
  shows "\<exists>es mb' k'. map_option (mb_sent v) (mb_send_turn v timeout mb k) = Some (es, mb', k') \<and> mb_inv mb' k' \<and>
     replay mails (mb_abs mb) es = Some (mb_abs mb')"
proof (cases "mb_entry mb = mb_size mb")
  case False
  have room: "mb_entry mb < mb_size mb" using False assms(1) by (simp add: mb_ring_def)
  from mb_store_ok [OF _ False, of k v] assms(1) obtain mb' k' where "mb_store v mb k = Some (RT_EOK, mb', k')" "mb_inv mb' k'"
    "mb_msgs mb' = mb_msgs mb @ [v]" "mb_size mb' = mb_size mb" by blast
  then show ?thesis using False room by (simp add: mb_send_turn_def mb_sent_def mb_abs_def mb_length)
next
  case True
  note w = assms(2) [OF True]
  obtain c where c: "rt_current_thread k = Some c" "in_thread_context (set_error RT_EOK c k)"
    using w by (auto simp: may_wait_def in_thread_context_def set_error_def)
  show ?thesis
  proof (cases "timeout = 0")
    case True
    then show ?thesis using \<open>mb_entry mb = mb_size mb\<close> c assms(1) set_error_both by (simp add: mb_send_turn_def mb_sent_def)
  next
    case False
    have "mb_sender_list mb < length (suspend_thread k)" using assms(1) by (simp add: both_ok_def)
    from block_both [OF _ this w c(1)] assms(1) obtain k' where
      "ipc_block (mb_sender_list mb) (mb_flag mb) timeout c (set_error RT_EOK c k) = Some k'" "mb_inv mb k'" by blast
    then show ?thesis using False True c by (simp add: mb_send_turn_def mb_sent_def)
  qed
qed

lemma recv_turn_ok:
  assumes "mb_inv mb k" "mb_entry mb = 0 \<Longrightarrow> may_wait timeout k"
  shows "\<exists>es mb' k'. map_option mb_got (mb_recv_turn timeout mb k) = Some (es, mb', k') \<and> mb_inv mb' k' \<and>
     replay mails (mb_abs mb) es = Some (mb_abs mb')"
proof (cases "mb_entry mb = 0")
  case False
  from mb_fetch_ok [OF _ False, of k] assms(1) obtain v mb' k' where "mb_fetch mb k = Some ((RT_EOK, v), mb', k')" "mb_inv mb' k'"
    "mb_msgs mb = v # mb_msgs mb'" "mb_size mb' = mb_size mb" by blast
  then show ?thesis using False by (simp add: mb_recv_turn_def mb_got_def mb_abs_def)
next
  case True
  note w = assms(2) [OF True]
  obtain c where c: "rt_current_thread k = Some c" "in_thread_context (set_error RT_EOK c k)"
    using w by (auto simp: may_wait_def in_thread_context_def set_error_def)
  show ?thesis
  proof (cases "timeout = 0")
    case True
    then show ?thesis using \<open>mb_entry mb = 0\<close> c assms(1) set_error_both by (simp add: mb_recv_turn_def mb_got_def)
  next
    case False
    have "mb_list mb < length (suspend_thread k)" using assms(1) by (simp add: both_ok_def)
    from block_both [OF _ this w c(1)] assms(1) obtain k' where
      "ipc_block (mb_list mb) (mb_flag mb) timeout c (set_error RT_EOK c k) = Some k'" "mb_inv mb k'" by blast
    then show ?thesis using False True c by (simp add: mb_recv_turn_def mb_got_def)
  qed
qed

lemma mb_exec_ok:
  assumes "mb_inv mb k" "mb_op_ok x mb k"
  shows "\<exists>es mb' k'. mb_exec x mb k = Some (es, mb', k') \<and> mb_inv mb' k' \<and> replay mails (mb_abs mb) es = Some (mb_abs mb')"
proof (cases x)
  case (Mb_send v timeout)
  show ?thesis
  proof (cases "mb_entry mb = mb_size mb \<and> timeout = 0")
    case True
    then show ?thesis using assms(1) Mb_send by (simp add: rt_mb_send_wait_def mb_sent_def)
  next
    case False
    then show ?thesis using send_turn_ok [OF assms(1), of timeout v] assms(2) Mb_send by (auto simp: rt_mb_send_wait_def)
  qed
next
  case (Mb_recv timeout)
  show ?thesis
  proof (cases "mb_entry mb = 0 \<and> timeout = 0")
    case True
    then show ?thesis using assms(1) Mb_recv by (simp add: rt_mb_recv_def mb_got_def)
  next
    case False
    then show ?thesis using recv_turn_ok [OF assms(1), of timeout] assms(2) Mb_recv by (auto simp: rt_mb_recv_def)
  qed
next
  case (Mb_send_again v timeout start)
  then have w: "may_wait (time_left timeout start (rt_tick k)) k" using assms(2) by simp
  then obtain c where c: "rt_current_thread k = Some c" by (auto simp: may_wait_def in_thread_context_def)
  show ?thesis
  proof (cases "th_error (thr k c) = RT_EOK")
    case True
    then show ?thesis using send_turn_ok [OF assms(1) w, of v] c Mb_send_again by (simp add: rt_mb_send_resume_def)
  next
    case False
    then show ?thesis using c assms(1) Mb_send_again by (simp add: rt_mb_send_resume_def mb_sent_def)
  qed
next
  case (Mb_recv_again timeout start)
  then have w: "may_wait (time_left timeout start (rt_tick k)) k" using assms(2) by simp
  then obtain c where c: "rt_current_thread k = Some c" by (auto simp: may_wait_def in_thread_context_def)
  show ?thesis
  proof (cases "th_error (thr k c) = RT_EOK")
    case True
    then show ?thesis using recv_turn_ok [OF assms(1) w] c Mb_recv_again by (simp add: rt_mb_recv_resume_def)
  next
    case False
    then show ?thesis using c assms(1) Mb_recv_again by (simp add: rt_mb_recv_resume_def mb_got_def)
  qed
qed

lemma mb_reset_ok:
  assumes "mb_inv mb k"
  shows "\<exists>mb' k'. rt_mb_control True mb k = Some (RT_EOK, mb', k') \<and> mb_inv mb' k' \<and> mb_msgs mb' = [] \<and>
     suspend_thread k' ! mb_list mb = [] \<and> suspend_thread k' ! mb_sender_list mb = []"
proof -
  obtain k1 where k1: "ipc_resume_both (mb_list mb) (mb_sender_list mb) k = Some k1" "both_ok (mb_list mb) (mb_sender_list mb) (mb_flag mb) k1"
    "suspend_thread k1 ! mb_list mb = []" "suspend_thread k1 ! mb_sender_list mb = []" using resume_both_ok assms by blast
  from schedule_both [OF k1(2)] k1 assms show ?thesis by (auto simp: rt_mb_control_def mb_ring_def mb_msgs_def)
qed

interpretation mailbox: ipc_object mb_op_ok mb_exec mb_holds mails
proof (unfold_locales, goal_cases)
  case (3 a mb k op)
  then show ?case using mb_exec_ok [of mb k op] unfolding mb_holds_def by blast
qed (auto simp: mb_holds_def intro: both_good both_kept)

text \<open>C35: A mailbox is a bounded first-in first-out queue: after \<open>rt_mb_init\<close> with a pool of \<open>n\<close> words, under any sequence of permitted
  sends and receives, waiting or not, of kernel calls and clock ticks, every call returns or waits, and the mails accepted and delivered are a run of a queue of
  \<open>n\<close> mails: each accepted mail is delivered once and in order, none is accepted into a full
  mailbox, and what is left is in the ring.\<close>

theorem mailbox_fifo:
  assumes "cb_shrinks cb" "kgood k" "flag \<in> {RT_IPC_FLAG_FIFO, RT_IPC_FLAG_PRIO}" "0 < n" "n < 2 ^ 16" "length pool = n"
    "rt_mb_init l ls pool n flag k = Some (mb, k0)"
  shows "\<exists>es mb' k'. ipc_run cb mb_op_ok mb_exec ops mb k0 = Some (es, mb', k') \<and> kgood k' \<and>
     replay mails (n, []) es = Some (n, map (\<lambda>i. msg_pool mb' ! ((out_offset mb' + i) mod n)) [0..<mb_entry mb'])"
proof -
  obtain k1 where o: "rt_ipc_object_init l k = Some k1" "rt_ipc_object_init ls k1 = Some k0"
    and mb: "mb = \<lparr>mb_flag = flag, msg_pool = pool, mb_size = n, mb_entry = 0, in_offset = 0, out_offset = 0, mb_list = l, mb_sender_list = ls\<rparr>"
    using assms(5,7) by (auto simp: rt_mb_init_def bind_eq_Some_conv)
  have "mb_holds (n, []) mb k0" using both_init [OF assms(2,3) o] assms(4-6) by (simp add: mb_holds_def mb_ring_def mb_abs_def mb_msgs_def mb)
  from mailbox.run_refines [OF assms(1) this, of ops] obtain es mb' k' where
    r: "ipc_run cb mb_op_ok mb_exec ops mb k0 = Some (es, mb', k')" "replay mails (n, []) es = Some (mb_abs mb')" "mb_inv mb' k'"
    by (auto simp: mb_holds_def)
  have "fst a' = fst a" if "replay mails a es = Some a'" for a a'
    using that
  proof (induction es arbitrary: a)
    case (Cons e es)
    then show ?case by (cases a; cases e) (auto split: if_splits list.splits)
  qed simp
  from this [OF r(2)] have "mb_size mb' = n" by (simp add: mb_abs_def)
  then show ?thesis using r by (simp add: mb_abs_def mb_msgs_def both_ok_def)
qed

theorem mailbox_fifo_witness:
  "\<exists>k mb. rtthread_startup 64 (Some 0) (Some 0x20001000) 0x20002000 2 0x20003000 kernel_bss = Some k \<and>
     rt_mb_init 0 1 [0, 0] 2 RT_IPC_FLAG_FIFO k = Some (mb, k) \<and>
     (\<exists>es mb' k'. ipc_run (\<lambda>_. Some) mb_op_ok mb_exec [On (Mb_send 7 0), On (Mb_send 8 0), On (Mb_recv 0)] mb k = Some (es, mb', k') \<and> kgood k' \<and>
        replay mails (2, []) es = Some (2, map (\<lambda>i. msg_pool mb' ! ((out_offset mb' + i) mod 2)) [0..<mb_entry mb']))"
proof -
  obtain k where k: "rtthread_startup 64 (Some 0) (Some 0x20001000) 0x20002000 2 0x20003000 kernel_bss = Some k" "kgood k"
     "suspend_thread k = replicate 4 []" using booted_ipc by blast
  obtain mb where i: "rt_mb_init 0 1 [0, 0] 2 0 k = Some (mb, k)" using k(3) by (simp add: rt_mb_init_def rt_ipc_object_init_def)
  have h: "(0 :: u8) \<in> {0, 1}" "0 < (2 :: nat)" "(2 :: nat) < 2 ^ 16" "length [0, 0 :: u32] = 2" by simp_all
  note r = mailbox_fifo [OF trivial_callbacks k(2) h i, of "[On (Mb_send 7 0), On (Mb_send 8 0), On (Mb_recv 0)]"]
  show ?thesis by (intro exI [of _ k] exI [of _ mb] conjI k(1) i r)
qed

end
