(* ===== verification/Ipc_Messagequeue.thy ===== *)
theory Ipc_Messagequeue
  imports Ipc_Mailbox
begin

text \<open>
  Message queues (\<open>rt_mq_*\<close> of \<open>src/smart-building-mcu/rt-thread/src/ipc.c\<close>): a linked list of message slots in a pool, with the free slots
  in a second list, and lists of waiting receivers and senders. Under any sequence of calls a message queue
  is a bounded queue of byte strings in which urgent messages go first. Waiting calls are modelled turn by turn,
  as for mailboxes. The code copies a message with interrupts enabled, between two critical sections; here the copying and both
  sections are one step.
\<close>

section \<open>Message queues\<close>

text \<open>A slot of the pool is a number; \<open>mq_next\<close> is the pointer of its header, \<open>mq_data\<close> the \<open>msg_size\<close> bytes that follow.\<close>

record rt_messagequeue =
  mq_flag :: u8
  msg_size :: nat
  max_msgs :: nat
  mq_entry :: nat
  msg_queue_head :: "nat option"
  msg_queue_tail :: "nat option"
  msg_queue_free :: "nat option"
  mq_next :: "nat \<Rightarrow> nat option"
  mq_data :: "nat \<Rightarrow> u8 list"
  mq_list :: nat
  mq_sender_list :: nat

abbreviation (input) RT_MQ_ENTRY_MAX :: nat where "RT_MQ_ENTRY_MAX \<equiv> 0xffff"

definition RT_ALIGN4 :: "nat \<Rightarrow> nat" where
  "RT_ALIGN4 n = (n + 3) - (n + 3) mod 4"

text \<open>The loop that puts slot 0, 1, and so on before the free list.\<close>

fun mq_free_slots :: "nat \<Rightarrow> nat \<Rightarrow> rt_messagequeue \<Rightarrow> rt_messagequeue" where
  "mq_free_slots temp 0 mq = mq"
| "mq_free_slots temp (Suc n) mq =
     mq_free_slots (temp + 1) n (mq\<lparr>mq_next := (mq_next mq)(temp := msg_queue_free mq), msg_queue_free := Some temp\<rparr>)"

definition mq_setup :: "nat \<Rightarrow> nat \<Rightarrow> (nat \<Rightarrow> u8 list) \<Rightarrow> nat \<Rightarrow> nat \<Rightarrow> u8 \<Rightarrow> rt_messagequeue" where
  "mq_setup l ls mem msz maxm flag =
     mq_free_slots 0 maxm \<lparr>mq_flag = flag, msg_size = msz, max_msgs = maxm, mq_entry = 0, msg_queue_head = None, msg_queue_tail = None,
       msg_queue_free = None, mq_next = (\<lambda>_. None), mq_data = mem, mq_list = l, mq_sender_list = ls\<rparr>"

definition rt_mq_init :: "nat \<Rightarrow> nat \<Rightarrow> (nat \<Rightarrow> u8 list) \<Rightarrow> nat \<Rightarrow> nat \<Rightarrow> u8 \<Rightarrow> kernel \<Rightarrow> (rt_messagequeue \<times> kernel) option" where
  "rt_mq_init l ls mem msz pool_size flag k = do {
     k1 \<leftarrow> rt_ipc_object_init l k;
     k2 \<leftarrow> rt_ipc_object_init ls k1;
     let ms = RT_ALIGN4 msz mod 2 ^ 16;
     Some (mq_setup l ls mem ms ((pool_size div (ms + 4)) mod 2 ^ 16) flag, k2)
   }"

definition rt_mq_create :: "(nat \<times> nat) option \<Rightarrow> (nat \<Rightarrow> u8 list) option \<Rightarrow> nat \<Rightarrow> nat \<Rightarrow> u8 \<Rightarrow> kernel \<Rightarrow> (rt_messagequeue option \<times> kernel) option" where
  "rt_mq_create obj pool msz maxm flag k =
     (if rt_interrupt_nest k \<noteq> 0 then None
      else case (obj, pool) of
        (Some (l, ls), Some mem) \<Rightarrow> do {
          k1 \<leftarrow> rt_ipc_object_init l k;
          k2 \<leftarrow> rt_ipc_object_init ls k1;
          Some (Some (mq_setup l ls mem (RT_ALIGN4 msz mod 2 ^ 16) (maxm mod 2 ^ 16) flag), k2)
        }
      | _ \<Rightarrow> Some (None, k))"

definition rt_mq_detach :: "rt_messagequeue \<Rightarrow> kernel \<Rightarrow> kernel option" where
  "rt_mq_detach mq k = ipc_resume_both (mq_list mq) (mq_sender_list mq) k"

definition rt_mq_delete :: "rt_messagequeue \<Rightarrow> kernel \<Rightarrow> kernel option" where
  "rt_mq_delete mq k = (if rt_interrupt_nest k \<noteq> 0 then None else ipc_resume_both (mq_list mq) (mq_sender_list mq) k)"

definition mq_copy_in :: "nat \<Rightarrow> u8 list \<Rightarrow> rt_messagequeue \<Rightarrow> rt_messagequeue" where
  "mq_copy_in msg buffer mq = mq\<lparr>mq_data := (mq_data mq)(msg := buffer @ drop (length buffer) (mq_data mq msg))\<rparr>"

text \<open>Counting the new message and waking a receiver.\<close>

definition mq_count_in :: "rt_messagequeue \<Rightarrow> kernel \<Rightarrow> (rt_err \<times> rt_messagequeue \<times> kernel) option" where
  "mq_count_in mq k =
     (if mq_entry mq < RT_MQ_ENTRY_MAX
      then map_option (\<lambda>k1. (RT_EOK, mq\<lparr>mq_entry := mq_entry mq + 1\<rparr>, k1)) (ipc_wake (mq_list mq) k)
      else Some (- RT_EFULL, mq, k))"

definition mq_append :: "nat \<Rightarrow> u8 list \<Rightarrow> rt_messagequeue \<Rightarrow> rt_messagequeue" where
  "mq_append msg buffer mq =
     (let mq1 = mq\<lparr>msg_queue_free := mq_next mq msg\<rparr>;
          mq2 = mq_copy_in msg buffer (mq1\<lparr>mq_next := (mq_next mq1)(msg := None)\<rparr>);
          mq3 = (case msg_queue_tail mq2 of Some last_msg \<Rightarrow> mq2\<lparr>mq_next := (mq_next mq2)(last_msg := Some msg)\<rparr> | None \<Rightarrow> mq2);
          mq4 = mq3\<lparr>msg_queue_tail := Some msg\<rparr>
      in if msg_queue_head mq4 = None then mq4\<lparr>msg_queue_head := Some msg\<rparr> else mq4)"

definition mq_prepend :: "nat \<Rightarrow> u8 list \<Rightarrow> rt_messagequeue \<Rightarrow> rt_messagequeue" where
  "mq_prepend msg buffer mq =
     (let mq1 = mq_copy_in msg buffer (mq\<lparr>msg_queue_free := mq_next mq msg\<rparr>);
          mq2 = mq1\<lparr>mq_next := (mq_next mq1)(msg := msg_queue_head mq1), msg_queue_head := Some msg\<rparr>
      in if msg_queue_tail mq2 = None then mq2\<lparr>msg_queue_tail := Some msg\<rparr> else mq2)"

definition mq_send_turn :: "u8 list \<Rightarrow> int \<Rightarrow> rt_messagequeue \<Rightarrow> kernel \<Rightarrow> (ipc_result \<times> rt_messagequeue \<times> kernel) option" where
  "mq_send_turn buffer timeout mq k =
     (case msg_queue_free mq of
        None \<Rightarrow> do {
          t \<leftarrow> rt_current_thread k;
          let k1 = set_error RT_EOK t k;
          (if timeout = 0 then Some (Returned (- RT_EFULL), mq, k1)
           else if \<not> in_thread_context k1 then None
           else map_option (\<lambda>k2. (Waiting t, mq, k2)) (ipc_block (mq_sender_list mq) (mq_flag mq) timeout t k1))
        }
      | Some msg \<Rightarrow> map_option (\<lambda>(e, mq1, k1). (Returned e, mq1, k1)) (mq_count_in (mq_append msg buffer mq) k))"

definition rt_mq_send_wait :: "u8 list \<Rightarrow> int \<Rightarrow> rt_messagequeue \<Rightarrow> kernel \<Rightarrow> (ipc_result \<times> rt_messagequeue \<times> kernel) option" where
  "rt_mq_send_wait buffer timeout mq k =
     (if buffer = [] then None
      else if length buffer > msg_size mq then Some (Returned (- RT_ERROR), mq, k)
      else if msg_queue_free mq = None \<and> timeout = 0 then Some (Returned (- RT_EFULL), mq, k)
      else mq_send_turn buffer timeout mq k)"

definition rt_mq_send_resume :: "u8 list \<Rightarrow> int \<Rightarrow> u32 \<Rightarrow> nat \<Rightarrow> rt_messagequeue \<Rightarrow> kernel \<Rightarrow> (ipc_result \<times> rt_messagequeue \<times> kernel) option" where
  "rt_mq_send_resume buffer timeout start t mq k =
     (if th_error (thr k t) \<noteq> RT_EOK then Some (Returned (th_error (thr k t)), mq, k)
      else mq_send_turn buffer (time_left timeout start (rt_tick k)) mq k)"

definition rt_mq_send :: "u8 list \<Rightarrow> rt_messagequeue \<Rightarrow> kernel \<Rightarrow> (ipc_result \<times> rt_messagequeue \<times> kernel) option" where
  "rt_mq_send buffer mq k = rt_mq_send_wait buffer 0 mq k"

definition rt_mq_urgent :: "u8 list \<Rightarrow> rt_messagequeue \<Rightarrow> kernel \<Rightarrow> (rt_err \<times> rt_messagequeue \<times> kernel) option" where
  "rt_mq_urgent buffer mq k =
     (if buffer = [] then None
      else if length buffer > msg_size mq then Some (- RT_ERROR, mq, k)
      else case msg_queue_free mq of
        None \<Rightarrow> Some (- RT_EFULL, mq, k)
      | Some msg \<Rightarrow> mq_count_in (mq_prepend msg buffer mq) k)"

text \<open>Receiving takes the first message out of the queue, copies at most \<open>n\<close> bytes of it and gives its slot back. A queue that counts
  messages but has none would be dereferenced at a null pointer, which is \<open>None\<close>.\<close>

definition mq_unlink :: "nat \<Rightarrow> rt_messagequeue \<Rightarrow> rt_messagequeue" where
  "mq_unlink msg mq =
     (let mq1 = mq\<lparr>msg_queue_head := mq_next mq msg\<rparr>;
          mq2 = (if msg_queue_tail mq1 = Some msg then mq1\<lparr>msg_queue_tail := None\<rparr> else mq1);
          mq3 = mq2\<lparr>mq_entry := mq_entry mq2 - 1\<rparr>
      in mq3\<lparr>mq_next := (mq_next mq3)(msg := msg_queue_free mq3), msg_queue_free := Some msg\<rparr>)"

definition mq_recv_turn :: "nat \<Rightarrow> int \<Rightarrow> rt_messagequeue \<Rightarrow> kernel \<Rightarrow> ((ipc_result \<times> u8 list option) \<times> rt_messagequeue \<times> kernel) option" where
  "mq_recv_turn n timeout mq k =
     (if mq_entry mq = 0 then do {
        (if \<not> in_thread_context k then None
         else do {
           t \<leftarrow> rt_current_thread k;
           let k1 = set_error RT_EOK t k;
           (if timeout = 0 then Some ((Returned (- RT_ETIMEOUT), None), mq, set_error (- RT_ETIMEOUT) t k1)
            else map_option (\<lambda>k2. ((Waiting t, None), mq, k2)) (ipc_block (mq_list mq) (mq_flag mq) timeout t k1))
         })
      }
      else do {
        msg \<leftarrow> msg_queue_head mq;
        let bytes = take (min n (msg_size mq)) (mq_data mq msg);
        let mq1 = mq_unlink msg mq;
        map_option (\<lambda>k1. ((Returned RT_EOK, Some bytes), mq1, k1)) (ipc_wake (mq_sender_list mq1) k)
      })"

definition rt_mq_recv :: "nat \<Rightarrow> int \<Rightarrow> rt_messagequeue \<Rightarrow> kernel \<Rightarrow> ((ipc_result \<times> u8 list option) \<times> rt_messagequeue \<times> kernel) option" where
  "rt_mq_recv n timeout mq k =
     (if n = 0 then None
      else if mq_entry mq = 0 \<and> timeout = 0 then Some ((Returned (- RT_ETIMEOUT), None), mq, k)
      else mq_recv_turn n timeout mq k)"

definition rt_mq_recv_resume :: "nat \<Rightarrow> int \<Rightarrow> u32 \<Rightarrow> nat \<Rightarrow> rt_messagequeue \<Rightarrow> kernel \<Rightarrow> ((ipc_result \<times> u8 list option) \<times> rt_messagequeue \<times> kernel) option" where
  "rt_mq_recv_resume n timeout start t mq k =
     (if th_error (thr k t) \<noteq> RT_EOK then Some ((Returned (th_error (thr k t)), None), mq, k)
      else mq_recv_turn n (time_left timeout start (rt_tick k)) mq k)"

text \<open>The loop that gives all messages back to the free list, with the number of slots as the bound of its turns.\<close>

fun mq_release_all :: "nat \<Rightarrow> rt_messagequeue \<Rightarrow> rt_messagequeue option" where
  "mq_release_all 0 mq = (if msg_queue_head mq = None then Some mq else None)"
| "mq_release_all (Suc n) mq =
     (case msg_queue_head mq of
        None \<Rightarrow> Some mq
      | Some msg \<Rightarrow> mq_release_all n ((mq_unlink msg mq)\<lparr>mq_entry := mq_entry mq\<rparr>))"

definition rt_mq_control :: "bool \<Rightarrow> rt_messagequeue \<Rightarrow> kernel \<Rightarrow> (rt_err \<times> rt_messagequeue \<times> kernel) option" where
  "rt_mq_control reset mq k =
     (if \<not> reset then Some (- RT_ERROR, mq, k)
      else do {
        k1 \<leftarrow> ipc_resume_both (mq_list mq) (mq_sender_list mq) k;
        mq1 \<leftarrow> mq_release_all (max_msgs mq) mq;
        k2 \<leftarrow> rt_schedule k1;
        Some (RT_EOK, mq1\<lparr>mq_entry := 0\<rparr>, k2)
      })"

section \<open>A message queue is a bounded queue of byte strings\<close>

text \<open>The slots on a path of pointers.\<close>

fun chain :: "(nat \<Rightarrow> nat option) \<Rightarrow> nat option \<Rightarrow> nat list \<Rightarrow> bool" where
  "chain nx p [] \<longleftrightarrow> p = None"
| "chain nx p (x # xs) \<longleftrightarrow> p = Some x \<and> chain nx (nx x) xs"

lemma chain_other: "a \<notin> set xs \<Longrightarrow> chain (nx(a := v)) p xs = chain nx p xs"
  by (induction xs arbitrary: p) auto

lemma chain_extend:
  "chain nx p xs \<Longrightarrow> xs \<noteq> [] \<Longrightarrow> distinct xs \<Longrightarrow> nx' (last xs) = Some y \<Longrightarrow> nx' y = None \<Longrightarrow>
     (\<And>x. x \<in> set xs \<Longrightarrow> x \<noteq> last xs \<Longrightarrow> nx' x = nx x) \<Longrightarrow> chain nx' p (xs @ [y])"
proof (induction xs arbitrary: p)
  case (Cons x xs)
  show ?case
  proof (cases "xs = []")
    case True
    with Cons.prems show ?thesis by simp
  next
    case False
    then have l: "last xs \<in> set xs" "last (x # xs) = last xs" by simp_all
    have "x \<noteq> last xs" using Cons.prems(3) l by auto
    then have "nx' x = nx x" using Cons.prems(6) [of x] l(2) by simp
    moreover have "chain nx' (nx x) (xs @ [y])"
      by (rule Cons.IH) (use Cons.prems False l in auto)
    ultimately show ?thesis using Cons.prems(1) by simp
  qed
qed simp

lemma chain_None: "chain nx p xs \<Longrightarrow> p = None \<longleftrightarrow> xs = []"
  by (cases xs) auto

definition mq_shape :: "rt_messagequeue \<Rightarrow> nat list \<Rightarrow> nat list \<Rightarrow> bool" where
  "mq_shape mq q fr \<longleftrightarrow> chain (mq_next mq) (msg_queue_head mq) q \<and> chain (mq_next mq) (msg_queue_free mq) fr \<and> distinct (q @ fr) \<and>
     set (q @ fr) = {..<max_msgs mq} \<and> mq_entry mq = length q \<and> msg_queue_tail mq = (if q = [] then None else Some (last q)) \<and>
     max_msgs mq < 2 ^ 16 \<and> (\<forall>i<max_msgs mq. length (mq_data mq i) = msg_size mq)"

text \<open>\<open>mq_holds mq Q\<close>: the queue holds the messages \<open>Q\<close>, each at the front of its slot.\<close>

definition in_slot :: "rt_messagequeue \<Rightarrow> nat \<Rightarrow> u8 list \<Rightarrow> bool" where
  "in_slot mq x m \<longleftrightarrow> length m \<le> msg_size mq \<and> take (length m) (mq_data mq x) = m"

definition mq_holds :: "rt_messagequeue \<Rightarrow> u8 list list \<Rightarrow> bool" where
  "mq_holds mq Q \<longleftrightarrow> (\<exists>q fr. mq_shape mq q fr \<and> list_all2 (in_slot mq) q Q)"

lemma in_slot_cong: "mq_data mq' x = mq_data mq x \<Longrightarrow> msg_size mq' = msg_size mq \<Longrightarrow> in_slot mq' x m = in_slot mq x m"
  by (simp add: in_slot_def)

lemma slots_kept:
  assumes "list_all2 (in_slot mq) q Q" "\<And>x. x \<in> set q \<Longrightarrow> mq_data mq' x = mq_data mq x" "msg_size mq' = msg_size mq"
  shows "list_all2 (in_slot mq') q Q"
  using assms(1,2)
proof (induction rule: list_all2_induct)
  case (Cons x xs m ms)
  then show ?case using assms(3) by (simp add: in_slot_def)
qed simp

lemma slot_counts: "mq_shape mq q fr \<Longrightarrow> length q + length fr = max_msgs mq"
  unfolding mq_shape_def using distinct_card [of "q @ fr"] by simp

lemma holds_length: "mq_holds mq Q \<Longrightarrow> mq_entry mq = length Q"
  unfolding mq_holds_def mq_shape_def by (auto dest: list_all2_lengthD)

lemma free_room:
  assumes "mq_holds mq Q" "msg_queue_free mq = Some m"
  shows "length Q < max_msgs mq"
proof -
  obtain q fr where s: "mq_shape mq q fr" and a: "list_all2 (in_slot mq) q Q" using assms(1) by (auto simp: mq_holds_def)
  then have "fr \<noteq> []" using assms(2) unfolding mq_shape_def by auto
  then show ?thesis using slot_counts [OF s] list_all2_lengthD [OF a] by (cases fr) auto
qed

lemma append_fields:
  "msg_queue_free (mq_append m buf mq) = mq_next mq m" "msg_queue_tail (mq_append m buf mq) = Some m"
  "msg_queue_head (mq_append m buf mq) = (if msg_queue_head mq = None then Some m else msg_queue_head mq)"
  "mq_next (mq_append m buf mq) = (case msg_queue_tail mq of None \<Rightarrow> (mq_next mq)(m := None) | Some l \<Rightarrow> (mq_next mq)(m := None, l := Some m))"
  "mq_data (mq_append m buf mq) = (mq_data mq)(m := buf @ drop (length buf) (mq_data mq m))"
  "mq_entry (mq_append m buf mq) = mq_entry mq" "max_msgs (mq_append m buf mq) = max_msgs mq" "msg_size (mq_append m buf mq) = msg_size mq"
  "mq_list (mq_append m buf mq) = mq_list mq" "mq_sender_list (mq_append m buf mq) = mq_sender_list mq" "mq_flag (mq_append m buf mq) = mq_flag mq"
  by (simp_all add: mq_append_def mq_copy_in_def Let_def split: option.splits)

lemma prepend_fields:
  "msg_queue_free (mq_prepend m buf mq) = mq_next mq m" "msg_queue_head (mq_prepend m buf mq) = Some m"
  "msg_queue_tail (mq_prepend m buf mq) = (if msg_queue_tail mq = None then Some m else msg_queue_tail mq)"
  "mq_next (mq_prepend m buf mq) = (mq_next mq)(m := msg_queue_head mq)"
  "mq_data (mq_prepend m buf mq) = (mq_data mq)(m := buf @ drop (length buf) (mq_data mq m))"
  "mq_entry (mq_prepend m buf mq) = mq_entry mq" "max_msgs (mq_prepend m buf mq) = max_msgs mq" "msg_size (mq_prepend m buf mq) = msg_size mq"
  "mq_list (mq_prepend m buf mq) = mq_list mq" "mq_sender_list (mq_prepend m buf mq) = mq_sender_list mq" "mq_flag (mq_prepend m buf mq) = mq_flag mq"
  by (simp_all add: mq_prepend_def mq_copy_in_def Let_def)

lemma unlink_fields:
  "msg_queue_head (mq_unlink m mq) = mq_next mq m" "msg_queue_tail (mq_unlink m mq) = (if msg_queue_tail mq = Some m then None else msg_queue_tail mq)"
  "mq_entry (mq_unlink m mq) = mq_entry mq - 1" "mq_next (mq_unlink m mq) = (mq_next mq)(m := msg_queue_free mq)"
  "msg_queue_free (mq_unlink m mq) = Some m" "mq_data (mq_unlink m mq) = mq_data mq" "max_msgs (mq_unlink m mq) = max_msgs mq"
  "msg_size (mq_unlink m mq) = msg_size mq" "mq_list (mq_unlink m mq) = mq_list mq" "mq_sender_list (mq_unlink m mq) = mq_sender_list mq"
  "mq_flag (mq_unlink m mq) = mq_flag mq"
  by (simp_all add: mq_unlink_def Let_def)

lemma copied:
  assumes "length buf \<le> length old"
  shows "take (length buf) (buf @ drop (length buf) old) = buf" "length (buf @ drop (length buf) old) = length old"
  using assms by simp_all

lemma append_holds:
  assumes "mq_holds mq Q" "msg_queue_free mq = Some m" "length buf \<le> msg_size mq"
  shows "mq_holds ((mq_append m buf mq)\<lparr>mq_entry := mq_entry mq + 1\<rparr>) (Q @ [buf])" "mq_entry mq < 0xffff"
proof -
  obtain q fr where s: "mq_shape mq q fr" and a: "list_all2 (in_slot mq) q Q" using assms(1) by (auto simp: mq_holds_def)
  then obtain fr' where fr: "fr = m # fr'" "chain (mq_next mq) (mq_next mq m) fr'"
    using assms(2) unfolding mq_shape_def by (cases fr) auto
  have d: "distinct q" "m \<notin> set q" "m \<notin> set fr'" "distinct fr'" "set q \<inter> set fr' = {}" "m < max_msgs mq" "set (q @ m # fr') = {..<max_msgs mq}"
    using s unfolding mq_shape_def fr by auto
  have len: "length (mq_data mq m) = msg_size mq" "mq_entry mq = length q" using s d(6) by (simp_all add: mq_shape_def)
  let ?mq = "(mq_append m buf mq)\<lparr>mq_entry := mq_entry mq + 1\<rparr>"
  have "mq_shape ?mq (q @ [m]) fr'"
  proof (cases "q = []")
    case True
    then show ?thesis using s fr d copied [of buf "mq_data mq m"] assms(3) len
      by (auto simp: mq_shape_def append_fields chain_other)
  next
    case False
    have tl: "msg_queue_tail mq = Some (last q)" "msg_queue_head mq \<noteq> None" using s False chain_None by (auto simp: mq_shape_def)
    have "last q \<notin> set fr'" using d(5) False by (meson disjoint_iff last_in_set)
    then have "chain (mq_next ?mq) (msg_queue_free ?mq) fr'" using fr(2) d(3) tl by (simp add: append_fields chain_other)
    moreover have "chain (mq_next ?mq) (msg_queue_head ?mq) (q @ [m])"
    proof -
      have nx: "mq_next ?mq = (mq_next mq)(m := None, last q := Some m)" and hd: "msg_queue_head ?mq = msg_queue_head mq"
        using tl by (simp_all add: append_fields)
      have "last q \<noteq> m" using d(2) False by auto
      then show ?thesis unfolding nx hd
        using s False d(1,2) by (intro chain_extend [of "mq_next mq"]) (auto simp: mq_shape_def)
    qed
    ultimately show ?thesis using s d copied [of buf "mq_data mq m"] assms(3) len False
      by (auto simp: mq_shape_def append_fields)
  qed
  moreover have "list_all2 (in_slot ?mq) q Q" by (rule slots_kept [OF a]) (use d(2) in \<open>auto simp: append_fields\<close>)
  moreover have "in_slot ?mq m buf" using assms(3) copied [of buf "mq_data mq m"] len by (simp add: in_slot_def append_fields)
  ultimately show "mq_holds ?mq (Q @ [buf])" unfolding mq_holds_def by (intro exI [of _ "q @ [m]"] exI [of _ fr']) (simp add: list_all2_appendI)
  show "mq_entry mq < 0xffff" using slot_counts [OF s] s fr len by (simp add: mq_shape_def)
qed

lemma prepend_holds:
  assumes "mq_holds mq Q" "msg_queue_free mq = Some m" "length buf \<le> msg_size mq"
  shows "mq_holds ((mq_prepend m buf mq)\<lparr>mq_entry := mq_entry mq + 1\<rparr>) (buf # Q)" "mq_entry mq < 0xffff"
proof -
  obtain q fr where s: "mq_shape mq q fr" and a: "list_all2 (in_slot mq) q Q" using assms(1) by (auto simp: mq_holds_def)
  then obtain fr' where fr: "fr = m # fr'" "chain (mq_next mq) (mq_next mq m) fr'"
    using assms(2) unfolding mq_shape_def by (cases fr) auto
  have d: "m \<notin> set q" "m \<notin> set fr'" "m < max_msgs mq" using s unfolding mq_shape_def fr by auto
  have len: "length (mq_data mq m) = msg_size mq" "mq_entry mq = length q" using s d(3) by (simp_all add: mq_shape_def)
  let ?mq = "(mq_prepend m buf mq)\<lparr>mq_entry := mq_entry mq + 1\<rparr>"
  have "mq_shape ?mq (m # q) fr'" using s fr d copied [of buf "mq_data mq m"] assms(3) len
    by (auto simp: mq_shape_def prepend_fields chain_other)
  moreover have "list_all2 (in_slot ?mq) q Q" by (rule slots_kept [OF a]) (use d(1) in \<open>auto simp: prepend_fields\<close>)
  moreover have "in_slot ?mq m buf" using assms(3) copied [of buf "mq_data mq m"] len by (simp add: in_slot_def prepend_fields)
  ultimately show "mq_holds ?mq (buf # Q)" unfolding mq_holds_def by (intro exI [of _ "m # q"] exI [of _ fr']) simp
  show "mq_entry mq < 0xffff" using slot_counts [OF s] s fr len by (simp add: mq_shape_def)
qed

lemma unlink_holds:
  assumes "mq_holds mq Q" "mq_entry mq \<noteq> 0"
  shows "\<exists>m b Q'. msg_queue_head mq = Some m \<and> Q = b # Q' \<and> in_slot mq m b \<and> length (mq_data mq m) = msg_size mq \<and> mq_holds (mq_unlink m mq) Q'"
proof -
  obtain q fr where s: "mq_shape mq q fr" and a: "list_all2 (in_slot mq) q Q" using assms(1) by (auto simp: mq_holds_def)
  then obtain m q' where q: "q = m # q'" "msg_queue_head mq = Some m" using assms(2) by (cases q) (auto simp: mq_shape_def)
  obtain b Q' where Q: "Q = b # Q'" "in_slot mq m b" "list_all2 (in_slot mq) q' Q'" using a unfolding q by (auto simp: list_all2_Cons1)
  have "mq_shape (mq_unlink m mq) q' (m # fr)" using s unfolding q by (auto simp: mq_shape_def unlink_fields chain_other)
  moreover have "list_all2 (in_slot (mq_unlink m mq)) q' Q'" by (rule slots_kept [OF Q(3)]) (simp_all add: unlink_fields)
  ultimately have "mq_holds (mq_unlink m mq) Q'" unfolding mq_holds_def by blast
  moreover have "length (mq_data mq m) = msg_size mq" using s unfolding q by (auto simp: mq_shape_def)
  ultimately show ?thesis using q(2) Q by blast
qed

definition mq_inv :: "rt_messagequeue \<Rightarrow> u8 list list \<Rightarrow> kernel \<Rightarrow> bool" where
  "mq_inv mq Q k \<longleftrightarrow> mq_holds mq Q \<and> both_ok (mq_list mq) (mq_sender_list mq) (mq_flag mq) k"

text \<open>The promise: a queue of at most \<open>n\<close> messages. A message that is delivered is the first one of the queue, in the bytes that
  both the message and the buffer of the receiver have room for.\<close>

datatype mq_op = Mq_send "u8 list" int | Mq_send_again "u8 list" int u32 | Mq_urgent "u8 list" | Mq_recv nat int
  | Mq_recv_again nat int u32

datatype mq_event = Msg_in "u8 list" | Msg_urgent "u8 list" | Msg_out "u8 list"

definition reads :: "u8 list \<Rightarrow> u8 list \<Rightarrow> bool" where
  "reads r m \<longleftrightarrow> take (length m) r = take (length r) m"

fun messages :: "nat \<times> u8 list list \<Rightarrow> mq_event \<Rightarrow> (nat \<times> u8 list list) option" where
  "messages (n, Q) (Msg_in m) = (if length Q < n then Some (n, Q @ [m]) else None)"
| "messages (n, Q) (Msg_urgent m) = (if length Q < n then Some (n, m # Q) else None)"
| "messages (n, Q) (Msg_out r) = (case Q of [] \<Rightarrow> None | m # Q' \<Rightarrow> if reads r m then Some (n, Q') else None)"

text \<open>The events are the messages that were accepted at the end, accepted at the front, and delivered.\<close>

definition mq_sent :: "u8 list \<Rightarrow> ipc_result \<times> rt_messagequeue \<times> kernel \<Rightarrow> mq_event list \<times> rt_messagequeue \<times> kernel" where
  "mq_sent m = (\<lambda>(r, mq, k). (if r = Returned RT_EOK then [Msg_in m] else [], mq, k))"

definition mq_got :: "(ipc_result \<times> u8 list option) \<times> rt_messagequeue \<times> kernel \<Rightarrow> mq_event list \<times> rt_messagequeue \<times> kernel" where
  "mq_got = (\<lambda>((r, b), mq, k). (case b of Some x \<Rightarrow> [Msg_out x] | None \<Rightarrow> [], mq, k))"

fun mq_exec :: "mq_op \<Rightarrow> rt_messagequeue \<Rightarrow> kernel \<Rightarrow> (mq_event list \<times> rt_messagequeue \<times> kernel) option" where
  "mq_exec (Mq_send m timeout) mq k = map_option (mq_sent m) (rt_mq_send_wait m timeout mq k)"
| "mq_exec (Mq_send_again m timeout start) mq k =
     Option.bind (rt_current_thread k) (\<lambda>c. map_option (mq_sent m) (rt_mq_send_resume m timeout start c mq k))"
| "mq_exec (Mq_urgent m) mq k = map_option (\<lambda>(e, mq', k'). (if e = RT_EOK then [Msg_urgent m] else [], mq', k')) (rt_mq_urgent m mq k)"
| "mq_exec (Mq_recv n timeout) mq k = map_option mq_got (rt_mq_recv n timeout mq k)"
| "mq_exec (Mq_recv_again n timeout start) mq k =
     Option.bind (rt_current_thread k) (\<lambda>c. map_option mq_got (rt_mq_recv_resume n timeout start c mq k))"

fun mq_op_ok :: "mq_op \<Rightarrow> rt_messagequeue \<Rightarrow> kernel \<Rightarrow> bool" where
  "mq_op_ok (Mq_send m timeout) mq k \<longleftrightarrow> m \<noteq> [] \<and> (timeout = 0 \<or> may_wait timeout k)"
| "mq_op_ok (Mq_send_again m timeout start) mq k \<longleftrightarrow> length m \<le> msg_size mq \<and> may_wait (time_left timeout start (rt_tick k)) k"
| "mq_op_ok (Mq_urgent m) mq k \<longleftrightarrow> m \<noteq> []"
| "mq_op_ok (Mq_recv n timeout) mq k \<longleftrightarrow> n \<noteq> 0 \<and> (timeout = 0 \<or> may_wait timeout k)"
| "mq_op_ok (Mq_recv_again n timeout start) mq k \<longleftrightarrow> may_wait (time_left timeout start (rt_tick k)) k"

lemma count_in_ok:
  assumes "mq_holds (mq1\<lparr>mq_entry := mq_entry mq1 + 1\<rparr>) Q" "mq_entry mq1 < 0xffff"
    "both_ok (mq_list mq1) (mq_sender_list mq1) (mq_flag mq1) k"
  shows "\<exists>mq' k'. mq_count_in mq1 k = Some (RT_EOK, mq', k') \<and> mq_inv mq' Q k' \<and> max_msgs mq' = max_msgs mq1"
proof -
  have "mq_list mq1 < length (suspend_thread k)" using assms(3) by (simp add: both_ok_def)
  from wake_ok [OF assms(3) this] obtain k' where "ipc_wake (mq_list mq1) k = Some k'"
    "both_ok (mq_list mq1) (mq_sender_list mq1) (mq_flag mq1) k'" by blast
  then show ?thesis using assms(1,2) by (simp add: mq_count_in_def mq_inv_def)
qed

lemma mq_append_ok:
  assumes "mq_inv mq Q k" "msg_queue_free mq = Some m" "length buf \<le> msg_size mq"
  shows "\<exists>mq' k'. mq_count_in (mq_append m buf mq) k = Some (RT_EOK, mq', k') \<and> mq_inv mq' (Q @ [buf]) k' \<and> max_msgs mq' = max_msgs mq"
  using append_holds [OF _ assms(2,3)] assms(1) count_in_ok [of "mq_append m buf mq" "Q @ [buf]" k] by (auto simp: mq_inv_def append_fields)

lemma mq_prepend_ok:
  assumes "mq_inv mq Q k" "msg_queue_free mq = Some m" "length buf \<le> msg_size mq"
  shows "\<exists>mq' k'. mq_count_in (mq_prepend m buf mq) k = Some (RT_EOK, mq', k') \<and> mq_inv mq' (buf # Q) k' \<and> max_msgs mq' = max_msgs mq"
  using prepend_holds [OF _ assms(2,3)] assms(1) count_in_ok [of "mq_prepend m buf mq" "buf # Q" k] by (auto simp: mq_inv_def prepend_fields)

lemma mq_send_turn_ok:
  assumes "mq_inv mq Q k" "length m \<le> msg_size mq" "msg_queue_free mq = None \<Longrightarrow> may_wait timeout k"
  shows "\<exists>es mq' k' Q'. map_option (mq_sent m) (mq_send_turn m timeout mq k) = Some (es, mq', k') \<and> replay messages (max_msgs mq, Q) es = Some (max_msgs mq', Q') \<and> mq_inv mq' Q' k'"
proof (cases "msg_queue_free mq")
  case (Some x)
  have "length Q < max_msgs mq" using free_room [OF _ Some] assms(1) by (simp add: mq_inv_def)
  with mq_append_ok [OF assms(1) Some assms(2)] show ?thesis using Some by (auto simp: mq_send_turn_def mq_sent_def)
next
  case None
  note w = assms(3) [OF None]
  obtain c where c: "rt_current_thread k = Some c" "in_thread_context (set_error RT_EOK c k)"
    using w by (auto simp: may_wait_def in_thread_context_def set_error_def)
  show ?thesis
  proof (cases "timeout = 0")
    case True
    then show ?thesis using None c assms(1) set_error_both by (simp add: mq_send_turn_def mq_sent_def mq_inv_def)
  next
    case False
    have "mq_sender_list mq < length (suspend_thread k)" "both_ok (mq_list mq) (mq_sender_list mq) (mq_flag mq) k"
      using assms(1) by (simp_all add: both_ok_def mq_inv_def)
    from block_both [OF this(2,1) w c(1)] obtain k' where
      "ipc_block (mq_sender_list mq) (mq_flag mq) timeout c (set_error RT_EOK c k) = Some k'"
      "both_ok (mq_list mq) (mq_sender_list mq) (mq_flag mq) k'" by blast
    then show ?thesis using False None c assms(1) by (simp add: mq_send_turn_def mq_sent_def mq_inv_def)
  qed
qed

lemma slot_reads:
  assumes "in_slot mq x m" "length (mq_data mq x) = msg_size mq"
  shows "reads (take (min n (msg_size mq)) (mq_data mq x)) m"
proof -
  have "take (length m) (mq_data mq x) = m" using assms(1) by (simp add: in_slot_def)
  then have "take (min n (msg_size mq)) m = take (length m) (take (min n (msg_size mq)) (mq_data mq x))"
    by (metis min.commute take_take)
  then show ?thesis using assms(2) by (simp add: reads_def)
qed

lemma mq_recv_turn_ok:
  assumes "mq_inv mq Q k" "mq_entry mq = 0 \<Longrightarrow> may_wait timeout k"
  shows "\<exists>es mq' k' Q'. map_option mq_got (mq_recv_turn n timeout mq k) = Some (es, mq', k') \<and> replay messages (max_msgs mq, Q) es = Some (max_msgs mq', Q') \<and> mq_inv mq' Q' k'"
proof (cases "mq_entry mq = 0")
  case False
  from unlink_holds [OF _ False, of Q] assms(1) obtain m b Q' where u: "msg_queue_head mq = Some m" "Q = b # Q'" "in_slot mq m b"
    "length (mq_data mq m) = msg_size mq" "mq_holds (mq_unlink m mq) Q'" by (auto simp: mq_inv_def)
  have "mq_sender_list mq < length (suspend_thread k)" "both_ok (mq_list mq) (mq_sender_list mq) (mq_flag mq) k"
    using assms(1) by (simp_all add: both_ok_def mq_inv_def)
  from wake_ok [OF this(2,1)] obtain k' where k': "ipc_wake (mq_sender_list mq) k = Some k'"
    "both_ok (mq_list mq) (mq_sender_list mq) (mq_flag mq) k'" by blast
  have "mq_recv_turn n timeout mq k = Some ((Returned RT_EOK, Some (take (min n (msg_size mq)) (mq_data mq m))), mq_unlink m mq, k')"
    using False u(1) k'(1) by (simp add: mq_recv_turn_def unlink_fields)
  moreover have "mq_inv (mq_unlink m mq) Q' k'" using u(5) k'(2) by (simp add: mq_inv_def unlink_fields)
  ultimately show ?thesis using u(2) slot_reads [OF u(3,4), of n] by (simp add: mq_got_def unlink_fields)
next
  case True
  note w = assms(2) [OF True]
  obtain c where c: "rt_current_thread k = Some c" "in_thread_context k"
    using w by (auto simp: may_wait_def in_thread_context_def)
  show ?thesis
  proof (cases "timeout = 0")
    case True
    then show ?thesis using \<open>mq_entry mq = 0\<close> c assms(1) set_error_both by (simp add: mq_recv_turn_def mq_got_def mq_inv_def)
  next
    case False
    have "mq_list mq < length (suspend_thread k)" "both_ok (mq_list mq) (mq_sender_list mq) (mq_flag mq) k"
      using assms(1) by (simp_all add: both_ok_def mq_inv_def)
    from block_both [OF this(2,1) w c(1)] obtain k' where
      "ipc_block (mq_list mq) (mq_flag mq) timeout c (set_error RT_EOK c k) = Some k'"
      "both_ok (mq_list mq) (mq_sender_list mq) (mq_flag mq) k'" by blast
    then show ?thesis using False True c assms(1) by (simp add: mq_recv_turn_def mq_got_def mq_inv_def)
  qed
qed

lemma mq_exec_ok:
  assumes "mq_inv mq Q k" "mq_op_ok x mq k"
  shows "\<exists>es mq' k' Q'. mq_exec x mq k = Some (es, mq', k') \<and> replay messages (max_msgs mq, Q) es = Some (max_msgs mq', Q') \<and> mq_inv mq' Q' k'"
proof (cases x)
  case (Mq_send m timeout)
  have "m \<noteq> []" using assms(2) Mq_send by simp
  consider "length m > msg_size mq" | "length m \<le> msg_size mq" "msg_queue_free mq = None" "timeout = 0"
    | "length m \<le> msg_size mq" "\<not> (msg_queue_free mq = None \<and> timeout = 0)" by linarith
  then show ?thesis
  proof cases
    case 3
    have "msg_queue_free mq = None \<Longrightarrow> may_wait timeout k" using 3(2) assms(2) Mq_send by simp
    moreover have "rt_mq_send_wait m timeout mq k = mq_send_turn m timeout mq k" using 3 \<open>m \<noteq> []\<close> by (auto simp: rt_mq_send_wait_def)
    ultimately show ?thesis using mq_send_turn_ok [OF assms(1) 3(1), of timeout] Mq_send by simp
  qed (use assms(1) Mq_send \<open>m \<noteq> []\<close> in \<open>simp_all add: rt_mq_send_wait_def mq_sent_def\<close>)
next
  case (Mq_urgent m)
  have "m \<noteq> []" using assms(2) Mq_urgent by simp
  consider "length m > msg_size mq" | "length m \<le> msg_size mq" "msg_queue_free mq = None"
    | y where "length m \<le> msg_size mq" "msg_queue_free mq = Some y" by (cases "msg_queue_free mq") (auto simp: not_less [symmetric])
  then show ?thesis
  proof cases
    case (3 y)
    have "length Q < max_msgs mq" using free_room [OF _ 3(2)] assms(1) by (simp add: mq_inv_def)
    with mq_prepend_ok [OF assms(1) 3(2,1)] show ?thesis using 3 \<open>m \<noteq> []\<close> Mq_urgent by (auto simp: rt_mq_urgent_def)
  qed (use assms(1) Mq_urgent \<open>m \<noteq> []\<close> in \<open>simp_all add: rt_mq_urgent_def\<close>)
next
  case (Mq_recv n timeout)
  have "n \<noteq> 0" using assms(2) Mq_recv by simp
  show ?thesis
  proof (cases "mq_entry mq = 0 \<and> timeout = 0")
    case True
    then show ?thesis using assms(1) Mq_recv \<open>n \<noteq> 0\<close> by (simp add: rt_mq_recv_def mq_got_def)
  next
    case False
    then have "mq_entry mq = 0 \<Longrightarrow> may_wait timeout k" using assms(2) Mq_recv by simp
    moreover have "rt_mq_recv n timeout mq k = mq_recv_turn n timeout mq k" using False \<open>n \<noteq> 0\<close> by (auto simp: rt_mq_recv_def)
    ultimately show ?thesis using mq_recv_turn_ok [OF assms(1), of timeout n] Mq_recv by simp
  qed
next
  case (Mq_send_again m timeout start)
  then have w: "may_wait (time_left timeout start (rt_tick k)) k" "length m \<le> msg_size mq" using assms(2) by simp_all
  then obtain c where c: "rt_current_thread k = Some c" by (auto simp: may_wait_def in_thread_context_def)
  show ?thesis
  proof (cases "th_error (thr k c) = RT_EOK")
    case True
    then show ?thesis using mq_send_turn_ok [OF assms(1) w(2,1)] c Mq_send_again by (simp add: rt_mq_send_resume_def)
  next
    case False
    then show ?thesis using c assms(1) Mq_send_again by (simp add: rt_mq_send_resume_def mq_sent_def)
  qed
next
  case (Mq_recv_again n timeout start)
  then have w: "may_wait (time_left timeout start (rt_tick k)) k" using assms(2) by simp
  then obtain c where c: "rt_current_thread k = Some c" by (auto simp: may_wait_def in_thread_context_def)
  show ?thesis
  proof (cases "th_error (thr k c) = RT_EOK")
    case True
    then show ?thesis using mq_recv_turn_ok [OF assms(1) w] c Mq_recv_again by (simp add: rt_mq_recv_resume_def)
  next
    case False
    then show ?thesis using c assms(1) Mq_recv_again by (simp add: rt_mq_recv_resume_def mq_got_def)
  qed
qed

text \<open>A new queue: all slots are free.\<close>

lemma mq_free_slots_fields:
  "mq_flag (mq_free_slots i n mq) = mq_flag mq" "msg_size (mq_free_slots i n mq) = msg_size mq" "max_msgs (mq_free_slots i n mq) = max_msgs mq"
  "mq_entry (mq_free_slots i n mq) = mq_entry mq" "msg_queue_head (mq_free_slots i n mq) = msg_queue_head mq"
  "msg_queue_tail (mq_free_slots i n mq) = msg_queue_tail mq" "mq_data (mq_free_slots i n mq) = mq_data mq"
  "mq_list (mq_free_slots i n mq) = mq_list mq" "mq_sender_list (mq_free_slots i n mq) = mq_sender_list mq"
  by (induction i n mq rule: mq_free_slots.induct) simp_all

lemma mq_free_slots_chain:
  "chain (mq_next mq) (msg_queue_free mq) (rev [0..<i]) \<Longrightarrow>
     chain (mq_next (mq_free_slots i n mq)) (msg_queue_free (mq_free_slots i n mq)) (rev [0..<i + n])"
proof (induction i n mq rule: mq_free_slots.induct)
  case (2 i n mq)
  have "chain ((mq_next mq)(i := msg_queue_free mq)) (msg_queue_free mq) (rev [0..<i])" using 2(2) by (subst chain_other) simp_all
  then show ?case using 2(1) by (simp add: fun_upd_def)
qed simp

lemma mq_setup_holds:
  assumes "maxm < 2 ^ 16" "\<And>i. i < maxm \<Longrightarrow> length (mem i) = msz"
  shows "mq_holds (mq_setup l ls mem msz maxm flag) []"
proof -
  have "mq_shape (mq_setup l ls mem msz maxm flag) [] (rev [0..<0 + maxm])"
    unfolding mq_shape_def mq_setup_def
    by (intro conjI mq_free_slots_chain) (use assms in \<open>auto simp: mq_free_slots_fields\<close>)
  then show ?thesis unfolding mq_holds_def by blast
qed

text \<open>Resetting: the loop over the messages ends within the number of slots and leaves an empty queue.\<close>

lemma unlink_shape: "mq_shape mq (m # q) fr \<Longrightarrow> mq_shape (mq_unlink m mq) q (m # fr)"
  by (auto simp: mq_shape_def unlink_fields chain_other)

lemma release_all_ok:
  "mq_shape (mq\<lparr>mq_entry := length q\<rparr>) q fr \<Longrightarrow> length q \<le> n \<Longrightarrow>
     \<exists>mq' fr'. mq_release_all n mq = Some mq' \<and> mq_shape (mq'\<lparr>mq_entry := 0\<rparr>) [] fr' \<and>
       mq_list mq' = mq_list mq \<and> mq_sender_list mq' = mq_sender_list mq \<and> mq_flag mq' = mq_flag mq"
proof (induction n arbitrary: mq q fr)
  case 0
  then show ?case by (auto simp: mq_shape_def)
next
  case (Suc n)
  show ?case
  proof (cases q)
    case Nil
    then show ?thesis using Suc.prems by (auto simp: mq_shape_def)
  next
    case (Cons m q')
    define mq1 where "mq1 = (mq_unlink m mq)\<lparr>mq_entry := mq_entry mq\<rparr>"
    have h: "msg_queue_head mq = Some m" using Suc.prems(1) Cons by (simp add: mq_shape_def)
    have "mq_unlink m (mq\<lparr>mq_entry := length q\<rparr>) = mq1\<lparr>mq_entry := length q'\<rparr>" by (simp add: mq_unlink_def mq1_def Let_def Cons)
    then have "mq_shape (mq1\<lparr>mq_entry := length q'\<rparr>) q' (m # fr)" using unlink_shape [of "mq\<lparr>mq_entry := length q\<rparr>" m q' fr] Suc.prems(1) Cons by simp
    from Suc.IH [OF this] Suc.prems(2) Cons h show ?thesis by (simp add: mq1_def [symmetric]) (simp add: mq1_def unlink_fields)
  qed
qed

lemma mq_reset_ok:
  assumes "mq_inv mq Q k"
  shows "\<exists>mq' k'. rt_mq_control True mq k = Some (RT_EOK, mq', k') \<and> mq_inv mq' [] k' \<and>
     suspend_thread k' ! mq_list mq = [] \<and> suspend_thread k' ! mq_sender_list mq = []"
proof -
  obtain q fr where s: "mq_shape mq q fr" using assms by (auto simp: mq_inv_def mq_holds_def)
  have "mq\<lparr>mq_entry := length q\<rparr> = mq" "length q \<le> max_msgs mq" using s slot_counts [OF s] by (simp_all add: mq_shape_def)
  with release_all_ok [where mq = mq and q = q and fr = fr and n = "max_msgs mq"] s obtain mq1 fr' where m: "mq_release_all (max_msgs mq) mq = Some mq1"
    "mq_shape (mq1\<lparr>mq_entry := 0\<rparr>) [] fr'" "mq_list mq1 = mq_list mq" "mq_sender_list mq1 = mq_sender_list mq" "mq_flag mq1 = mq_flag mq" by auto
  then have "mq_holds (mq1\<lparr>mq_entry := 0\<rparr>) []" unfolding mq_holds_def by auto
  moreover have "both_ok (mq_list mq) (mq_sender_list mq) (mq_flag mq) k" using assms by (simp add: mq_inv_def)
  then obtain k1 where k1: "ipc_resume_both (mq_list mq) (mq_sender_list mq) k = Some k1" "both_ok (mq_list mq) (mq_sender_list mq) (mq_flag mq) k1"
    "suspend_thread k1 ! mq_list mq = []" "suspend_thread k1 ! mq_sender_list mq = []" using resume_both_ok by blast
  ultimately show ?thesis using schedule_both [OF k1(2)] k1 m by (auto simp: rt_mq_control_def mq_inv_def)
qed

definition mq_refines :: "nat \<times> u8 list list \<Rightarrow> rt_messagequeue \<Rightarrow> kernel \<Rightarrow> bool" where
  "mq_refines a mq k \<longleftrightarrow> mq_inv mq (snd a) k \<and> fst a = max_msgs mq"

interpretation msgqueue: ipc_object mq_op_ok mq_exec mq_refines messages
proof (unfold_locales, goal_cases)
  case (3 a mq k op)
  then have a: "a = (max_msgs mq, snd a)" "mq_inv mq (snd a) k" by (auto simp: mq_refines_def intro: prod_eqI)
  from mq_exec_ok [OF a(2) 3(2)] obtain es mq' k' Q' where
    "mq_exec op mq k = Some (es, mq', k')" "replay messages a es = Some (max_msgs mq', Q')" "mq_inv mq' Q' k'" using a(1) by metis
  then show ?case unfolding mq_refines_def by (metis fst_conv snd_conv)
qed (auto simp: mq_refines_def mq_inv_def intro: both_good both_kept)

lemma messages_capacity: "replay messages a es = Some a' \<Longrightarrow> fst a' = fst a"
proof (induction es arbitrary: a)
  case (Cons e es)
  then show ?case by (cases a; cases e) (auto split: if_splits list.splits)
qed simp



end
