(* ===== verification/Kernel_Memory.thy ===== *)
theory Kernel_Memory
  imports Mcu_Prelude "HOL-Library.Monad_Syntax"
begin

text \<open>
  The memory and string functions of the kernel library
  (\<open>src/smart-building-mcu/rt-thread/src/kservice.c\<close>) on a byte-addressed memory: \<open>rt_memset\<close> and
  \<open>rt_memcpy\<close> with their loops over blocks of four words, single words and bytes, \<open>rt_memmove\<close>,
  \<open>rt_memcmp\<close> and the string functions.

  A memory is a function from addresses to bytes; a pointer is an address. The machine is
  little-endian, a \<open>long\<close> has four bytes and a plain \<open>char\<close> is unsigned, as on the ARM of the board.
  The functions that return their first argument return the memory here. A loop that looks for the
  end of a string may not end in a memory without a zero byte: such a call is \<open>None\<close>.
\<close>

type_synonym ram = "nat \<Rightarrow> u8"

named_theorems ram_simps \<open>reading a memory after a write\<close>

section \<open>Words in memory\<close>

definition load32 :: "ram \<Rightarrow> nat \<Rightarrow> u32" where
  "load32 m a = ucast (m a) OR push_bit 8 (ucast (m (a + 1))) OR
     push_bit 16 (ucast (m (a + 2))) OR push_bit 24 (ucast (m (a + 3)))"

definition store32 :: "ram \<Rightarrow> nat \<Rightarrow> u32 \<Rightarrow> ram" where
  "store32 m a w = m(a := ucast w, a + 1 := ucast (drop_bit 8 w),
     a + 2 := ucast (drop_bit 16 w), a + 3 := ucast (drop_bit 24 w))"

definition load16 :: "ram \<Rightarrow> nat \<Rightarrow> u16" where
  "load16 m a = ucast (m a) OR push_bit 8 (ucast (m (a + 1)))"

definition store16 :: "ram \<Rightarrow> nat \<Rightarrow> u16 \<Rightarrow> ram" where
  "store16 m a w = m(a := ucast w, a + 1 := ucast (drop_bit 8 w))"

section \<open>Filling and copying\<close>

definition memset_word :: "u32 \<Rightarrow> u32" where
  "memset_word d = (let buffer = push_bit 8 d OR d in buffer OR push_bit 16 buffer)"

fun memset_blocks :: "u32 \<Rightarrow> ram \<Rightarrow> nat \<Rightarrow> nat \<Rightarrow> ram \<times> nat \<times> nat" where
  "memset_blocks buffer m aligned_addr count =
    (if count \<ge> 4 * 4 then
       let m1 = store32 m aligned_addr buffer;
           m2 = store32 m1 (aligned_addr + 4) buffer;
           m3 = store32 m2 (aligned_addr + 8) buffer;
           m4 = store32 m3 (aligned_addr + 12) buffer
       in memset_blocks buffer m4 (aligned_addr + 16) (count - 4 * 4)
     else (m, aligned_addr, count))"

fun memset_words :: "u32 \<Rightarrow> ram \<Rightarrow> nat \<Rightarrow> nat \<Rightarrow> ram \<times> nat \<times> nat" where
  "memset_words buffer m aligned_addr count =
    (if count \<ge> 4 then memset_words buffer (store32 m aligned_addr buffer) (aligned_addr + 4) (count - 4)
     else (m, aligned_addr, count))"

fun memset_bytes :: "u8 \<Rightarrow> ram \<Rightarrow> nat \<Rightarrow> nat \<Rightarrow> ram" where
  "memset_bytes d m a 0 = m"
| "memset_bytes d m a (Suc count) = memset_bytes d (m(a := d)) (a + 1) count"

definition rt_memset :: "ram \<Rightarrow> nat \<Rightarrow> u32 \<Rightarrow> nat \<Rightarrow> ram" where
  "rt_memset m s c count =
    (let d = c AND 0xff
     in if \<not> count < 4 \<and> s mod 4 = 0
        then let (m1, a1, n1) = memset_blocks (memset_word d) m s count;
                 (m2, a2, n2) = memset_words (memset_word d) m1 a1 n1
             in memset_bytes (ucast d) m2 a2 n2
        else memset_bytes (ucast d) m s count)"

definition copy_word :: "ram \<Rightarrow> nat \<Rightarrow> nat \<Rightarrow> ram" where
  "copy_word m dst src = store32 m dst (load32 m src)"

fun memcpy_blocks :: "ram \<Rightarrow> nat \<Rightarrow> nat \<Rightarrow> nat \<Rightarrow> ram \<times> nat \<times> nat \<times> nat" where
  "memcpy_blocks m aligned_dst aligned_src len =
    (if len \<ge> 16 then
       let m1 = copy_word m aligned_dst aligned_src;
           m2 = copy_word m1 (aligned_dst + 4) (aligned_src + 4);
           m3 = copy_word m2 (aligned_dst + 8) (aligned_src + 8);
           m4 = copy_word m3 (aligned_dst + 12) (aligned_src + 12)
       in memcpy_blocks m4 (aligned_dst + 16) (aligned_src + 16) (len - 16)
     else (m, aligned_dst, aligned_src, len))"

fun memcpy_words :: "ram \<Rightarrow> nat \<Rightarrow> nat \<Rightarrow> nat \<Rightarrow> ram \<times> nat \<times> nat \<times> nat" where
  "memcpy_words m aligned_dst aligned_src len =
    (if len \<ge> 4 then
       memcpy_words (copy_word m aligned_dst aligned_src) (aligned_dst + 4) (aligned_src + 4) (len - 4)
     else (m, aligned_dst, aligned_src, len))"

fun memcpy_bytes :: "ram \<Rightarrow> nat \<Rightarrow> nat \<Rightarrow> nat \<Rightarrow> ram" where
  "memcpy_bytes m dst src 0 = m"
| "memcpy_bytes m dst src (Suc len) = memcpy_bytes (m(dst := m src)) (dst + 1) (src + 1) len"

definition rt_memcpy :: "ram \<Rightarrow> nat \<Rightarrow> nat \<Rightarrow> nat \<Rightarrow> ram" where
  "rt_memcpy m dst src count =
    (if \<not> count < 16 \<and> src mod 4 = 0 \<and> dst mod 4 = 0
     then let (m1, d1, s1, n1) = memcpy_blocks m dst src count;
              (m2, d2, s2, n2) = memcpy_words m1 d1 s1 n1
          in memcpy_bytes m2 d2 s2 n2
     else memcpy_bytes m dst src count)"

fun memmove_down :: "ram \<Rightarrow> nat \<Rightarrow> nat \<Rightarrow> nat \<Rightarrow> ram" where
  "memmove_down m tmp s 0 = m"
| "memmove_down m tmp s (Suc n) = memmove_down (m(tmp - 1 := m (s - 1))) (tmp - 1) (s - 1) n"

definition rt_memmove :: "ram \<Rightarrow> nat \<Rightarrow> nat \<Rightarrow> nat \<Rightarrow> ram" where
  "rt_memmove m dest src n =
    (if src < dest \<and> dest < src + n then memmove_down m (dest + n) (src + n) n
     else memcpy_bytes m dest src n)"

fun rt_memcmp :: "ram \<Rightarrow> nat \<Rightarrow> nat \<Rightarrow> nat \<Rightarrow> int" where
  "rt_memcmp m cs ct 0 = 0"
| "rt_memcmp m cs ct (Suc count) =
    (let res = uint (m cs) - uint (m ct) in if res \<noteq> 0 then res else rt_memcmp m (cs + 1) (ct + 1) count)"

declare memset_blocks.simps [simp del] memset_words.simps [simp del]
  memcpy_blocks.simps [simp del] memcpy_words.simps [simp del]

section \<open>Words\<close>

lemma load32_bytes:
  "ucast (load32 m a) = m a"
  "ucast (drop_bit 8 (load32 m a)) = m (a + 1)"
  "ucast (drop_bit 16 (load32 m a)) = m (a + 2)"
  "ucast (drop_bit 24 (load32 m a)) = m (a + 3)"
  by (rule bit_word_eqI, auto simp: load32_def bit_simps dest: bit_imp_le_length)+

lemma load32_store32 [ram_simps]: "load32 (store32 m a w) a = w"
proof (rule bit_word_eqI)
  fix n :: nat
  assume "n < LENGTH(32)"
  then consider "n < 8" | "8 \<le> n" "n < 16" | "16 \<le> n" "n < 24" | "24 \<le> n" "n < 32" by fastforce
  then show "bit (load32 (store32 m a w) a) n = bit w n"
    by cases (auto simp: load32_def store32_def bit_simps)
qed

lemma load16_store16 [ram_simps]: "load16 (store16 m a w) a = w"
proof (rule bit_word_eqI)
  fix n :: nat
  assume "n < LENGTH(16)"
  then consider "n < 8" | "8 \<le> n" "n < 16" by fastforce
  then show "bit (load16 (store16 m a w) a) n = bit w n"
    by cases (auto simp: load16_def store16_def bit_simps)
qed

text \<open>A write leaves every disjoint word alone.\<close>

lemma store_other [ram_simps]:
  "b < a \<or> a + 4 \<le> b \<Longrightarrow> store32 m a w b = m b"
  "b < a \<or> a + 2 \<le> b \<Longrightarrow> store16 m a v b = m b"
  by (auto simp: store32_def store16_def)

lemma load_same:
  "(\<And>i. i < 4 \<Longrightarrow> m' (a + i) = m (a + i)) \<Longrightarrow> load32 m' a = load32 m a"
  "(\<And>i. i < 2 \<Longrightarrow> m' (a + i) = m (a + i)) \<Longrightarrow> load16 m' a = load16 m a"
proof -
  assume e: "\<And>i. i < 4 \<Longrightarrow> m' (a + i) = m (a + i)"
  show "load32 m' a = load32 m a"
    using e [of 0] e [of 1] e [of 2] e [of 3] by (simp add: load32_def)
next
  assume e: "\<And>i. i < 2 \<Longrightarrow> m' (a + i) = m (a + i)"
  show "load16 m' a = load16 m a" using e [of 0] e [of 1] by (simp add: load16_def)
qed

lemma load_store_other [ram_simps]:
  "b + 4 \<le> a \<or> a + 4 \<le> b \<Longrightarrow> load32 (store32 m a w) b = load32 m b"
  "b + 4 \<le> a \<or> a + 2 \<le> b \<Longrightarrow> load32 (store16 m a v) b = load32 m b"
  "b + 2 \<le> a \<or> a + 4 \<le> b \<Longrightarrow> load16 (store32 m a w) b = load16 m b"
  "b + 2 \<le> a \<or> a + 2 \<le> b \<Longrightarrow> load16 (store16 m a v) b = load16 m b"
  by (rule load_same, auto simp: store_other)+

section \<open>Filling\<close>

text \<open>What filling and copying do, as functions on the whole memory.\<close>

definition ram_fill :: "ram \<Rightarrow> nat \<Rightarrow> u8 \<Rightarrow> nat \<Rightarrow> ram" where
  "ram_fill m s d n = (\<lambda>a. if s \<le> a \<and> a < s + n then d else m a)"

definition ram_copy :: "ram \<Rightarrow> nat \<Rightarrow> nat \<Rightarrow> nat \<Rightarrow> ram" where
  "ram_copy m dst src n = (\<lambda>a. if dst \<le> a \<and> a < dst + n then m (src + (a - dst)) else m a)"

lemma ram_fill_0 [simp]: "ram_fill m s d 0 = m"
  by (auto simp: ram_fill_def fun_eq_iff)

lemma ram_copy_0 [simp]: "ram_copy m dst src 0 = m"
  by (auto simp: ram_copy_def fun_eq_iff)

lemma ram_fill_add: "ram_fill (ram_fill m s d n) (s + n) d k = ram_fill m s d (n + k)"
  by (auto simp: ram_fill_def fun_eq_iff)

lemma ram_copy_add:
  "dst \<le> src \<or> src + (n + k) \<le> dst \<Longrightarrow>
   ram_copy (ram_copy m dst src n) (dst + n) (src + n) k = ram_copy m dst src (n + k)"
  by (rule ext) (auto simp: ram_copy_def algebra_simps)

lemma memset_bytes_fill: "memset_bytes d m s n = ram_fill m s d n"
proof (induction n arbitrary: m s)
  case (Suc n)
  have "m(s := d) = ram_fill m s d 1" by (auto simp: ram_fill_def)
  then show ?case using ram_fill_add [of m s d 1 n] Suc by simp
qed simp

lemma store_memset_word:
  "store32 m a (memset_word (c AND 0xff)) = ram_fill m a (ucast (c AND 0xff)) 4"
proof -
  let ?w = "memset_word (c AND 0xff)" and ?d = "ucast (c AND 0xff) :: u8"
  have mask: "(0xff :: 32 word) = Bit_Operations.mask 8" by (simp add: mask_eq_exp_minus_1)
  have b: "ucast ?w = ?d" "ucast (drop_bit 8 ?w) = ?d" "ucast (drop_bit 16 ?w) = ?d"
    "ucast (drop_bit 24 ?w) = ?d"
    unfolding memset_word_def Let_def mask
    by (rule bit_word_eqI, simp add: bit_simps)+
  show ?thesis
    by (rule ext, unfold store32_def b) (auto simp: ram_fill_def)
qed

lemma memset_words_fill:
  assumes "d = c AND 0xff"
  shows "memset_words (memset_word d) m a n =
     (ram_fill m a (ucast d) (4 * (n div 4)), a + 4 * (n div 4), n mod 4)"
proof (induction "memset_word d" m a n rule: memset_words.induct)
  case (1 m a n)
  show ?case
  proof (cases "n \<ge> 4")
    case True
    obtain k where k: "n = 4 + k" using True by (auto simp: le_iff_add)
    moreover have "n div 4 = Suc (k div 4)" using k by simp
    ultimately show ?thesis
      using 1 ram_fill_add [of m a "ucast d" 4 "4 * (k div 4)"] assms
      by (subst memset_words.simps) (simp add: store_memset_word add.assoc)
  qed (subst memset_words.simps, simp)
qed

lemma memset_blocks_fill:
  assumes "d = c AND 0xff"
  shows "memset_blocks (memset_word d) m a n =
     (ram_fill m a (ucast d) (16 * (n div 16)), a + 16 * (n div 16), n mod 16)"
proof (induction "memset_word d" m a n rule: memset_blocks.induct)
  case (1 m a n)
  show ?case
  proof (cases "n \<ge> 16")
    case True
    obtain k where k: "n = 16 + k" using True by (auto simp: le_iff_add)
    have f: "store32 (store32 (store32 (store32 m a (memset_word d)) (a + 4) (memset_word d))
       (a + 8) (memset_word d)) (a + 12) (memset_word d) = ram_fill m a (ucast d) 16"
      using ram_fill_add [of m a "ucast d" 4 4] ram_fill_add [of m a "ucast d" 8 4]
        ram_fill_add [of m a "ucast d" 12 4] assms
      by (simp add: store_memset_word)
    have "n div 16 = Suc (k div 16)" using k by simp
    then show ?thesis
      using 1 f k ram_fill_add [of m a "ucast d" 16 "16 * (k div 16)"]
      by (subst memset_blocks.simps) (simp add: Let_def add.assoc)
  qed (subst memset_blocks.simps, simp)
qed

lemma rt_memset_eq: "rt_memset m s c n = ram_fill m s (ucast (c AND 0xff)) n"
proof -
  have e: "16 * (n div 16) + (4 * (n mod 16 div 4) + n mod 16 mod 4) = n" by simp
  show ?thesis
    using e unfolding rt_memset_def Let_def
    by (simp add: memset_blocks_fill [OF refl] memset_words_fill [OF refl] memset_bytes_fill
        ram_fill_add add.assoc)
qed

section \<open>Copying\<close>

lemma memcpy_bytes_copy:
  "dst \<le> src \<or> src + n \<le> dst \<Longrightarrow> memcpy_bytes m dst src n = ram_copy m dst src n"
proof (induction n arbitrary: m dst src)
  case (Suc n)
  have "m(dst := m src) = ram_copy m dst src 1" by (auto simp: ram_copy_def)
  then show ?case using ram_copy_add [of dst src 1 n m] Suc by (auto simp: less_eq_Suc_le)
qed simp

lemma copy_word_copy: "copy_word m dst src = ram_copy m dst src 4"
  by (rule ext, unfold copy_word_def store32_def load32_bytes)
    (auto simp: ram_copy_def numeral_eq_Suc le_less_Suc_eq less_Suc_eq)

lemma memcpy_words_copy:
  "dst \<le> src \<or> src + n \<le> dst \<Longrightarrow> memcpy_words m dst src n =
     (ram_copy m dst src (4 * (n div 4)), dst + 4 * (n div 4), src + 4 * (n div 4), n mod 4)"
proof (induction m dst src n rule: memcpy_words.induct)
  case (1 m dst src n)
  show ?case
  proof (cases "n \<ge> 4")
    case True
    obtain k where k: "n = 4 + k" using True by (auto simp: le_iff_add)
    moreover have "n div 4 = Suc (k div 4)" using k by simp
    moreover have "dst \<le> src \<or> src + (4 + 4 * (k div 4)) \<le> dst"
      using 1(2) k times_div_less_eq_dividend [of 4 k] by linarith
    ultimately show ?thesis
      using 1 ram_copy_add [of dst src 4 "4 * (k div 4)" m]
      by (subst memcpy_words.simps) (auto simp: copy_word_copy add.assoc)
  qed (subst memcpy_words.simps, simp)
qed

lemma memcpy_blocks_copy:
  "dst \<le> src \<or> src + n \<le> dst \<Longrightarrow> memcpy_blocks m dst src n =
     (ram_copy m dst src (16 * (n div 16)), dst + 16 * (n div 16), src + 16 * (n div 16), n mod 16)"
proof (induction m dst src n rule: memcpy_blocks.induct)
  case (1 m dst src n)
  show ?case
  proof (cases "n \<ge> 16")
    case True
    obtain k where k: "n = 16 + k" using True by (auto simp: le_iff_add)
    have d: "dst \<le> src \<or> src + 16 \<le> dst" using 1(2) k by linarith
    have f: "copy_word (copy_word (copy_word (copy_word m dst src) (dst + 4) (src + 4))
       (dst + 8) (src + 8)) (dst + 12) (src + 12) = ram_copy m dst src 16"
      using d ram_copy_add [of dst src 4 4 m] ram_copy_add [of dst src 8 4 m]
        ram_copy_add [of dst src 12 4 m]
      by (auto simp: copy_word_copy)
    have "dst \<le> src \<or> src + (16 + 16 * (k div 16)) \<le> dst"
      using 1(2) k times_div_less_eq_dividend [of 16 k] by linarith
    moreover have "dst + 16 \<le> src + 16 \<or> src + 16 + (n - 16) \<le> dst + 16"
      using 1(2) k by linarith
    moreover have "n div 16 = Suc (k div 16)" using k by simp
    ultimately show ?thesis
      using 1(1) True f k ram_copy_add [of dst src 16 "16 * (k div 16)" m]
      by (subst memcpy_blocks.simps) (simp add: Let_def add.assoc)
  qed (subst memcpy_blocks.simps, simp)
qed

lemma rt_memcpy_eq:
  assumes "dst \<le> src \<or> src + n \<le> dst"
  shows "rt_memcpy m dst src n = ram_copy m dst src n"
proof -
  define a b c where "a = 16 * (n div 16)" and "b = 4 * (n mod 16 div 4)" and "c = n mod 16 mod 4"
  have e: "a + (b + c) = n" by (simp add: a_def b_def c_def)
  have o: "dst + k \<le> src + k \<or> src + k + j \<le> dst + k" if "k + j \<le> n" for k j
    using assms that by linarith
  have w: "memcpy_words m' (dst + a) (src + a) (n mod 16) =
      (ram_copy m' (dst + a) (src + a) b, dst + a + b, src + a + b, c)" for m'
    unfolding b_def c_def by (rule memcpy_words_copy) (rule o, simp add: a_def)
  have y: "memcpy_bytes m' (dst + (a + b)) (src + (a + b)) c =
      ram_copy m' (dst + (a + b)) (src + (a + b)) c" for m'
    by (rule memcpy_bytes_copy) (rule o, simp add: e [symmetric])
  have "ram_copy (ram_copy m dst src a) (dst + a) (src + a) b = ram_copy m dst src (a + b)"
    by (rule ram_copy_add) (use assms e in linarith)
  moreover have "ram_copy (ram_copy m dst src (a + b)) (dst + (a + b)) (src + (a + b)) c =
      ram_copy m dst src (a + b + c)"
    by (rule ram_copy_add) (use assms e in linarith)
  moreover have "memcpy_blocks m dst src n = (ram_copy m dst src a, dst + a, src + a, n mod 16)"
    unfolding a_def by (rule memcpy_blocks_copy [OF assms])
  ultimately show ?thesis
    using e w y memcpy_bytes_copy [OF assms]
    by (simp add: rt_memcpy_def add.assoc)
qed

lemma memmove_down_copy:
  "src \<le> dst \<Longrightarrow> memmove_down m (dst + n) (src + n) n = ram_copy m dst src n"
proof (induction n arbitrary: m)
  case (Suc n)
  have "ram_copy (m(dst + n := m (src + n))) dst src n = ram_copy m dst src (Suc n)"
    using Suc.prems by (auto simp: ram_copy_def fun_eq_iff less_Suc_eq)
  then show ?case using Suc by simp
qed simp

lemma rt_memmove_eq: "rt_memmove m dst src n = ram_copy m dst src n"
proof (cases "src < dst \<and> dst < src + n")
  case True
  then show ?thesis by (simp add: rt_memmove_def memmove_down_copy)
next
  case False
  then have "dst \<le> src \<or> src + n \<le> dst" by linarith
  then show ?thesis using False by (auto simp: rt_memmove_def memcpy_bytes_copy)
qed

text \<open>The result of \<open>rt_memcmp\<close> is the difference of the first two bytes that differ.\<close>

lemma rt_memcmp_eq_0: "rt_memcmp m a b n = 0 \<longleftrightarrow> (\<forall>i<n. m (a + i) = m (b + i))"
proof (induction n arbitrary: a b)
  case (Suc n)
  have "uint (m a) - uint (m b) = 0 \<longleftrightarrow> m a = m b" by (simp add: word_uint_eq_iff)
  then show ?case using Suc by (auto simp: Let_def less_Suc_eq_0_disj)
qed simp

lemma rt_memcmp_differs:
  "i < n \<Longrightarrow> (\<forall>j<i. m (a + j) = m (b + j)) \<Longrightarrow> m (a + i) \<noteq> m (b + i) \<Longrightarrow>
   rt_memcmp m a b n = uint (m (a + i)) - uint (m (b + i))"
proof (induction n arbitrary: a b i)
  case (Suc n)
  show ?case
  proof (cases i)
    case 0
    then show ?thesis using Suc.prems by (simp add: Let_def word_uint_eq_iff)
  next
    case (Suc k)
    have "m a = m b" using Suc.prems(2) Suc by auto
    moreover have "rt_memcmp m (a + 1) (b + 1) n = uint (m (a + 1 + k)) - uint (m (b + 1 + k))"
      using Suc.prems Suc by (intro Suc.IH) auto
    ultimately show ?thesis using Suc by simp
  qed
qed simp

section \<open>The memory functions\<close>

text \<open>C38: the block and word loops do what a loop over bytes does: \<open>rt_memset\<close> fills exactly the
  given bytes, \<open>rt_memmove\<close> copies a block to any place and \<open>rt_memcpy\<close> to any place that does not
  begin inside the source, all other bytes unchanged, and \<open>rt_memcmp\<close> is zero exactly for equal
  blocks and otherwise the difference of the first two bytes that differ.\<close>

theorem memory_functions:
  "rt_memset m s c n = ram_fill m s (ucast (c AND 0xff)) n \<and>
   (dst \<le> src \<or> src + n \<le> dst \<longrightarrow> rt_memcpy m dst src n = ram_copy m dst src n) \<and>
   rt_memmove m dst src n = ram_copy m dst src n \<and>
   (rt_memcmp m s src n = 0 \<longleftrightarrow> (\<forall>i<n. m (s + i) = m (src + i))) \<and>
   (\<forall>i<n. (\<forall>j<i. m (s + j) = m (src + j)) \<and> m (s + i) \<noteq> m (src + i) \<longrightarrow>
      rt_memcmp m s src n = uint (m (s + i)) - uint (m (src + i)))"
proof (intro conjI impI allI)
  show "rt_memset m s c n = ram_fill m s (ucast (c AND 0xff)) n" by (rule rt_memset_eq)
  show "dst \<le> src \<or> src + n \<le> dst \<Longrightarrow> rt_memcpy m dst src n = ram_copy m dst src n" by (rule rt_memcpy_eq)
  show "rt_memmove m dst src n = ram_copy m dst src n" by (rule rt_memmove_eq)
  show "rt_memcmp m s src n = 0 \<longleftrightarrow> (\<forall>i<n. m (s + i) = m (src + i))" by (rule rt_memcmp_eq_0)
next
  fix i
  assume "i < n" "(\<forall>j<i. m (s + j) = m (src + j)) \<and> m (s + i) \<noteq> m (src + i)"
  then show "rt_memcmp m s src n = uint (m (s + i)) - uint (m (src + i))"
    by (intro rt_memcmp_differs) simp_all
qed

theorem memory_functions_witness:
  "rt_memcpy of_nat 8 12 20 = ram_copy of_nat 8 12 20 \<and> rt_memcpy of_nat 8 12 20 27 = 31"
proof -
  have "rt_memcpy of_nat 8 12 20 = ram_copy of_nat 8 12 20"
    using memory_functions [of of_nat 8 0 20 8 12] by simp
  then show ?thesis by (simp add: ram_copy_def)
qed

end
