(* ===== verification/Kernel_String.thy ===== *)
theory Kernel_String
  imports Kernel_Memory
begin

text \<open>
  The string functions of the kernel library
  (\<open>src/smart-building-mcu/rt-thread/src/kservice.c\<close>): length, comparison, bounded copy and search,
  with their meaning on zero-terminated strings in memory.
\<close>

section \<open>The functions\<close>

partial_function (option) strlen_loop :: "ram \<Rightarrow> nat \<Rightarrow> nat option" where
  "strlen_loop m sc = (if m sc \<noteq> 0 then strlen_loop m (sc + 1) else Some sc)"

definition rt_strlen :: "ram \<Rightarrow> nat \<Rightarrow> nat option" where
  "rt_strlen m s = map_option (\<lambda>sc. sc - s) (strlen_loop m s)"

function strnlen_loop :: "ram \<Rightarrow> nat \<Rightarrow> nat \<Rightarrow> nat \<Rightarrow> nat" where
  "strnlen_loop m s maxlen sc =
    (if m sc \<noteq> 0 \<and> sc - s < maxlen then strnlen_loop m s maxlen (sc + 1) else sc)"
  by pat_completeness auto
termination by (relation "measure (\<lambda>(m, s, maxlen, sc). s + maxlen - sc)") auto

definition rt_strnlen :: "ram \<Rightarrow> nat \<Rightarrow> nat \<Rightarrow> nat" where
  "rt_strnlen m s maxlen = strnlen_loop m s maxlen s - s"

partial_function (option) rt_strcmp :: "ram \<Rightarrow> nat \<Rightarrow> nat \<Rightarrow> int option" where
  "rt_strcmp m cs ct =
    (if m cs \<noteq> 0 \<and> m cs = m ct then rt_strcmp m (cs + 1) (ct + 1)
     else Some (uint (m cs) - uint (m ct)))"

text \<open>The difference is kept in a \<open>signed char\<close>.\<close>

definition to_s8 :: "int \<Rightarrow> int" where
  "to_s8 x = (x + 2 ^ 7) mod 2 ^ 8 - 2 ^ 7"

fun rt_strncmp :: "ram \<Rightarrow> nat \<Rightarrow> nat \<Rightarrow> nat \<Rightarrow> int" where
  "rt_strncmp m cs ct 0 = 0"
| "rt_strncmp m cs ct (Suc count) =
    (let res = to_s8 (uint (m cs) - uint (m ct))
     in if res \<noteq> 0 \<or> m cs = 0 then res else rt_strncmp m (cs + 1) (ct + 1) count)"

definition lower :: "int \<Rightarrow> int" where
  "lower c = (if c \<ge> 65 \<and> c \<le> 90 then c + (97 - 65) else c)"

partial_function (option) rt_strcasecmp :: "ram \<Rightarrow> nat \<Rightarrow> nat \<Rightarrow> int option" where
  "rt_strcasecmp m a b =
    (let ca = lower (uint (m a)); cb = lower (uint (m b))
     in if ca = cb \<and> ca \<noteq> 0 then rt_strcasecmp m (a + 1) (b + 1) else Some (ca - cb))"

text \<open>The loop of \<open>rt_strncpy\<close> for a positive count \<open>n + 1\<close>; after the zero byte the rest of the
  field is filled by the inner loop.\<close>

fun strncpy_loop :: "ram \<Rightarrow> nat \<Rightarrow> nat \<Rightarrow> nat \<Rightarrow> ram" where
  "strncpy_loop m d s n =
    (let m1 = m(d := m s)
     in if m s = 0 then memset_bytes 0 m1 (d + 1) n
        else if n \<noteq> 0 then strncpy_loop m1 (d + 1) (s + 1) (n - 1) else m1)"

definition rt_strncpy :: "ram \<Rightarrow> nat \<Rightarrow> nat \<Rightarrow> nat \<Rightarrow> ram" where
  "rt_strncpy m dst src n = (if n \<noteq> 0 then strncpy_loop m dst src (n - 1) else m)"

function strstr_loop :: "ram \<Rightarrow> nat \<Rightarrow> nat \<Rightarrow> int \<Rightarrow> int \<Rightarrow> nat option" where
  "strstr_loop m s1 s2 l1 l2 =
    (if l1 \<ge> l2
     then if rt_memcmp m s1 s2 (nat l2) = 0 then Some s1 else strstr_loop m (s1 + 1) s2 (l1 - 1) l2
     else None)"
  by pat_completeness auto
termination by (relation "measure (\<lambda>(m, s1, s2, l1, l2). nat (l1 - l2 + 1))") auto

text \<open>The outer option is \<open>None\<close> when a string has no end, the inner one is \<open>RT_NULL\<close>.\<close>

definition rt_strstr :: "ram \<Rightarrow> nat \<Rightarrow> nat \<Rightarrow> nat option option" where
  "rt_strstr m s1 s2 =
    do { l2 \<leftarrow> rt_strlen m s2;
         if l2 = 0 then Some (Some s1)
         else do { l1 \<leftarrow> rt_strlen m s1; Some (strstr_loop m s1 s2 (int l1) (int l2)) } }"

declare strnlen_loop.simps [simp del] strncpy_loop.simps [simp del] strstr_loop.simps [simp del]

section \<open>Strings in memory\<close>

fun cstr :: "ram \<Rightarrow> nat \<Rightarrow> u8 list \<Rightarrow> bool" where
  "cstr m a [] \<longleftrightarrow> m a = 0"
| "cstr m a (c # s) \<longleftrightarrow> m a = c \<and> c \<noteq> 0 \<and> cstr m (a + 1) s"

lemma cstr_nth: "cstr m a s \<Longrightarrow> i < length s \<Longrightarrow> m (a + i) = s ! i"
  by (induction m a s arbitrary: i rule: cstr.induct) (auto simp: nth_Cons split: nat.split)

lemma cstr_end: "cstr m a s \<Longrightarrow> m (a + length s) = 0"
  by (induction m a s rule: cstr.induct) auto

lemma cstr_shift: "cstr m a s \<Longrightarrow> (\<And>i. i \<le> length s \<Longrightarrow> m' (b + i) = m (a + i)) \<Longrightarrow> cstr m' b s"
proof (induction m a s arbitrary: b rule: cstr.induct)
  case (1 m a)
  then show ?case using 1(2) [of 0] by simp
next
  case (2 m a c s)
  have "m' (b + 1 + i) = m (a + 1 + i)" if "i \<le> length s" for i
    using 2(3) [of "Suc i"] that by simp
  then show ?case using 2 2(3) [of 0] by simp
qed

lemmas cstr_cong = cstr_shift [where b = a and a = a for a]

lemma cstr_drop: "cstr m a s \<Longrightarrow> i \<le> length s \<Longrightarrow> cstr m (a + i) (drop i s)"
proof (induction m a s arbitrary: i rule: cstr.induct)
  case (2 m a c s)
  then show ?case by (cases i) auto
qed simp

lemma cstr_unique: "cstr m a s \<Longrightarrow> cstr m a t \<Longrightarrow> s = t"
proof (induction m a s arbitrary: t rule: cstr.induct)
  case (1 m a t)
  then show ?case by (cases t) auto
next
  case (2 m a c s t)
  then show ?case by (cases t) auto
qed

lemma cstr_nonzero: "cstr m a s \<Longrightarrow> 0 \<notin> set s"
  by (induction m a s rule: cstr.induct) auto

section \<open>Length\<close>

lemma strlen_loop_cstr: "cstr m a s \<Longrightarrow> strlen_loop m a = Some (a + length s)"
  by (induction m a s rule: cstr.induct) (subst strlen_loop.simps, simp)+

lemma rt_strlen_cstr [simp]: "cstr m a s \<Longrightarrow> rt_strlen m a = Some (length s)"
  by (simp add: rt_strlen_def strlen_loop_cstr)

lemma strnlen_loop_cstr:
  "cstr m (a + k) s \<Longrightarrow> k \<le> n \<Longrightarrow> strnlen_loop m a n (a + k) = a + min n (k + length s)"
proof (induction s arbitrary: k)
  case Nil
  then show ?case by (subst strnlen_loop.simps) simp
next
  case (Cons c s)
  show ?case
  proof (cases "k < n")
    case True
    then show ?thesis using Cons.prems Cons.IH [of "Suc k"] by (subst strnlen_loop.simps) simp
  next
    case False
    then show ?thesis using Cons.prems by (subst strnlen_loop.simps) simp
  qed
qed

lemma rt_strnlen_cstr: "cstr m a s \<Longrightarrow> rt_strnlen m a n = min n (length s)"
  using strnlen_loop_cstr [of m a 0 s n] by (simp add: rt_strnlen_def)

section \<open>Comparison\<close>

lemma uint_bounded8: "0 \<le> uint (c :: u8) \<and> uint c < 256"
  using uint_lt2p [of c] by simp

lemma to_s8_diff: "to_s8 (uint (c :: u8) - uint (d :: u8)) = 0 \<longleftrightarrow> c = d"
proof -
  let ?z = "uint c - uint d"
  have b: "\<bar>?z\<bar> < 256" using uint_bounded8 [of c] uint_bounded8 [of d] by linarith
  have "to_s8 ?z = 0 \<longleftrightarrow> (?z + 128) mod 256 = 128 mod 256" by (simp add: to_s8_def)
  also have "\<dots> \<longleftrightarrow> 256 dvd ?z" by (subst mod_eq_dvd_iff) simp
  also have "\<dots> \<longleftrightarrow> ?z = 0" using b dvd_imp_le_int [of ?z 256] by auto
  finally show ?thesis by (simp add: word_uint_eq_iff)
qed

lemma rt_strcmp_step: "m a \<noteq> 0 \<Longrightarrow> m a = m b \<Longrightarrow> rt_strcmp m a b = rt_strcmp m (a + 1) (b + 1)"
  by (subst rt_strcmp.simps) (rule if_P, blast)

lemma rt_strcmp_stop: "m a = 0 \<or> m a \<noteq> m b \<Longrightarrow> rt_strcmp m a b = Some (uint (m a) - uint (m b))"
  by (subst rt_strcmp.simps) (rule if_not_P, blast)

lemma rt_strcmp_0: "cstr m a s \<Longrightarrow> cstr m b t \<Longrightarrow> \<exists>r. rt_strcmp m a b = Some r \<and> (r = 0 \<longleftrightarrow> s = t)"
proof (induction s arbitrary: a b t)
  case Nil
  then show ?case by (cases t) (simp_all add: rt_strcmp_stop word_uint_eq_iff)
next
  case (Cons c s)
  show ?case
  proof (cases "m a = m b")
    case True
    then obtain u where "t = c # u" "cstr m (b + 1) u" using Cons.prems by (cases t) auto
    then show ?thesis using Cons.prems Cons.IH [of "a + 1" "b + 1" u] True
      by (simp add: rt_strcmp_step)
  next
    case False
    then show ?thesis using Cons.prems
      by (cases t) (simp_all add: rt_strcmp_stop word_uint_eq_iff)
  qed
qed

lemma rt_strncmp_0:
  "cstr m a s \<Longrightarrow> cstr m b t \<Longrightarrow> rt_strncmp m a b n = 0 \<longleftrightarrow> take n s = take n t"
proof (induction n arbitrary: a b s t)
  case (Suc n)
  show ?case
  proof (cases s)
    case Nil
    then show ?thesis using Suc.prems to_s8_diff [of 0 "m b"] by (cases t) (auto simp: Let_def)
  next
    case (Cons c u)
    then show ?thesis using Suc to_s8_diff [of c "m b"] by (cases t) (auto simp: Let_def)
  qed
qed simp

text \<open>Below 128 the sign of the result is that of the difference; above, the \<open>signed char\<close>
  loses it.\<close>

lemma to_s8_small: "c < 128 \<Longrightarrow> d < 128 \<Longrightarrow> to_s8 (uint (c :: u8) - uint (d :: u8)) = uint c - uint d"
proof -
  assume "c < 128" "d < 128"
  then have "uint c < 128" "uint d < 128" using word_less_def [of c 128] word_less_def [of d 128] by auto
  moreover have "0 \<le> uint c" "0 \<le> uint d" by (rule uint_ge_0)+
  ultimately have "(uint c - uint d + 128) mod 256 = uint c - uint d + 128"
    by (intro mod_pos_pos_trivial) linarith+
  then show ?thesis by (simp add: to_s8_def)
qed

definition lower_char :: "u8 \<Rightarrow> u8" where
  "lower_char c = (if 65 \<le> c \<and> c \<le> 90 then c + 32 else c)"

lemma uint_lower_char: "uint (lower_char c) = lower (uint c)"
proof (cases "65 \<le> c \<and> c \<le> 90")
  case True
  then have "65 \<le> uint c" "uint c \<le> 90" by (simp_all add: word_le_def)
  moreover have "uint (c + 32) = uint c + 32"
    using calculation by (subst uint_add_lem [THEN iffD1]) simp_all
  ultimately show ?thesis using True by (simp add: lower_char_def lower_def)
next
  case False
  then have "\<not> (65 \<le> uint c \<and> uint c \<le> 90)" by (simp add: word_le_def)
  then show ?thesis using False by (auto simp: lower_char_def lower_def)
qed

lemma lower_char_0: "lower_char c = 0 \<longleftrightarrow> c = 0"
proof -
  have "lower (uint c) = 0 \<longleftrightarrow> uint c = 0" using uint_ge_0 [of c] by (auto simp: lower_def simp del: uint_ge_0)
  then show ?thesis by (metis uint_lower_char uint_0_iff)
qed

lemma lower_char_zero [simp]: "lower_char 0 = 0"
  by (simp add: lower_char_0)

lemma rt_strcasecmp_unfold:
  "m a \<noteq> 0 \<Longrightarrow> lower_char (m a) = lower_char (m b) \<Longrightarrow> rt_strcasecmp m a b = rt_strcasecmp m (a + 1) (b + 1)"
  "m a = 0 \<or> lower_char (m a) \<noteq> lower_char (m b) \<Longrightarrow>
     rt_strcasecmp m a b = Some (uint (lower_char (m a)) - uint (lower_char (m b)))"
proof -
  have e: "lower (uint (m a)) = lower (uint (m b)) \<longleftrightarrow> lower_char (m a) = lower_char (m b)"
    "lower (uint (m a)) \<noteq> 0 \<longleftrightarrow> m a \<noteq> 0"
    by (metis uint_lower_char word_uint_eq_iff, metis uint_lower_char uint_0_iff lower_char_0)
  show "m a \<noteq> 0 \<Longrightarrow> lower_char (m a) = lower_char (m b) \<Longrightarrow> rt_strcasecmp m a b = rt_strcasecmp m (a + 1) (b + 1)"
    using e by (subst rt_strcasecmp.simps) (simp add: Let_def)
  show "m a = 0 \<or> lower_char (m a) \<noteq> lower_char (m b) \<Longrightarrow>
     rt_strcasecmp m a b = Some (uint (lower_char (m a)) - uint (lower_char (m b)))"
    using e by (subst rt_strcasecmp.simps) (auto simp add: Let_def uint_lower_char)
qed

lemma rt_strcasecmp_0:
  "cstr m a s \<Longrightarrow> cstr m b t \<Longrightarrow>
   \<exists>r. rt_strcasecmp m a b = Some r \<and> (r = 0 \<longleftrightarrow> map lower_char s = map lower_char t)"
proof (induction s arbitrary: a b t)
  case Nil
  then show ?case
    by (cases t) (auto simp add: rt_strcasecmp_unfold(2) uint_0_iff lower_char_0)
next
  case (Cons c s)
  show ?case
  proof (cases "lower_char (m a) = lower_char (m b)")
    case True
    then obtain d u where "t = d # u" "cstr m (b + 1) u"
      using Cons.prems lower_char_0 by (cases t) auto
    then show ?thesis using Cons.prems Cons.IH [of "a + 1" "b + 1" u] True
      by (simp add: rt_strcasecmp_unfold(1))
  next
    case False
    then show ?thesis using Cons.prems
      by (cases t) (simp_all add: rt_strcasecmp_unfold(2) word_uint_eq_iff [symmetric] uint_0_iff lower_char_0)
  qed
qed

section \<open>Copying\<close>

text \<open>The field receives the first \<open>n\<close> characters, padded with zero bytes.\<close>

definition name_field :: "nat \<Rightarrow> u8 list \<Rightarrow> u8 list" where
  "name_field n s = take n s @ replicate (n - length s) 0"

lemma length_name_field [simp]: "length (name_field n s) = n"
  by (simp add: name_field_def)

lemma strncpy_loop_end:
  "m src = 0 \<Longrightarrow> strncpy_loop m d src n = ram_fill (m(d := 0)) (d + 1) 0 n"
  by (subst strncpy_loop.simps) (simp add: memset_bytes_fill)

lemma strncpy_loop_char:
  "m src \<noteq> 0 \<Longrightarrow> strncpy_loop m d src n =
      (if n \<noteq> 0 then strncpy_loop (m(d := m src)) (d + 1) (src + 1) (n - 1) else m(d := m src))"
  by (subst strncpy_loop.simps) (simp add: Let_def)

definition put_field :: "ram \<Rightarrow> nat \<Rightarrow> u8 list \<Rightarrow> ram" where
  "put_field m d bs = (\<lambda>a. if d \<le> a \<and> a < d + length bs then bs ! (a - d) else m a)"

lemma put_field_Nil [simp]: "put_field m d [] = m"
  by (rule ext) (auto simp: put_field_def)

lemma put_field_Cons: "put_field m d (b # bs) = put_field (m(d := b)) (d + 1) bs"
proof (rule ext)
  fix a
  show "put_field m d (b # bs) a = put_field (m(d := b)) (d + 1) bs a"
    by (cases "d + 1 \<le> a") (auto simp: put_field_def nth_Cons')
qed

lemma put_field_zeros: "put_field m d (replicate n 0) = ram_fill m d 0 n"
  by (rule ext) (auto simp: put_field_def ram_fill_def)

lemma name_field_simps:
  "name_field 0 s = []"
  "name_field (Suc n) [] = 0 # replicate n 0"
  "name_field (Suc n) (c # s) = c # name_field n s"
  by (simp_all add: name_field_def)

lemma strncpy_loop_eq:
  "cstr m src s \<Longrightarrow> d + Suc n \<le> src \<or> src + length s < d \<Longrightarrow>
   strncpy_loop m d src n = put_field m d (name_field (Suc n) s)"
proof (induction s arbitrary: m d src n)
  case Nil
  then have "m src = 0" by simp
  then show ?case
    unfolding name_field_simps(2) put_field_Cons put_field_zeros by (rule strncpy_loop_end)
next
  case (Cons c u)
  have c: "m src = c" "m src \<noteq> 0" using Cons.prems by auto
  show ?case
  proof (cases n)
    case 0
    then show ?thesis using c
      unfolding strncpy_loop_char [of m src, OF c(2)] name_field_simps(3) put_field_Cons
      by (simp add: name_field_simps(1))
  next
    case (Suc k)
    have p: "d + 1 + Suc k \<le> src \<or> src + 1 + length u < d" using Cons.prems(2) Suc by auto
    then have o: "d + 1 + Suc k \<le> src + 1 \<or> src + 1 + length u < d + 1" by auto
    have "(m(d := c)) (src + 1 + i) = m (src + 1 + i)" if "i \<le> length u" for i
      using p that by auto
    then have "cstr (m(d := c)) (src + 1) u" using Cons.prems(1) cstr_cong [of m "src + 1" u] by simp
    then have "strncpy_loop (m(d := c)) (d + 1) (src + 1) k
        = put_field (m(d := c)) (d + 1) (name_field (Suc k) u)"
      using o by (rule Cons.IH)
    then show ?thesis
      unfolding name_field_simps(3) put_field_Cons Suc
      using strncpy_loop_char [of m src d "Suc k", OF c(2)] c(1) by simp
  qed
qed

lemma rt_strncpy_eq:
  assumes "cstr m src s" "d + n \<le> src \<or> src + length s < d"
  shows "rt_strncpy m d src n = put_field m d (name_field n s)"
  using strncpy_loop_eq [OF assms(1), of d "n - 1"] assms(2)
  by (cases n) (simp_all add: rt_strncpy_def name_field_simps)

text \<open>A shorter string is a string in the field; the field of a longer one has no end.\<close>

lemma cstr_put_field:
  "length s < n \<Longrightarrow> 0 \<notin> set s \<Longrightarrow> cstr (put_field m d (name_field n s)) d s"
proof (induction s arbitrary: m d n)
  case Nil
  then show ?case by (simp add: put_field_def name_field_def)
next
  case (Cons c s)
  then obtain k where k: "n = Suc k" "length s < k" by (cases n) auto
  then have "cstr (put_field (m(d := c)) (d + 1) (name_field k s)) (d + 1) s" using Cons by auto
  moreover have "put_field (m(d := c)) (d + 1) (name_field k s) d = c" by (simp add: put_field_def)
  ultimately show ?case using k Cons.prems by (simp add: name_field_simps put_field_Cons)
qed

section \<open>Search\<close>

text \<open>The first position of a non-empty string in another.\<close>

fun first_at :: "u8 list \<Rightarrow> u8 list \<Rightarrow> nat option" where
  "first_at t s =
    (if length s < length t then None
     else if take (length t) s = t then Some 0
     else case s of [] \<Rightarrow> None | c # u \<Rightarrow> map_option Suc (first_at t u))"

declare first_at.simps [simp del]

lemma memcmp_take:
  assumes "cstr m a s" "cstr m b t" "length t \<le> length s"
  shows "rt_memcmp m a b (length t) = 0 \<longleftrightarrow> take (length t) s = t"
  using assms by (simp add: rt_memcmp_eq_0 list_eq_iff_nth_eq cstr_nth)

lemma strstr_loop_first:
  "cstr m a s \<Longrightarrow> cstr m b t \<Longrightarrow> t \<noteq> [] \<Longrightarrow>
   strstr_loop m a b (int (length s)) (int (length t)) = map_option (\<lambda>i. a + i) (first_at t s)"
proof (induction s arbitrary: a)
  case Nil
  then show ?case by (subst strstr_loop.simps, subst first_at.simps) auto
next
  case (Cons c s)
  show ?case
  proof (cases "length t \<le> length (c # s) \<and> take (length t) (c # s) \<noteq> t")
    case True
    then have "strstr_loop m a b (int (length (c # s))) (int (length t))
        = strstr_loop m (a + 1) b (int (length s)) (int (length t))"
      using memcmp_take [OF Cons.prems(1,2)] by (subst strstr_loop.simps) simp
    also have "\<dots> = map_option ((+) (a + 1)) (first_at t s)"
      using Cons by auto
    also have "\<dots> = map_option (\<lambda>i. a + i) (map_option Suc (first_at t s))"
      by (cases "first_at t s") simp_all
    finally show ?thesis using True by (subst first_at.simps) auto
  next
    case False
    then show ?thesis using memcmp_take [OF Cons.prems(1,2)]
      by (subst strstr_loop.simps, subst first_at.simps) auto
  qed
qed

lemma first_at_Some:
  "first_at t s = Some i \<longleftrightarrow>
   i + length t \<le> length s \<and> take (length t) (drop i s) = t \<and>
   (\<forall>j<i. take (length t) (drop j s) \<noteq> t)"
proof (induction t s arbitrary: i rule: first_at.induct)
  case (1 t s)
  show ?case
  proof (cases "length s < length t")
    case True
    then show ?thesis by (subst first_at.simps) auto
  next
    case f: False
    show ?thesis
    proof (cases "take (length t) s = t")
      case True
      then show ?thesis using f by (subst first_at.simps) auto
    next
      case False
      show ?thesis
      proof (cases s)
        case Nil
        then show ?thesis using False f by (subst first_at.simps) auto
      next
        case (Cons c u)
        have "first_at t s = map_option Suc (first_at t u)"
          using f False Cons by (subst first_at.simps) simp
        then show ?thesis using 1 [OF f False Cons] f False Cons
          by (cases i) (auto simp: less_Suc_eq_0_disj)
      qed
    qed
  qed
qed

lemma rt_strstr_first:
  assumes "cstr m a s" "cstr m b t"
  shows "rt_strstr m a b =
     Some (if t = [] then Some a else map_option (\<lambda>i. a + i) (first_at t s))"
  using assms by (simp add: rt_strstr_def strstr_loop_first)

section \<open>The string functions\<close>

text \<open>C17: on zero-terminated strings in memory the string functions return, with the length, with a
  comparison that is zero exactly for equal strings (equal beginnings for \<open>rt_strncmp\<close>, equal up to
  letter case for \<open>rt_strcasecmp\<close>) and with the first occurrence for \<open>rt_strstr\<close>; and
  \<open>rt_strncpy\<close> to a field that does not touch the source fills it with the beginning of the string
  and zero bytes, which is a string again when there is room for its end.\<close>

theorem string_functions:
  assumes "cstr m a s" "cstr m b t"
  shows "rt_strlen m a = Some (length s) \<and> rt_strnlen m a n = min n (length s) \<and>
    (\<exists>r. rt_strcmp m a b = Some r \<and> (r = 0 \<longleftrightarrow> s = t)) \<and>
    (rt_strncmp m a b n = 0 \<longleftrightarrow> take n s = take n t) \<and>
    (\<exists>r. rt_strcasecmp m a b = Some r \<and> (r = 0 \<longleftrightarrow> map lower_char s = map lower_char t)) \<and>
    rt_strstr m a b = Some (if t = [] then Some a else map_option (\<lambda>i. a + i) (first_at t s)) \<and>
    (d + n \<le> a \<or> a + length s < d \<longrightarrow>
       rt_strncpy m d a n = put_field m d (name_field n s) \<and>
       (length s < n \<longrightarrow> cstr (rt_strncpy m d a n) d s))"
proof (intro conjI impI)
  show "\<exists>r. rt_strcmp m a b = Some r \<and> (r = 0 \<longleftrightarrow> s = t)" by (rule rt_strcmp_0 [OF assms])
  show "\<exists>r. rt_strcasecmp m a b = Some r \<and> (r = 0 \<longleftrightarrow> map lower_char s = map lower_char t)"
    by (rule rt_strcasecmp_0 [OF assms])
  assume d: "d + n \<le> a \<or> a + length s < d"
  show "rt_strncpy m d a n = put_field m d (name_field n s)" by (rule rt_strncpy_eq [OF assms(1) d])
  then show "length s < n \<Longrightarrow> cstr (rt_strncpy m d a n) d s"
    using cstr_put_field [of s n m d] cstr_nonzero [OF assms(1)] by simp
qed (use assms rt_strncmp_0 [OF assms] rt_strstr_first [OF assms] in \<open>simp_all add: rt_strnlen_cstr\<close>)

theorem string_functions_witness:
  "\<exists>m. cstr m 0 [104, 101, 97, 112] \<and> cstr m 5 [97, 112] \<and> rt_strstr m 0 5 = Some (Some 2) \<and>
     rt_strlen m 0 = Some 4 \<and> cstr (rt_strncpy m 8 0 5) 8 [104, 101, 97, 112]"
proof -
  define m :: ram where "m = (\<lambda>i. if i < 8 then [104, 101, 97, 112, 0, 97, 112, 0] ! i else 0)"
  have c: "cstr m 0 [104, 101, 97, 112]" "cstr m 5 [97, 112]" by (simp_all add: m_def nth_Cons')
  have f: "first_at [97, 112] [104, 101, 97, 112 :: u8] = Some 2"
    by (auto simp: first_at_Some less_2_cases_iff)
  note r = string_functions [where d = 8 and n = 5, OF c]
  have "rt_strlen m 0 = Some 4" "rt_strstr m 0 5 = Some (Some 2)"
    using r f by (simp_all del: cstr.simps)
  moreover have "8 + 5 \<le> (0 :: nat) \<or> 0 + length [104, 101, 97, 112 :: u8] < 8 \<longrightarrow>
      length [104, 101, 97, 112 :: u8] < 5 \<longrightarrow> cstr (rt_strncpy m 8 0 5) 8 [104, 101, 97, 112]"
    using r by blast
  then have "cstr (rt_strncpy m 8 0 5) 8 [104, 101, 97, 112]" by (simp del: cstr.simps)
  ultimately show ?thesis using c by (intro exI [of _ m] conjI)
qed

end
