(* ===== verification/Kernel_Heap.thy ===== *)
theory Kernel_Heap
  imports Kernel_String
begin

text \<open>
  The system heap (\<open>src/smart-building-mcu/rt-thread/src/mem.c\<close>), the allocator behind
  \<open>rt_malloc\<close>: blocks laid out one after the other in a byte-addressed memory, each with a header of
  twelve bytes that holds a magic number, a used flag and the offsets of its neighbours.

  Headers are read from and written to the memory itself, field by field, so that the allocator
  and its clients work on the same bytes. Pointers are addresses, \<open>0\<close> is \<open>RT_NULL\<close>; sizes and
  offsets are 32-bit quantities, with their wrap-around written out where it can happen. The build has
  \<open>RT_USING_SMALL_MEM\<close>, an alignment of four bytes, no memory trace, and keeps statistics.

  The semaphore of the heap makes every critical section one step and is not a field. \<open>None\<close> stands
  for a failed assertion or a loop that does not end.
\<close>

section \<open>Data\<close>

record heap =
  ram :: ram
  heap_ptr :: nat
  heap_end :: nat
  lfree :: nat
  mem_size_aligned :: nat
  used_mem :: nat
  max_mem :: nat
  interrupt_nest :: nat

abbreviation (input) "SIZEOF_STRUCT_MEM \<equiv> 12 :: nat"
abbreviation (input) "MIN_SIZE \<equiv> 12 :: nat"
abbreviation (input) "MIN_SIZE_ALIGNED \<equiv> 12 :: nat"
abbreviation (input) "HEAP_MAGIC \<equiv> 0x1ea0 :: u16"

definition RT_ALIGN :: "nat \<Rightarrow> nat \<Rightarrow> nat" where
  "RT_ALIGN sz align = unat ((of_nat sz + of_nat align - 1) AND NOT (of_nat align - 1) :: u32)"

definition RT_ALIGN_DOWN :: "nat \<Rightarrow> nat \<Rightarrow> nat" where
  "RT_ALIGN_DOWN sz align = unat (of_nat sz AND NOT (of_nat align - 1) :: u32)"

definition add_u32 :: "nat \<Rightarrow> nat \<Rightarrow> nat" where
  "add_u32 a b = (a + b) mod 2 ^ 32"

text \<open>The fields of the header at an address.\<close>

definition hd_magic :: "ram \<Rightarrow> nat \<Rightarrow> u16" where "hd_magic m a = load16 m a"
definition hd_used :: "ram \<Rightarrow> nat \<Rightarrow> u16" where "hd_used m a = load16 m (a + 2)"
definition hd_next :: "ram \<Rightarrow> nat \<Rightarrow> nat" where "hd_next m a = unat (load32 m (a + 4))"
definition hd_prev :: "ram \<Rightarrow> nat \<Rightarrow> nat" where "hd_prev m a = unat (load32 m (a + 8))"

definition set_magic :: "nat \<Rightarrow> u16 \<Rightarrow> ram \<Rightarrow> ram" where "set_magic a v m = store16 m a v"
definition set_used :: "nat \<Rightarrow> u16 \<Rightarrow> ram \<Rightarrow> ram" where "set_used a v m = store16 m (a + 2) v"
definition set_next :: "nat \<Rightarrow> nat \<Rightarrow> ram \<Rightarrow> ram" where "set_next a v m = store32 m (a + 4) (of_nat v)"
definition set_prev :: "nat \<Rightarrow> nat \<Rightarrow> ram \<Rightarrow> ram" where "set_prev a v m = store32 m (a + 8) (of_nat v)"

section \<open>Operations\<close>

definition plug_forward :: "nat \<Rightarrow> heap \<Rightarrow> heap" where
  "plug_forward mem h =
    (let nmem = heap_ptr h + hd_next (ram h) mem
     in if mem \<noteq> nmem \<and> hd_used (ram h) nmem = 0 \<and> nmem \<noteq> heap_end h
        then let h1 = (if lfree h = nmem then h\<lparr>lfree := mem\<rparr> else h);
                 m1 = set_next mem (hd_next (ram h1) nmem) (ram h1);
                 m2 = set_prev (heap_ptr h1 + hd_next m1 nmem) (mem - heap_ptr h1) m1
             in h1\<lparr>ram := m2\<rparr>
        else h)"

definition plug_backward :: "nat \<Rightarrow> heap \<Rightarrow> heap" where
  "plug_backward mem h =
    (let pmem = heap_ptr h + hd_prev (ram h) mem
     in if pmem \<noteq> mem \<and> hd_used (ram h) pmem = 0
        then let h1 = (if lfree h = mem then h\<lparr>lfree := pmem\<rparr> else h);
                 m1 = set_next pmem (hd_next (ram h1) mem) (ram h1);
                 m2 = set_prev (heap_ptr h1 + hd_next m1 mem) (pmem - heap_ptr h1) m1
             in h1\<lparr>ram := m2\<rparr>
        else h)"

definition plug_holes :: "nat \<Rightarrow> heap \<Rightarrow> heap option" where
  "plug_holes mem h =
    (if mem \<ge> heap_ptr h \<and> mem < heap_end h \<and> hd_used (ram h) mem = 0
     then Some (plug_backward mem (plug_forward mem h)) else None)"

definition rt_system_heap_init :: "nat \<Rightarrow> nat \<Rightarrow> heap \<Rightarrow> heap option" where
  "rt_system_heap_init begin_addr end_addr h =
    (let begin_align = RT_ALIGN begin_addr 4;
         end_align = RT_ALIGN_DOWN end_addr 4
     in if interrupt_nest h \<noteq> 0 then None
        else if end_align > 2 * SIZEOF_STRUCT_MEM \<and> end_align - 2 * SIZEOF_STRUCT_MEM \<ge> begin_align
        then let sz = end_align - begin_align - 2 * SIZEOF_STRUCT_MEM;
                 mem = begin_align;
                 last_entry = begin_align + (sz + SIZEOF_STRUCT_MEM);
                 m1 = set_used mem 0 (set_prev mem 0 (set_next mem (sz + SIZEOF_STRUCT_MEM)
                   (set_magic mem HEAP_MAGIC (ram h))));
                 m2 = set_prev last_entry (sz + SIZEOF_STRUCT_MEM)
                   (set_next last_entry (sz + SIZEOF_STRUCT_MEM)
                   (set_used last_entry 1 (set_magic last_entry HEAP_MAGIC m1)))
             in Some (h\<lparr>mem_size_aligned := sz, heap_ptr := begin_align, ram := m2,
                  heap_end := last_entry, lfree := begin_align\<rparr>)
        else Some h)"

text \<open>The search of \<open>rt_malloc\<close> from an offset on: \<open>Some None\<close> when it leaves the heap.\<close>

definition user_size :: "heap \<Rightarrow> nat \<Rightarrow> nat" where
  "user_size h ptr =
     sub_u32 (hd_next (ram h) (heap_ptr h + ptr)) (add_u32 ptr SIZEOF_STRUCT_MEM)"

partial_function (option) malloc_search :: "heap \<Rightarrow> nat \<Rightarrow> nat \<Rightarrow> nat option option" where
  "malloc_search h sz ptr =
    (if ptr < sub_u32 (mem_size_aligned h) sz
     then if hd_used (ram h) (heap_ptr h + ptr) = 0 \<and> user_size h ptr \<ge> sz then Some (Some ptr)
          else malloc_search h sz (hd_next (ram h) (heap_ptr h + ptr))
     else Some None)"

definition count_used :: "nat \<Rightarrow> heap \<Rightarrow> heap" where
  "count_used n h =
    (let u = add_u32 (used_mem h) n in h\<lparr>used_mem := u, max_mem := (if max_mem h < u then u else max_mem h)\<rparr>)"

definition malloc_split :: "nat \<Rightarrow> nat \<Rightarrow> heap \<Rightarrow> heap" where
  "malloc_split sz ptr h =
    (let mem = heap_ptr h + ptr;
         ptr2 = add_u32 (add_u32 ptr SIZEOF_STRUCT_MEM) sz;
         mem2 = heap_ptr h + ptr2;
         m1 = set_prev mem2 ptr (set_next mem2 (hd_next (ram h) mem)
           (set_used mem2 0 (set_magic mem2 HEAP_MAGIC (ram h))));
         m2 = set_used mem 1 (set_next mem ptr2 m1);
         m3 = (if hd_next m2 mem2 \<noteq> add_u32 (mem_size_aligned h) SIZEOF_STRUCT_MEM
               then set_prev (heap_ptr h + hd_next m2 mem2) ptr2 m2 else m2)
     in count_used (add_u32 sz SIZEOF_STRUCT_MEM) (h\<lparr>ram := m3\<rparr>))"

definition malloc_take :: "nat \<Rightarrow> nat \<Rightarrow> heap \<Rightarrow> heap" where
  "malloc_take sz ptr h =
    (let mem = heap_ptr h + ptr;
         h1 = (if user_size h ptr \<ge> add_u32 (add_u32 sz SIZEOF_STRUCT_MEM) MIN_SIZE_ALIGNED
               then malloc_split sz ptr h
               else let m1 = set_used mem 1 (ram h)
                    in count_used (sub_u32 (hd_next m1 mem) ptr) (h\<lparr>ram := m1\<rparr>))
     in h1\<lparr>ram := set_magic mem HEAP_MAGIC (ram h1)\<rparr>)"

partial_function (option) next_free :: "heap \<Rightarrow> nat \<Rightarrow> nat option" where
  "next_free h l =
    (if hd_used (ram h) l \<noteq> 0 \<and> l \<noteq> heap_end h then next_free h (heap_ptr h + hd_next (ram h) l)
     else Some l)"

text \<open>The rest of \<open>rt_malloc\<close> once a block is found: take it, move \<open>lfree\<close> on when it was the
  lowest free block, check the result.\<close>

definition malloc_found :: "nat \<Rightarrow> nat \<Rightarrow> heap \<Rightarrow> (nat \<times> heap) option" where
  "malloc_found sz ptr h =
    (let mem = heap_ptr h + ptr;
         h1 = malloc_take sz ptr h
     in do { l \<leftarrow> if mem = lfree h1 then next_free h1 (lfree h1) else Some (lfree h1);
             if mem = lfree h1 \<and> \<not> (l = heap_end h1 \<or> hd_used (ram h1) l = 0) then None
             else if mem + SIZEOF_STRUCT_MEM + sz \<le> heap_end h1 \<and>
               (mem + SIZEOF_STRUCT_MEM) mod 4 = 0 \<and> mem mod 4 = 0
             then Some (mem + SIZEOF_STRUCT_MEM, h1\<lparr>lfree := l\<rparr>)
             else None })"

definition rt_malloc :: "nat \<Rightarrow> heap \<Rightarrow> (nat \<times> heap) option" where
  "rt_malloc sz0 h =
    (if sz0 = 0 then Some (0, h)
     else if interrupt_nest h \<noteq> 0 then None
     else let sz1 = RT_ALIGN sz0 4
          in if sz1 > mem_size_aligned h then Some (0, h)
             else let sz = (if sz1 < MIN_SIZE_ALIGNED then MIN_SIZE_ALIGNED else sz1)
                  in do { found \<leftarrow> malloc_search h sz (lfree h - heap_ptr h);
                          case found of None \<Rightarrow> Some (0, h) | Some ptr \<Rightarrow> malloc_found sz ptr h })"

definition rt_free :: "nat \<Rightarrow> heap \<Rightarrow> heap option" where
  "rt_free rmem h =
    (if rmem = 0 then Some h
     else if interrupt_nest h \<noteq> 0 \<or> rmem mod 4 \<noteq> 0 \<or> \<not> (rmem \<ge> heap_ptr h \<and> rmem < heap_end h) then None
     else let mem = rmem - SIZEOF_STRUCT_MEM
          in if hd_used (ram h) mem = 0 \<or> hd_magic (ram h) mem \<noteq> HEAP_MAGIC then None
             else let h1 = h\<lparr>ram := set_magic mem HEAP_MAGIC (set_used mem 0 (ram h))\<rparr>;
                      h2 = (if mem < lfree h1 then h1\<lparr>lfree := mem\<rparr> else h1);
                      h3 = h2\<lparr>used_mem := sub_u32 (used_mem h2)
                        (sub_u32 (hd_next (ram h2) mem) (mem - heap_ptr h2))\<rparr>
                  in plug_holes mem h3)"

definition realloc_split :: "nat \<Rightarrow> nat \<Rightarrow> nat \<Rightarrow> heap \<Rightarrow> heap option" where
  "realloc_split ptr sz newsize h =
    (let mem = heap_ptr h + ptr;
         ptr2 = add_u32 (add_u32 ptr SIZEOF_STRUCT_MEM) newsize;
         mem2 = heap_ptr h + ptr2;
         m1 = set_prev mem2 ptr (set_next mem2 (hd_next (ram h) mem)
           (set_used mem2 0 (set_magic mem2 HEAP_MAGIC (ram h))));
         m2 = set_next mem ptr2 m1;
         m3 = (if hd_next m2 mem2 \<noteq> add_u32 (mem_size_aligned h) SIZEOF_STRUCT_MEM
               then set_prev (heap_ptr h + hd_next m2 mem2) ptr2 m2 else m2);
         h1 = h\<lparr>used_mem := sub_u32 (used_mem h) (sub_u32 sz newsize), ram := m3\<rparr>;
         h2 = (if mem2 < lfree h1 then h1\<lparr>lfree := mem2\<rparr> else h1)
     in plug_holes mem2 h2)"

definition rt_realloc :: "nat \<Rightarrow> nat \<Rightarrow> heap \<Rightarrow> (nat \<times> heap) option" where
  "rt_realloc rmem newsize0 h =
    (if interrupt_nest h \<noteq> 0 then None
     else let newsize = RT_ALIGN newsize0 4
          in if newsize > mem_size_aligned h then Some (0, h)
             else if newsize = 0 then do { h1 \<leftarrow> rt_free rmem h; Some (0, h1) }
             else if rmem = 0 then rt_malloc newsize h
             else if rmem < heap_ptr h \<or> rmem \<ge> heap_end h then Some (rmem, h)
             else let mem = rmem - SIZEOF_STRUCT_MEM;
                      ptr = mem - heap_ptr h;
                      sz = sub_u32 (sub_u32 (hd_next (ram h) mem) ptr) SIZEOF_STRUCT_MEM
                  in if sz = newsize then Some (rmem, h)
                     else if add_u32 (add_u32 newsize SIZEOF_STRUCT_MEM) MIN_SIZE < sz
                     then do { h1 \<leftarrow> realloc_split ptr sz newsize h; Some (rmem, h1) }
                     else do { (nmem, h1) \<leftarrow> rt_malloc newsize h;
                               if nmem \<noteq> 0
                               then do { h2 \<leftarrow> rt_free rmem (h1\<lparr>ram := rt_memcpy (ram h1) nmem rmem
                                           (if sz < newsize then sz else newsize)\<rparr>);
                                         Some (nmem, h2) }
                               else Some (nmem, h1) })"

definition rt_calloc :: "nat \<Rightarrow> nat \<Rightarrow> heap \<Rightarrow> (nat \<times> heap) option" where
  "rt_calloc count sz h =
    do { (p, h1) \<leftarrow> rt_malloc (count * sz mod 2 ^ 32) h;
         Some (p, if p \<noteq> 0 then h1\<lparr>ram := rt_memset (ram h1) p 0 (count * sz mod 2 ^ 32)\<rparr> else h1) }"

definition rt_memory_info :: "heap \<Rightarrow> nat \<times> nat \<times> nat" where
  "rt_memory_info h = (mem_size_aligned h, used_mem h, max_mem h)"

definition rt_strdup :: "nat \<Rightarrow> heap \<Rightarrow> (nat \<times> heap) option" where
  "rt_strdup s h =
    do { n \<leftarrow> rt_strlen (ram h) s;
         (tmp, h1) \<leftarrow> rt_malloc (n + 1) h;
         if tmp = 0 then Some (0, h1) else Some (tmp, h1\<lparr>ram := rt_memcpy (ram h1) tmp s (n + 1)\<rparr>) }"

text \<open>\<open>rt_malloc_align\<close> and \<open>rt_free_align\<close> of \<open>kservice.c\<close>: the pointer to the block is kept
  in the word before the aligned pointer.\<close>

definition align_pointer :: "nat \<Rightarrow> nat \<Rightarrow> nat" where
  "align_pointer ptr align =
    (if unat (of_nat ptr AND (of_nat align - 1) :: u32) = 0 then add_u32 ptr align else RT_ALIGN ptr align)"

definition rt_malloc_align :: "nat \<Rightarrow> nat \<Rightarrow> heap \<Rightarrow> (nat \<times> heap) option" where
  "rt_malloc_align sz align0 h =
    (let align = RT_ALIGN align0 4;
         align_size = add_u32 (RT_ALIGN sz 4) align
     in do { (ptr, h1) \<leftarrow> rt_malloc align_size h;
             if ptr \<noteq> 0
             then let align_ptr = align_pointer ptr align
                  in Some (align_ptr, h1\<lparr>ram := store32 (ram h1) (align_ptr - 4) (of_nat ptr)\<rparr>)
             else Some (ptr, h1) })"

definition rt_free_align :: "nat \<Rightarrow> heap \<Rightarrow> heap option" where
  "rt_free_align ptr h = rt_free (unat (load32 (ram h) (ptr - 4))) h"

end
