(* ===== verification/Heap_Blocks.thy ===== *)
theory Heap_Blocks
  imports Kernel_Heap
begin

text \<open>
  The structure of the heap of \<open>Kernel_Heap\<close>: when the headers in memory describe a given list of
  blocks, what reading a header after a write gives, and how the list changes when headers in the
  middle are rewritten.
\<close>

section \<open>Rounding to a multiple\<close>

lemma and_not_mask: "unat (w AND NOT (Bit_Operations.mask k) :: u32) = unat w div 2 ^ k * 2 ^ k"
proof -
  have "w AND NOT (Bit_Operations.mask k) = push_bit k (drop_bit k w)"
  proof (rule bit_word_eqI)
    fix n :: nat
    assume "n < LENGTH(32)"
    moreover have "bit (push_bit k (drop_bit k w)) n \<longleftrightarrow> k \<le> n \<and> n < LENGTH(32) \<and> bit w (k + (n - k))"
      by (auto simp only: bit_push_bit_iff bit_drop_bit_eq comp_def possible_bit_word)
    moreover have "bit (w AND NOT (Bit_Operations.mask k)) n \<longleftrightarrow> n < LENGTH(32) \<and> bit w n \<and> \<not> n < k"
      by (auto simp only: bit_and_iff bit_not_iff bit_mask_iff possible_bit_word bit_imp_le_length)
    moreover have "k \<le> n \<Longrightarrow> k + (n - k) = n" by simp
    ultimately show "bit (w AND NOT (Bit_Operations.mask k)) n = bit (push_bit k (drop_bit k w)) n"
      by (metis not_less)
  qed
  moreover have "unat (drop_bit k w) = unat w div 2 ^ k"
    unfolding unat_drop_bit_eq by (rule drop_bit_eq_div)
  moreover have "unat (push_bit k v) = unat v * 2 ^ k" if "unat v * 2 ^ k < 2 ^ 32" for v :: u32
  proof (cases "v = 0")
    case False
    then have "1 \<le> unat v" by (simp add: Suc_leI unat_gt_0)
    then have "2 ^ k \<le> unat v * 2 ^ k" using mult_le_mono1 [of 1 "unat v" "2 ^ k"] by simp
    then have lt: "2 ^ k < (2 :: nat) ^ 32" using that by (rule le_less_trans)
    have "unat (2 ^ k :: u32) = unat (of_nat (2 ^ k) :: u32)" by simp
    also have "\<dots> = 2 ^ k" unfolding unat_of_nat using lt by simp
    finally have e: "unat (2 ^ k :: u32) = 2 ^ k" .
    have "unat v * unat (2 ^ k :: u32) < 2 ^ LENGTH(32)" unfolding e using that by simp
    then have "unat (v * 2 ^ k) = unat v * unat (2 ^ k :: u32)" by (simp only: unat_mult_lem)
    then show ?thesis unfolding e by (simp add: push_bit_eq_mult)
  qed simp
  moreover have "unat w div 2 ^ k * 2 ^ k < 2 ^ 32"
    by (rule le_less_trans [OF div_times_less_eq_dividend]) (use unsigned_less [of w, where 'a = nat] in simp)
  ultimately show ?thesis by simp
qed

lemma and_mask_mod: "unat (w AND Bit_Operations.mask k :: u32) = unat w mod 2 ^ k"
proof -
  have "unat (w AND Bit_Operations.mask k) = unat (take_bit k w)" by (simp only: take_bit_eq_mask)
  also have "\<dots> = take_bit k (unat w)" by (rule unsigned_take_bit_eq)
  also have "\<dots> = unat w mod 2 ^ k" by (rule take_bit_eq_mod)
  finally show ?thesis .
qed

lemma of_nat_pow_mask: "(of_nat (2 ^ k) - 1 :: u32) = Bit_Operations.mask k"
  by (simp add: mask_eq_exp_minus_1)

lemma RT_ALIGN_pow:
  assumes "x < 2 ^ 32"
  shows "RT_ALIGN x (2 ^ k) = (x + (2 ^ k - 1)) mod 2 ^ 32 div 2 ^ k * 2 ^ k"
    "RT_ALIGN_DOWN x (2 ^ k) = x div 2 ^ k * 2 ^ k"
proof -
  have "(of_nat x + of_nat (2 ^ k) - 1 :: u32) = of_nat (x + (2 ^ k - 1))"
  proof -
    have "x + 2 ^ k = Suc (x + (2 ^ k - 1))" by simp
    then have "(of_nat (x + 2 ^ k) :: u32) = of_nat (x + (2 ^ k - 1)) + 1" by (simp only: of_nat_Suc add.commute)
    then show ?thesis by simp
  qed
  then have "RT_ALIGN x (2 ^ k) = unat (of_nat (x + (2 ^ k - 1)) AND NOT (Bit_Operations.mask k) :: u32)"
    by (simp only: RT_ALIGN_def of_nat_pow_mask)
  then show "RT_ALIGN x (2 ^ k) = (x + (2 ^ k - 1)) mod 2 ^ 32 div 2 ^ k * 2 ^ k"
    by (simp only: and_not_mask unat_of_nat) simp
  show "RT_ALIGN_DOWN x (2 ^ k) = x div 2 ^ k * 2 ^ k"
    unfolding RT_ALIGN_DOWN_def of_nat_pow_mask and_not_mask unat_of_nat using assms by simp
qed

lemma RT_ALIGN_4: "x < 2 ^ 32 \<Longrightarrow> RT_ALIGN x 4 = (x + 3) mod 2 ^ 32 div 4 * 4"
  and RT_ALIGN_DOWN_4: "x < 2 ^ 32 \<Longrightarrow> RT_ALIGN_DOWN x 4 = x div 4 * 4"
  using RT_ALIGN_pow [of x 2] by simp_all

lemma RT_ALIGN_props:
  assumes "x \<le> 2 ^ 32 - 4"
  shows "x \<le> RT_ALIGN x 4" "RT_ALIGN x 4 < x + 4" "4 dvd RT_ALIGN x 4"
proof -
  have "RT_ALIGN x 4 = (x + 3) div 4 * 4" using assms by (simp add: RT_ALIGN_4)
  then show "x \<le> RT_ALIGN x 4" "RT_ALIGN x 4 < x + 4" "4 dvd RT_ALIGN x 4" by auto
qed

section \<open>Header fields\<close>

lemmas hd_defs = hd_magic_def hd_used_def hd_next_def hd_prev_def
  set_magic_def set_used_def set_next_def set_prev_def

named_theorems hd_simps \<open>header fields after a write to a header\<close>

lemma unat_of_nat32 [simp]: "v < 2 ^ 32 \<Longrightarrow> unat (of_nat v :: u32) = v"
  by (simp add: unat_of_nat)

lemma hd_same [hd_simps]:
  "hd_magic (set_magic a v m) a = v" "hd_used (set_used a v m) a = v"
  "w < 2 ^ 32 \<Longrightarrow> hd_next (set_next a w m) a = w" "w < 2 ^ 32 \<Longrightarrow> hd_prev (set_prev a w m) a = w"
  "hd_magic (set_used a v m) a = hd_magic m a" "hd_magic (set_next a w m) a = hd_magic m a"
  "hd_magic (set_prev a w m) a = hd_magic m a" "hd_used (set_magic a v m) a = hd_used m a"
  "hd_used (set_next a w m) a = hd_used m a" "hd_used (set_prev a w m) a = hd_used m a"
  "hd_next (set_magic a v m) a = hd_next m a" "hd_next (set_used a v m) a = hd_next m a"
  "hd_next (set_prev a w m) a = hd_next m a" "hd_prev (set_magic a v m) a = hd_prev m a"
  "hd_prev (set_used a v m) a = hd_prev m a" "hd_prev (set_next a w m) a = hd_prev m a"
  by (simp_all add: hd_defs ram_simps)

lemma hd_apart [hd_simps]:
  assumes "b + 12 \<le> a \<or> a + 12 \<le> b"
  shows "hd_magic (set_magic a v m) b = hd_magic m b" "hd_magic (set_used a v m) b = hd_magic m b"
    "hd_magic (set_next a w m) b = hd_magic m b" "hd_magic (set_prev a w m) b = hd_magic m b"
    "hd_used (set_magic a v m) b = hd_used m b" "hd_used (set_used a v m) b = hd_used m b"
    "hd_used (set_next a w m) b = hd_used m b" "hd_used (set_prev a w m) b = hd_used m b"
    "hd_next (set_magic a v m) b = hd_next m b" "hd_next (set_used a v m) b = hd_next m b"
    "hd_next (set_next a w m) b = hd_next m b" "hd_next (set_prev a w m) b = hd_next m b"
    "hd_prev (set_magic a v m) b = hd_prev m b" "hd_prev (set_used a v m) b = hd_prev m b"
    "hd_prev (set_next a w m) b = hd_prev m b" "hd_prev (set_prev a w m) b = hd_prev m b"
  using assms by (auto simp: hd_defs ram_simps)

text \<open>A write to a header changes no byte outside it.\<close>

lemma set_other [hd_simps]:
  assumes "b < a \<or> a + 12 \<le> b"
  shows "set_magic a v m b = m b" "set_used a v m b = m b" "set_next a w m b = m b"
    "set_prev a w m b = m b"
  using assms by (auto simp: hd_defs ram_simps)

lemma set_prev_other [hd_simps]: "b < a + 8 \<or> a + 12 \<le> b \<Longrightarrow> set_prev a w m b = m b"
  by (auto simp: hd_defs ram_simps)

lemma hd_cong:
  assumes "\<And>i. i < 12 \<Longrightarrow> m' (a + i) = m (a + i)"
  shows "hd_magic m' a = hd_magic m a" "hd_used m' a = hd_used m a" "hd_next m' a = hd_next m a"
    "hd_prev m' a = hd_prev m a"
proof -
  have e: "m' (a + (k + i)) = m (a + (k + i))" if "k + i < 12" for k i using assms [of "k + i"] that .
  show "hd_magic m' a = hd_magic m a" unfolding hd_defs using e [of 0] by (intro load_same) simp
  show "hd_used m' a = hd_used m a" unfolding hd_defs using e [of 2] by (intro load_same) (simp add: add.assoc)
  show "hd_next m' a = hd_next m a"
    unfolding hd_defs using e [of 4] by (intro arg_cong [of _ _ unat] load_same) (simp add: add.assoc)
  show "hd_prev m' a = hd_prev m a"
    unfolding hd_defs using e [of 8] by (intro arg_cong [of _ _ unat] load_same) (simp add: add.assoc)
qed

lemma hd_cong8:
  assumes "\<And>i. i < 8 \<Longrightarrow> m' (a + i) = m (a + i)"
  shows "hd_magic m' a = hd_magic m a" "hd_used m' a = hd_used m a" "hd_next m' a = hd_next m a"
proof -
  have e: "m' (a + (k + i)) = m (a + (k + i))" if "k + i < 8" for k i using assms [of "k + i"] that .
  show "hd_magic m' a = hd_magic m a" unfolding hd_defs using e [of 0] by (intro load_same) simp
  show "hd_used m' a = hd_used m a" unfolding hd_defs using e [of 2] by (intro load_same) (simp add: add.assoc)
  show "hd_next m' a = hd_next m a"
    unfolding hd_defs using e [of 4] by (intro arg_cong [of _ _ unat] load_same) (simp add: add.assoc)
qed

section \<open>Lists of blocks\<close>

text \<open>A block is its length, with the header, and whether it is in use.\<close>

type_synonym blk = "nat \<times> bool"

definition spans :: "blk list \<Rightarrow> nat" where
  "spans bs = sum_list (map fst bs)"

lemma spans_simps [simp]:
  "spans [] = 0" "spans ((n, u) # bs) = n + spans bs" "spans (xs @ ys) = spans xs + spans ys"
  by (simp_all add: spans_def)

text \<open>The headers from address \<open>a\<close> on describe the blocks \<open>bs\<close>, the first of them with the
  predecessor \<open>p\<close>.\<close>

fun blocks :: "ram \<Rightarrow> nat \<Rightarrow> nat \<Rightarrow> nat \<Rightarrow> blk list \<Rightarrow> bool" where
  "blocks m hp p a [] \<longleftrightarrow> True"
| "blocks m hp p a ((n, u) # bs) \<longleftrightarrow>
     hd_magic m a = HEAP_MAGIC \<and> hd_used m a = (if u then 1 else 0) \<and> hp + hd_next m a = a + n \<and>
     hp + hd_prev m a = p \<and> 12 \<le> n \<and> 4 dvd n \<and> blocks m hp a (a + n) bs"

fun end_prev :: "nat \<Rightarrow> nat \<Rightarrow> blk list \<Rightarrow> nat" where
  "end_prev p a [] = p"
| "end_prev p a ((n, u) # bs) = end_prev a (a + n) bs"

lemma end_prev_append [simp]: "end_prev p a (xs @ ys) = end_prev (end_prev p a xs) (a + spans xs) ys"
  by (induction p a xs rule: end_prev.induct) (auto simp: add.assoc)

lemma blocks_append [simp]:
  "blocks m hp p a (xs @ ys) \<longleftrightarrow>
   blocks m hp p a xs \<and> blocks m hp (end_prev p a xs) (a + spans xs) ys"
  by (induction m hp p a xs rule: blocks.induct) (auto simp: add.assoc)

text \<open>The bytes of the data areas, of all blocks and of those in use.\<close>

fun in_data :: "nat \<Rightarrow> blk list \<Rightarrow> nat \<Rightarrow> bool" where
  "in_data a [] b \<longleftrightarrow> False"
| "in_data a ((n, u) # bs) b \<longleftrightarrow> a + 12 \<le> b \<and> b < a + n \<or> in_data (a + n) bs b"

fun in_use :: "nat \<Rightarrow> blk list \<Rightarrow> nat \<Rightarrow> bool" where
  "in_use a [] b \<longleftrightarrow> False"
| "in_use a ((n, u) # bs) b \<longleftrightarrow> u \<and> a + 12 \<le> b \<and> b < a + n \<or> in_use (a + n) bs b"

lemma in_use_append [simp]: "in_use a (xs @ ys) b \<longleftrightarrow> in_use a xs b \<or> in_use (a + spans xs) ys b"
  by (induction a xs b rule: in_use.induct) (auto simp: add.assoc)

lemma in_data_bounds: "in_data a bs b \<Longrightarrow> a + 12 \<le> b \<and> b < a + spans bs"
  by (induction a bs b rule: in_data.induct) auto

lemma in_use_data: "in_use a bs b \<Longrightarrow> in_data a bs b"
  by (induction a bs b rule: in_use.induct) auto

lemma in_use_bounds: "in_use a bs b \<Longrightarrow> a + 12 \<le> b \<and> b < a + spans bs"
  using in_use_data in_data_bounds by blast

lemma blocks_frame:
  "blocks m hp p a bs \<Longrightarrow>
   (\<And>b. a \<le> b \<Longrightarrow> b < a + spans bs \<Longrightarrow> \<not> in_data a bs b \<Longrightarrow> m' b = m b) \<Longrightarrow> blocks m' hp p a bs"
proof (induction m hp p a bs rule: blocks.induct)
  case (2 m hp p a n u bs)
  have n: "12 \<le> n" using 2(2) by simp
  have "m' (a + i) = m (a + i)" if "i < 12" for i
    using that n 2(3) [of "a + i"] in_data_bounds [of "a + n" bs "a + i"] by fastforce
  note h = hd_cong [of m' a m, OF this]
  have "blocks m' hp a (a + n) bs"
  proof (rule 2(1))
    show "blocks m hp a (a + n) bs" using 2(2) by simp
    fix b assume "a + n \<le> b" "b < a + n + spans bs" "\<not> in_data (a + n) bs b"
    then show "m' b = m b" using 2(3) [of b] n by (simp add: add.assoc)
  qed
  then show ?case using 2(2) h by simp
qed simp

lemma blocks_same:
  "blocks m hp p a bs \<Longrightarrow> (\<And>b. a \<le> b \<Longrightarrow> b < a + spans bs \<Longrightarrow> m' b = m b) \<Longrightarrow> blocks m' hp p a bs"
  by (rule blocks_frame)

text \<open>The predecessor of the first block may change.\<close>

lemma blocks_reprev:
  assumes "blocks m hp p a bs" "bs \<noteq> [] \<Longrightarrow> hp + hd_prev m' a = p'"
    "\<And>b. a \<le> b \<Longrightarrow> b < a + spans bs \<Longrightarrow> b < a + 8 \<or> a + 12 \<le> b \<Longrightarrow> m' b = m b"
  shows "blocks m' hp p' a bs"
proof (cases bs)
  case (Cons x cs)
  obtain n u where x: "x = (n, u)" by (cases x)
  have b: "blocks m hp p a ((n, u) # cs)" using assms(1) Cons x by simp
  then have n: "12 \<le> n" by simp
  have "m' (a + i) = m (a + i)" if "i < 8" for i
    using assms(3) [of "a + i"] that n Cons x by simp
  note h = hd_cong8 [of m' a m, OF this]
  have "blocks m' hp a (a + n) cs"
  proof (rule blocks_same)
    show "blocks m hp a (a + n) cs" using b by simp
    fix b assume "a + n \<le> b" "b < a + n + spans cs"
    then show "m' b = m b" using assms(3) [of b] n Cons x by (simp add: add.assoc)
  qed
  then show ?thesis using b h assms(2) Cons x by simp
qed simp

text \<open>Rewriting the headers of a few neighbouring blocks.\<close>

lemma blocks_replace:
  assumes "blocks m hp p a (xs @ ms @ ys)" "spans ns = spans ms"
    and "\<And>b. b < a + spans xs \<Longrightarrow> m' b = m b"
    and "blocks m' hp (end_prev p a xs) (a + spans xs) ns"
    and "ys \<noteq> [] \<Longrightarrow> hp + hd_prev m' (a + spans (xs @ ms)) = end_prev p a (xs @ ns)"
    and "\<And>b. a + spans (xs @ ms) \<le> b \<Longrightarrow>
      b < a + spans (xs @ ms) + 8 \<or> a + spans (xs @ ms) + 12 \<le> b \<Longrightarrow>
      b < a + spans (xs @ ms @ ys) \<Longrightarrow> m' b = m b"
  shows "blocks m' hp p a (xs @ ns @ ys)"
proof -
  have "blocks m' hp p a xs"
    by (rule blocks_same [of m]) (use assms(1,3) in auto)
  moreover have "blocks m' hp (end_prev p a (xs @ ns)) (a + spans (xs @ ms)) ys"
    by (rule blocks_reprev [of m hp "end_prev p a (xs @ ms)"])
      (use assms(1,5,6) in \<open>auto simp: add.assoc\<close>)
  ultimately show ?thesis using assms(2,4) by (simp add: add.assoc)
qed

lemma blocks_dvd: "blocks m hp p a bs \<Longrightarrow> 4 dvd spans bs"
  by (induction m hp p a bs rule: blocks.induct) auto

section \<open>The heap as a list of blocks\<close>

definition laid_out :: "heap \<Rightarrow> blk list \<Rightarrow> bool" where
  "laid_out h bs \<longleftrightarrow>
     bs \<noteq> [] \<and> blocks (ram h) (heap_ptr h) (heap_ptr h) (heap_ptr h) bs \<and>
     heap_end h = heap_ptr h + spans bs \<and> hd_used (ram h) (heap_end h) = 1 \<and>
     heap_ptr h + spans bs + 12 < 2 ^ 32 \<and> 4 dvd heap_ptr h \<and>
     mem_size_aligned h + 12 = spans bs \<and> 12 \<le> mem_size_aligned h \<and> interrupt_nest h = 0"

text \<open>Two memories agree on the bytes in use and outside the heap.\<close>

definition keeps :: "nat \<Rightarrow> blk list \<Rightarrow> ram \<Rightarrow> ram \<Rightarrow> bool" where
  "keeps a bs m m' \<longleftrightarrow> (\<forall>b. in_use a bs b \<or> b < a \<or> a + spans bs + 12 \<le> b \<longrightarrow> m' b = m b)"

lemma keeps_refl [simp]: "keeps a bs m m"
  by (simp add: keeps_def)

lemma keeps_trans: "keeps a bs m m' \<Longrightarrow> keeps a bs m' m'' \<Longrightarrow> keeps a bs m m''"
  by (simp add: keeps_def)

lemma end_prev_last: "end_prev p a (xs @ [(n, u)]) = a + spans xs"
  by simp

text \<open>The update by which \<open>plug_holes\<close> joins two neighbouring free blocks.\<close>

lemma join_blocks:
  fixes xs zs n k m
  defines "bs \<equiv> xs @ (n, False) # (k, False) # zs"
  assumes b: "blocks m hp hp hp bs" and e: "hd_used m (hp + spans bs) = 1" and l: "hp + spans bs + 12 < 2 ^ 32"
    and m': "m' = set_prev (hp + spans xs + n + k) (spans xs) (set_next (hp + spans xs) (spans xs + n + k) m)"
  shows "blocks m' hp hp hp (xs @ (n + k, False) # zs)" "hd_used m' (hp + spans bs) = 1"
    "keeps hp bs m m'"
proof -
  let ?a = "hp + spans xs"
  have n: "12 \<le> n" "12 \<le> k" "4 dvd n" "4 dvd k" "hd_magic m ?a = HEAP_MAGIC" "hd_used m ?a = 0"
    "hp + hd_prev m ?a = end_prev hp hp xs"
    using b by (auto simp: bs_def add.assoc)
  have z: "zs \<noteq> [] \<Longrightarrow> 12 \<le> spans zs" using b by (cases zs) (auto simp: bs_def)
  have lt: "spans xs < 2 ^ 32" "spans xs + n + k < 2 ^ 32" using l by (auto simp: bs_def)
  have "blocks m' hp hp hp (xs @ [(n + k, False)] @ zs)"
  proof (rule blocks_replace [of m _ _ _ _ "[(n, False), (k, False)]"])
    show "blocks m hp hp hp (xs @ [(n, False), (k, False)] @ zs)" using b by (simp add: bs_def)
    show "blocks m' hp (end_prev hp hp xs) ?a [(n + k, False)]"
      using n lt unfolding m' by (simp add: hd_simps)
    show "hp + hd_prev m' (hp + spans (xs @ [(n, False), (k, False)])) = end_prev hp hp (xs @ [(n + k, False)])"
      using lt unfolding m' by (simp add: hd_simps add.assoc)
  qed (use n in \<open>auto simp: m' hd_simps\<close>)
  then show "blocks m' hp hp hp (xs @ (n + k, False) # zs)" by simp
  show "hd_used m' (hp + spans bs) = 1"
    using e n z unfolding m' by (cases zs) (auto simp: bs_def hd_simps add.assoc)
  show "keeps hp bs m m'"
    unfolding keeps_def
  proof (intro allI impI)
    fix x assume "in_use hp bs x \<or> x < hp \<or> hp + spans bs + 12 \<le> x"
    then consider "in_use hp xs x" | "in_use (hp + spans xs + n + k) zs x" | "x < hp"
        | "hp + spans xs + n + k + 12 \<le> x"
      by (auto simp: bs_def)
    then have "x < ?a \<or> hp + spans xs + n + k + 12 \<le> x"
      by cases (auto dest: in_use_bounds)
    then show "m' x = m x" using n unfolding m' by (auto simp: hd_simps)
  qed
qed

lemma laid_out_block:
  assumes "laid_out h (xs @ (n, u) # ys)"
  shows "hd_next (ram h) (heap_ptr h + spans xs) = spans xs + n"
    "hd_used (ram h) (heap_ptr h + spans xs) = (if u then 1 else 0)"
    "hd_magic (ram h) (heap_ptr h + spans xs) = HEAP_MAGIC"
    "heap_ptr h + hd_prev (ram h) (heap_ptr h + spans xs) = end_prev (heap_ptr h) (heap_ptr h) xs"
    "12 \<le> n" "4 dvd n" "4 dvd spans xs" "heap_ptr h + spans xs < heap_end h"
    "spans xs + n + 12 < 2 ^ 32"
  using assms blocks_dvd [of "ram h" "heap_ptr h" _ _ xs] by (auto simp: laid_out_def)

lemma laid_out_join:
  assumes h: "laid_out h (xs @ (n, False) # (k, False) # zs)"
    and m': "m' = set_prev (heap_ptr h + spans xs + n + k) (spans xs)
      (set_next (heap_ptr h + spans xs) (spans xs + n + k) (ram h))"
  shows "laid_out (h\<lparr>ram := m', lfree := l\<rparr>) (xs @ (n + k, False) # zs)"
    "keeps (heap_ptr h) (xs @ (n, False) # (k, False) # zs) (ram h) m'"
proof -
  let ?bs = "xs @ (n, False) # (k, False) # zs"
  have b: "blocks (ram h) (heap_ptr h) (heap_ptr h) (heap_ptr h) ?bs"
    and e: "hd_used (ram h) (heap_ptr h + spans ?bs) = 1"
    and l: "heap_ptr h + spans ?bs + 12 < 2 ^ 32"
    using h unfolding laid_out_def by metis+
  note j = join_blocks [OF b e l m']
  show "keeps (heap_ptr h) ?bs (ram h) m'" by (rule j(3))
  have "spans (xs @ (n + k, False) # zs) = spans ?bs" by simp
  then show "laid_out (h\<lparr>ram := m', lfree := l\<rparr>) (xs @ (n + k, False) # zs)"
    using h j(1,2) unfolding laid_out_def by simp
qed

lemma plug_forward_free:
  assumes "laid_out h (xs @ (n, False) # (k, False) # zs)" "a = heap_ptr h + spans xs"
  shows "\<exists>m'. plug_forward a h = h\<lparr>ram := m', lfree := (if lfree h = a + n then a else lfree h)\<rparr> \<and>
     laid_out (plug_forward a h) (xs @ (n + k, False) # zs) \<and>
     keeps (heap_ptr h) (xs @ (n, False) # (k, False) # zs) (ram h) m'"
proof -
  note b1 = laid_out_block [OF assms(1)]
  have h2: "laid_out h ((xs @ [(n, False)]) @ (k, False) # zs)" using assms(1) by simp
  note b2 = laid_out_block [OF h2]
  define m' where "m' = set_prev (heap_ptr h + spans xs + n + k) (spans xs)
      (set_next (heap_ptr h + spans xs) (spans xs + n + k) (ram h))"
  have "hd_next (set_next a (spans xs + n + k) (ram h)) (a + n) = spans xs + n + k"
    using b1 b2 assms(2) by (simp add: hd_simps add.assoc)
  then have e: "plug_forward a h = h\<lparr>ram := m', lfree := (if lfree h = a + n then a else lfree h)\<rparr>"
    using b1 b2 assms(2) by (simp add: plug_forward_def Let_def m'_def add.assoc)
  show ?thesis
    using e laid_out_join [OF assms(1) m'_def] by auto
qed

lemma plug_forward_none:
  assumes "laid_out h (xs @ (n, False) # ys)" "a = heap_ptr h + spans xs"
    "\<And>k zs. ys \<noteq> (k, False) # zs"
  shows "plug_forward a h = h"
proof (cases ys)
  case Nil
  then show ?thesis using assms laid_out_block [OF assms(1)]
    by (simp add: plug_forward_def Let_def laid_out_def add.assoc)
next
  case (Cons y zs)
  then obtain k where "y = (k, True)" using assms(3) by (cases y) (metis (full_types))
  then have "laid_out h ((xs @ [(n, False)]) @ (k, True) # zs)" using assms(1) Cons by simp
  from laid_out_block [OF this] laid_out_block [OF assms(1)] show ?thesis
    by (simp add: plug_forward_def Let_def assms(2) add.assoc)
qed

lemma plug_backward_free:
  assumes "laid_out h (xs @ (n, False) # (k, False) # zs)" "a = heap_ptr h + spans xs + n"
  shows "\<exists>m'. plug_backward a h = h\<lparr>ram := m', lfree := (if lfree h = a then a - n else lfree h)\<rparr> \<and>
     laid_out (plug_backward a h) (xs @ (n + k, False) # zs) \<and>
     keeps (heap_ptr h) (xs @ (n, False) # (k, False) # zs) (ram h) m'"
proof -
  note b1 = laid_out_block [OF assms(1)]
  have h2: "laid_out h ((xs @ [(n, False)]) @ (k, False) # zs)" using assms(1) by simp
  note b2 = laid_out_block [OF h2]
  define m' where "m' = set_prev (heap_ptr h + spans xs + n + k) (spans xs)
      (set_next (heap_ptr h + spans xs) (spans xs + n + k) (ram h))"
  have p: "heap_ptr h + hd_prev (ram h) a = heap_ptr h + spans xs" "a - n = heap_ptr h + spans xs"
    using b2(4) assms(2) by (simp_all add: add.assoc)
  have "hd_next (set_next (heap_ptr h + spans xs) (spans xs + n + k) (ram h)) a = spans xs + n + k"
    using b1 b2 assms(2) by (simp add: hd_simps add.assoc)
  then have e: "plug_backward a h = h\<lparr>ram := m', lfree := (if lfree h = a then a - n else lfree h)\<rparr>"
    using b1 b2 assms(2) p by (simp add: plug_backward_def Let_def m'_def add.assoc)
  show ?thesis
    using e laid_out_join [OF assms(1) m'_def] by auto
qed

lemma plug_backward_none:
  assumes "laid_out h (xs @ (n, False) # ys)" "a = heap_ptr h + spans xs"
    "\<And>k zs. xs \<noteq> zs @ [(k, False)]"
  shows "plug_backward a h = h"
proof (cases xs rule: rev_cases)
  case Nil
  then show ?thesis using assms(2) laid_out_block [OF assms(1)] by (simp add: plug_backward_def Let_def)
next
  case (snoc zs y)
  then obtain k where y: "y = (k, True)" using assms(3) by (cases y) (metis (full_types))
  then have "laid_out h (zs @ (k, True) # (n, False) # ys)" using assms(1) snoc by simp
  from laid_out_block [OF this] laid_out_block(4) [OF assms(1)] show ?thesis
    using snoc y by (simp add: plug_backward_def Let_def assms(2))
qed

end
