(* ===== verification/Heap_Ops.thy ===== *)
theory Heap_Ops
  imports Heap_Blocks
begin

text \<open>
  What \<open>rt_malloc\<close>, \<open>rt_free\<close> and \<open>rt_realloc\<close> of \<open>Kernel_Heap\<close> do to the list of blocks:
  first fit with a split of the rest, release with both neighbours joined, shrinking in place.
\<close>

section \<open>Lists of blocks\<close>

fun merged :: "blk list \<Rightarrow> bool" where
  "merged [] \<longleftrightarrow> True"
| "merged [b] \<longleftrightarrow> True"
| "merged (b # c # bs) \<longleftrightarrow> (snd b \<or> snd c) \<and> merged (c # bs)"

lemma merged_Cons: "merged (b # bs) \<longleftrightarrow> merged bs \<and> (bs \<noteq> [] \<longrightarrow> snd b \<or> snd (hd bs))"
  by (cases bs) auto

lemma merged_append:
  "merged (xs @ ys) \<longleftrightarrow> merged xs \<and> merged ys \<and> (xs \<noteq> [] \<and> ys \<noteq> [] \<longrightarrow> snd (last xs) \<or> snd (hd ys))"
  by (induction xs) (auto simp: merged_Cons hd_append)

text \<open>The length of the used blocks before the first free one.\<close>

fun lead :: "blk list \<Rightarrow> nat" where
  "lead [] = 0"
| "lead ((n, u) # bs) = (if u then n + lead bs else 0)"

lemma lead_append: "lead (xs @ ys) = (if (\<forall>b\<in>set xs. snd b) then spans xs + lead ys else lead xs)"
  by (induction xs rule: lead.induct) auto

lemma lead_le: "lead bs \<le> spans bs"
  by (induction bs rule: lead.induct) auto

fun used_span :: "blk list \<Rightarrow> nat" where
  "used_span [] = 0"
| "used_span ((n, u) # bs) = (if u then n else 0) + used_span bs"

lemma used_span_append [simp]: "used_span (xs @ ys) = used_span xs + used_span ys"
  by (induction xs rule: used_span.induct) auto

lemma used_span_le: "used_span bs \<le> spans bs"
  by (induction bs rule: used_span.induct) auto

text \<open>A block in use holds at least one word.\<close>

definition roomy :: "blk list \<Rightarrow> bool" where
  "roomy bs \<longleftrightarrow> (\<forall>(n, u)\<in>set bs. u \<longrightarrow> 16 \<le> n)"

lemma roomy_simps [simp]:
  "roomy []" "roomy ((n, u) # bs) \<longleftrightarrow> (u \<longrightarrow> 16 \<le> n) \<and> roomy bs"
  "roomy (xs @ ys) \<longleftrightarrow> roomy xs \<and> roomy ys"
  by (auto simp: roomy_def)

definition heap_rel :: "heap \<Rightarrow> blk list \<Rightarrow> bool" where
  "heap_rel h bs \<longleftrightarrow>
     laid_out h bs \<and> merged bs \<and> roomy bs \<and> lfree h = heap_ptr h + lead bs \<and> used_mem h = used_span bs \<and>
     used_mem h \<le> max_mem h"

lemma heap_rel_laid_out: "heap_rel h bs \<Longrightarrow> laid_out h bs"
  by (simp add: heap_rel_def)

section \<open>The search\<close>

fun fit :: "nat \<Rightarrow> nat \<Rightarrow> nat \<Rightarrow> blk list \<Rightarrow> nat option" where
  "fit lim sz a [] = None"
| "fit lim sz a ((n, u) # bs) =
    (if a \<ge> lim then None else if \<not> u \<and> sz + 12 \<le> n then Some a else fit lim sz (a + n) bs)"

lemma fit_Some:
  "fit lim sz a bs = Some b \<Longrightarrow>
   \<exists>xs n ys. bs = xs @ (n, False) # ys \<and> b = a + spans xs \<and> sz + 12 \<le> n \<and> b < lim \<and>
     (\<forall>(k, v)\<in>set xs. v \<or> k < sz + 12)"
proof (induction lim sz a bs rule: fit.induct)
  case (2 lim sz a n u bs)
  have a: "\<not> a \<ge> lim" using 2(2) by (auto split: if_splits)
  show ?case
  proof (cases "\<not> u \<and> sz + 12 \<le> n")
    case True
    then have "b = a" using 2(2) a by simp
    then show ?thesis using True a
      by (intro exI [of _ "[]"] exI [of _ n] exI [of _ bs]) simp
  next
    case False
    then have "fit lim sz (a + n) bs = Some b" using 2(2) a by (simp only: fit.simps if_False)
    from 2(1) [OF a False this] obtain xs k ys where "bs = xs @ (k, False) # ys" "b = a + n + spans xs"
      "sz + 12 \<le> k" "b < lim" "\<forall>(k, v)\<in>set xs. v \<or> k < sz + 12" by blast
    then show ?thesis using False
      by (intro exI [of _ "(n, u) # xs"] exI [of _ k] exI [of _ ys]) auto
  qed
qed simp

lemma fit_None:
  "fit lim sz a (xs @ (n, False) # ys) = None \<Longrightarrow> sz + 12 \<le> n \<Longrightarrow> lim \<le> a + spans xs"
proof (induction xs arbitrary: a)
  case (Cons x xs)
  obtain k v where "x = (k, v)" by (cases x)
  then show ?case using Cons.prems Cons.IH [of "a + k"] by (auto split: if_splits)
qed (simp split: if_splits)

lemma fit_lead: "fit lim sz a bs = fit lim sz (a + lead bs) (dropWhile snd bs)"
proof (induction bs arbitrary: a)
  case (Cons b bs)
  have l: "a \<ge> lim \<Longrightarrow> fit lim sz (a + k) cs = None" for k cs by (cases cs) auto
  show ?case
  proof (cases b)
    case (Pair n u)
    then show ?thesis using Cons [of "a + n"] l by (cases u) (auto simp: add.assoc)
  qed
qed simp

lemma lead_dropWhile: "\<exists>xs. bs = xs @ dropWhile snd bs \<and> lead bs = spans xs"
proof (induction bs rule: lead.induct)
  case (2 n u bs)
  show ?case
  proof (cases u)
    case True
    then obtain xs where "bs = xs @ dropWhile snd bs" "lead bs = spans xs" using 2 by blast
    then show ?thesis using True by (intro exI [of _ "(n, True) # xs"]) simp
  qed simp
qed simp

lemma laid_out_user_size:
  assumes "laid_out h (xs @ (n, u) # ys)"
  shows "user_size h (spans xs) = n - 12"
proof -
  note b = laid_out_block [OF assms]
  have "spans xs + 12 < 2 ^ 32" "spans xs + n < 2 ^ 32" using b by linarith+
  then show ?thesis using b by (simp add: user_size_def add_u32_def)
qed

lemma malloc_search_fit:
  assumes "sz \<le> mem_size_aligned h"
  shows "laid_out h (xs @ ys) \<Longrightarrow>
    malloc_search h sz (spans xs) = Some (fit (mem_size_aligned h - sz) sz (spans xs) ys)"
proof (induction ys arbitrary: xs)
  case Nil
  then have "mem_size_aligned h < 2 ^ 32" "spans xs = mem_size_aligned h + 12" by (auto simp: laid_out_def)
  then have "\<not> spans xs < sub_u32 (mem_size_aligned h) sz" using assms by simp
  then show ?case by (subst malloc_search.simps) simp
next
  case (Cons y ys)
  obtain n u where y: "y = (n, u)" by (cases y)
  then have l: "laid_out h (xs @ (n, u) # ys)" using Cons.prems by simp
  note b = laid_out_block [OF l] laid_out_user_size [OF l]
  have m: "mem_size_aligned h < 2 ^ 32" using l by (auto simp: laid_out_def)
  have "malloc_search h sz (spans (xs @ [y])) = Some (fit (mem_size_aligned h - sz) sz (spans (xs @ [y])) ys)"
    using Cons.prems by (intro Cons.IH) simp
  moreover have "sz \<le> n - 12 \<longleftrightarrow> sz + 12 \<le> n" using b by linarith
  ultimately show ?case using assms b m y by (subst malloc_search.simps) (simp add: not_less)
qed

text \<open>The search from \<open>lfree\<close> on finds what a search of the whole heap finds.\<close>

lemma malloc_search_lead:
  assumes "laid_out h bs" "sz \<le> mem_size_aligned h"
  shows "malloc_search h sz (lead bs) = Some (fit (mem_size_aligned h - sz) sz 0 bs)"
proof -
  obtain xs where xs: "bs = xs @ dropWhile snd bs" "lead bs = spans xs" using lead_dropWhile by blast
  then have "laid_out h (xs @ dropWhile snd bs)" using assms(1) by simp
  from malloc_search_fit [OF assms(2) this] show ?thesis
    using xs(2) fit_lead [of _ _ 0 bs] by simp
qed

lemma next_free_lead:
  "laid_out h (xs @ ys) \<Longrightarrow>
   next_free h (heap_ptr h + spans xs) = Some (heap_ptr h + spans xs + lead ys)"
proof (induction ys arbitrary: xs)
  case Nil
  then show ?case by (subst next_free.simps) (simp add: laid_out_def)
next
  case (Cons y ys)
  obtain n u where y: "y = (n, u)" by (cases y)
  then have l: "laid_out h (xs @ (n, u) # ys)" using Cons.prems by simp
  note b = laid_out_block [OF l]
  have "next_free h (heap_ptr h + spans (xs @ [y])) = Some (heap_ptr h + spans (xs @ [y]) + lead ys)"
    using Cons.prems by (intro Cons.IH) simp
  then show ?case using b y by (subst next_free.simps) (simp add: add.assoc)
qed

section \<open>Taking a block\<close>

definition place :: "nat \<Rightarrow> nat \<Rightarrow> blk list" where
  "place sz n = (if sz + 36 \<le> n then [(sz + 12, True), (n - sz - 12, False)] else [(n, True)])"

lemma count_used_simps [simp]:
  "ram (count_used n h) = ram h" "heap_ptr (count_used n h) = heap_ptr h"
  "heap_end (count_used n h) = heap_end h" "lfree (count_used n h) = lfree h"
  "mem_size_aligned (count_used n h) = mem_size_aligned h"
  "interrupt_nest (count_used n h) = interrupt_nest h"
  "used_mem (count_used n h) = add_u32 (used_mem h) n"
  "max_mem (count_used n h) = max (max_mem h) (add_u32 (used_mem h) n)"
  by (auto simp: count_used_def Let_def)

lemma count_used_ram [simp]: "count_used n (h\<lparr>ram := m\<rparr>) = (count_used n h)\<lparr>ram := m\<rparr>"
  by (simp add: count_used_def Let_def)

text \<open>The fields that no operation after the initialisation changes.\<close>

definition same_frame :: "heap \<Rightarrow> heap \<Rightarrow> bool" where
  "same_frame h h' \<longleftrightarrow> heap_ptr h' = heap_ptr h \<and> heap_end h' = heap_end h \<and>
     mem_size_aligned h' = mem_size_aligned h \<and> interrupt_nest h' = interrupt_nest h"

lemma same_frame_refl [simp]: "same_frame h h"
  by (simp add: same_frame_def)

lemma same_frame_trans: "same_frame h h' \<Longrightarrow> same_frame h' h'' \<Longrightarrow> same_frame h h''"
  by (simp add: same_frame_def)

lemma laid_out_fields [simp]:
  "laid_out (h\<lparr>lfree := l\<rparr>) bs = laid_out h bs" "laid_out (h\<lparr>used_mem := u\<rparr>) bs = laid_out h bs"
  by (simp_all add: laid_out_def)

lemma laid_out_cong:
  "same_frame h h' \<Longrightarrow> ram h' = ram h \<Longrightarrow> laid_out h' bs \<longleftrightarrow> laid_out h bs"
  by (simp add: laid_out_def same_frame_def)

lemma laid_out_update:
  assumes "laid_out h bs" "same_frame h h'" "spans bs' = spans bs" "bs' \<noteq> []"
    "blocks (ram h') (heap_ptr h) (heap_ptr h) (heap_ptr h) bs'"
    "hd_used (ram h') (heap_ptr h + spans bs) = 1"
  shows "laid_out h' bs'"
  using assms by (simp add: laid_out_def same_frame_def)

text \<open>What a memory must look like in which a block was split.\<close>

lemma split_blocks:
  fixes xs n v ys m hp
  defines "bs \<equiv> xs @ (n, v) # ys" and "a \<equiv> hp + spans xs"
  assumes b: "blocks m hp hp hp bs" and e: "hd_used m (hp + spans bs) = 1"
    and sz: "sz + 24 \<le> n" "4 dvd sz"
    and h1: "hd_magic m' a = HEAP_MAGIC" "hd_used m' a = (if u then 1 else 0)"
      "hd_next m' a = spans xs + sz + 12" "hd_prev m' a = hd_prev m a"
    and h2: "hd_magic m' (a + sz + 12) = HEAP_MAGIC" "hd_used m' (a + sz + 12) = 0"
      "hd_next m' (a + sz + 12) = spans xs + n" "hd_prev m' (a + sz + 12) = spans xs"
    and h3: "ys \<noteq> [] \<Longrightarrow> hd_prev m' (a + n) = spans xs + sz + 12"
    and out: "\<And>x. x < a \<or> a + 12 \<le> x \<and> x < a + sz + 12 \<or> a + n \<le> x \<and> x < a + n + 8 \<or> a + n + 12 \<le> x \<Longrightarrow>
      m' x = m x"
  shows "blocks m' hp hp hp (xs @ (sz + 12, u) # (n - sz - 12, False) # ys)"
    "hd_used m' (hp + spans bs) = 1" "keeps hp (xs @ (sz + 12, v) # (n - sz - 12, False) # ys) m m'"
proof -
  have n: "12 \<le> n" "4 dvd n" "hp + hd_prev m a = end_prev hp hp xs"
    using b by (auto simp: bs_def a_def)
  have y: "ys \<noteq> [] \<Longrightarrow> 12 \<le> spans ys" using b by (cases ys) (auto simp: bs_def)
  have d: "4 dvd (n - sz - 12)" using n sz by (simp add: dvd_diff_nat)
  have k: "a + sz + 12 + (n - sz - 12) = a + n" using sz by simp
  have "blocks m' hp hp hp (xs @ [(sz + 12, u), (n - sz - 12, False)] @ ys)"
  proof (rule blocks_replace [of m _ _ _ _ "[(n, v)]"])
    show "blocks m hp hp hp (xs @ [(n, v)] @ ys)" using b by (simp add: bs_def)
    show "blocks m' hp (end_prev hp hp xs) (hp + spans xs) [(sz + 12, u), (n - sz - 12, False)]"
      using n(3) d sz k h1 h2 unfolding a_def by (simp add: add.assoc)
    show "hp + hd_prev m' (hp + spans (xs @ [(n, v)]))
        = end_prev hp hp (xs @ [(sz + 12, u), (n - sz - 12, False)])" if "ys \<noteq> []"
      using h3 [OF that] unfolding a_def by (simp add: add.assoc)
    show "m' c = m c" if "c < hp + spans xs" for c
      using that by (intro out) (simp add: a_def)
    show "m' c = m c" if "hp + spans (xs @ [(n, v)]) \<le> c"
      "c < hp + spans (xs @ [(n, v)]) + 8 \<or> hp + spans (xs @ [(n, v)]) + 12 \<le> c" for c
      using that by (intro out) (auto simp: a_def)
  qed (use sz in simp)
  then show "blocks m' hp hp hp (xs @ (sz + 12, u) # (n - sz - 12, False) # ys)" by simp
  have "hd_used m' (hp + spans bs) = hd_used m (hp + spans bs)"
    by (rule hd_cong8(2), rule out) (use y in \<open>cases ys; auto simp: a_def bs_def\<close>)
  then show "hd_used m' (hp + spans bs) = 1" using e by simp
  show "keeps hp (xs @ (sz + 12, v) # (n - sz - 12, False) # ys) m m'"
    unfolding keeps_def
  proof (intro allI impI)
    fix x assume "in_use hp (xs @ (sz + 12, v) # (n - sz - 12, False) # ys) x \<or> x < hp \<or>
      hp + spans (xs @ (sz + 12, v) # (n - sz - 12, False) # ys) + 12 \<le> x"
    then consider "in_use hp xs x" | "a + 12 \<le> x" "x < a + sz + 12" | "in_use (a + n) ys x" | "x < hp"
        | "a + n + 12 \<le> x"
      using k by (auto simp: a_def add.assoc)
    then show "m' x = m x"
      by cases (rule out, auto simp: a_def dest: in_use_bounds)+
  qed
qed

lemma malloc_take_split:
  assumes h: "laid_out h (xs @ (n, False) # ys)" and sz: "sz + 36 \<le> n" "4 dvd sz"
  shows "\<exists>m'. malloc_take sz (spans xs) h = (count_used (sz + 12) h)\<lparr>ram := m'\<rparr> \<and>
     laid_out (malloc_take sz (spans xs) h) (xs @ (sz + 12, True) # (n - sz - 12, False) # ys) \<and>
     keeps (heap_ptr h) (xs @ (n, False) # ys) (ram h) m'"
proof -
  let ?bs = "xs @ (n, False) # ys" and ?hp = "heap_ptr h" and ?m = "ram h"
  define a where "a = ?hp + spans xs"
  note l = laid_out_block [OF h]
  have b: "blocks ?m ?hp ?hp ?hp ?bs" and e: "hd_used ?m (?hp + spans ?bs) = 1"
    and lt: "?hp + spans ?bs + 12 < 2 ^ 32" and ms: "mem_size_aligned h + 12 = spans ?bs"
    using h by (auto simp: laid_out_def)
  have y: "ys \<noteq> [] \<longleftrightarrow> spans xs + n \<noteq> spans ?bs" using b by (cases ys) auto
  have w: "sz + 12 < 2 ^ 32" "spans xs + sz + 12 < 2 ^ 32" "spans xs < 2 ^ 32" "spans xs + n < 2 ^ 32"
    "spans ?bs < 2 ^ 32" "sz + 24 < 2 ^ 32" "spans xs + 12 < 2 ^ 32" using sz lt by simp_all
  define m1 where "m1 = set_prev (a + sz + 12) (spans xs) (set_next (a + sz + 12) (spans xs + n)
      (set_used (a + sz + 12) 0 (set_magic (a + sz + 12) HEAP_MAGIC ?m)))"
  define m2 where "m2 = set_used a 1 (set_next a (spans xs + sz + 12) m1)"
  define m3 where "m3 = (if ys \<noteq> [] then set_prev (a + n) (spans xs + sz + 12) m2 else m2)"
  define m' where "m' = set_magic a HEAP_MAGIC m3"
  have nx: "hd_next m2 (a + sz + 12) = spans xs + n"
    unfolding m2_def m1_def using w sz by (simp add: hd_simps)
  have p: "add_u32 (add_u32 (spans xs) 12) sz = spans xs + sz + 12" "add_u32 sz 12 = sz + 12"
    "add_u32 (mem_size_aligned h) 12 = spans ?bs" "?hp + (spans xs + sz + 12) = a + sz + 12"
    "?hp + (spans xs + n) = a + n"
    using w ms by (simp_all add: add_u32_def a_def)
  have "malloc_split sz (spans xs) h = count_used (sz + 12) (h\<lparr>ram :=
      (if hd_next m2 (a + sz + 12) \<noteq> spans ?bs
       then set_prev (?hp + hd_next m2 (a + sz + 12)) (spans xs + sz + 12) m2 else m2)\<rparr>)"
    unfolding malloc_split_def Let_def p l(1) a_def [symmetric] l(1) [folded a_def] m2_def m1_def
    by (rule refl)
  then have "malloc_split sz (spans xs) h = (count_used (sz + 12) h)\<lparr>ram := m3\<rparr>"
    unfolding nx p m3_def y by simp
  moreover have "user_size h (spans xs) \<ge> add_u32 (add_u32 sz 12) 12"
    using sz w laid_out_user_size [OF h] by (simp add: add_u32_def)
  ultimately have t: "malloc_take sz (spans xs) h = (count_used (sz + 12) h)\<lparr>ram := m'\<rparr>"
    unfolding malloc_take_def Let_def m'_def a_def by simp
  have n: "sz + 24 \<le> n" using sz by simp
  note sp = split_blocks [OF b e n sz(2), where u = True and m' = m', folded a_def]
  have bl: "blocks m' ?hp ?hp ?hp (xs @ (sz + 12, True) # (n - sz - 12, False) # ys)"
    and us: "hd_used m' (?hp + spans ?bs) = 1"
    and kp: "keeps ?hp (xs @ (sz + 12, False) # (n - sz - 12, False) # ys) ?m m'"
    by (rule sp; use sz w n in \<open>auto simp: m'_def m3_def m2_def m1_def hd_simps\<close>)+
  have "keeps ?hp ?bs ?m m'" using kp n by (simp add: keeps_def add.assoc)
  moreover have "laid_out ((count_used (sz + 12) h)\<lparr>ram := m'\<rparr>) (xs @ (sz + 12, True) # (n - sz - 12, False) # ys)"
    using n bl us by (intro laid_out_update [OF h]) (simp_all add: same_frame_def)
  ultimately show ?thesis using t by auto
qed

text \<open>Changing the used flag of a block.\<close>

lemma mark_blocks:
  assumes h: "laid_out h (xs @ (n, v) # ys)" and a: "a = heap_ptr h + spans xs"
    and m': "m' = set_magic a HEAP_MAGIC (set_used a (if u then 1 else 0) (ram h))"
    and f: "same_frame h h'" "ram h' = m'"
  shows "laid_out h' (xs @ (n, u) # ys)" "keeps (heap_ptr h) (xs @ (n, u \<and> v) # ys) (ram h) m'"
    "hd_next m' a = spans xs + n"
proof -
  let ?hp = "heap_ptr h"
  note l = laid_out_block [OF h, folded a]
  have b: "blocks (ram h) ?hp ?hp ?hp (xs @ [(n, v)] @ ys)" using h by (simp add: laid_out_def)
  have e: "hd_used (ram h) (?hp + spans (xs @ (n, v) # ys)) = 1" using h by (auto simp: laid_out_def)
  have "blocks m' ?hp ?hp ?hp (xs @ [(n, u)] @ ys)"
  proof (rule blocks_replace [OF b])
    show "blocks m' ?hp (end_prev ?hp ?hp xs) (?hp + spans xs) [(n, u)]"
      using l unfolding m' a by (auto simp: hd_simps)
    show "?hp + hd_prev m' (?hp + spans (xs @ [(n, v)])) = end_prev ?hp ?hp (xs @ [(n, u)])" if "ys \<noteq> []"
      using that b l unfolding m' a by (cases ys) (auto simp: hd_simps add.assoc)
  qed (use l in \<open>auto simp: m' a hd_simps\<close>)
  moreover have "hd_used m' (?hp + spans (xs @ (n, v) # ys)) = 1"
    using e l unfolding m' a by (simp add: hd_simps)
  ultimately show "laid_out h' (xs @ (n, u) # ys)"
    using f by (intro laid_out_update [OF h]) auto
  show "hd_next m' a = spans xs + n" using l unfolding m' by (simp add: hd_simps)
  show "keeps ?hp (xs @ (n, u \<and> v) # ys) (ram h) m'"
    unfolding keeps_def
  proof (intro allI impI)
    fix x assume "in_use ?hp (xs @ (n, u \<and> v) # ys) x \<or> x < ?hp \<or>
      ?hp + spans (xs @ (n, u \<and> v) # ys) + 12 \<le> x"
    then have "x < a \<or> a + 12 \<le> x" using l(5) by (auto simp: a dest: in_use_bounds)
    then show "m' x = ram h x" unfolding m' by (simp add: hd_simps)
  qed
qed

lemma malloc_take_whole:
  assumes h: "laid_out h (xs @ (n, False) # ys)" and sz: "n < sz + 36" "sz \<le> mem_size_aligned h"
  shows "\<exists>m'. malloc_take sz (spans xs) h = (count_used n h)\<lparr>ram := m'\<rparr> \<and>
     laid_out (malloc_take sz (spans xs) h) (xs @ (n, True) # ys) \<and>
     keeps (heap_ptr h) (xs @ (n, False) # ys) (ram h) m'"
proof -
  define a where "a = heap_ptr h + spans xs"
  define m' where "m' = set_magic a HEAP_MAGIC (set_used a (if True then 1 else 0) (ram h))"
  note l = laid_out_block [OF h, folded a_def]
  have w: "sz + 24 < 2 ^ 32" "spans xs + n < 2 ^ 32" using sz(2) h by (auto simp: laid_out_def)
  have f: "same_frame h ((count_used n h)\<lparr>ram := m'\<rparr>)" by (simp add: same_frame_def)
  note k = mark_blocks [OF h a_def m'_def f, simplified]
  have "\<not> user_size h (spans xs) \<ge> add_u32 (add_u32 sz 12) 12"
    using w sz l(5) laid_out_user_size [OF h] by (simp add: add_u32_def)
  moreover have "sub_u32 (hd_next (set_used a 1 (ram h)) a) (spans xs) = n"
    using l w by (simp add: hd_simps)
  ultimately have "malloc_take sz (spans xs) h = (count_used n h)\<lparr>ram := m'\<rparr>"
    unfolding malloc_take_def Let_def a_def [symmetric] m'_def by simp
  then show ?thesis using k by (auto simp: keeps_def)
qed

section \<open>Allocation\<close>

lemma lead_less:
  "blocks m hp p a bs \<Longrightarrow> \<not> (\<forall>b\<in>set bs. snd b) \<Longrightarrow> lead bs < spans bs"
  by (induction m hp p a bs rule: blocks.induct) auto

lemma lead_split:
  "lead bs = spans bs \<or> (\<exists>xs n ys. bs = xs @ (n, False) # ys \<and> lead bs = spans xs)"
proof (induction bs rule: lead.induct)
  case (2 n u bs)
  show ?case
  proof (cases u)
    case True
    then consider "lead bs = spans bs" | xs k ys where "bs = xs @ (k, False) # ys" "lead bs = spans xs"
      using 2 by blast
    then show ?thesis
    proof cases
      case (2 xs k ys)
      then show ?thesis using True by (intro disjI2 exI [of _ "(n, u) # xs"]) auto
    qed (use True in simp)
  next
    case False
    then show ?thesis by (intro disjI2 exI [of _ "[]"]) auto
  qed
qed simp

lemma laid_out_lead:
  assumes "laid_out h bs"
  shows "heap_ptr h + lead bs = heap_end h \<or> hd_used (ram h) (heap_ptr h + lead bs) = 0"
  using lead_split [of bs] assms laid_out_block(2) by (force simp: laid_out_def)

lemma merged_place:
  "merged (xs @ (n, False) # ys) \<Longrightarrow> merged (xs @ place sz n @ ys)"
  by (auto simp: place_def merged_append merged_Cons)

lemma spans_place [simp]: "sz + 12 \<le> n \<Longrightarrow> spans (place sz n) = n"
  by (auto simp: place_def)

lemma used_span_place [simp]: "used_span (place sz n) = (if sz + 36 \<le> n then sz + 12 else n)"
  by (simp add: place_def)

lemma lead_place: "lead (place sz n @ ys) = (if sz + 36 \<le> n then sz + 12 else n + lead ys)"
  by (simp add: place_def)

text \<open>What \<open>rt_malloc\<close> does before the search: rounding up, and at least twelve bytes.\<close>

definition block_size :: "nat \<Rightarrow> nat" where
  "block_size sz = max 12 (RT_ALIGN sz 4)"

lemma dvd_RT_ALIGN: "x < 2 ^ 32 \<Longrightarrow> 4 dvd RT_ALIGN x 4"
  by (simp add: RT_ALIGN_4)

lemma rt_malloc_search:
  assumes "0 < sz0" "interrupt_nest h = 0" "RT_ALIGN sz0 4 \<le> mem_size_aligned h"
  shows "rt_malloc sz0 h =
    do { found \<leftarrow> malloc_search h (block_size sz0) (lfree h - heap_ptr h);
         case found of None \<Rightarrow> Some (0, h) | Some ptr \<Rightarrow> malloc_found (block_size sz0) ptr h }"
proof -
  have "(if RT_ALIGN sz0 4 < 12 then 12 else RT_ALIGN sz0 4) = block_size sz0"
    by (simp add: block_size_def max_def)
  then show ?thesis using assms unfolding rt_malloc_def Let_def by simp
qed

lemma rt_malloc_taken:
  assumes h: "heap_rel h (xs @ (n, False) # ys)" and sz: "0 < sz0" "sz0 < 2 ^ 32" "RT_ALIGN sz0 4 \<le> mem_size_aligned h"
    and fit: "fit (mem_size_aligned h - block_size sz0) (block_size sz0) 0 (xs @ (n, False) # ys) = Some (spans xs)"
    and n: "block_size sz0 + 12 \<le> n"
  shows "\<exists>h'. rt_malloc sz0 h = Some (heap_ptr h + spans xs + 12, h') \<and>
     heap_rel h' (xs @ place (block_size sz0) n @ ys) \<and> same_frame h h' \<and>
     keeps (heap_ptr h) (xs @ (n, False) # ys) (ram h) (ram h')"
proof -
  let ?bs = "xs @ (n, False) # ys" and ?cs = "xs @ place (block_size sz0) n @ ys"
  define s where "s = block_size sz0"
  define mem where "mem = heap_ptr h + spans xs"
  define h1 where "h1 = malloc_take s (spans xs) h"
  have lo: "laid_out h ?bs" using h by (simp add: heap_rel_def)
  note l = laid_out_block [OF lo, folded mem_def]
  have ms: "12 \<le> mem_size_aligned h" and i: "interrupt_nest h = 0" and hp: "4 dvd heap_ptr h"
    and he: "heap_end h = heap_ptr h + spans ?bs" using lo by (auto simp: laid_out_def)
  have s: "s \<le> mem_size_aligned h" "4 dvd s" "s = (if RT_ALIGN sz0 4 < 12 then 12 else RT_ALIGN sz0 4)"
    using sz ms dvd_RT_ALIGN [of sz0] by (auto simp: s_def block_size_def max_def)
  define k where "k = (if s + 36 \<le> n then s + 12 else n)"
  have "\<exists>m'. h1 = (count_used k h)\<lparr>ram := m'\<rparr> \<and> laid_out h1 ?cs \<and> keeps (heap_ptr h) ?bs (ram h) m'"
    using malloc_take_split [OF lo _ s(2)] malloc_take_whole [OF lo _ s(1)]
    by (cases "s + 36 \<le> n") (auto simp: h1_def place_def k_def s_def)
  then obtain m' where m': "h1 = (count_used k h)\<lparr>ram := m'\<rparr>" "laid_out h1 ?cs"
    "keeps (heap_ptr h) ?bs (ram h) m'" by blast
  have lf1: "lfree h1 = heap_ptr h + lead ?bs" using m'(1) h by (simp add: heap_rel_def)
  have nf: "next_free h1 (heap_ptr h + spans zs) = Some (heap_ptr h + spans zs + lead ws)"
    if "?cs = zs @ ws" for zs ws
    using next_free_lead [of h1 zs ws] m'(1,2) that by simp
  define lf where "lf = heap_ptr h + lead ?cs"
  have L: "(if mem = lfree h1 then next_free h1 (lfree h1) else Some (lfree h1)) = Some lf"
  proof (cases "\<forall>b\<in>set xs. snd b")
    case True
    then have "lead ?bs = spans xs" "lead ?cs = spans xs + lead (place (block_size sz0) n @ ys)"
      by (simp_all add: lead_append)
    then show ?thesis using nf [of xs] lf1 by (simp add: mem_def lf_def add.assoc)
  next
    case False
    then have "lead ?bs = lead xs" "lead ?cs = lead xs"
      unfolding lead_append [of xs] by (rule if_not_P)+
    moreover have "lead xs < spans xs"
      using False lo lead_less [of "ram h" _ _ _ xs] by (auto simp: laid_out_def)
    ultimately show ?thesis using lf1 by (simp add: mem_def lf_def)
  qed
  have fr: "lf = heap_end h1 \<or> hd_used (ram h1) lf = 0"
    using laid_out_lead [OF m'(2)] m'(1) by (simp add: lf_def)
  have as: "mem + 12 + s \<le> heap_end h1" "(mem + 12) mod 4 = 0" "mem mod 4 = 0"
    using m'(1) he n hp l(7) by (auto simp: mem_def s_def)
  have so: "malloc_search h s (lfree h - heap_ptr h) = Some (Some (spans xs))"
    using malloc_search_lead [OF lo s(1)] fit h by (simp add: heap_rel_def s_def)
  have "malloc_found s (spans xs) h = Some (mem + 12, h1\<lparr>lfree := lf\<rparr>)"
    unfolding malloc_found_def Let_def mem_def [symmetric] h1_def [symmetric] L
    using fr as by simp
  then have "rt_malloc sz0 h = Some (mem + 12, h1\<lparr>lfree := lf\<rparr>)"
    using rt_malloc_search [OF sz(1) i sz(3)] so by (simp add: s_def)
  moreover have "used_mem h1 = used_span ?cs"
  proof -
    have "used_span ?cs \<le> spans ?cs" by (rule used_span_le)
    also have "\<dots> < 2 ^ 32" using m'(2) by (simp add: laid_out_def)
    finally have "used_span ?bs + k < 2 ^ 32" by (simp add: k_def s_def add_ac split: if_splits)
    then show ?thesis using h m'(1) by (simp add: heap_rel_def add_u32_def k_def s_def)
  qed
  moreover have "laid_out (h1\<lparr>lfree := lf\<rparr>) ?cs" using m'(2) by simp
  moreover have "merged ?cs" using h by (intro merged_place) (simp add: heap_rel_def)
  moreover have "roomy ?cs"
    using h n by (auto simp: heap_rel_def place_def block_size_def)
  ultimately have "rt_malloc sz0 h = Some (mem + 12, h1\<lparr>lfree := lf\<rparr>) \<and> heap_rel (h1\<lparr>lfree := lf\<rparr>) ?cs"
    using m'(1) by (simp add: heap_rel_def lf_def)
  then show ?thesis using m' by (auto simp: mem_def same_frame_def)
qed

text \<open>All cases of \<open>rt_malloc\<close>.\<close>

lemma rt_malloc_cases:
  assumes h: "heap_rel h bs" and sz: "sz0 < 2 ^ 32"
  obtains (none) "rt_malloc sz0 h = Some (0, h)"
      "sz0 = 0 \<or> mem_size_aligned h < RT_ALIGN sz0 4 \<or>
        fit (mem_size_aligned h - block_size sz0) (block_size sz0) 0 bs = None"
  | (taken) xs n ys h' where "bs = xs @ (n, False) # ys" "block_size sz0 + 12 \<le> n"
      "rt_malloc sz0 h = Some (heap_ptr h + spans xs + 12, h')"
      "heap_rel h' (xs @ place (block_size sz0) n @ ys)" "same_frame h h'"
      "keeps (heap_ptr h) bs (ram h) (ram h')" "0 < sz0"
      "spans xs < mem_size_aligned h - block_size sz0"
      "\<forall>(k, v)\<in>set xs. v \<or> k < block_size sz0 + 12"
proof -
  have i: "interrupt_nest h = 0" and ms: "12 \<le> mem_size_aligned h" and lo: "laid_out h bs"
    and lf: "lfree h - heap_ptr h = lead bs"
    using h by (auto simp: heap_rel_def laid_out_def)
  show ?thesis
  proof (cases "sz0 = 0 \<or> mem_size_aligned h < RT_ALIGN sz0 4")
    case True
    then show ?thesis using i by (intro none) (auto simp: rt_malloc_def Let_def)
  next
    case False
    then have s: "0 < sz0" "RT_ALIGN sz0 4 \<le> mem_size_aligned h" "block_size sz0 \<le> mem_size_aligned h"
      using ms by (auto simp: block_size_def)
    note m = rt_malloc_search [OF s(1) i s(2)] malloc_search_lead [OF lo s(3)]
    show ?thesis
    proof (cases "fit (mem_size_aligned h - block_size sz0) (block_size sz0) 0 bs")
      case None
      then show ?thesis using m lf by (intro none) simp_all
    next
      case (Some p)
      then obtain xs n ys where x: "bs = xs @ (n, False) # ys" "p = spans xs" "block_size sz0 + 12 \<le> n"
        "p < mem_size_aligned h - block_size sz0" "\<forall>(k, v)\<in>set xs. v \<or> k < block_size sz0 + 12"
        using fit_Some [OF Some] by auto
      obtain h' where h': "rt_malloc sz0 h = Some (heap_ptr h + spans xs + 12, h')"
        "heap_rel h' (xs @ place (block_size sz0) n @ ys)" "same_frame h h'"
        "keeps (heap_ptr h) bs (ram h) (ram h')"
        using rt_malloc_taken [OF h [unfolded x(1)] s(1) sz s(2) Some [unfolded x(1,2)] x(3)] x(1) by auto
      show ?thesis using x(4) unfolding x(2) by (intro taken [OF x(1,3) h' s(1) _ x(5)])
    qed
  qed
qed

section \<open>Release\<close>

definition join_next :: "nat \<Rightarrow> blk list \<Rightarrow> blk list" where
  "join_next n ys = (case ys of (k, False) # zs \<Rightarrow> (n + k, False) # zs | _ \<Rightarrow> (n, False) # ys)"

definition released :: "blk list \<Rightarrow> nat \<Rightarrow> blk list \<Rightarrow> blk list" where
  "released xs n ys =
    (if xs \<noteq> [] \<and> \<not> snd (last xs)
     then butlast xs @ join_next (fst (last xs)) (join_next n ys)
     else xs @ join_next n ys)"

lemma join_next_simps:
  "join_next n [] = [(n, False)]" "join_next n ((k, True) # zs) = (n, False) # (k, True) # zs"
  "join_next n ((k, False) # zs) = (n + k, False) # zs"
  by (simp_all add: join_next_def)

lemma join_next_cases:
  obtains (next_free) k zs where "ys = (k, False) # zs" "join_next n ys = (n + k, False) # zs"
  | (next_used) "\<And>k zs. ys \<noteq> (k, False) # zs" "join_next n ys = (n, False) # ys"
    "ys \<noteq> [] \<Longrightarrow> snd (hd ys)"
proof (cases ys)
  case (Cons y zs)
  obtain k u where "y = (k, u)" by (cases y)
  then show ?thesis using that Cons by (cases u) (auto simp: join_next_def)
qed (use that in \<open>auto simp: join_next_def\<close>)

lemma spans_join [simp]: "spans (join_next n ys) = n + spans ys"
  by (cases rule: join_next_cases [of ys n]) auto

lemma spans_released [simp]: "spans (released xs n ys) = spans xs + (n + spans ys)"
proof (cases "xs \<noteq> [] \<and> \<not> snd (last xs)")
  case True
  then obtain k ws where "xs = ws @ [(k, False)]" by (metis append_butlast_last_id prod.collapse)
  then show ?thesis by (simp add: released_def)
qed (auto simp: released_def)

lemma used_span_join [simp]: "used_span (join_next n ys) = used_span ys"
  by (cases rule: join_next_cases [of ys n]) auto

lemma lead_join [simp]: "lead (xs @ join_next n ys) = lead (xs @ [(n, False)])"
  by (cases rule: join_next_cases [of ys n]) (auto simp: lead_append)

lemma in_use_join [simp]: "in_use a (join_next n ys) b = in_use (a + n) ys b"
  by (cases rule: join_next_cases [of ys n]) (auto simp: add.assoc)

lemma merged_join: "merged ys \<Longrightarrow> merged (join_next n ys)"
  by (cases rule: join_next_cases [of ys n]) (auto simp: merged_Cons)

lemma plug_forward_joined:
  assumes h: "laid_out h (xs @ (n, False) # ys)" and a: "a = heap_ptr h + spans xs"
    and l: "lfree h \<le> a"
  shows "\<exists>m'. plug_forward a h = h\<lparr>ram := m'\<rparr> \<and> laid_out (plug_forward a h) (xs @ join_next n ys) \<and>
     keeps (heap_ptr h) (xs @ (n, False) # ys) (ram h) m'"
proof (cases rule: join_next_cases [of ys n])
  case (next_free k zs)
  have "lfree h \<noteq> a + n" using l laid_out_block(5) [OF h] by simp
  then show ?thesis using plug_forward_free [OF h [unfolded next_free(1)] a] next_free by auto
next
  case next_used
  then show ?thesis using plug_forward_none [OF h a] h
    by (intro exI [of _ "ram h"]) simp
qed

lemma plug_holes_released:
  assumes h: "laid_out h (xs @ (n, False) # ys)" and a: "a = heap_ptr h + spans xs"
    and m: "merged xs" "merged ys" and l: "lfree h = heap_ptr h + lead (xs @ [(n, False)])"
  shows "\<exists>m'. plug_holes a h = Some (h\<lparr>ram := m'\<rparr>) \<and> laid_out (h\<lparr>ram := m'\<rparr>) (released xs n ys) \<and>
     merged (released xs n ys) \<and> lead (released xs n ys) = lead (xs @ [(n, False)]) \<and>
     keeps (heap_ptr h) (xs @ (n, False) # ys) (ram h) m'"
proof -
  note b = laid_out_block [OF h, folded a]
  have la: "lfree h \<le> a" using l lead_le [of xs] by (auto simp: a lead_append)
  obtain m1 where m1: "plug_forward a h = h\<lparr>ram := m1\<rparr>" "laid_out (h\<lparr>ram := m1\<rparr>) (xs @ join_next n ys)"
    "keeps (heap_ptr h) (xs @ (n, False) # ys) (ram h) m1"
    using plug_forward_joined [OF h a la] by auto
  define h1 where "h1 = h\<lparr>ram := m1\<rparr>"
  obtain n' zs where j: "join_next n ys = (n', False) # zs" by (rule join_next_cases [of ys n]) auto
  have lo: "laid_out h1 (xs @ (n', False) # zs)" using m1 j by (simp add: h1_def)
  have p: "plug_holes a h = Some (plug_backward a h1)"
    using b a m1(1) by (simp add: plug_holes_def h1_def)
  have mj: "merged ((n', False) # zs)" using merged_join [OF m(2), of n] j by simp
  show ?thesis
  proof (cases "xs \<noteq> [] \<and> \<not> snd (last xs)")
    case True
    then obtain k ws where ws: "xs = ws @ [(k, False)]"
      by (metis append_butlast_last_id prod.collapse)
    have lo2: "laid_out h1 (ws @ (k, False) # (n', False) # zs)" using lo ws by simp
    have a2: "a = heap_ptr h1 + spans ws + k" using a ws by (simp add: h1_def)
    have "lead (xs @ [(n, False)]) \<le> spans ws" using lead_le [of ws] by (auto simp: ws lead_append)
    then have "lfree h1 \<noteq> a" using l a2 laid_out_block(5) [OF lo2] by (simp add: h1_def)
    then obtain m2 where m2: "plug_backward a h1 = h1\<lparr>ram := m2\<rparr>" "laid_out (h1\<lparr>ram := m2\<rparr>) (ws @ (k + n', False) # zs)"
      "keeps (heap_ptr h1) (ws @ (k, False) # (n', False) # zs) m1 m2"
      using plug_backward_free [OF lo2 a2] by (auto simp: h1_def)
    have r: "released xs n ys = ws @ (k + n', False) # zs"
      unfolding released_def using ws j by (simp add: join_next_def)
    have "in_use (heap_ptr h + (spans ws + (k + n))) ys b
        = in_use (heap_ptr h + (spans ws + (k + n'))) zs b" for b
      using in_use_join [of "heap_ptr h + spans ws + k" n ys b] j by (simp add: add.assoc)
    moreover have "n' + spans zs = n + spans ys" using j spans_join [of n ys] by simp
    ultimately have "keeps (heap_ptr h) (xs @ (n, False) # ys) m1 m2"
      using m2(3) ws by (simp add: keeps_def h1_def add.assoc)
    moreover have "merged (released xs n ys)" using m(1) mj ws unfolding r by (auto simp: merged_append merged_Cons)
    ultimately show ?thesis using p m1 m2 r ws
      by (intro exI [of _ m2]) (auto simp: h1_def lead_append keeps_def)
  next
    case False
    have nb: "plug_backward a h1 = h1"
      by (rule plug_backward_none [OF lo]) (use False a in \<open>auto simp: h1_def\<close>)
    have r: "released xs n ys = xs @ join_next n ys" using False by (auto simp: released_def)
    have "merged (released xs n ys)" using m(1) mj False unfolding r j by (auto simp: merged_append)
    then show ?thesis using p m1 nb r by (intro exI [of _ m1]) (auto simp: h1_def)
  qed
qed

lemma used_span_released [simp]:
  "used_span (released xs n ys) = used_span xs + used_span ys"
proof (cases "xs \<noteq> [] \<and> \<not> snd (last xs)")
  case True
  then obtain k ws where "xs = ws @ [(k, False)]" by (metis append_butlast_last_id prod.collapse)
  then show ?thesis by (simp add: released_def)
qed (auto simp: released_def)

lemma roomy_join [simp]: "roomy (join_next n ys) = roomy ys"
  by (cases rule: join_next_cases [of ys n]) auto

lemma roomy_released [simp]: "roomy (released xs n ys) \<longleftrightarrow> roomy xs \<and> roomy ys"
proof (cases "xs \<noteq> [] \<and> \<not> snd (last xs)")
  case True
  then obtain k ws where "xs = ws @ [(k, False)]" by (metis append_butlast_last_id prod.collapse)
  then show ?thesis by (simp add: released_def)
qed (auto simp: released_def)

lemma rt_free_released:
  assumes h: "heap_rel h (xs @ (n, True) # ys)"
  shows "\<exists>h'. rt_free (heap_ptr h + spans xs + 12) h = Some h' \<and> heap_rel h' (released xs n ys) \<and>
     same_frame h h' \<and> keeps (heap_ptr h) (xs @ (n, False) # ys) (ram h) (ram h')"
proof -
  let ?bs = "xs @ (n, True) # ys" and ?cs = "xs @ (n, False) # ys"
  define a where "a = heap_ptr h + spans xs"
  have lo: "laid_out h ?bs" using h by (simp add: heap_rel_def)
  note b = laid_out_block [OF lo, folded a_def]
  have g: "interrupt_nest h = 0" "4 dvd heap_ptr h" "heap_end h = heap_ptr h + spans ?bs"
    "heap_ptr h + spans ?bs + 12 < 2 ^ 32"
    using lo by (auto simp: laid_out_def)
  define m1 where "m1 = set_magic a HEAP_MAGIC (set_used a (if False then 1 else 0) (ram h))"
  define lf where "lf = (if a < lfree h then a else lfree h)"
  define h3 where "h3 = h\<lparr>ram := m1, lfree := lf, used_mem := used_mem h - n\<rparr>"
  have f: "same_frame h h3" "ram h3 = m1" by (simp_all add: h3_def same_frame_def)
  note mk = mark_blocks [OF lo a_def m1_def f]
  have us: "n \<le> used_mem h" "used_mem h < 2 ^ 32" "used_mem h - n = used_span xs + used_span ys"
    using h g used_span_le [of ?bs] by (auto simp: heap_rel_def)
  have lf: "lf = heap_ptr h + lead (xs @ [(n, False)])"
    using h b(5) lead_less [of "ram h" _ _ _ xs] lo lead_le [of xs]
    by (auto simp: lf_def heap_rel_def lead_append a_def laid_out_def)
  have mg: "merged xs" "merged ys" using h by (auto simp: heap_rel_def merged_append merged_Cons)
  obtain m' where m': "plug_holes a h3 = Some (h3\<lparr>ram := m'\<rparr>)" "laid_out (h3\<lparr>ram := m'\<rparr>) (released xs n ys)"
    "merged (released xs n ys)" "lead (released xs n ys) = lead (xs @ [(n, False)])"
    "keeps (heap_ptr h) ?cs m1 m'"
    using plug_holes_released [OF mk(1), of a] mg lf by (auto simp: h3_def a_def)
  have al: "a + 12 \<noteq> 0" "(a + 12) mod 4 = 0" "a + 12 \<ge> heap_ptr h" "a + 12 - 12 = a"
    using b(7) g(2) by (auto simp: a_def)
  have le: "a + 12 < heap_end h" using h g(3) by (simp add: heap_rel_def a_def)
  have sub: "sub_u32 (hd_next m1 a) (a - heap_ptr h) = n"
    using mk(3) g(4) by (simp add: a_def)
  have d: "sub_u32 (used_mem h) n = used_mem h - n" using us by simp
  have "rt_free (a + 12) h = plug_holes a h3"
    using al(1,2,3) le g(1) b(2,3) sub
    unfolding rt_free_def Let_def al(4) m1_def h3_def lf_def
    by (auto simp: d)
  then have "rt_free (a + 12) h = Some (h3\<lparr>ram := m'\<rparr>)" using m'(1) by simp
  moreover have "heap_rel (h3\<lparr>ram := m'\<rparr>) (released xs n ys)"
    using m'(2-4) lf us h by (simp add: heap_rel_def h3_def)
  moreover have "keeps (heap_ptr h) ?cs (ram h) m'"
    using keeps_trans [OF _ m'(5), of "ram h"] mk(2) by simp
  ultimately show ?thesis by (auto simp: a_def h3_def same_frame_def)
qed

section \<open>Shrinking in place\<close>

lemma released_used: "released (xs @ [(k, True)]) n ys = xs @ (k, True) # join_next n ys"
  by (simp add: released_def)

lemma realloc_split_blocks:
  fixes h xs n ys sz
  defines "a \<equiv> heap_ptr h + spans xs" and "bs \<equiv> xs @ (n, True) # ys"
  defines "m2 \<equiv> set_next a (spans xs + sz + 12) (set_prev (a + sz + 12) (spans xs)
      (set_next (a + sz + 12) (spans xs + n) (set_used (a + sz + 12) 0 (set_magic (a + sz + 12) HEAP_MAGIC (ram h)))))"
  defines "m' \<equiv> (if ys \<noteq> [] then set_prev (a + n) (spans xs + sz + 12) m2 else m2)"
  assumes h: "laid_out h bs" and sz: "sz + 24 \<le> n" "4 dvd sz"
  shows "realloc_split (spans xs) (n - 12) sz h =
      (let h1 = h\<lparr>used_mem := sub_u32 (used_mem h) (n - 12 - sz), ram := m'\<rparr>
       in plug_holes (a + sz + 12) (if a + sz + 12 < lfree h then h1\<lparr>lfree := a + sz + 12\<rparr> else h1))"
    "laid_out (h\<lparr>ram := m'\<rparr>) ((xs @ [(sz + 12, True)]) @ (n - sz - 12, False) # ys)"
    "keeps (heap_ptr h) ((xs @ [(sz + 12, True)]) @ (n - sz - 12, False) # ys) (ram h) m'"
proof -
  let ?hp = "heap_ptr h" and ?m = "ram h"
  note l = laid_out_block [OF h [unfolded bs_def], folded a_def]
  have b: "blocks ?m ?hp ?hp ?hp (xs @ (n, True) # ys)" and e: "hd_used ?m (?hp + spans (xs @ (n, True) # ys)) = 1"
    and lt: "?hp + spans bs + 12 < 2 ^ 32" and ms: "mem_size_aligned h + 12 = spans bs"
    using h by (auto simp: laid_out_def bs_def)
  have y: "ys \<noteq> [] \<longleftrightarrow> spans xs + n \<noteq> spans bs" using b by (cases ys) (auto simp: bs_def)
  have w: "spans xs + sz + 12 < 2 ^ 32" "spans xs < 2 ^ 32" "spans xs + n < 2 ^ 32"
    "spans bs < 2 ^ 32" "spans xs + 12 < 2 ^ 32" "n < 2 ^ 32" using sz lt by (auto simp: bs_def)
  have p: "add_u32 (add_u32 (spans xs) 12) sz = spans xs + sz + 12" "sub_u32 (n - 12) sz = n - 12 - sz"
    "add_u32 (mem_size_aligned h) 12 = spans bs" "?hp + (spans xs + sz + 12) = a + sz + 12"
    "?hp + (spans xs + n) = a + n"
    using w ms sz by (simp_all add: add_u32_def a_def)
  have nx: "hd_next m2 (a + sz + 12) = spans xs + n"
    unfolding m2_def using w sz by (simp add: hd_simps)
  show "realloc_split (spans xs) (n - 12) sz h =
      (let h1 = h\<lparr>used_mem := sub_u32 (used_mem h) (n - 12 - sz), ram := m'\<rparr>
       in plug_holes (a + sz + 12) (if a + sz + 12 < lfree h then h1\<lparr>lfree := a + sz + 12\<rparr> else h1))"
    unfolding realloc_split_def Let_def p l(1) a_def [symmetric] m2_def [symmetric] nx m'_def y
    by simp
  note sp = split_blocks [OF b e sz, where u = True and m' = m', folded a_def]
  have bl: "blocks m' ?hp ?hp ?hp (xs @ (sz + 12, True) # (n - sz - 12, False) # ys)"
    and us: "hd_used m' (?hp + spans (xs @ (n, True) # ys)) = 1"
    and kp: "keeps ?hp (xs @ (sz + 12, True) # (n - sz - 12, False) # ys) ?m m'"
    by (rule sp; use sz w l in \<open>auto simp: m'_def m2_def hd_simps\<close>)+
  show "keeps ?hp ((xs @ [(sz + 12, True)]) @ (n - sz - 12, False) # ys) ?m m'" using kp by simp
  have "laid_out (h\<lparr>ram := m'\<rparr>) (xs @ (sz + 12, True) # (n - sz - 12, False) # ys)"
    using sz bl us by (intro laid_out_update [OF h]) (simp_all add: same_frame_def bs_def)
  then show "laid_out (h\<lparr>ram := m'\<rparr>) ((xs @ [(sz + 12, True)]) @ (n - sz - 12, False) # ys)" by simp
qed

lemma realloc_split_shrinks:
  assumes h: "heap_rel h (xs @ (n, True) # ys)" and sz: "sz + 24 \<le> n" "4 dvd sz" "4 \<le> sz"
  shows "\<exists>h'. realloc_split (spans xs) (n - 12) sz h = Some h' \<and>
     heap_rel h' (xs @ (sz + 12, True) # join_next (n - sz - 12) ys) \<and> same_frame h h' \<and>
     keeps (heap_ptr h) (xs @ (sz + 12, True) # (n - sz - 12, False) # ys) (ram h) (ram h')"
proof -
  let ?bs = "xs @ (n, True) # ys" and ?k = "n - sz - 12" and ?us = "xs @ [(sz + 12, True)]"
  define a where "a = heap_ptr h + spans xs + sz + 12"
  have lo: "laid_out h ?bs" using h by (simp add: heap_rel_def)
  note r = realloc_split_blocks [OF lo sz(1,2), folded a_def]
  define lf where "lf = (if a < lfree h then a else lfree h)"
  obtain m' where m': "realloc_split (spans xs) (n - 12) sz h =
      plug_holes a (h\<lparr>used_mem := sub_u32 (used_mem h) (n - 12 - sz), ram := m', lfree := lf\<rparr>)"
    "laid_out (h\<lparr>ram := m'\<rparr>) (?us @ (?k, False) # ys)"
    "keeps (heap_ptr h) (?us @ (?k, False) # ys) (ram h) m'"
    using r unfolding Let_def lf_def by (cases "a < lfree h") simp_all
  define h1 where "h1 = h\<lparr>used_mem := sub_u32 (used_mem h) (n - 12 - sz), ram := m', lfree := lf\<rparr>"
  have lo1: "laid_out h1 (?us @ (?k, False) # ys)"
    using m'(2) by (subst laid_out_cong [of "h\<lparr>ram := m'\<rparr>"]) (simp_all add: h1_def same_frame_def)
  have lf: "lf = heap_ptr h + lead (?us @ [(?k, False)])"
    using h sz lead_less [of "ram h" _ _ _ xs] lo lead_le [of xs]
    by (auto simp: lf_def heap_rel_def lead_append a_def laid_out_def)
  have mg: "merged ?us" "merged ys" using h by (auto simp: heap_rel_def merged_append merged_Cons)
  obtain m2 where m2: "plug_holes a h1 = Some (h1\<lparr>ram := m2\<rparr>)" "laid_out (h1\<lparr>ram := m2\<rparr>) (released ?us ?k ys)"
    "merged (released ?us ?k ys)" "lead (released ?us ?k ys) = lead (?us @ [(?k, False)])"
    "keeps (heap_ptr h1) (?us @ (?k, False) # ys) m' m2"
    using plug_holes_released [OF lo1, of a] mg lf by (auto simp: h1_def a_def)
  have "used_mem h < 2 ^ 32" "n \<le> used_mem h"
    using h lo used_span_le [of ?bs] by (auto simp: heap_rel_def laid_out_def)
  then have "used_mem h1 = used_span (released ?us ?k ys)" "used_mem h1 \<le> max_mem h1"
    using h sz by (auto simp: h1_def heap_rel_def released_used)
  then have "heap_rel (h1\<lparr>ram := m2\<rparr>) (released ?us ?k ys)"
    using m2(2-4) lf h sz by (simp add: heap_rel_def h1_def)
  moreover have "keeps (heap_ptr h) (?us @ (?k, False) # ys) (ram h) m2"
    using keeps_trans [OF m'(3)] m2(5) by (simp add: h1_def)
  ultimately show ?thesis using m'(1) m2(1)
    unfolding released_used by (auto simp: h1_def same_frame_def)
qed

end
