(* ===== verification/Heap_Store.thy ===== *)
theory Heap_Store
  imports Heap_Ops
begin

text \<open>
  The contract of the heap: a store of separate byte arrays. An abstract store maps the pointers a
  client holds to the bytes behind them; \<open>rt_malloc\<close>, \<open>rt_calloc\<close>, \<open>rt_realloc\<close>,
  \<open>rt_free\<close> and the client's own writes act on it, and the heap of \<open>Kernel_Heap\<close> implements it.
\<close>

section \<open>The blocks in use\<close>

fun live :: "nat \<Rightarrow> blk list \<Rightarrow> (nat \<times> nat) list" where
  "live a [] = []"
| "live a ((n, u) # bs) = (if u then [(a + 12, n - 12)] else []) @ live (a + n) bs"

lemma live_append [simp]: "live a (xs @ ys) = live a xs @ live (a + spans xs) ys"
  by (induction a xs rule: live.induct) (auto simp: add.assoc)

lemma live_join [simp]: "live a (join_next n ys) = live (a + n) ys"
  by (cases rule: join_next_cases [of ys n]) (auto simp: add.assoc)

lemma live_released [simp]: "live a (released xs n ys) = live a xs @ live (a + spans xs + n) ys"
proof (cases "xs \<noteq> [] \<and> \<not> snd (last xs)")
  case True
  then obtain k ws where "xs = ws @ [(k, False)]" by (metis append_butlast_last_id prod.collapse)
  then show ?thesis by (simp add: released_def add.assoc)
qed (auto simp: released_def)

lemma in_use_released: "in_use a (released xs n ys) b = in_use a (xs @ (n, False) # ys) b"
proof (cases "xs \<noteq> [] \<and> \<not> snd (last xs)")
  case True
  then obtain k ws where "xs = ws @ [(k, False)]" by (metis append_butlast_last_id prod.collapse)
  then show ?thesis by (simp add: released_def add.assoc)
qed (auto simp: released_def)

lemma live_place:
  "sz + 12 \<le> n \<Longrightarrow> live a (place sz n) = [(a + 12, if sz + 36 \<le> n then sz else n - 12)]"
  by (simp add: place_def)

lemma live_split:
  "(p, k) \<in> set (live a bs) \<Longrightarrow>
   \<exists>xs n ys. bs = xs @ (n, True) # ys \<and> p = a + spans xs + 12 \<and> k = n - 12"
proof (induction a bs rule: live.induct)
  case (2 a n u bs)
  show ?case
  proof (cases "(p, k) \<in> set (live (a + n) bs)")
    case True
    then obtain xs l ys where "bs = xs @ (l, True) # ys" "p = a + n + spans xs + 12" "k = l - 12"
      using 2(1) by blast
    then show ?thesis by (intro exI [of _ "(n, u) # xs"]) auto
  next
    case False
    then have "u" "p = a + 12" "k = n - 12" using 2(2) by (auto split: if_splits)
    then show ?thesis by (intro exI [of _ "[]"]) auto
  qed
qed simp

definition long_enough :: "blk list \<Rightarrow> bool" where
  "long_enough bs \<longleftrightarrow> (\<forall>(n, u)\<in>set bs. 12 \<le> n)"

lemma blocks_long: "blocks m hp p a bs \<Longrightarrow> long_enough bs"
  by (induction m hp p a bs rule: blocks.induct) (auto simp: long_enough_def)

lemma live_bounds:
  "long_enough bs \<Longrightarrow> (p, k) \<in> set (live a bs) \<Longrightarrow> a + 12 \<le> p \<and> p + k \<le> a + spans bs"
  by (induction a bs rule: live.induct) (fastforce simp: long_enough_def split: if_splits)+

lemma live_disjoint:
  "long_enough bs \<Longrightarrow> (p, k) \<in> set (live a bs) \<Longrightarrow> (q, j) \<in> set (live a bs) \<Longrightarrow> p \<noteq> q \<Longrightarrow>
   p + k \<le> q \<or> q + j \<le> p"
proof (induction a bs rule: live.induct)
  case (2 a n u bs)
  have l: "long_enough bs" "12 \<le> n" using 2(2) by (auto simp: long_enough_def)
  note b = live_bounds [OF l(1), of _ _ "a + n"]
  consider "(p, k) \<in> set (live (a + n) bs)" "(q, j) \<in> set (live (a + n) bs)"
    | "(p, k) \<in> set (live (a + n) bs)" "q = a + 12" "j = n - 12"
    | "(q, j) \<in> set (live (a + n) bs)" "p = a + 12" "k = n - 12"
    using 2(3-5) by (auto split: if_splits)
  then show ?case
  proof cases
    case 1
    then show ?thesis using 2(1) l(1) 2(5) by blast
  next
    case 2
    then show ?thesis using b [of p k] l(2) by simp
  next
    case 3
    then show ?thesis using b [of q j] l(2) by simp
  qed
qed simp

lemma live_inj: "long_enough bs \<Longrightarrow> (p, k) \<in> set (live a bs) \<Longrightarrow> (p, j) \<in> set (live a bs) \<Longrightarrow> k = j"
proof (induction a bs rule: live.induct)
  case (2 a n u bs)
  have "long_enough bs" "12 \<le> n" using 2(2) by (auto simp: long_enough_def)
  then show ?case using 2(1,3,4) live_bounds [of bs p _ "a + n"] by (fastforce split: if_splits)
qed simp

lemma live_in_use: "(p, k) \<in> set (live a bs) \<Longrightarrow> i < k \<Longrightarrow> in_use a bs (p + i)"
  by (induction a bs rule: live.induct) (auto split: if_splits)

section \<open>The store\<close>

type_synonym store = "nat \<Rightarrow> u8 list option"

definition owned :: "nat \<Rightarrow> blk list \<Rightarrow> ram \<Rightarrow> store \<Rightarrow> bool" where
  "owned hp bs m own \<longleftrightarrow> dom own = fst ` set (live hp bs) \<and>
     (\<forall>(p, k)\<in>set (live hp bs). \<forall>d. own p = Some d \<longrightarrow> length d \<le> k \<and> (\<forall>i<length d. m (p + i) = d ! i))"

definition store_rel :: "heap \<Rightarrow> store \<Rightarrow> bool" where
  "store_rel h own \<longleftrightarrow> (\<exists>bs. heap_rel h bs \<and> owned (heap_ptr h) bs (ram h) own)"

lemma owned_keeps: "owned hp bs m own \<Longrightarrow> keeps hp bs m m' \<Longrightarrow> owned hp bs m' own"
proof -
  assume o: "owned hp bs m own" and k: "keeps hp bs m m'"
  have "m' (p + i) = d ! i" if "(p, j) \<in> set (live hp bs)" "own p = Some d" "i < length d" for p j d i
  proof -
    have "length d \<le> j" "m (p + i) = d ! i" using o that by (auto simp: owned_def)
    moreover have "in_use hp bs (p + i)" using live_in_use [OF that(1), of i] calculation(1) that(3) by simp
    ultimately show ?thesis using k by (simp add: keeps_def)
  qed
  then show ?thesis using o unfolding owned_def by fast
qed

lemma owned_cong: "set (live hp bs) = set (live hp cs) \<Longrightarrow> owned hp bs m own = owned hp cs m own"
  by (simp add: owned_def)

text \<open>The bytes a memory has behind a pointer.\<close>

definition bytes_at :: "ram \<Rightarrow> nat \<Rightarrow> nat \<Rightarrow> u8 list" where
  "bytes_at m p n = map (\<lambda>i. m (p + i)) [0..<n]"

lemma bytes_at_simps [simp]: "length (bytes_at m p n) = n" "i < n \<Longrightarrow> bytes_at m p n ! i = m (p + i)"
  by (simp_all add: bytes_at_def)

text \<open>A new block is owned, a removed one is not, and one may get other contents.\<close>

lemma owned_add:
  assumes "owned hp bs m own" "set (live hp cs) = insert (p, k) (set (live hp bs))"
    "p \<notin> fst ` set (live hp bs)" "length d \<le> k" "\<forall>i<length d. m (p + i) = d ! i"
  shows "owned hp cs m (own(p \<mapsto> d))"
  unfolding owned_def assms(2)
proof (intro conjI ballI)
  show "dom (own(p \<mapsto> d)) = fst ` insert (p, k) (set (live hp bs))" using assms(1) by (simp add: owned_def)
  fix x assume x: "x \<in> insert (p, k) (set (live hp bs))"
  obtain q j where q: "x = (q, j)" by (cases x)
  have "(q = p \<and> j = k) \<or> (q \<noteq> p \<and> (q, j) \<in> set (live hp bs))" using x q assms(3) by force
  then show "case x of (q, j) \<Rightarrow> \<forall>e. (own(p \<mapsto> d)) q = Some e \<longrightarrow> length e \<le> j \<and> (\<forall>i<length e. m (q + i) = e ! i)"
  proof
    assume "q = p \<and> j = k"
    then show ?thesis using assms(4,5) q by simp
  next
    assume "q \<noteq> p \<and> (q, j) \<in> set (live hp bs)"
    then show ?thesis using assms(1) q by (auto simp: owned_def)
  qed
qed

lemma owned_remove:
  assumes "owned hp bs m own" "set (live hp cs) = {x \<in> set (live hp bs). fst x \<noteq> p}"
  shows "owned hp cs m (own(p := None))"
  using assms(1) unfolding owned_def assms(2) by (auto simp: dom_def split: if_splits)

definition apart :: "store \<Rightarrow> nat \<Rightarrow> nat \<Rightarrow> bool" where
  "apart own p n \<longleftrightarrow> own p = None \<and> (\<forall>q d. own q = Some d \<longrightarrow> p + n \<le> q \<or> q + length d \<le> p)"

text \<open>The abstract operations: what a call with a result may do to the store.\<close>

datatype heap_op = Malloc nat | Calloc nat nat | Realloc nat nat | Free nat | Write nat nat u8

fun allowed :: "store \<Rightarrow> heap_op \<Rightarrow> bool" where
  "allowed own (Malloc n) \<longleftrightarrow> n \<le> 2 ^ 32 - 4"
| "allowed own (Calloc c n) \<longleftrightarrow> c * n \<le> 2 ^ 32 - 4"
| "allowed own (Realloc p n) \<longleftrightarrow> (p = 0 \<or> p \<in> dom own) \<and> n \<le> 2 ^ 32 - 4"
| "allowed own (Free p) \<longleftrightarrow> p = 0 \<or> p \<in> dom own"
| "allowed own (Write p i b) \<longleftrightarrow> (\<exists>d. own p = Some d \<and> i < length d)"

definition gets :: "store \<Rightarrow> nat \<Rightarrow> nat \<Rightarrow> (u8 list \<Rightarrow> bool) \<Rightarrow> store \<Rightarrow> bool" where
  "gets own r n P own' \<longleftrightarrow> (if r = 0 then own' = own
     else 0 < n \<and> apart own r n \<and> (\<exists>d. length d = n \<and> P d \<and> own' = own(r \<mapsto> d)))"

fun store_step :: "heap_op \<Rightarrow> nat \<Rightarrow> store \<Rightarrow> store \<Rightarrow> bool" where
  "store_step (Malloc n) r own own' \<longleftrightarrow> gets own r n (\<lambda>d. True) own'"
| "store_step (Calloc c n) r own own' \<longleftrightarrow> gets own r (c * n) (\<lambda>d. d = replicate (c * n) 0) own'"
| "store_step (Realloc p n) r own own' \<longleftrightarrow>
     (if n = 0 then r = 0 \<and> own' = own(p := None)
      else case own p of
        None \<Rightarrow> gets own r n (\<lambda>d. True) own'
      | Some e \<Rightarrow> (r = 0 \<and> own' = own) \<or>
          (r \<noteq> 0 \<and> gets (own(p := None)) r n (\<lambda>d. take (length e) d = take n e) own'))"
| "store_step (Free p) r own own' \<longleftrightarrow> own' = own(p := None)"
| "store_step (Write p i b) r own own' \<longleftrightarrow> own' = own(p \<mapsto> (the (own p))[i := b])"

fun heap_call :: "heap_op \<Rightarrow> heap \<Rightarrow> (nat \<times> heap) option" where
  "heap_call (Malloc n) h = rt_malloc n h"
| "heap_call (Calloc c n) h = rt_calloc c n h"
| "heap_call (Realloc p n) h = rt_realloc p n h"
| "heap_call (Free p) h = map_option (Pair 0) (rt_free p h)"
| "heap_call (Write p i b) h = Some (0, h\<lparr>ram := (ram h)(p + i := b)\<rparr>)"

section \<open>The heap implements the store\<close>

lemma owned_block:
  assumes "owned hp bs m own" "own p = Some d" "long_enough bs"
  obtains xs n ys where "bs = xs @ (n, True) # ys" "p = hp + spans xs + 12" "length d \<le> n - 12"
    "\<forall>i<length d. m (p + i) = d ! i"
proof -
  have "p \<in> fst ` set (live hp bs)" using assms(1,2) by (auto simp: owned_def)
  then obtain k where k: "(p, k) \<in> set (live hp bs)" by auto
  then obtain xs n ys where "bs = xs @ (n, True) # ys" "p = hp + spans xs + 12" "k = n - 12"
    using live_split by blast
  then show ?thesis using that assms(1,2) k by (auto simp: owned_def)
qed

lemma owned_apart:
  assumes o: "owned hp bs m own" "long_enough bs" and p: "(p, k) \<in> set (live hp bs)" and n: "n \<le> k"
  shows "apart (own(p := None)) p n"
  unfolding apart_def
proof (intro conjI allI impI)
  fix q d assume q: "(own(p := None)) q = Some d"
  then have "q \<in> fst ` set (live hp bs)" "q \<noteq> p" using o(1) by (auto simp: owned_def split: if_splits)
  then obtain j where j: "(q, j) \<in> set (live hp bs)" by auto
  then have "length d \<le> j" using o(1) q by (auto simp: owned_def split: if_splits)
  then show "p + n \<le> q \<or> q + length d \<le> p"
    using live_disjoint [OF o(2) p j] \<open>q \<noteq> p\<close> n by auto
qed simp

lemma apart_None: "own p = None \<Longrightarrow> apart (own(p := None)) p n = apart own p n"
  by (simp add: fun_upd_idem)

lemma heap_rel_long: "heap_rel h bs \<Longrightarrow> long_enough bs"
  by (auto simp: heap_rel_def laid_out_def dest: blocks_long)

lemma block_size_ge: "n \<le> 2 ^ 32 - 4 \<Longrightarrow> n \<le> block_size n"
  using RT_ALIGN_props(1) [of n] by (simp add: block_size_def)

lemma malloc_live:
  assumes h: "heap_rel h bs" and n: "n \<le> 2 ^ 32 - 4"
  obtains (none) "rt_malloc n h = Some (0, h)"
  | (taken) p h' cs j where "rt_malloc n h = Some (p, h')" "p \<noteq> 0" "0 < n" "heap_rel h' cs"
     "same_frame h h'" "keeps (heap_ptr h) bs (ram h) (ram h')"
     "set (live (heap_ptr h) cs) = insert (p, j) (set (live (heap_ptr h) bs))"
     "p \<notin> fst ` set (live (heap_ptr h) bs)" "n \<le> j"
proof -
  have sz: "n < 2 ^ 32" using n by simp
  show ?thesis
  proof (cases rule: rt_malloc_cases [OF h sz])
    case 1
    show ?thesis by (rule none [OF 1(1)])
  next
    case (2 xs k ys h')
    let ?p = "heap_ptr h + spans xs + 12" and ?cs = "xs @ place (block_size n) k @ ys"
    let ?j = "if block_size n + 36 \<le> k then block_size n else k - 12"
    have l: "long_enough xs" "long_enough ys" "12 \<le> k"
      using heap_rel_long [OF h] 2(1) by (auto simp: long_enough_def)
    have "n \<le> ?j" using block_size_ge [OF n] 2(2) by auto
    moreover have "set (live (heap_ptr h) ?cs) = insert (?p, ?j) (set (live (heap_ptr h) bs))"
      using 2(1,2) by (simp add: live_place)
    moreover have "?p \<notin> fst ` set (live (heap_ptr h) bs)"
      using live_bounds [OF l(1), of _ _ "heap_ptr h"] live_bounds [OF l(2), of _ _ "heap_ptr h + spans xs + k"] l(3)
      by (fastforce simp: 2(1))
    ultimately show ?thesis using 2(3-7) by (intro taken [of ?p h' ?cs ?j]) auto
  qed
qed

lemma malloc_owned:
  assumes h: "heap_rel h bs" and o: "owned (heap_ptr h) bs (ram h) own" and n: "k \<le> 2 ^ 32 - 4" "n \<le> k"
  obtains (none) "rt_malloc k h = Some (0, h)"
  | (taken) p h' cs j where "rt_malloc k h = Some (p, h')" "p \<noteq> 0" "0 < k" "heap_rel h' cs"
     "same_frame h h'" "owned (heap_ptr h) cs (ram h') (own(p \<mapsto> bytes_at (ram h') p n))"
     "own p = None" "apart own p n" "(p, j) \<in> set (live (heap_ptr h) cs)" "k \<le> j"
     "set (live (heap_ptr h) cs) = insert (p, j) (set (live (heap_ptr h) bs))"
proof (cases rule: malloc_live [OF h n(1)])
  case 1
  then show ?thesis by (rule none)
next
  case (2 p h' cs j)
  have "owned (heap_ptr h) cs (ram h') (own(p \<mapsto> bytes_at (ram h') p n))"
    by (rule owned_add [OF owned_keeps [OF o 2(6)] 2(7,8)]) (use 2(9) n(2) in auto)
  moreover have np: "own p = None" using o 2(8) unfolding owned_def by (metis domIff)
  moreover have "(p, j) \<in> set (live (heap_ptr h) cs)" using 2(7) by simp
  moreover have "apart own p n"
    using owned_apart [OF calculation(1) heap_rel_long [OF 2(4)] calculation(3), of n] 2(9) n(2) np
    by (simp add: apart_None fun_upd_idem)
  ultimately show ?thesis using 2(1-5,7,9) by (intro taken) auto
qed

lemma free_owned:
  assumes h: "heap_rel h bs" and o: "owned (heap_ptr h) bs (ram h) own" and p: "p \<in> dom own"
  shows "\<exists>h' cs. rt_free p h = Some h' \<and> heap_rel h' cs \<and> same_frame h h' \<and>
     owned (heap_ptr h) cs (ram h') (own(p := None)) \<and> keeps (heap_ptr h) cs (ram h) (ram h')"
proof -
  obtain d where "own p = Some d" using p by auto
  then obtain xs n ys where b: "bs = xs @ (n, True) # ys" "p = heap_ptr h + spans xs + 12"
    using owned_block [OF o _ heap_rel_long [OF h]] by metis
  obtain h' where h': "rt_free p h = Some h'" "heap_rel h' (released xs n ys)" "same_frame h h'"
    "keeps (heap_ptr h) (xs @ (n, False) # ys) (ram h) (ram h')"
    using rt_free_released [OF h [unfolded b(1)]] b(2) by auto
  have l: "long_enough xs" "long_enough ys" "12 \<le> n"
    using heap_rel_long [OF h] b(1) by (auto simp: long_enough_def)
  have "set (live (heap_ptr h) (released xs n ys)) = {x \<in> set (live (heap_ptr h) bs). fst x \<noteq> p}"
    using live_bounds [OF l(1), of _ _ "heap_ptr h"] live_bounds [OF l(2), of _ _ "heap_ptr h + spans xs + n"] l(3)
    by (fastforce simp: b)
  then have "owned (heap_ptr h) (released xs n ys) (ram h) (own(p := None))" by (rule owned_remove [OF o])
  moreover have "keeps (heap_ptr h) (released xs n ys) (ram h) (ram h')"
    using h'(4) by (simp add: keeps_def in_use_released add.assoc)
  ultimately show ?thesis using h' owned_keeps by blast
qed

lemma heap_malloc_step:
  assumes "store_rel h own" "k \<le> 2 ^ 32 - 4" "n \<le> k" "0 < k \<Longrightarrow> 0 < n"
  shows "\<exists>r h' own'. rt_malloc k h = Some (r, h') \<and> gets own r n (\<lambda>d. True) own' \<and> store_rel h' own'"
proof -
  obtain bs where b: "heap_rel h bs" "owned (heap_ptr h) bs (ram h) own" using assms(1) by (auto simp: store_rel_def)
  show ?thesis
  proof (cases rule: malloc_owned [OF b assms(2,3)])
    case 1
    then show ?thesis using assms(1) by (auto simp: gets_def)
  next
    case (2 p h' cs j)
    then have "store_rel h' (own(p \<mapsto> bytes_at (ram h') p n))"
      by (auto simp: store_rel_def same_frame_def)
    moreover have "gets own p n (\<lambda>d. True) (own(p \<mapsto> bytes_at (ram h') p n))"
      using 2(2,3,8) assms(4) by (auto simp: gets_def intro!: exI [of _ "bytes_at (ram h') p n"])
    ultimately show ?thesis using 2(1) by blast
  qed
qed

lemma store_rel_0: "store_rel h own \<Longrightarrow> own 0 = None"
proof (rule ccontr)
  assume "store_rel h own" "own 0 \<noteq> None"
  then obtain bs where b: "heap_rel h bs" "owned (heap_ptr h) bs (ram h) own" by (auto simp: store_rel_def)
  then have "0 \<in> fst ` set (live (heap_ptr h) bs)" using \<open>own 0 \<noteq> None\<close> by (auto simp: owned_def)
  then show False using live_bounds [OF heap_rel_long [OF b(1)], of 0] by fastforce
qed

lemma store_rel_thread: "store_rel h own \<Longrightarrow> interrupt_nest h = 0"
  by (auto simp: store_rel_def heap_rel_def laid_out_def)

lemma heap_free_step:
  assumes "store_rel h own" "p = 0 \<or> p \<in> dom own"
  shows "\<exists>h'. rt_free p h = Some h' \<and> store_rel h' (own(p := None))"
proof (cases "p = 0")
  case True
  then have "own(p := None) = own" using store_rel_0 [OF assms(1)] by (simp add: fun_upd_idem)
  then show ?thesis using assms(1) True by (simp add: rt_free_def)
next
  case False
  then have p: "p \<in> dom own" using assms(2) by simp
  obtain bs where b: "heap_rel h bs" "owned (heap_ptr h) bs (ram h) own" using assms(1) by (auto simp: store_rel_def)
  obtain h' cs where "rt_free p h = Some h'" "heap_rel h' cs" "same_frame h h'"
    "owned (heap_ptr h) cs (ram h') (own(p := None))"
    using free_owned [OF b p] by blast
  then show ?thesis by (auto simp: store_rel_def same_frame_def)
qed

text \<open>Writing inside an owned array.\<close>

lemma keeps_headers:
  assumes "heap_rel h bs" "\<And>b. \<not> in_data (heap_ptr h) bs b \<Longrightarrow> b < heap_end h + 12 \<Longrightarrow> m' b = ram h b"
  shows "heap_rel (h\<lparr>ram := m'\<rparr>) bs"
proof -
  have lo: "laid_out h bs" using assms(1) by (simp add: heap_rel_def)
  have bl: "blocks (ram h) (heap_ptr h) (heap_ptr h) (heap_ptr h) bs" and ne: "bs \<noteq> []"
    and he: "heap_end h = heap_ptr h + spans bs" and us: "hd_used (ram h) (heap_ptr h + spans bs) = 1"
    using lo unfolding laid_out_def by auto
  have "blocks m' (heap_ptr h) (heap_ptr h) (heap_ptr h) bs"
    by (rule blocks_frame [OF bl], rule assms(2)) (simp_all add: he)
  moreover have "hd_used m' (heap_ptr h + spans bs) = hd_used (ram h) (heap_ptr h + spans bs)"
  proof (rule hd_cong(2), rule assms(2))
    fix i :: nat assume "i < 12"
    show "\<not> in_data (heap_ptr h) bs (heap_ptr h + spans bs + i)"
      using in_data_bounds [of "heap_ptr h" bs "heap_ptr h + spans bs + i"] by linarith
    show "heap_ptr h + spans bs + i < heap_end h + 12" using he \<open>i < 12\<close> by simp
  qed
  ultimately have "laid_out (h\<lparr>ram := m'\<rparr>) bs"
    using ne us by (intro laid_out_update [OF lo]) (simp_all add: same_frame_def)
  then show ?thesis using assms(1) by (simp add: heap_rel_def)
qed

lemma live_in_data: "(p, k) \<in> set (live a bs) \<Longrightarrow> i < k \<Longrightarrow> in_data a bs (p + i)"
  using live_in_use in_use_data by blast

text \<open>Any change inside one array gives that array its new contents and leaves the others.\<close>

lemma store_write:
  assumes h: "heap_rel h bs" "owned (heap_ptr h) bs (ram h) own" and p: "(p, k) \<in> set (live (heap_ptr h) bs)"
    and m: "\<And>b. b < p \<or> p + k \<le> b \<Longrightarrow> m' b = ram h b" and n: "n \<le> k"
  shows "heap_rel (h\<lparr>ram := m'\<rparr>) bs" "owned (heap_ptr h) bs m' (own(p \<mapsto> bytes_at m' p n))"
proof -
  show "heap_rel (h\<lparr>ram := m'\<rparr>) bs"
  proof (rule keeps_headers [OF h(1)], rule m)
    fix b assume "\<not> in_data (heap_ptr h) bs b"
    then have "\<not> b - p < k" if "p \<le> b" using live_in_data [OF p, of "b - p"] that by auto
    then show "b < p \<or> p + k \<le> b" by linarith
  qed
  note l = heap_rel_long [OF h(1)]
  have d: "dom own = fst ` set (live (heap_ptr h) bs)" using h(2) by (simp add: owned_def)
  show "owned (heap_ptr h) bs m' (own(p \<mapsto> bytes_at m' p n))"
    unfolding owned_def
  proof (intro conjI ballI)
    have "p \<in> dom own" using d p by force
    then show "dom (own(p \<mapsto> bytes_at m' p n)) = fst ` set (live (heap_ptr h) bs)" using d by auto
    fix x assume x: "x \<in> set (live (heap_ptr h) bs)"
    obtain q j where q: "x = (q, j)" by (cases x)
    show "case x of (q, j) \<Rightarrow> \<forall>e. (own(p \<mapsto> bytes_at m' p n)) q = Some e \<longrightarrow>
        length e \<le> j \<and> (\<forall>i<length e. m' (q + i) = e ! i)"
    proof (cases "q = p")
      case True
      then have "j = k" using live_inj [OF l p, of j] x q by simp
      then show ?thesis using True n q by auto
    next
      case False
      then have "q + j \<le> p \<or> p + k \<le> q" using live_disjoint [OF l p, of q j] x q by auto
      moreover have "length e \<le> j \<and> (\<forall>i<length e. ram h (q + i) = e ! i)" if "own q = Some e" for e
        using h(2) x q that by (auto simp: owned_def)
      ultimately show ?thesis using False m q by auto
    qed
  qed
qed

lemma bytes_at_self: "own p = Some d \<Longrightarrow> \<forall>i<length d. m (p + i) = d ! i \<Longrightarrow> bytes_at m p (length d) = d"
  by (simp add: list_eq_iff_nth_eq)

lemma heap_write_step:
  assumes "store_rel h own" "own p = Some d" "i < length d"
  shows "store_rel (h\<lparr>ram := (ram h)(p + i := b)\<rparr>) (own(p \<mapsto> d[i := b]))"
proof -
  let ?m = "(ram h)(p + i := b)"
  obtain bs where h: "heap_rel h bs" "owned (heap_ptr h) bs (ram h) own" using assms(1) by (auto simp: store_rel_def)
  have "p \<in> fst ` set (live (heap_ptr h) bs)" using h(2) assms(2) by (auto simp: owned_def)
  then obtain k where k: "(p, k) \<in> set (live (heap_ptr h) bs)" by auto
  then have d: "length d \<le> k" "\<forall>i<length d. ram h (p + i) = d ! i" using h(2) assms(2) by (auto simp: owned_def)
  have "bytes_at ?m p (length d) = d[i := b]"
    using d(2) assms(3) by (auto simp: list_eq_iff_nth_eq nth_list_update)
  moreover have out: "?m b' = ram h b'" if "b' < p \<or> p + k \<le> b'" for b'
    using that d(1) assms(3) by auto
  ultimately show ?thesis
    using store_write [where m' = ?m, OF h k out d(1)] by (auto simp: store_rel_def)
qed

lemma heap_calloc_step:
  assumes "store_rel h own" "c * n \<le> 2 ^ 32 - 4"
  shows "\<exists>r h' own'. rt_calloc c n h = Some (r, h') \<and>
    gets own r (c * n) (\<lambda>d. d = replicate (c * n) 0) own' \<and> store_rel h' own'"
proof -
  obtain bs where b: "heap_rel h bs" "owned (heap_ptr h) bs (ram h) own" using assms(1) by (auto simp: store_rel_def)
  have m: "c * n mod 2 ^ 32 = c * n" using assms(2) by simp
  show ?thesis
  proof (cases rule: malloc_owned [OF b assms(2) order.refl])
    case 1
    then show ?thesis using assms(1) m by (auto simp: rt_calloc_def gets_def)
  next
    case (2 p h' cs j)
    let ?m = "ram_fill (ram h') p 0 (c * n)"
    have hp: "heap_ptr h' = heap_ptr h" using 2(5) by (simp add: same_frame_def)
    have out: "?m b = ram h' b" if "b < p \<or> p + j \<le> b" for b
      using that 2(10) by (auto simp: ram_fill_def)
    note w = store_write [OF 2(4) 2(6) [folded hp] 2(9) [folded hp] out 2(10)]
    have "bytes_at ?m p (c * n) = replicate (c * n) 0" by (simp add: list_eq_iff_nth_eq ram_fill_def)
    then have "store_rel (h'\<lparr>ram := ?m\<rparr>) (own(p \<mapsto> replicate (c * n) 0))"
      using w by (auto simp: store_rel_def intro!: exI [of _ cs])
    moreover have "rt_calloc c n h = Some (p, h'\<lparr>ram := ?m\<rparr>)"
      using 2(1,2) m by (simp add: rt_calloc_def rt_memset_eq)
    ultimately show ?thesis using 2(2,3,8) by (auto simp: gets_def)
  qed
qed

lemma apart_mono: "apart own p n \<Longrightarrow> k \<le> n \<Longrightarrow> apart own p k"
  by (fastforce simp: apart_def)

lemma apart_remove: "apart own p n \<Longrightarrow> apart (own(q := None)) p n"
  by (auto simp: apart_def)

lemma take_bytes:
  assumes "\<And>i. i < length e \<Longrightarrow> i < n \<Longrightarrow> m (p + i) = e ! i"
  shows "take (length e) (bytes_at m p n) = take n e"
  using assms by (simp add: list_eq_iff_nth_eq min.commute)

text \<open>The block of a pointer is kept, with at least \<open>n\<close> bytes.\<close>

lemma realloc_stays:
  assumes h: "heap_rel h bs" "owned (heap_ptr h) bs (ram h) own" and p: "own p = Some e" "p \<noteq> 0"
    and h': "heap_rel h' cs" "same_frame h h'" "keeps (heap_ptr h) cs (ram h) (ram h')"
    and l: "set (live (heap_ptr h) cs) = insert (p, j) {x \<in> set (live (heap_ptr h) bs). fst x \<noteq> p}"
    and n: "0 < n" "n \<le> j"
  shows "\<exists>own'. gets (own(p := None)) p n (\<lambda>d. take (length e) d = take n e) own' \<and> store_rel h' own'"
proof -
  let ?d = "bytes_at (ram h) p n"
  note lb = heap_rel_long [OF h(1)]
  obtain ds where ds: "set (live (heap_ptr h) ds) = {x \<in> set (live (heap_ptr h) bs). fst x \<noteq> p}"
  proof -
    obtain xs k ys where b: "bs = xs @ (k, True) # ys" "p = heap_ptr h + spans xs + 12"
      using owned_block [OF h(2) p(1) lb] by metis
    have l: "long_enough xs" "long_enough ys" "12 \<le> k" using lb b(1) by (auto simp: long_enough_def)
    have "set (live (heap_ptr h) (released xs k ys)) = {x \<in> set (live (heap_ptr h) bs). fst x \<noteq> p}"
      using live_bounds [OF l(1), of _ _ "heap_ptr h"] live_bounds [OF l(2), of _ _ "heap_ptr h + spans xs + k"] l(3)
      by (fastforce simp: b)
    then show ?thesis using that by blast
  qed
  have "owned (heap_ptr h) ds (ram h) (own(p := None))" by (rule owned_remove [OF h(2) ds])
  then have "owned (heap_ptr h) cs (ram h) ((own(p := None))(p \<mapsto> ?d))"
    by (rule owned_add [where k = j]) (use l ds n in auto)
  then have o: "owned (heap_ptr h) cs (ram h') (own(p \<mapsto> ?d))" using owned_keeps [OF _ h'(3)] by simp
  have "apart (own(p := None)) p n"
    using owned_apart [OF o heap_rel_long [OF h'(1)] _ n(2), of p] l by simp
  moreover have "take (length e) ?d = take n e"
    using owned_block [OF h(2) p(1) lb] by (intro take_bytes) metis
  ultimately have "gets (own(p := None)) p n (\<lambda>d. take (length e) d = take n e) (own(p \<mapsto> ?d))"
    using n(1) p(2) by (auto simp: gets_def intro!: exI [of _ ?d])
  moreover have "store_rel h' (own(p \<mapsto> ?d))" using o h' by (auto simp: store_rel_def same_frame_def)
  ultimately show ?thesis by blast
qed

lemma RT_ALIGN_idem:
  assumes "n \<le> 2 ^ 32 - 4"
  shows "RT_ALIGN (RT_ALIGN n 4) 4 = RT_ALIGN n 4" "RT_ALIGN n 4 \<le> 2 ^ 32 - 4"
proof -
  have e: "RT_ALIGN n 4 = (n + 3) div 4 * 4" using assms by (simp add: RT_ALIGN_4)
  show le: "RT_ALIGN n 4 \<le> 2 ^ 32 - 4" using assms unfolding e by auto
  show "RT_ALIGN (RT_ALIGN n 4) 4 = RT_ALIGN n 4"
    using le by (subst RT_ALIGN_4) (auto simp: e)
qed

lemma RT_ALIGN_0: "RT_ALIGN 0 4 = 0"
  by (simp add: RT_ALIGN_4)

lemma realloc_moves:
  assumes h: "heap_rel h bs" "owned (heap_ptr h) bs (ram h) own" and p: "own p = Some e" "length e \<le> sz"
    "(p, sz) \<in> set (live (heap_ptr h) bs)" and n: "n \<le> ns" "0 < n" "ns \<le> 2 ^ 32 - 4"
  shows "(rt_malloc ns h = Some (0, h)) \<or> (\<exists>r h1 h2 own'. rt_malloc ns h = Some (r, h1) \<and> r \<noteq> 0 \<and>
     rt_free p (h1\<lparr>ram := rt_memcpy (ram h1) r p (if sz < ns then sz else ns)\<rparr>) = Some h2 \<and>
     gets (own(p := None)) r n (\<lambda>d. take (length e) d = take n e) own' \<and> store_rel h2 own')"
proof (cases rule: malloc_owned [OF h n(3,1)])
  case 1
  then show ?thesis by blast
next
  case (2 r h1 cs j)
  define k where "k = (if sz < ns then sz else ns)"
  have hp: "heap_ptr h1 = heap_ptr h" using 2(5) by (simp add: same_frame_def)
  note lc = heap_rel_long [OF 2(4)]
  have rp: "r \<noteq> p" using 2(7) p(1) by auto
  then have p1: "(own(r \<mapsto> bytes_at (ram h1) r n)) p = Some e" using p(1) by simp
  have pc: "(p, sz) \<in> set (live (heap_ptr h) cs)" using 2(11) p(3) by simp
  have l: "\<forall>i<length e. ram h1 (p + i) = e ! i"
    using 2(6) pc p1 unfolding owned_def by blast
  have d: "r \<le> p \<or> p + k \<le> r"
    using live_disjoint [OF lc 2(9) pc rp] by (auto simp: k_def)
  let ?m = "ram_copy (ram h1) r p k"
  have mc: "rt_memcpy (ram h1) r p k = ?m" by (rule rt_memcpy_eq [OF d])
  have out: "?m b = ram h1 b" if "b < r \<or> r + j \<le> b" for b
    using that 2(10) by (auto simp: ram_copy_def k_def split: if_splits)
  have nj: "n \<le> j" using n(1) 2(10) by simp
  define own1 where "own1 = own(r \<mapsto> bytes_at ?m r n)"
  have w: "heap_rel (h1\<lparr>ram := ?m\<rparr>) cs" "owned (heap_ptr h1) cs ?m own1"
    using store_write [where m' = ?m, OF 2(4) 2(6) [folded hp] 2(9) [folded hp] out nj] by (simp_all add: own1_def)
  have "p \<in> dom own1" using p(1) rp by (auto simp: own1_def)
  then obtain h2 ds where f: "rt_free p (h1\<lparr>ram := ?m\<rparr>) = Some h2" "heap_rel h2 ds" "same_frame (h1\<lparr>ram := ?m\<rparr>) h2"
    "owned (heap_ptr h1) ds (ram h2) (own1(p := None))"
    using free_owned [OF w(1), of own1 p] w(2) by auto
  have "take (length e) (bytes_at ?m r n) = take n e"
    by (rule take_bytes) (use l p(2) n(1) in \<open>auto simp: ram_copy_def k_def\<close>)
  moreover have "apart (own(p := None)) r n" using apart_remove [OF 2(8)] .
  moreover have "own1(p := None) = (own(p := None))(r \<mapsto> bytes_at ?m r n)"
    using rp by (auto simp: own1_def fun_upd_twist)
  ultimately have "gets (own(p := None)) r n (\<lambda>d. take (length e) d = take n e) (own1(p := None))"
    using 2(2) n(2) by (auto simp: gets_def intro!: exI [of _ "bytes_at ?m r n"])
  moreover have "store_rel h2 (own1(p := None))"
    using f(2-4) by (auto simp: store_rel_def same_frame_def)
  ultimately show ?thesis using 2(1,2) f(1) unfolding mc [symmetric] unfolding k_def by blast
qed

text \<open>The branches of \<open>rt_realloc\<close>.\<close>

lemma rt_realloc_cases:
  assumes "interrupt_nest h = 0"
  shows "mem_size_aligned h < RT_ALIGN n 4 \<Longrightarrow> rt_realloc p n h = Some (0, h)"
    "RT_ALIGN n 4 = 0 \<Longrightarrow> rt_realloc p n h = do { h1 \<leftarrow> rt_free p h; Some (0, h1) }"
    "RT_ALIGN n 4 \<le> mem_size_aligned h \<Longrightarrow> RT_ALIGN n 4 \<noteq> 0 \<Longrightarrow>
      rt_realloc 0 n h = rt_malloc (RT_ALIGN n 4) h"
  using assms unfolding rt_realloc_def Let_def by simp_all

lemma rt_realloc_block:
  fixes ns
  assumes h: "heap_rel h (xs @ (k, True) # ys)" and p: "p = heap_ptr h + spans xs + 12"
    and ns: "ns = RT_ALIGN n 4" "ns \<noteq> 0" "ns \<le> mem_size_aligned h"
  shows "rt_realloc p n h =
      (if k - 12 = ns then Some (p, h)
       else if ns + 24 < k - 12 then do { h1 \<leftarrow> realloc_split (spans xs) (k - 12) ns h; Some (p, h1) }
       else do { (nmem, h1) \<leftarrow> rt_malloc ns h;
                 if nmem \<noteq> 0
                 then do { h2 \<leftarrow> rt_free p (h1\<lparr>ram := rt_memcpy (ram h1) nmem p
                             (if k - 12 < ns then k - 12 else ns)\<rparr>);
                           Some (nmem, h2) }
                 else Some (nmem, h1) })"
proof -
  define a where "a = heap_ptr h + spans xs"
  have lo: "laid_out h (xs @ (k, True) # ys)" using h by (simp add: heap_rel_def)
  have i: "interrupt_nest h = 0" and he: "heap_end h = heap_ptr h + spans (xs @ (k, True) # ys)"
    and lim: "spans xs + k < 2 ^ 32" and ml: "mem_size_aligned h + 24 < 2 ^ 32"
    using lo by (auto simp: laid_out_def)
  note l = laid_out_block [OF lo, folded a_def]
  have k: "16 \<le> k" using h by (simp add: heap_rel_def)
  have rg: "\<not> (p < heap_ptr h \<or> p \<ge> heap_end h)" "p \<noteq> 0" using p k he by simp_all
  have pa: "p - 12 = a" "a - heap_ptr h = spans xs" using p by (simp_all add: a_def)
  have siz: "sub_u32 (sub_u32 (hd_next (ram h) a) (spans xs)) 12 = k - 12" using l lim by simp
  have add: "add_u32 (add_u32 ns 12) 12 = ns + 24" using ns(3) ml by (simp add: add_u32_def)
  have c: "(interrupt_nest h \<noteq> 0) = False" "(ns > mem_size_aligned h) = False" "(ns = 0) = False"
    "(p = 0) = False" "(p < heap_ptr h \<or> p \<ge> heap_end h) = False"
    using i ns rg by auto
  show ?thesis
    unfolding rt_realloc_def Let_def ns(1) [symmetric] pa siz add c if_False by (rule refl)
qed

lemma heap_realloc_block:
  assumes b: "heap_rel h bs" "owned (heap_ptr h) bs (ram h) own" and e: "own p = Some e" "p \<noteq> 0"
    and n: "0 < n" "n \<le> ns" "ns \<le> 2 ^ 32 - 4" "4 dvd ns" "ns = RT_ALIGN n 4" "ns \<le> mem_size_aligned h"
  shows "(\<exists>r h' own'. rt_realloc p n h = Some (r, h') \<and> r \<noteq> 0 \<and>
     gets (own(p := None)) r n (\<lambda>d. take (length e) d = take n e) own' \<and> store_rel h' own') \<or>
     rt_realloc p n h = Some (0, h)"
proof -
  note lb = heap_rel_long [OF b(1)]
  obtain xs k ys where x: "bs = xs @ (k, True) # ys" "p = heap_ptr h + spans xs + 12" "length e \<le> k - 12"
    "\<forall>i<length e. ram h (p + i) = e ! i" by (rule owned_block [OF b(2) e(1) lb])
  have n0: "ns \<noteq> 0" using n by linarith
  note E = rt_realloc_block [OF b(1) [unfolded x(1)] x(2) n(5) n0 n(6)]
  have lv: "(p, k - 12) \<in> set (live (heap_ptr h) bs)" using x by simp
  have ll: "long_enough xs" "long_enough ys" "12 \<le> k" using lb x(1) by (auto simp: long_enough_def)
  show ?thesis
  proof (cases "k - 12 = ns")
    case True
    have "set (live (heap_ptr h) bs) = insert (p, k - 12) {x \<in> set (live (heap_ptr h) bs). fst x \<noteq> p}"
    proof (intro equalityI subsetI)
      fix x assume x: "x \<in> set (live (heap_ptr h) bs)"
      obtain q j where q: "x = (q, j)" by (cases x)
      have "q = p \<Longrightarrow> j = k - 12" using live_inj [OF lb lv, of j] x q by simp
      then show "x \<in> insert (p, k - 12) {x \<in> set (live (heap_ptr h) bs). fst x \<noteq> p}" using x q by auto
    qed (use lv in auto)
    moreover have "n \<le> k - 12" using n(2) True by simp
    ultimately obtain own' where
      "gets (own(p := None)) p n (\<lambda>d. take (length e) d = take n e) own'" "store_rel h own'"
      using realloc_stays [OF b e b(1) same_frame_refl keeps_refl _ n(1)] by blast
    moreover have "rt_realloc p n h = Some (p, h)" unfolding E using True by (rule if_P)
    ultimately show ?thesis using e(2) by blast
  next
    case ne: False
    show ?thesis
    proof (cases "ns + 24 < k - 12")
      case True
      have sz: "ns + 24 \<le> k" "4 \<le> ns" using True dvd_imp_le [OF n(4)] n0 by simp_all
      obtain h' where h': "realloc_split (spans xs) (k - 12) ns h = Some h'"
        "heap_rel h' (xs @ (ns + 12, True) # join_next (k - ns - 12) ys)" "same_frame h h'"
        "keeps (heap_ptr h) (xs @ (ns + 12, True) # (k - ns - 12, False) # ys) (ram h) (ram h')"
        using realloc_split_shrinks [OF b(1) [unfolded x(1)] sz(1) n(4) sz(2)] by blast
      have kp: "keeps (heap_ptr h) (xs @ (ns + 12, True) # join_next (k - ns - 12) ys) (ram h) (ram h')"
        using h'(4) by (simp add: keeps_def)
      have kk: "ns + 12 + (k - ns - 12) = k" using True by simp
      have lx: "q \<noteq> p" if "(q, l) \<in> set (live (heap_ptr h) xs) \<or> (q, l) \<in> set (live (heap_ptr h + spans xs + k) ys)" for q l
        using that live_bounds [OF ll(1), of q l "heap_ptr h"] live_bounds [OF ll(2), of q l "heap_ptr h + spans xs + k"] ll(3)
        unfolding x(2) by auto
      have "live (heap_ptr h) (xs @ (ns + 12, True) # join_next (k - ns - 12) ys)
          = live (heap_ptr h) xs @ (p, ns) # live (heap_ptr h + spans xs + k) ys"
        using kk by (simp add: x(2) add.assoc)
      moreover have "live (heap_ptr h) bs
          = live (heap_ptr h) xs @ (p, k - 12) # live (heap_ptr h + spans xs + k) ys"
        by (simp add: x add.assoc)
      ultimately have "set (live (heap_ptr h) (xs @ (ns + 12, True) # join_next (k - ns - 12) ys))
          = insert (p, ns) {x \<in> set (live (heap_ptr h) bs). fst x \<noteq> p}"
        using lx by (simp, fastforce)
      from realloc_stays [OF b e h'(2,3) kp this n(1,2)] obtain own' where
        "gets (own(p := None)) p n (\<lambda>d. take (length e) d = take n e) own'" "store_rel h' own'" by blast
      moreover have "rt_realloc p n h = Some (p, h')" unfolding E using True ne h'(1) by simp
      ultimately show ?thesis using e(2) by blast
    next
      case False
      have E': "rt_realloc p n h = do { (nmem, h1) \<leftarrow> rt_malloc ns h;
                 if nmem \<noteq> 0
                 then do { h2 \<leftarrow> rt_free p (h1\<lparr>ram := rt_memcpy (ram h1) nmem p
                             (if k - 12 < ns then k - 12 else ns)\<rparr>);
                           Some (nmem, h2) }
                 else Some (nmem, h1) }"
        unfolding E if_not_P [OF ne] if_not_P [OF False] by (rule refl)
      from realloc_moves [OF b e(1) x(3) lv n(2,1,3)] show ?thesis
      proof (elim disjE exE conjE)
        assume "rt_malloc ns h = Some (0, h)"
        then show ?thesis unfolding E' by simp
      next
        fix r h1 h2 own'
        assume r: "rt_malloc ns h = Some (r, h1)" "r \<noteq> 0"
          "rt_free p (h1\<lparr>ram := rt_memcpy (ram h1) r p (if k - 12 < ns then k - 12 else ns)\<rparr>) = Some h2"
          "gets (own(p := None)) r n (\<lambda>d. take (length e) d = take n e) own'" "store_rel h2 own'"
        have "rt_realloc p n h = Some (r, h2)" unfolding E' using r(1-3) by simp
        then show ?thesis using r(2,4,5) by blast
      qed
    qed
  qed
qed

lemma heap_realloc_step:
  assumes "store_rel h own" "p = 0 \<or> p \<in> dom own" "n \<le> 2 ^ 32 - 4"
  shows "\<exists>r h' own'. rt_realloc p n h = Some (r, h') \<and> store_step (Realloc p n) r own own' \<and> store_rel h' own'"
proof -
  obtain bs where b: "heap_rel h bs" "owned (heap_ptr h) bs (ram h) own" using assms(1) by (auto simp: store_rel_def)
  define ns where "ns = RT_ALIGN n 4"
  have ns: "n \<le> ns" "4 dvd ns" "ns \<le> 2 ^ 32 - 4" "n = 0 \<Longrightarrow> ns = 0"
    using RT_ALIGN_props [OF assms(3)] RT_ALIGN_idem [OF assms(3)] RT_ALIGN_0
    unfolding ns_def by (blast, blast, blast, simp)
  note R = rt_realloc_cases [OF store_rel_thread [OF assms(1)], of n, folded ns_def]
  consider (big) "ns > mem_size_aligned h" | (zero) "n = 0" "ns = 0"
    | (null) "ns \<le> mem_size_aligned h" "0 < n" "ns \<noteq> 0" "p = 0"
    | (block) "ns \<le> mem_size_aligned h" "0 < n" "p \<noteq> 0" "p \<in> dom own"
    using assms(2) ns(1,4) by fastforce
  then show ?thesis
  proof cases
    case big
    then have "n \<noteq> 0" using ns(4) by fastforce
    then show ?thesis using R(1) [OF big] assms(1,2) store_rel_0 [OF assms(1)]
      by (auto simp: gets_def split: option.splits)
  next
    case zero
    then show ?thesis using heap_free_step [OF assms(1,2)] R(2) by auto
  next
    case null
    obtain r h' own' where "rt_malloc ns h = Some (r, h')" "gets own r n (\<lambda>d. True) own'"
      "store_rel h' own'" using heap_malloc_step [OF assms(1) ns(3,1)] null(2) by blast
    then show ?thesis using R(3) [OF null(1,3)] null(2,4) store_rel_0 [OF assms(1)] by auto
  next
    case block
    obtain e where e: "own p = Some e" using block(4) by auto
    from heap_realloc_block [OF b e block(3,2) ns(1,3,2) ns_def block(1)] show ?thesis
    proof (elim disjE exE conjE)
      fix r h' own'
      assume "rt_realloc p n h = Some (r, h')" "r \<noteq> 0"
        "gets (own(p := None)) r n (\<lambda>d. take (length e) d = take n e) own'" "store_rel h' own'"
      then show ?thesis using e block(2) by (intro exI [of _ r] exI [of _ h'] exI [of _ own']) simp
    next
      assume "rt_realloc p n h = Some (0, h)"
      then show ?thesis using e block(2) assms(1)
        by (intro exI [of _ 0] exI [of _ h] exI [of _ own]) simp
    qed
  qed
qed

text \<open>Every allowed call returns and does what the store says.\<close>

lemma heap_call_step:
  assumes "store_rel h own" "allowed own opn"
  shows "\<exists>r h' own'. heap_call opn h = Some (r, h') \<and> store_step opn r own own' \<and> store_rel h' own'"
proof (cases opn)
  case (Malloc n)
  then show ?thesis using heap_malloc_step [OF assms(1), of n n] assms(2) by simp
next
  case (Calloc c n)
  then show ?thesis using heap_calloc_step [OF assms(1), of c n] assms(2) by simp
next
  case (Realloc p n)
  then show ?thesis using heap_realloc_step [OF assms(1), of p n] assms(2) by simp
next
  case (Free p)
  then show ?thesis using heap_free_step [OF assms(1), of p] assms(2) by auto
next
  case (Write p i b)
  then show ?thesis using heap_write_step [OF assms(1), of p _ i b] assms(2) by auto
qed

section \<open>Initialisation\<close>

lemma heap_init_rel:
  assumes "interrupt_nest h = 0" "used_mem h = 0" "bg < 2 ^ 32" "en < 2 ^ 32"
    "RT_ALIGN bg 4 + 36 \<le> RT_ALIGN_DOWN en 4"
  shows "\<exists>h'. rt_system_heap_init bg en h = Some h' \<and>
    heap_rel h' [(RT_ALIGN_DOWN en 4 - RT_ALIGN bg 4 - 12, False)] \<and> heap_ptr h' = RT_ALIGN bg 4"
proof -
  define a e where "a = RT_ALIGN bg 4" and "e = RT_ALIGN_DOWN en 4"
  have ae: "a + 36 \<le> e" "e < 2 ^ 32" "4 dvd a" "4 dvd e"
    using assms(3-5) by (auto simp: a_def e_def RT_ALIGN_4 RT_ALIGN_DOWN_4)
  define n where "n = e - a - 24"
  have n: "e = a + n + 24" "4 dvd n" "12 \<le> n" "n + 12 < 2 ^ 32"
    using ae by (auto simp: n_def dvd_diff_nat)
  have c: "e > 24" "e - 24 \<ge> a" using ae by simp_all
  define m1 where "m1 = set_used a 0 (set_prev a 0 (set_next a (n + 12) (set_magic a HEAP_MAGIC (ram h))))"
  define m2 where "m2 = set_prev (a + (n + 12)) (n + 12) (set_next (a + (n + 12)) (n + 12)
                   (set_used (a + (n + 12)) 1 (set_magic (a + (n + 12)) HEAP_MAGIC m1)))"
  define h' where "h' = h\<lparr>mem_size_aligned := n, heap_ptr := a, ram := m2, heap_end := a + (n + 12), lfree := a\<rparr>"
  have "rt_system_heap_init bg en h = Some h'"
    unfolding rt_system_heap_init_def Let_def a_def [symmetric] e_def [symmetric] h'_def m2_def m1_def n_def
    using assms(1) c by simp
  moreover have "hd_magic m2 a = HEAP_MAGIC" "hd_used m2 a = 0" "hd_next m2 a = n + 12" "hd_prev m2 a = 0"
    "hd_used m2 (a + (n + 12)) = 1"
    using n(4) unfolding m2_def m1_def by (simp_all add: hd_simps)
  then have "heap_rel h' [(n + 12, False)]"
    using n ae assms(1,2) by (simp add: heap_rel_def laid_out_def h'_def)
  moreover have "e - a - 12 = n + 12" using n(1) by simp
  ultimately show ?thesis by (auto simp: h'_def a_def e_def)
qed

lemma store_init: "heap_rel h [(n, False)] \<Longrightarrow> store_rel h Map.empty"
  by (auto simp: store_rel_def owned_def intro!: exI [of _ "[(n, False)]"])

end
