(* ===== verification/Heap_Client.thy ===== *)
theory Heap_Client
  imports Heap_Store
begin

text \<open>
  A client of the heap: any sequence of calls and writes to memory it holds, and what it can rely
  on. The properties of the heap are stated here.
\<close>

section \<open>A client of the heap\<close>

text \<open>What a client knows after a call: the bytes behind its pointers.\<close>

fun store_after :: "heap_op \<Rightarrow> nat \<Rightarrow> ram \<Rightarrow> store \<Rightarrow> store" where
  "store_after (Malloc n) r m own = (if r = 0 then own else own(r \<mapsto> bytes_at m r n))"
| "store_after (Calloc c n) r m own = (if r = 0 then own else own(r \<mapsto> bytes_at m r (c * n)))"
| "store_after (Realloc p n) r m own =
    (if n = 0 then own(p := None)
     else if r = 0 then own else (own(p := None))(r \<mapsto> bytes_at m r n))"
| "store_after (Free p) r m own = own(p := None)"
| "store_after (Write p i b) r m own = own(p \<mapsto> (the (own p))[i := b])"

inductive client_step :: "heap \<times> store \<Rightarrow> heap \<times> store \<Rightarrow> bool" where
  call: "allowed own opn \<Longrightarrow> heap_call opn h = Some (r, h') \<Longrightarrow>
    client_step (h, own) (h', store_after opn r (ram h') own)"

inductive_cases client_stepE: "client_step (h, own) s"

lemma store_rel_bytes:
  assumes "store_rel h own" "own p = Some d"
  shows "bytes_at (ram h) p (length d) = d" "heap_ptr h \<le> p" "p + length d \<le> heap_end h"
proof -
  obtain bs where b: "heap_rel h bs" "owned (heap_ptr h) bs (ram h) own" using assms(1) by (auto simp: store_rel_def)
  obtain xs n ys where x: "bs = xs @ (n, True) # ys" "p = heap_ptr h + spans xs + 12" "length d \<le> n - 12"
    "\<forall>i<length d. ram h (p + i) = d ! i" by (rule owned_block [OF b(2) assms(2) heap_rel_long [OF b(1)]])
  show "bytes_at (ram h) p (length d) = d" using x(4) by (simp add: list_eq_iff_nth_eq)
  show "heap_ptr h \<le> p" using x(2) by simp
  have "12 \<le> n" "heap_end h = heap_ptr h + spans bs"
    using b(1) heap_rel_long [OF b(1)] x(1) by (auto simp: heap_rel_def laid_out_def long_enough_def)
  then show "p + length d \<le> heap_end h" using x(1-3) by simp
qed

lemma store_rel_disjoint:
  assumes "store_rel h own" "own p = Some d" "own q = Some e" "p \<noteq> q"
  shows "p + length d \<le> q \<or> q + length e \<le> p"
proof -
  obtain bs where b: "heap_rel h bs" "owned (heap_ptr h) bs (ram h) own" using assms(1) by (auto simp: store_rel_def)
  have "p \<in> fst ` set (live (heap_ptr h) bs)" "q \<in> fst ` set (live (heap_ptr h) bs)"
    using b(2) assms(2,3) by (auto simp: owned_def)
  then obtain k j where kj: "(p, k) \<in> set (live (heap_ptr h) bs)" "(q, j) \<in> set (live (heap_ptr h) bs)" by auto
  have "length d \<le> k" "length e \<le> j" using b(2) kj assms(2,3) by (auto simp: owned_def)
  then show ?thesis using live_disjoint [OF heap_rel_long [OF b(1)] kj assms(4)] by linarith
qed

lemma gets_after:
  assumes "gets own r n P own'" "store_rel h' own'"
  shows "own' = (if r = 0 then own else own(r \<mapsto> bytes_at (ram h') r n))"
proof (cases "r = 0")
  case False
  then obtain d where "length d = n" "own' = own(r \<mapsto> d)" using assms(1) by (auto simp: gets_def)
  then show ?thesis using store_rel_bytes(1) [OF assms(2), of r d] False by simp
qed (use assms(1) in \<open>simp add: gets_def\<close>)

lemma store_after_eq:
  assumes "store_step opn r own own'" "store_rel h' own'" "store_rel h own"
  shows "own' = store_after opn r (ram h') own"
proof (cases opn)
  case (Realloc p n)
  have "own 0 = None" by (rule store_rel_0 [OF assms(3)])
  show ?thesis
  proof (cases "own p")
    case None
    then have "own(p := None) = own" by (simp add: fun_upd_idem)
    then show ?thesis using assms(1) Realloc None
      by (auto split: if_splits dest: gets_after [OF _ assms(2)])
  next
    case (Some e)
    then show ?thesis using assms(1) Realloc
      by (auto split: if_splits dest: gets_after [OF _ assms(2)])
  qed
qed (use assms(1) in \<open>auto dest: gets_after [OF _ assms(2)]\<close>)

lemma client_step_good: "client_step s s' \<Longrightarrow> case_prod store_rel s \<Longrightarrow> case_prod store_rel s'"
proof (induction rule: client_step.induct)
  case (call own opn h r h')
  have s: "store_rel h own" using call(3) by simp
  obtain r1 h1 own' where "heap_call opn h = Some (r1, h1)" "store_step opn r1 own own'" "store_rel h1 own'"
    using heap_call_step [OF s call(1)] by blast
  then show ?case using call(2) store_after_eq s by fastforce
qed

interpretation client: step_system client_step "case_prod store_rel"
  by unfold_locales (rule client_step_good)

lemma client_good: "store_rel h own \<Longrightarrow> client_step\<^sup>*\<^sup>* (h, own) (h', own') \<Longrightarrow> store_rel h' own'"
  using client.steps_good [of "(h, own)" "(h', own')"] by simp

section \<open>Nothing in use\<close>

lemma live_Nil: "live a bs = [] \<longleftrightarrow> (\<forall>b\<in>set bs. \<not> snd b)"
  by (induction a bs rule: live.induct) auto

lemma no_block_in_use:
  assumes "heap_rel h bs" "owned (heap_ptr h) bs (ram h) Map.empty"
  shows "heap_rel h [(mem_size_aligned h + 12, False)]"
proof -
  have "live (heap_ptr h) bs = []" using assms(2) by (simp add: owned_def)
  then have f: "\<forall>b\<in>set bs. \<not> snd b" using live_Nil by blast
  have m: "merged bs" "bs \<noteq> []" "spans bs = mem_size_aligned h + 12"
    using assms(1) by (auto simp: heap_rel_def laid_out_def)
  then have "bs = [(spans bs, False)]"
    using f by (cases bs rule: merged.cases) auto
  then show ?thesis using assms(1) m(3) by simp
qed

lemma heap_rel_info:
  "heap_rel h bs \<Longrightarrow> rt_memory_info h = (spans bs - 12, used_span bs, max_mem h)"
  by (auto simp: rt_memory_info_def heap_rel_def laid_out_def)

section \<open>Allocation succeeds when a block fits\<close>

text \<open>The only blocks that are passed over although they are long enough are those that end with
  the heap, for want of a single byte.\<close>

lemma rt_malloc_fits:
  assumes "heap_rel h (xs @ (n, False) # ys)" "0 < sz" "sz \<le> 2 ^ 32 - 4" "block_size sz + 12 \<le> n"
    "spans xs + block_size sz < mem_size_aligned h"
  shows "\<exists>p h'. rt_malloc sz h = Some (p, h') \<and> p \<noteq> 0"
proof -
  have sz: "sz < 2 ^ 32" using assms(3) by simp
  show ?thesis
  proof (cases rule: rt_malloc_cases [OF assms(1) sz])
    case 1
    have "RT_ALIGN sz 4 \<le> block_size sz" by (simp add: block_size_def)
    then have "fit (mem_size_aligned h - block_size sz) (block_size sz) 0 (xs @ (n, False) # ys) = None"
      using 1(2) assms(2,5) by linarith
    from fit_None [OF this assms(4)] show ?thesis using assms(5) by linarith
  qed auto
qed

lemma rt_malloc_last_refused:
  assumes "heap_rel h [(n, False)]" "0 < sz" "sz < 2 ^ 32" "mem_size_aligned h \<le> block_size sz"
  shows "rt_malloc sz h = Some (0, h)"
proof (cases rule: rt_malloc_cases [OF assms(1,3)])
  case (2 xs k ys h')
  then show ?thesis using assms(4) by linarith
qed

section \<open>Allocation and release\<close>

lemma rt_free_after_malloc:
  assumes h: "heap_rel h bs" and n: "n < 2 ^ 32" and p: "rt_malloc n h = Some (p, h1)" "p \<noteq> 0"
  shows "\<exists>h2. rt_free p h1 = Some h2 \<and> heap_rel h2 bs \<and> keeps (heap_ptr h) bs (ram h) (ram h2)"
proof (cases rule: rt_malloc_cases [OF h n])
  case 1
  then show ?thesis using p by simp
next
  case (2 xs k ys h')
  have e: "h' = h1" "p = heap_ptr h + spans xs + 12" using 2(3) p(1) by auto
  define l where "l = (if block_size n + 36 \<le> k then block_size n + 12 else k)"
  define zs where "zs = (if block_size n + 36 \<le> k then (k - block_size n - 12, False) # ys else ys)"
  have bs1: "xs @ place (block_size n) k @ ys = xs @ (l, True) # zs" by (simp add: place_def l_def zs_def)
  have hp: "heap_ptr h1 = heap_ptr h" using 2(5) e by (simp add: same_frame_def)
  obtain h2 where h2: "rt_free p h1 = Some h2" "heap_rel h2 (released xs l zs)"
    "keeps (heap_ptr h) (xs @ (l, False) # zs) (ram h1) (ram h2)"
    using rt_free_released [of h1 xs l zs] 2(4) e hp bs1 by auto
  have mb: "merged bs" using h by (simp add: heap_rel_def)
  then have ll: "xs = [] \<or> snd (last xs)" "ys = [] \<or> snd (hd ys)"
    by (auto simp: 2(1) merged_append merged_Cons)
  have j: "join_next l zs = (k, False) # ys"
  proof (cases "block_size n + 36 \<le> k")
    case True
    then show ?thesis by (simp add: join_next_def l_def zs_def)
  next
    case False
    then show ?thesis using ll(2) by (cases rule: join_next_cases [of ys k]) (auto simp: l_def zs_def)
  qed
  have "released xs l zs = bs" using ll(1) j by (auto simp: released_def 2(1))
  moreover have "keeps (heap_ptr h) bs (ram h1) (ram h2)"
    using h2(3) by (auto simp: keeps_def 2(1) l_def zs_def add.assoc split: if_splits)
  ultimately show ?thesis using h2 keeps_trans [OF 2(6) [unfolded e(1)]] by auto
qed

section \<open>Aligned allocation\<close>

lemma align_pointer_props:
  assumes "4 dvd ptr" "2 \<le> k" "ptr + 2 ^ k < 2 ^ 32"
  shows "2 ^ k dvd align_pointer ptr (2 ^ k)" "ptr + 4 \<le> align_pointer ptr (2 ^ k)"
    "align_pointer ptr (2 ^ k) \<le> ptr + 2 ^ k"
proof -
  have lt: "ptr < 2 ^ 32" using assms(3) by simp
  have four: "4 dvd (2 :: nat) ^ k" using assms(2) le_imp_power_dvd [of 2 k 2] by simp
  then have ge: "4 \<le> (2 :: nat) ^ k" by (intro dvd_imp_le) simp_all
  have md: "unat (of_nat ptr AND (of_nat (2 ^ k) - 1) :: u32) = ptr mod 2 ^ k"
    unfolding of_nat_pow_mask and_mask_mod unat_of_nat using lt by simp
  have "2 ^ k dvd align_pointer ptr (2 ^ k) \<and> ptr + 4 \<le> align_pointer ptr (2 ^ k) \<and>
    align_pointer ptr (2 ^ k) \<le> ptr + 2 ^ k"
  proof (cases "ptr mod 2 ^ k = 0")
    case True
    then have "align_pointer ptr (2 ^ k) = ptr + 2 ^ k"
      using md assms(3) by (simp add: align_pointer_def add_u32_def)
    then show ?thesis using True ge by (simp add: mod_eq_0_iff_dvd)
  next
    case False
    define q where "q = ptr div 2 ^ k"
    define r where "r = ptr mod 2 ^ k"
    have ptr: "ptr = q * 2 ^ k + r" unfolding q_def r_def by (rule div_mult_mod_eq [symmetric])
    have r: "0 < r" "r < 2 ^ k" "4 dvd r" using False assms(1) four by (simp_all add: r_def dvd_mod)
    have "ptr + (2 ^ k - 1) = (q + 1) * 2 ^ k + (r - 1)" using ptr r by (simp add: algebra_simps)
    moreover have "((q + 1) * 2 ^ k + (r - 1)) div 2 ^ k = q + 1"
      by (rule div_nat_eqI) (use r in \<open>simp_all add: algebra_simps\<close>)
    ultimately have "(ptr + (2 ^ k - 1)) div 2 ^ k = q + 1" by (simp only:)
    moreover have "(ptr + (2 ^ k - 1)) mod 2 ^ 32 = ptr + (2 ^ k - 1)" using assms(3) by simp
    ultimately have e: "align_pointer ptr (2 ^ k) = (q + 1) * 2 ^ k"
      using md False RT_ALIGN_pow(1) [OF lt, of k] by (simp add: align_pointer_def)
    have "r + 4 \<le> 2 ^ k"
    proof -
      have "4 dvd 2 ^ k - r" using four r(3) by (simp add: dvd_diff_nat)
      then show ?thesis using r(2) dvd_imp_le [of 4 "2 ^ k - r"] by simp
    qed
    then show ?thesis using e ptr r by (simp add: algebra_simps)
  qed
  then show "2 ^ k dvd align_pointer ptr (2 ^ k)" "ptr + 4 \<le> align_pointer ptr (2 ^ k)"
    "align_pointer ptr (2 ^ k) \<le> ptr + 2 ^ k" by auto
qed

lemma store_rel_aligned: "store_rel h own \<Longrightarrow> own p = Some d \<Longrightarrow> 4 dvd p"
proof -
  assume s: "store_rel h own" "own p = Some d"
  obtain bs where b: "heap_rel h bs" "owned (heap_ptr h) bs (ram h) own" using s(1) by (auto simp: store_rel_def)
  obtain xs n ys where x: "bs = xs @ (n, True) # ys" "p = heap_ptr h + spans xs + 12"
    by (rule owned_block [OF b(2) s(2) heap_rel_long [OF b(1)]])
  have lo: "laid_out h (xs @ (n, True) # ys)" using b(1) x(1) by (simp add: heap_rel_def)
  have "4 dvd spans xs" "4 dvd heap_ptr h" using laid_out_block(7) [OF lo] lo by (auto simp: laid_out_def)
  then show ?thesis using x(2) by simp
qed

text \<open>\<open>rt_malloc_align\<close> with a power of two gives an aligned region inside a block the client
  then owns, and \<open>rt_free_align\<close> releases that block.\<close>

lemma rt_malloc_align_block:
  assumes s: "store_rel h own" and k: "2 \<le> k" "RT_ALIGN sz 4 + 2 ^ k \<le> 2 ^ 32 - 4" and sz: "0 < sz" "sz \<le> 2 ^ 32 - 4"
  shows "\<exists>q h'. rt_malloc_align sz (2 ^ k) h = Some (q, h') \<and>
    (q = 0 \<and> store_rel h' own \<or>
     (\<exists>p d. own p = None \<and> store_rel h' (own(p \<mapsto> d)) \<and> 2 ^ k dvd q \<and> p + 4 \<le> q \<and>
        q + sz \<le> p + length d \<and> rt_free_align q h' = rt_free p h'))"
proof -
  let ?n = "RT_ALIGN sz 4 + 2 ^ k"
  have four: "4 dvd (2 :: nat) ^ k" using k(1) le_imp_power_dvd [of 2 k 2] by simp
  have pk: "(2 :: nat) ^ k \<le> 2 ^ 32 - 4" "(2 :: nat) ^ k < 2 ^ 32" using k(2) by simp_all
  have al: "RT_ALIGN (2 ^ k) 4 = 2 ^ k"
  proof -
    obtain j where j: "(2 :: nat) ^ k = 4 * j" using four by (rule dvdE)
    show ?thesis using pk unfolding j by (simp add: RT_ALIGN_4)
  qed
  have as: "add_u32 (RT_ALIGN sz 4) (2 ^ k) = ?n" using k(2) by (simp add: add_u32_def)
  obtain r h1 own' where m: "rt_malloc ?n h = Some (r, h1)" "gets own r ?n (\<lambda>d. True) own'" "store_rel h1 own'"
    using heap_malloc_step [OF s k(2) order.refl] by auto
  show ?thesis
  proof (cases "r = 0")
    case True
    then show ?thesis using m by (auto simp: rt_malloc_align_def Let_def al as gets_def)
  next
    case False
    then obtain d where d: "length d = ?n" "own' = own(r \<mapsto> d)" "own r = None"
      using m(2) by (auto simp: gets_def apart_def)
    have o: "own' r = Some d" using d by simp
    define q where "q = align_pointer r (2 ^ k)"
    have b: "r + ?n < 2 ^ 32"
    proof -
      have "heap_end h1 < 2 ^ 32" using m(3) by (auto simp: store_rel_def heap_rel_def laid_out_def)
      then show ?thesis using store_rel_bytes(3) [OF m(3) o] d(1) by simp
    qed
    have q: "2 ^ k dvd q" "r + 4 \<le> q" "q \<le> r + 2 ^ k"
      using align_pointer_props [OF store_rel_aligned [OF m(3) o] k(1)] b by (simp_all add: q_def)
    define m' where "m' = store32 (ram h1) (q - 4) (of_nat r)"
    have sz': "sz \<le> RT_ALIGN sz 4" by (rule RT_ALIGN_props(1) [OF sz(2)])
    have e: "rt_malloc_align sz (2 ^ k) h = Some (q, h1\<lparr>ram := m'\<rparr>)"
      using m(1) False by (simp add: rt_malloc_align_def Let_def al as q_def m'_def)
    obtain bs where bs: "heap_rel h1 bs" "owned (heap_ptr h1) bs (ram h1) own'" using m(3) by (auto simp: store_rel_def)
    have "r \<in> fst ` set (live (heap_ptr h1) bs)" using bs(2) o by (auto simp: owned_def)
    then obtain j where j: "(r, j) \<in> set (live (heap_ptr h1) bs)" by auto
    have jl: "length d \<le> j" using bs(2) o j by (auto simp: owned_def)
    have out: "m' c = ram h1 c" if "c < r \<or> r + j \<le> c" for c
      using that q jl d(1) sz sz' by (auto simp: m'_def ram_simps)
    have "store_rel (h1\<lparr>ram := m'\<rparr>) (own'(r \<mapsto> bytes_at m' r ?n))"
      using store_write [where m' = m', OF bs j out, of ?n] jl d(1) by (auto simp: store_rel_def)
    then have sr: "store_rel (h1\<lparr>ram := m'\<rparr>) (own(r \<mapsto> bytes_at m' r ?n))" using d(2) by simp
    have "unat (of_nat r :: u32) = r" using b by simp
    then have "rt_free_align q (h1\<lparr>ram := m'\<rparr>) = rt_free r (h1\<lparr>ram := m'\<rparr>)"
      using q by (simp add: rt_free_align_def m'_def ram_simps)
    then show ?thesis using e sr q d(3) sz'
      by (intro exI [of _ q] exI [of _ "h1\<lparr>ram := m'\<rparr>"] conjI disjI2 exI [of _ r] exI [of _ "bytes_at m' r ?n"]) auto
  qed
qed

text \<open>\<open>rt_strdup\<close> of a string the client holds gives a copy of it in a block of its own.\<close>

lemma rt_strdup_copy:
  assumes s: "store_rel h own" "own a = Some d" and t: "cstr (ram h) a t" "length t < length d" "length t < 2 ^ 32 - 4"
  shows "\<exists>p h'. rt_strdup a h = Some (p, h') \<and>
    (p = 0 \<and> store_rel h' own \<or>
     p \<noteq> 0 \<and> own p = None \<and> cstr (ram h') p t \<and>
       store_rel h' (own(p \<mapsto> bytes_at (ram h') p (length t + 1))))"
proof -
  let ?n = "length t + 1"
  have n: "?n \<le> 2 ^ 32 - 4" using t(3) by simp
  obtain bs where b: "heap_rel h bs" "owned (heap_ptr h) bs (ram h) own" using s(1) by (auto simp: store_rel_def)
  show ?thesis
  proof (cases rule: malloc_owned [OF b n order.refl])
    case 1
    then show ?thesis using s t by (simp add: rt_strdup_def)
  next
    case (2 p h1 cs j)
    have hp: "heap_ptr h1 = heap_ptr h" using 2(5) by (simp add: same_frame_def)
    have s1: "store_rel h1 (own(p \<mapsto> bytes_at (ram h1) p ?n))" using 2(4,6) hp by (auto simp: store_rel_def)
    have pa: "p \<noteq> a" using 2(7) s(2) by auto
    have "bytes_at (ram h1) a (length d) = d" using store_rel_bytes(1) [OF s1, of a d] s(2) pa by simp
    then have "ram h1 (a + i) = ram h (a + i)" if "i \<le> length t" for i
      using store_rel_bytes(1) [OF s] that t(2) by (metis bytes_at_simps(2) le_less_trans)
    then have t1: "cstr (ram h1) a t" using cstr_cong [OF t(1)] by simp
    define m' where "m' = ram_copy (ram h1) p a ?n"
    have dj: "p + ?n \<le> a \<or> a + length d \<le> p"
      using 2(8) s(2) unfolding apart_def by blast
    have "p \<le> a \<or> a + ?n \<le> p" using dj t(2) by linarith
    then have mc: "rt_memcpy (ram h1) p a ?n = m'" unfolding m'_def by (rule rt_memcpy_eq)
    have e: "rt_strdup a h = Some (p, h1\<lparr>ram := m'\<rparr>)"
      using 2(1,2) t(1) mc by (simp add: rt_strdup_def)
    have out: "m' c = ram h1 c" if "c < p \<or> p + j \<le> c" for c
      using that 2(10) by (auto simp: m'_def ram_copy_def)
    have "store_rel (h1\<lparr>ram := m'\<rparr>) (own(p \<mapsto> bytes_at m' p ?n))"
      using store_write [where m' = m', OF 2(4) 2(6) [folded hp] 2(9) [folded hp] out 2(10)]
      by (auto simp: store_rel_def)
    moreover have "cstr m' p t"
      by (rule cstr_shift [OF t1]) (simp add: m'_def ram_copy_def)
    ultimately show ?thesis using e 2(2,7) by auto
  qed
qed

section \<open>Properties of the heap\<close>

text \<open>C2: after the initialisation of the heap on a region of at least 36 bytes, whatever calls and
  writes a client makes (sizes below 4 GiB, frees and reallocations of pointers it holds): the memory
  behind each pointer it holds is what it last stored there or was given, the regions lie inside the
  heap and are disjoint, and the next call returns, with the outcome the abstract store allows.\<close>

theorem heap_is_store:
  assumes "interrupt_nest h = 0" "used_mem h = 0" "bg < 2 ^ 32" "en < 2 ^ 32"
    "RT_ALIGN bg 4 + 36 \<le> RT_ALIGN_DOWN en 4"
    and "rt_system_heap_init bg en h = Some h0" "client_step\<^sup>*\<^sup>* (h0, Map.empty) (h1, own)"
  shows "(\<forall>p d. own p = Some d \<longrightarrow>
      bytes_at (ram h1) p (length d) = d \<and> heap_ptr h1 \<le> p \<and> p + length d \<le> heap_end h1 \<and>
      (\<forall>q e. own q = Some e \<and> q \<noteq> p \<longrightarrow> p + length d \<le> q \<or> q + length e \<le> p)) \<and>
    (\<forall>opn. allowed own opn \<longrightarrow>
      (\<exists>r h2. heap_call opn h1 = Some (r, h2) \<and>
        store_step opn r own (store_after opn r (ram h2) own)))"
proof -
  have "store_rel h0 Map.empty" using heap_init_rel [OF assms(1-5)] assms(6) store_init by fastforce
  then have s: "store_rel h1 own" using assms(7) by (rule client_good)
  have "\<exists>r h2. heap_call opn h1 = Some (r, h2) \<and> store_step opn r own (store_after opn r (ram h2) own)"
    if "allowed own opn" for opn
    using heap_call_step [OF s that] store_after_eq s by metis
  then show ?thesis
    using store_rel_bytes [OF s] store_rel_disjoint [OF s] by auto
qed

text \<open>A concrete heap, of 64 KiB at the start of the SRAM.\<close>

definition sram_heap :: heap where
  "sram_heap = \<lparr>ram = (\<lambda>_. 0), heap_ptr = 0, heap_end = 0, lfree = 0, mem_size_aligned = 0, used_mem = 0,
     max_mem = 0, interrupt_nest = 0\<rparr>"

lemma sram_heap_facts:
  "interrupt_nest sram_heap = 0" "used_mem sram_heap = 0"
  "RT_ALIGN 0x20000000 4 + 36 \<le> RT_ALIGN_DOWN 0x20010000 4"
  by (simp_all add: sram_heap_def RT_ALIGN_4 RT_ALIGN_DOWN_4)

lemma sram_heap_init:
  obtains h0 where "rt_system_heap_init 0x20000000 0x20010000 sram_heap = Some h0"
    "heap_rel h0 [(65524, False)]" "mem_size_aligned h0 = 65512"
proof -
  obtain h0 where h0: "rt_system_heap_init 0x20000000 0x20010000 sram_heap = Some h0"
    and "heap_rel h0 [(RT_ALIGN_DOWN 0x20010000 4 - RT_ALIGN 0x20000000 4 - 12, False)]"
    using heap_init_rel [OF sram_heap_facts(1,2) _ _ sram_heap_facts(3)] by auto
  moreover have "RT_ALIGN_DOWN 0x20010000 4 - RT_ALIGN 0x20000000 4 - 12 = 65524"
    by (simp add: RT_ALIGN_4 RT_ALIGN_DOWN_4)
  ultimately have r: "heap_rel h0 [(65524, False)]" by simp
  then have "mem_size_aligned h0 = 65512" by (auto simp: heap_rel_def laid_out_def)
  with h0 r show ?thesis by (rule that)
qed

lemma sram_malloc:
  assumes "heap_rel h [(65524, False)]" "mem_size_aligned h = 65512"
  obtains p h' where "rt_malloc 10 h = Some (p, h')" "p \<noteq> 0"
proof -
  have b: "block_size 10 = 12" by (simp add: block_size_def RT_ALIGN_4)
  show ?thesis
    using rt_malloc_fits [of h "[]" 65524 "[]" 10] assms b that by auto
qed

theorem heap_is_store_witness:
  "\<exists>h0 h1 own p. rt_system_heap_init 0x20000000 0x20010000 sram_heap = Some h0 \<and>
     client_step\<^sup>*\<^sup>* (h0, Map.empty) (h1, own) \<and> heap_ptr h1 \<le> p \<and>
     own p = Some (bytes_at (ram h1) p 10) \<and> p + 10 \<le> heap_end h1"
proof -
  obtain h0 where h0: "rt_system_heap_init 0x20000000 0x20010000 sram_heap = Some h0"
    "heap_rel h0 [(65524, False)]" "mem_size_aligned h0 = 65512" by (rule sram_heap_init)
  obtain p h1 where p: "rt_malloc 10 h0 = Some (p, h1)" "p \<noteq> 0" using sram_malloc [OF h0(2,3)] by metis
  define own where "own = store_after (Malloc 10) p (ram h1) Map.empty"
  have "client_step (h0, Map.empty) (h1, own)"
    unfolding own_def by (rule call) (use p in simp_all)
  then have st: "client_step\<^sup>*\<^sup>* (h0, Map.empty) (h1, own)" by (rule r_into_rtranclp)
  note r = heap_is_store [OF sram_heap_facts(1,2) _ _ sram_heap_facts(3) h0(1) st, simplified]
  have o: "own p = Some (bytes_at (ram h1) p 10)" using p(2) by (simp add: own_def)
  have "heap_ptr h1 \<le> p \<and> p + 10 \<le> heap_end h1" using r o by (metis bytes_at_simps(1))
  then show ?thesis
    using h0(1) st o by (intro exI [of _ h0] exI [of _ h1] exI [of _ own] exI [of _ p] conjI) auto
qed

text \<open>C10: allocating and releasing: \<open>rt_malloc\<close> of a client that gives a pointer followed by
  \<open>rt_free\<close> of it puts the heap back to the same list of blocks, with every byte in use unchanged;
  and when a client has released everything, by whatever sequence of calls, the heap is again one free
  block of its full size with nothing counted as used.\<close>

theorem heap_no_leak:
  assumes "interrupt_nest h = 0" "used_mem h = 0" "bg < 2 ^ 32" "en < 2 ^ 32"
    "RT_ALIGN bg 4 + 36 \<le> RT_ALIGN_DOWN en 4"
    and "rt_system_heap_init bg en h = Some h0" "client_step\<^sup>*\<^sup>* (h0, Map.empty) (h1, own)"
  shows "\<exists>bs. heap_rel h1 bs \<and>
    (\<forall>n p h2. n < 2 ^ 32 \<and> rt_malloc n h1 = Some (p, h2) \<and> p \<noteq> 0 \<longrightarrow>
       (\<exists>h3. rt_free p h2 = Some h3 \<and> heap_rel h3 bs \<and> keeps (heap_ptr h1) bs (ram h1) (ram h3))) \<and>
    (own = Map.empty \<longrightarrow> bs = [(mem_size_aligned h1 + 12, False)] \<and>
       rt_memory_info h1 = (mem_size_aligned h1, 0, max_mem h1))"
proof -
  have "store_rel h0 Map.empty" using heap_init_rel [OF assms(1-5)] assms(6) store_init by fastforce
  then have "store_rel h1 own" using assms(7) by (rule client_good)
  then obtain bs where b: "heap_rel h1 bs" "owned (heap_ptr h1) bs (ram h1) own" by (auto simp: store_rel_def)
  show ?thesis
  proof (cases "own = Map.empty")
    case False
    then show ?thesis using b(1) rt_free_after_malloc [OF b(1)] by blast
  next
    case True
    then have e: "heap_rel h1 [(mem_size_aligned h1 + 12, False)]" using no_block_in_use b by simp
    then show ?thesis using rt_free_after_malloc [OF e] heap_rel_info [OF e]
      by (intro exI [of _ "[(mem_size_aligned h1 + 12, False)]"]) auto
  qed
qed

theorem heap_no_leak_witness:
  "\<exists>h0 h1 p h2. rt_system_heap_init 0x20000000 0x20010000 sram_heap = Some h0 \<and>
     rt_malloc 10 h0 = Some (p, h1) \<and> p \<noteq> 0 \<and> rt_free p h1 = Some h2 \<and>
     (\<exists>bs. heap_rel h0 bs \<and> heap_rel h2 bs)"
proof -
  obtain h0 where h0: "rt_system_heap_init 0x20000000 0x20010000 sram_heap = Some h0"
    "heap_rel h0 [(65524, False)]" "mem_size_aligned h0 = 65512" by (rule sram_heap_init)
  obtain p h1 where p: "rt_malloc 10 h0 = Some (p, h1)" "p \<noteq> 0" using sram_malloc [OF h0(2,3)] by metis
  have n: "(10 :: nat) < 2 ^ 32" by simp
  obtain bs where bs: "heap_rel h0 bs" "\<forall>n p h2. n < 2 ^ 32 \<and> rt_malloc n h0 = Some (p, h2) \<and> p \<noteq> 0 \<longrightarrow>
       (\<exists>h3. rt_free p h2 = Some h3 \<and> heap_rel h3 bs \<and> keeps (heap_ptr h0) bs (ram h0) (ram h3))"
    using heap_no_leak [OF sram_heap_facts(1,2) _ _ sram_heap_facts(3) h0(1) rtranclp.rtrancl_refl] by auto
  then obtain h2 where "rt_free p h1 = Some h2" "heap_rel h2 bs" using p n by blast
  then show ?thesis using h0(1) p bs(1)
    by (intro exI [of _ h0] exI [of _ h1] exI [of _ p] exI [of _ h2] exI [of _ bs] conjI)
qed

text \<open>C33: a size that rounds up past the end of the 32-bit range is taken for a small one: on a heap
  with free space at its start, \<open>rt_malloc\<close> of 4294967293 to 4294967295 bytes returns a block of
  twelve bytes instead of \<open>RT_NULL\<close>.\<close>

theorem malloc_size_wraps:
  assumes "heap_rel h [(n, False)]" "48 \<le> n" "sz < 2 ^ 32" "2 ^ 32 - 4 < sz"
  shows "\<exists>h'. rt_malloc sz h = Some (heap_ptr h + 12, h') \<and> heap_rel h' [(24, True), (n - 24, False)]"
proof -
  obtain k where k: "sz + 3 = 2 ^ 32 + k" "k < 3"
    using that [of "sz + 3 - 2 ^ 32"] assms(3,4) by simp
  have "(sz + 3) mod 2 ^ 32 = k" unfolding k(1) using k(2) by simp
  then have "RT_ALIGN sz 4 = 0" using assms(3) k(2) by (simp add: RT_ALIGN_4)
  then have b: "block_size sz = 12" "RT_ALIGN sz 4 \<le> mem_size_aligned h" by (simp_all add: block_size_def)
  have m: "mem_size_aligned h = n - 12" using assms(1) by (auto simp: heap_rel_def laid_out_def)
  have "fit (mem_size_aligned h - block_size sz) (block_size sz) 0 ([] @ (n, False) # []) = Some (spans [])"
    using assms(2) b m by simp
  from rt_malloc_taken [OF _ _ assms(3) b(2) this] show ?thesis
    using assms(1,2,4) b(1) by (auto simp: place_def)
qed

theorem malloc_size_wraps_witness:
  "\<exists>h0 p h1. rt_system_heap_init 0x20000000 0x20010000 sram_heap = Some h0 \<and>
     rt_malloc 0xFFFFFFFF h0 = Some (p, h1) \<and> p \<noteq> 0 \<and> heap_rel h1 [(24, True), (65500, False)]"
proof -
  obtain h0 where h0: "rt_system_heap_init 0x20000000 0x20010000 sram_heap = Some h0"
    "heap_rel h0 [(65524, False)]" by (rule sram_heap_init)
  show ?thesis using malloc_size_wraps [where sz = "0xFFFFFFFF", OF h0(2)] h0(1) by auto
qed

end
