(* ===== verification/Kernel_Printf.thy ===== *)
theory Kernel_Printf
  imports Kernel_String Cstring
begin

text \<open>
  Formatted printing of the kernel library (\<open>src/smart-building-mcu/rt-thread/src/kservice.c\<close>):
  \<open>print_number\<close>, \<open>rt_vsnprintf\<close> and the functions that call it. The build has
  \<open>RT_PRINTF_PRECISION\<close>, without \<open>RT_PRINTF_LONGLONG\<close> and \<open>RT_PRINTF_SPECIAL\<close>.

  The format is the list of its characters; the output goes byte by byte to the memory, up to
  \<open>end\<close>, while the pointer \<open>str\<close> moves on. An argument is an integer of 32 bits or a string, given by
  its characters (\<open>None\<close> for a null pointer; the strings lie outside the buffer). A missing argument,
  or one of the other kind, is undefined in C and the outcome is \<open>None\<close>. Field widths are not bounded.
\<close>

section \<open>Numbers\<close>

datatype va = VInt u32 | VStr "string option"

type_synonym out = "ram \<times> nat"

abbreviation (input) "F_ZEROPAD \<equiv> 1 :: u8"
abbreviation (input) "F_SIGN \<equiv> 2 :: u8"
abbreviation (input) "F_PLUS \<equiv> 4 :: u8"
abbreviation (input) "F_SPACE \<equiv> 8 :: u8"
abbreviation (input) "F_LEFT \<equiv> 16 :: u8"
abbreviation (input) "F_SPECIAL \<equiv> 32 :: u8"
abbreviation (input) "F_LARGE \<equiv> 64 :: u8"

definition has :: "u8 \<Rightarrow> u8 \<Rightarrow> bool" where
  "has fl f \<longleftrightarrow> fl AND f \<noteq> 0"

text \<open>\<open>if (str < end) *str = c; ++str;\<close>\<close>

definition emit :: "nat \<Rightarrow> char \<Rightarrow> out \<Rightarrow> out" where
  "emit en c = (\<lambda>(m, str). (if str < en then m(str := of_char c) else m, str + 1))"

definition divide :: "u32 \<Rightarrow> nat \<Rightarrow> nat \<times> u32" where
  "divide n base = (if base = 10 then (unat (n mod 10), n div 10) else (unat (n mod 16), n div 16))"

definition small_digits :: string where "small_digits = ''0123456789abcdef''"
definition large_digits :: string where "large_digits = ''0123456789ABCDEF''"

text \<open>The digits as they fall out, the last one first: the array \<open>tmp\<close>.\<close>

function number_digits :: "string \<Rightarrow> nat \<Rightarrow> u32 \<Rightarrow> string" where
  "number_digits digits base num =
    (if num \<noteq> 0 then let (d, n) = divide num base in digits ! d # number_digits digits base n else [])"
  by pat_completeness auto
termination
proof (relation "measure (\<lambda>(ds, b, n). unat n)")
  fix digits :: string and base :: nat and num n :: u32 and x d
  assume a: "num \<noteq> 0" "x = divide num base" "(d, n) = x"
  then have "n = num div 10 \<or> n = num div 16" by (auto simp: divide_def split: if_splits)
  then have "unat n < unat num" using a(1) by (auto simp: unat_div unat_gt_0)
  then show "((digits, base, n), digits, base, num) \<in> measure (\<lambda>(ds, b, n). unat n)" by simp
qed simp

declare number_digits.simps [simp del]

text \<open>\<open>while (size-- > 0)\<close> with one character, which leaves the size below zero.\<close>

function pad :: "nat \<Rightarrow> char \<Rightarrow> int \<Rightarrow> out \<Rightarrow> int \<times> out" where
  "pad en c sz s = (if sz > 0 then pad en c (sz - 1) (emit en c s) else (sz - 1, s))"
  by pat_completeness auto
termination by (relation "measure (\<lambda>(en, c, sz, s). nat sz)") auto

declare pad.simps [simp del]

function zeros :: "nat \<Rightarrow> int \<Rightarrow> int \<Rightarrow> out \<Rightarrow> out" where
  "zeros en i precision s =
    (if i < precision then zeros en i (precision - 1) (emit en CHR ''0'' s) else s)"
  by pat_completeness auto
termination by (relation "measure (\<lambda>(en, i, p, s). nat (p - i))") auto

declare zeros.simps [simp del]

text \<open>\<open>while (i-- > 0 && precision_bak != 0)\<close>: the digits from the last stored to the first.\<close>

fun put_digits :: "nat \<Rightarrow> int \<Rightarrow> string \<Rightarrow> nat \<Rightarrow> out \<Rightarrow> out" where
  "put_digits en precision_bak tmp 0 s = s"
| "put_digits en precision_bak tmp (Suc i) s =
    (if precision_bak \<noteq> 0 then put_digits en precision_bak tmp i (emit en (tmp ! i) s) else s)"

definition number_sign :: "u32 \<Rightarrow> u8 \<Rightarrow> char option \<times> u32" where
  "number_sign num type =
    (if has type F_SIGN
     then if num <s 0 then (Some CHR ''-'', - num)
          else if has type F_PLUS then (Some CHR ''+'', num)
          else if has type F_SPACE then (Some CHR '' '', num) else (None, num)
     else (None, num))"

definition print_number :: "nat \<Rightarrow> u32 \<Rightarrow> nat \<Rightarrow> int \<Rightarrow> int \<Rightarrow> u8 \<Rightarrow> out \<Rightarrow> out" where
  "print_number en num0 base s precision0 type0 out0 =
    (let digits = (if has type0 F_LARGE then large_digits else small_digits);
         type = (if has type0 F_LEFT then type0 AND NOT F_ZEROPAD else type0);
         c = (if has type F_ZEROPAD then CHR ''0'' else CHR '' '');
         (sign, num) = number_sign num0 type;
         tmp = (if num = 0 then ''0'' else number_digits digits base num);
         i = int (length tmp);
         precision = (if i > precision0 then i else precision0);
         sz = s - precision;
         (sz, out1) = (if \<not> has type (F_ZEROPAD OR F_LEFT)
           then pad en CHR '' '' (if sign \<noteq> None \<and> sz > 0 then sz - 1 else sz) out0 else (sz, out0));
         (sz, out2) = (case sign of Some ch \<Rightarrow> (sz - 1, emit en ch out1) | None \<Rightarrow> (sz, out1));
         (sz, out3) = (if \<not> has type F_LEFT then pad en c sz out2 else (sz, out2));
         out4 = zeros en i precision out3;
         out5 = put_digits en precision0 tmp (length tmp) out4;
         (sz, out6) = pad en CHR '' '' sz out5
     in out6)"

section \<open>Directives\<close>

fun flags_loop :: "u8 \<Rightarrow> string \<Rightarrow> u8 \<times> string" where
  "flags_loop flags [] = (flags, [])"
| "flags_loop flags (c # fmt) =
    (if c = CHR ''-'' then flags_loop (flags OR F_LEFT) fmt
     else if c = CHR ''+'' then flags_loop (flags OR F_PLUS) fmt
     else if c = CHR '' '' then flags_loop (flags OR F_SPACE) fmt
     else if c = CHR ''#'' then flags_loop (flags OR F_SPECIAL) fmt
     else if c = CHR ''0'' then flags_loop (flags OR F_ZEROPAD) fmt
     else (flags, c # fmt))"

fun skip_atoi :: "int \<Rightarrow> string \<Rightarrow> int \<times> string" where
  "skip_atoi i [] = (i, [])"
| "skip_atoi i (c # s) = (if isdigit c then skip_atoi (i * 10 + int (code_of c) - 48) s else (i, c # s))"

fun va_int :: "va list \<Rightarrow> (u32 \<times> va list) option" where
  "va_int (VInt n # args) = Some (n, args)"
| "va_int _ = None"

fun va_str :: "va list \<Rightarrow> (string option \<times> va list) option" where
  "va_str (VStr s # args) = Some (s, args)"
| "va_str _ = None"

fun field_width :: "u8 \<Rightarrow> string \<Rightarrow> va list \<Rightarrow> (int \<times> u8 \<times> string \<times> va list) option" where
  "field_width flags [] args = Some (- 1, flags, [], args)"
| "field_width flags (c # fmt) args =
    (if isdigit c then let (w, rest) = skip_atoi 0 (c # fmt) in Some (w, flags, rest, args)
     else if c = CHR ''*''
     then do { (n, args') \<leftarrow> va_int args;
               let w = sint n in
               if w < 0 then Some (- w, flags OR F_LEFT, fmt, args') else Some (w, flags, fmt, args') }
     else Some (- 1, flags, c # fmt, args))"

fun field_precision :: "string \<Rightarrow> va list \<Rightarrow> (int \<times> string \<times> va list) option" where
  "field_precision (c # fmt) args =
    (if c = CHR ''.''
     then do { (p, rest, args') \<leftarrow>
                 (case fmt of [] \<Rightarrow> Some (- 1, [], args)
                  | d # fmt' \<Rightarrow>
                      if isdigit d then let (p, rest) = skip_atoi 0 fmt in Some (p, rest, args)
                      else if d = CHR ''*'' then do { (n, args') \<leftarrow> va_int args; Some (sint n, fmt', args') }
                      else Some (- 1, fmt, args));
               Some (if p < 0 then 0 else p, rest, args') }
     else Some (- 1, c # fmt, args))"
| "field_precision [] args = Some (- 1, [], args)"

fun qualifier :: "string \<Rightarrow> char option \<times> string" where
  "qualifier (c # fmt) = (if c = CHR ''h'' \<or> c = CHR ''l'' then (Some c, fmt) else (None, c # fmt))"
| "qualifier [] = (None, [])"

text \<open>The value an integer conversion prints, from the argument and the qualifier.\<close>

definition int_value :: "char option \<Rightarrow> u8 \<Rightarrow> u32 \<Rightarrow> u32" where
  "int_value q flags n =
    (if q = Some CHR ''h''
     then if has flags F_SIGN then scast (ucast n :: u16) else ucast (ucast n :: u16)
     else n)"

fun put_string :: "nat \<Rightarrow> string \<Rightarrow> out \<Rightarrow> out" where
  "put_string en [] s = s"
| "put_string en (c # cs) s = put_string en cs (emit en c s)"

text \<open>\<open>while (--field_width > 0)\<close> and \<open>while (len < field_width--)\<close>, with spaces.\<close>

function pad_char :: "nat \<Rightarrow> int \<Rightarrow> out \<Rightarrow> int \<times> out" where
  "pad_char en w s = (if w - 1 > 0 then pad_char en (w - 1) (emit en CHR '' '' s) else (w - 1, s))"
  by pat_completeness auto
termination by (relation "measure (\<lambda>(en, w, s). nat w)") auto

function pad_string :: "nat \<Rightarrow> int \<Rightarrow> int \<Rightarrow> out \<Rightarrow> int \<times> out" where
  "pad_string en len w s = (if len < w then pad_string en len (w - 1) (emit en CHR '' '' s) else (w - 1, s))"
  by pat_completeness auto
termination by (relation "measure (\<lambda>(en, len, w, s). nat (w - len))") auto

declare pad_char.simps [simp del] pad_string.simps [simp del]

definition conv_char :: "nat \<Rightarrow> u8 \<Rightarrow> int \<Rightarrow> u32 \<Rightarrow> out \<Rightarrow> out" where
  "conv_char en flags w n s =
    (let (w1, s1) = (if \<not> has flags F_LEFT then pad_char en w s else (w, s));
         s2 = emit en (char_of (unat (ucast n :: u8))) s1
     in snd (pad_char en w1 s2))"

definition conv_string :: "nat \<Rightarrow> u8 \<Rightarrow> int \<Rightarrow> int \<Rightarrow> string option \<Rightarrow> out \<Rightarrow> out" where
  "conv_string en flags w precision arg s =
    (let str = (case arg of None \<Rightarrow> ''(NULL)'' | Some str \<Rightarrow> str);
         len = (if precision > 0 \<and> int (length str) > precision then precision else int (length str));
         (w1, s1) = (if \<not> has flags F_LEFT then pad_string en len w s else (w, s));
         s2 = put_string en (take (nat len) str) s1
     in snd (pad_string en len w1 s2))"

text \<open>One directive, from the character after the percent sign on: the rest of the format and of the
  arguments, and the output.\<close>

definition vs_number :: "nat \<Rightarrow> u8 \<Rightarrow> int \<Rightarrow> int \<Rightarrow> char option \<Rightarrow> nat \<Rightarrow> va list \<Rightarrow> out \<Rightarrow> (va list \<times> out) option" where
  "vs_number en flags w precision q base args s =
    do { (n, args') \<leftarrow> va_int args;
         Some (args', print_number en (int_value q flags n) base w precision flags s) }"

definition vs_convert :: "nat \<Rightarrow> u8 \<Rightarrow> int \<Rightarrow> int \<Rightarrow> char option \<Rightarrow> char \<Rightarrow> va list \<Rightarrow> out \<Rightarrow> (va list \<times> out) option" where
  "vs_convert en flags w precision q c args s =
    (if c = CHR ''c'' then do { (n, args') \<leftarrow> va_int args; Some (args', conv_char en flags w n s) }
     else if c = CHR ''s''
     then do { (arg, args') \<leftarrow> va_str args; Some (args', conv_string en flags w precision arg s) }
     else if c = CHR ''p''
     then do { (n, args') \<leftarrow> va_int args;
               Some (args', if w = - 1
                 then print_number en n 16 8 precision (flags OR F_ZEROPAD) s
                 else print_number en n 16 w precision flags s) }
     else if c = CHR ''%'' then Some (args, emit en CHR ''%'' s)
     else if c = CHR ''o'' then vs_number en flags w precision q 8 args s
     else if c = CHR ''X'' then vs_number en (flags OR F_LARGE) w precision q 16 args s
     else if c = CHR ''x'' then vs_number en flags w precision q 16 args s
     else if c = CHR ''d'' \<or> c = CHR ''i'' then vs_number en (flags OR F_SIGN) w precision q 10 args s
     else if c = CHR ''u'' then vs_number en flags w precision q 10 args s
     else Some (args, emit en c (emit en CHR ''%'' s)))"

definition vs_directive :: "nat \<Rightarrow> string \<Rightarrow> va list \<Rightarrow> out \<Rightarrow> (string \<times> va list \<times> out) option" where
  "vs_directive en fmt args s =
    (let (flags, fmt1) = flags_loop 0 fmt
     in do { (w, flags2, fmt2, args2) \<leftarrow> field_width flags fmt1 args;
             (precision, fmt3, args3) \<leftarrow> field_precision fmt2 args2;
             let (q, fmt4) = qualifier fmt3
             in case fmt4 of [] \<Rightarrow> Some ([], args3, emit en CHR ''%'' s)
                | c # rest \<Rightarrow> map_option (Pair rest) (vs_convert en flags2 w precision q c args3 s) })"

text \<open>Every part leaves a format that is not longer.\<close>

lemma flags_loop_length: "flags_loop fl f = (fl', f') \<Longrightarrow> length f' \<le> length f"
  by (induction fl f rule: flags_loop.induct) (auto split: if_splits)

lemma skip_atoi_length: "skip_atoi i f = (n, f') \<Longrightarrow> length f' \<le> length f"
  by (induction i f rule: skip_atoi.induct) (auto split: if_splits)

lemma field_width_length: "field_width fl f a = Some (w, fl', f', a') \<Longrightarrow> length f' \<le> length f"
  by (cases f) (auto simp: Let_def bind_eq_Some_conv dest: skip_atoi_length split: if_splits prod.splits)

lemma field_precision_length: "field_precision f a = Some (p, f', a') \<Longrightarrow> length f' \<le> length f"
proof (cases f)
  case (Cons c g)
  moreover assume "field_precision f a = Some (p, f', a')"
  ultimately show ?thesis
    by (cases g) (auto simp: bind_eq_Some_conv dest: skip_atoi_length split: if_splits prod.splits)
qed simp

lemma qualifier_length: "qualifier f = (q, f') \<Longrightarrow> length f' \<le> length f"
  by (cases f) (auto split: if_splits)

lemma vs_directive_length:
  assumes "vs_directive en f a s = Some (f', a', s')"
  shows "length f' \<le> length f"
proof -
  obtain fl f1 where 1: "flags_loop 0 f = (fl, f1)" by (cases "flags_loop 0 f")
  then obtain w fl2 f2 a2 where 2: "field_width fl f1 a = Some (w, fl2, f2, a2)"
    using assms by (auto simp: vs_directive_def bind_eq_Some_conv)
  then obtain p f3 a3 where 3: "field_precision f2 a2 = Some (p, f3, a3)"
    using assms 1 by (auto simp: vs_directive_def bind_eq_Some_conv)
  obtain q f4 where 4: "qualifier f3 = (q, f4)" by (cases "qualifier f3")
  have "length f' \<le> length f4" using assms 1 2 3 4 by (auto simp: vs_directive_def split: list.splits)
  then show ?thesis
    using flags_loop_length [OF 1] field_width_length [OF 2] field_precision_length [OF 3]
      qualifier_length [OF 4] by linarith
qed

text \<open>The loop over the format.\<close>

function vs_loop :: "nat \<Rightarrow> string \<Rightarrow> va list \<Rightarrow> out \<Rightarrow> out option" where
  "vs_loop en [] args s = Some s"
| "vs_loop en (c # fmt) args s =
    (if c \<noteq> CHR ''%'' then vs_loop en fmt args (emit en c s)
     else case vs_directive en fmt args s of None \<Rightarrow> None
       | Some (fmt', args', s') \<Rightarrow> vs_loop en fmt' args' s')"
  by pat_completeness auto
termination
  by (relation "measure (\<lambda>(en, f, a, s). length f)") (auto dest: vs_directive_length)

definition rt_vsnprintf :: "ram \<Rightarrow> nat \<Rightarrow> nat \<Rightarrow> string \<Rightarrow> va list \<Rightarrow> (nat \<times> ram) option" where
  "rt_vsnprintf m buf sz0 fmt args =
    (let (en, sz) = (if buf + sz0 \<ge> 2 ^ 32 then (2 ^ 32 - 1, 2 ^ 32 - 1 - buf) else (buf + sz0, sz0))
     in do { (m1, str) \<leftarrow> vs_loop en fmt args (m, buf);
             Some (str - buf,
               if sz > 0 then (if str < en then m1(str := 0) else m1(en - 1 := 0)) else m1) })"

definition rt_snprintf :: "ram \<Rightarrow> nat \<Rightarrow> nat \<Rightarrow> string \<Rightarrow> va list \<Rightarrow> (nat \<times> ram) option" where
  "rt_snprintf m buf sz fmt args = rt_vsnprintf m buf sz fmt args"

definition rt_vsprintf :: "ram \<Rightarrow> nat \<Rightarrow> string \<Rightarrow> va list \<Rightarrow> (nat \<times> ram) option" where
  "rt_vsprintf m buf fmt args = rt_vsnprintf m buf (2 ^ 32 - 1) fmt args"

definition rt_sprintf :: "ram \<Rightarrow> nat \<Rightarrow> string \<Rightarrow> va list \<Rightarrow> (nat \<times> ram) option" where
  "rt_sprintf m buf fmt args = rt_vsprintf m buf fmt args"

text \<open>\<open>rt_kprintf\<close>: the text in \<open>rt_log_buf\<close>, of \<open>RT_CONSOLEBUF_SIZE\<close> bytes, and the length that is
  written to the console.\<close>

definition kprintf_text :: "ram \<Rightarrow> nat \<Rightarrow> string \<Rightarrow> va list \<Rightarrow> (u8 list \<times> ram) option" where
  "kprintf_text m log_buf fmt args =
    do { (n, m1) \<leftarrow> rt_vsnprintf m log_buf (256 - 1) fmt args;
         let len = (if n > 256 - 1 then 256 - 1 else n) in Some (map (\<lambda>i. m1 (log_buf + i)) [0..<len], m1) }"

end
