(* ===== verification/Printf_Text.thy ===== *)
theory Printf_Text
  imports Kernel_Printf
begin

text \<open>
  What the formatted printing of \<open>Kernel_Printf\<close> prints: the text of every directive as a list of
  characters, and the theorem that \<open>rt_vsnprintf\<close> puts that text, cut to the buffer and ended by a
  zero byte, into memory.
\<close>

section \<open>Writing a text\<close>

lemma put_string_append: "put_string en (xs @ ys) s = put_string en ys (put_string en xs s)"
  by (induction en xs s rule: put_string.induct) auto

lemma put_string_replicate_Suc:
  "put_string en (replicate n c) (emit en c s) = put_string en (replicate (Suc n) c) s"
  by simp

lemma put_string_pos: "snd (put_string en cs (m, p)) = p + length cs"
  by (induction cs arbitrary: m p) (auto simp: emit_def)

lemma put_field_append: "put_field m p (xs @ ys) = put_field (put_field m p xs) (p + length xs) ys"
  by (induction xs arbitrary: m p) (simp_all add: put_field_Cons)

lemma emit_simp: "emit en c (m, p) = (if p < en then m(p := of_char c) else m, p + 1)"
  by (simp add: emit_def)

lemma put_string_mem:
  "put_string en cs (m, p) = (put_field m p (map of_char (take (en - p) cs)), p + length cs)"
proof (induction cs arbitrary: m p)
  case (Cons c cs)
  show ?case
  proof (cases "p < en")
    case True
    then have "en - p = Suc (en - (p + 1))" by simp
    then show ?thesis using Cons.IH [of "m(p := of_char c)" "p + 1"] True
      by (simp add: emit_simp put_field_Cons del: fun_upd_apply)
  next
    case False
    then show ?thesis using Cons by (simp add: emit_simp)
  qed
qed simp

section \<open>Numbers\<close>

lemma pad_text: "pad en c sz s = (if sz > 0 then - 1 else sz - 1, put_string en (replicate (nat sz) c) s)"
proof (induction en c sz s rule: pad.induct)
  case (1 en c sz s)
  show ?case
  proof (cases "sz > 0")
    case True
    then have "nat sz = Suc (nat (sz - 1))" by simp
    then show ?thesis using 1 True by (subst pad.simps) auto
  qed (subst pad.simps, simp)
qed

lemma zeros_text: "zeros en i p s = put_string en (replicate (nat (p - i)) CHR ''0'') s"
proof (induction en i p s rule: zeros.induct)
  case (1 en i p s)
  show ?case
  proof (cases "i < p")
    case True
    then have "nat (p - i) = Suc (nat (p - 1 - i))" by simp
    then show ?thesis using 1 True by (subst zeros.simps) simp
  qed (subst zeros.simps, simp)
qed

lemma put_digits_text:
  "k \<le> length tmp \<Longrightarrow> put_digits en pb tmp k s = (if pb \<noteq> 0 then put_string en (rev (take k tmp)) s else s)"
  by (induction en pb tmp k s rule: put_digits.induct) (simp_all add: take_Suc_conv_app_nth)

definition number_text :: "u32 \<Rightarrow> nat \<Rightarrow> int \<Rightarrow> int \<Rightarrow> u8 \<Rightarrow> string" where
  "number_text n base w precision flags =
    (let (sign, num) = number_sign n flags;
         digs = (if num = 0 then ''0''
           else rev (number_digits (if has flags F_LARGE then large_digits else small_digits) base num));
         sg = (case sign of None \<Rightarrow> [] | Some c \<Rightarrow> [c]);
         num_part = replicate (nat (precision - int (length digs))) CHR ''0'' @ (if precision = 0 then [] else digs);
         fill = nat (w - max precision (int (length digs)) - int (length sg))
     in if has flags F_LEFT then sg @ num_part @ replicate fill CHR '' ''
        else if has flags F_ZEROPAD then sg @ replicate fill CHR ''0'' @ num_part
        else replicate fill CHR '' '' @ sg @ num_part)"

lemma has_bit:
  "has t F_ZEROPAD = bit t 0" "has t F_SIGN = bit t 1" "has t F_PLUS = bit t 2" "has t F_SPACE = bit t 3"
  "has t F_LEFT = bit t 4" "has t F_LARGE = bit t 6"
  using and_exp_eq_0_iff_not_bit [of t 0] and_exp_eq_0_iff_not_bit [of t 1] and_exp_eq_0_iff_not_bit [of t 2]
    and_exp_eq_0_iff_not_bit [of t 3] and_exp_eq_0_iff_not_bit [of t 4] and_exp_eq_0_iff_not_bit [of t 6]
  by (simp_all add: has_def)

lemma bit_clear: "bit (t AND NOT F_ZEROPAD :: u8) k \<longleftrightarrow> bit t k \<and> 0 < k"
  by (auto simp: bit_and_iff bit_not_iff bit_1_iff dest: bit_imp_le_length)

lemma has_or: "has t (f OR g) \<longleftrightarrow> has t f \<or> has t g"
  by (simp add: has_def bit.conj_disj_distrib or_eq_0_iff)

lemma number_sign_clear: "number_sign n (t AND NOT F_ZEROPAD) = number_sign n t"
  by (simp only: number_sign_def has_bit bit_clear) simp

text \<open>\<open>print_number\<close> writes that text.\<close>

lemma print_number_text:
  "print_number en n base w p t s = put_string en (number_text n base w p t) s"
proof -
  obtain sign num where sn: "number_sign n t = (sign, num)" by (cases "number_sign n t")
  define tmp where "tmp = (if num = 0 then ''0''
      else number_digits (if has t F_LARGE then large_digits else small_digits) base num)"
  define digs where "digs = rev tmp"
  define i where "i = int (length tmp)"
  define pr where "pr = (if i > p then i else p)"
  define sg where "sg = (case sign of None \<Rightarrow> [] | Some c \<Rightarrow> [c])"
  define np where "np = replicate (nat (p - i)) CHR ''0'' @ (if p = 0 then [] else digs)"
  define fill where "fill = nat (w - pr - int (length sg))"
  have ds: "(if num = 0 then ''0'' else rev (number_digits (if has t F_LARGE then large_digits else small_digits) base num)) = digs"
    by (simp add: digs_def tmp_def)
  have pm: "int (length digs) = i" "max p i = pr" by (auto simp: pr_def i_def digs_def max_def)
  have T: "number_text n base w p t = (if has t F_LEFT then sg @ np @ replicate fill CHR '' ''
      else if has t F_ZEROPAD then sg @ replicate fill CHR ''0'' @ np else replicate fill CHR '' '' @ sg @ np)"
    unfolding number_text_def sn Let_def prod.case ds sg_def [symmetric] pm np_def fill_def by (rule refl)
  have tail: "put_digits en p tmp (length tmp) (zeros en i pr o1) = put_string en np o1" for o1
  proof -
    have "nat (pr - i) = nat (p - i)" by (auto simp: pr_def)
    then show ?thesis
      by (simp add: zeros_text put_digits_text np_def digs_def put_string_append)
  qed
  have sgn: "(case sign of Some ch \<Rightarrow> (z - 1, emit en ch o1) | None \<Rightarrow> (z, o1))
      = (z - int (length sg), put_string en sg o1)" for z :: int and o1
    by (cases sign) (simp_all add: sg_def)
  define t' where "t' = (if has t F_LEFT then t AND NOT F_ZEROPAD else t)"
  have t': "number_sign n t' = (sign, num)" "has t' F_LARGE = has t F_LARGE" "has t' F_LEFT = has t F_LEFT"
    "has t' F_ZEROPAD \<longleftrightarrow> has t F_ZEROPAD \<and> \<not> has t F_LEFT"
    by (simp_all only: t'_def number_sign_clear sn has_bit bit_clear if_distrib [of "number_sign n"] split: if_split) simp_all
  have P: "print_number en n base w p t s =
    (let (z1, o1) = (if \<not> has t' (F_ZEROPAD OR F_LEFT)
           then pad en CHR '' '' (if sign \<noteq> None \<and> w - pr > 0 then w - pr - 1 else w - pr) s else (w - pr, s));
         (z2, o2) = (z1 - int (length sg), put_string en sg o1);
         (z3, o3) = (if \<not> has t F_LEFT then pad en (if has t' F_ZEROPAD then CHR ''0'' else CHR '' '') z2 o2 else (z2, o2));
         (z4, o4) = pad en CHR '' '' z3 (put_string en np o3)
     in o4)"
    unfolding print_number_def Let_def t'_def [symmetric] t'(1,3) prod.case tmp_def [symmetric] i_def [symmetric]
      pr_def [symmetric] sgn tail by (rule refl)
  show ?thesis
    unfolding P T has_or t' pad_text Let_def
    by (cases "has t F_LEFT"; cases "has t F_ZEROPAD"; cases sign)
      (auto simp: put_string_append fill_def sg_def)
qed

section \<open>The digits\<close>

text \<open>In base 10 the digits are the decimal number; they fit the array \<open>tmp[16]\<close>.\<close>

lemma digit_table: "map digit [0..<10] = ''0123456789''"
  by code_simp

lemma small_digit: "d < 10 \<Longrightarrow> small_digits ! d = digit d"
proof -
  assume d: "d < 10"
  have "small_digits = map digit [0..<10] @ ''abcdef''" unfolding digit_table small_digits_def by simp
  then have "small_digits ! d = (map digit [0..<10] @ ''abcdef'') ! d" by (rule arg_cong)
  also have "\<dots> = map digit [0..<10] ! d" using d by (subst nth_append) simp
  also have "\<dots> = digit ([0..<10] ! d)" using d by (intro nth_map) simp
  also have "\<dots> = digit d" using d by simp
  finally show ?thesis .
qed

lemma divide_10: "divide n 10 = (unat n mod 10, n div 10)"
  by (simp add: divide_def unat_mod)

lemma number_digits_10: "n \<noteq> 0 \<Longrightarrow> rev (number_digits small_digits 10 n) = dec (unat n)"
proof (induction "unat n" arbitrary: n rule: less_induct)
  case less
  have u: "unat (n div 10) = unat n div 10" by (simp add: unat_div)
  have d: "small_digits ! (unat n mod 10) = digit (unat n mod 10)" by (rule small_digit) simp
  show ?case
  proof (cases "n div 10 = 0")
    case True
    then have "unat n div 10 = 0" using u by simp
    then have "unat n < 10" by simp
    then show ?thesis using less(2) d True
      by (subst number_digits.simps, subst number_digits.simps, subst dec.simps) (simp add: divide_10)
  next
    case False
    have "unat (n div 10) < unat n" using less(2) by (simp add: u unat_gt_0)
    from less(1) [OF this False] have "rev (number_digits small_digits 10 (n div 10)) = dec (unat n div 10)"
      using u by simp
    moreover have "\<not> unat n < 10" using False u by (metis div_less unat_eq_zero)
    ultimately show ?thesis using less(2) d
      by (subst number_digits.simps, subst dec.simps) (simp add: divide_10)
  qed
qed

lemma number_digits_length: "b = 10 \<or> b = 16 \<or> b = 8 \<Longrightarrow> unat n < 10 ^ k \<Longrightarrow> length (number_digits ds b n) \<le> k"
proof (induction k arbitrary: n)
  case 0
  then have "n = 0" by (simp add: unat_eq_zero)
  then show ?case by (subst number_digits.simps) simp
next
  case (Suc k)
  obtain d m where m: "divide n b = (d, m)" by (cases "divide n b")
  have "unat m \<le> unat n div 10"
    using m Suc.prems(1) by (auto simp: divide_def unat_div intro: div_le_mono2 split: if_splits)
  also have "\<dots> < 10 ^ k" using Suc.prems(2) by (simp add: div_less_iff_less_mult mult.commute)
  finally have "length (number_digits ds b m) \<le> k" by (intro Suc.IH Suc.prems(1))
  then show ?case using m by (subst number_digits.simps) simp
qed

lemma number_digits_fit: "length (number_digits ds (if b then 10 else 16) n) \<le> 10"
proof -
  have "unat n < 10 ^ 10" using unsigned_less [of n, where 'a = nat] by simp
  then show ?thesis by (intro number_digits_length) auto
qed

text \<open>A plain \<open>%d\<close> prints the number as \<open>sprintf\<close> does.\<close>

lemma dec_0: "dec 0 = ''0''"
  using digit_table by (subst dec.simps) (simp add: upt_rec)

lemma signed_magnitude:
  fixes n :: u32
  shows "0 \<le> sint n \<Longrightarrow> unat n = nat (sint n)" "sint n < 0 \<Longrightarrow> unat (- n) = nat (- sint n)"
proof -
  have b: "- (2 ^ 31) \<le> sint n" "sint n < 2 ^ 31" using sint_ge [of n] sint_lt [of n] by simp_all
  have u: "uint n = sint n mod 2 ^ 32" using uint_sint [of n] by (simp add: take_bit_eq_mod)
  show "0 \<le> sint n \<Longrightarrow> unat n = nat (sint n)"
    using u b by (simp only: unat_eq_nat_uint) simp
  assume neg: "sint n < 0"
  have "uint (- n) = - uint n mod 2 ^ 32" by (simp add: uint_word_ariths)
  also have "\<dots> = - sint n mod 2 ^ 32" unfolding u by (rule mod_minus_eq)
  also have "\<dots> = - sint n" using neg b by (intro mod_pos_pos_trivial) auto
  finally show "unat (- n) = nat (- sint n)" by (simp only: unat_eq_nat_uint)
qed

lemma number_text_d: "number_text n 10 (- 1) (- 1) F_SIGN = fmt_d (sint n)"
proof -
  have f: "has F_SIGN F_SIGN" "\<not> has F_SIGN F_PLUS" "\<not> has F_SIGN F_SPACE" "\<not> has F_SIGN F_LEFT"
    "\<not> has F_SIGN F_LARGE" "\<not> has F_SIGN F_ZEROPAD" by (simp_all add: has_def)
  show ?thesis
  proof (cases "n <s 0")
    case True
    then have neg: "sint n < 0" by (simp add: word_sless_alt)
    then have "- n \<noteq> 0" by auto
    moreover have "unat (- n) = nat (- sint n)"
      using signed_magnitude(2) [OF neg] .
    ultimately show ?thesis using True neg f number_digits_10 [of "- n"]
      by (simp add: number_text_def number_sign_def fmt_d_def Let_def)
  next
    case False
    then have pos: "0 \<le> sint n" by (simp add: word_sless_alt)
    then have "unat n = nat (sint n)"
      by (rule signed_magnitude(1))
    then show ?thesis using False pos f number_digits_10 [of n] dec_0
      by (cases "n = 0") (simp_all add: number_text_def number_sign_def fmt_d_def Let_def)
  qed
qed

section \<open>Directives\<close>

definition char_text :: "u8 \<Rightarrow> int \<Rightarrow> u32 \<Rightarrow> string" where
  "char_text flags w n =
    (let c = char_of (unat (ucast n :: u8)); fill = replicate (nat (w - 1)) CHR '' ''
     in if has flags F_LEFT then c # fill else fill @ [c])"

definition string_text :: "u8 \<Rightarrow> int \<Rightarrow> int \<Rightarrow> string option \<Rightarrow> string" where
  "string_text flags w precision arg =
    (let str = (case arg of None \<Rightarrow> ''(NULL)'' | Some str \<Rightarrow> str);
         shown = (if precision > 0 then take (nat precision) str else str);
         fill = replicate (nat (w - int (length shown))) CHR '' ''
     in if has flags F_LEFT then shown @ fill else fill @ shown)"

lemma pad_char_text: "pad_char en w s = (if w > 1 then 0 else w - 1, put_string en (replicate (nat (w - 1)) CHR '' '') s)"
proof (induction en w s rule: pad_char.induct)
  case (1 en w s)
  show ?case
  proof (cases "w > 1")
    case True
    then have "nat (w - 1) = Suc (nat (w - 1 - 1))" by simp
    then show ?thesis using 1 True by (subst pad_char.simps) auto
  qed (subst pad_char.simps, simp)
qed

lemma pad_string_text:
  "pad_string en len w s = (if w > len then len - 1 else w - 1, put_string en (replicate (nat (w - len)) CHR '' '') s)"
proof (induction en len w s rule: pad_string.induct)
  case (1 en len w s)
  show ?case
  proof (cases "w > len")
    case True
    then have "nat (w - len) = Suc (nat (w - 1 - len))" by simp
    then show ?thesis using 1 True by (subst pad_string.simps) auto
  qed (subst pad_string.simps, simp)
qed

lemma conv_char_text: "conv_char en flags w n s = put_string en (char_text flags w n) s"
  by (auto simp: conv_char_def char_text_def pad_char_text put_string_append Let_def)

lemma conv_string_text: "conv_string en flags w p arg s = put_string en (string_text flags w p arg) s"
proof -
  define str where "str = (case arg of None \<Rightarrow> ''(NULL)'' | Some str \<Rightarrow> str)"
  define len where "len = (if p > 0 \<and> int (length str) > p then p else int (length str))"
  define shown where "shown = (if p > 0 then take (nat p) str else str)"
  have l: "int (length shown) = len" "take (nat len) str = shown" by (auto simp: len_def shown_def)
  have "conv_string en flags w p arg s =
    (let (w1, s1) = (if \<not> has flags F_LEFT then pad_string en len w s else (w, s))
     in snd (pad_string en len w1 (put_string en shown s1)))"
    unfolding conv_string_def str_def [symmetric] len_def [symmetric] Let_def l(2) by (rule refl)
  moreover have "string_text flags w p arg =
    (if has flags F_LEFT then shown @ replicate (nat (w - len)) CHR '' ''
     else replicate (nat (w - len)) CHR '' '' @ shown)"
    unfolding string_text_def str_def [symmetric] shown_def [symmetric] Let_def l(1) by (rule refl)
  ultimately show ?thesis
    by (auto simp: pad_string_text put_string_append)
qed

text \<open>The text of a conversion and of a directive, with the arguments that are left.\<close>

definition number_arg_text :: "u8 \<Rightarrow> int \<Rightarrow> int \<Rightarrow> char option \<Rightarrow> nat \<Rightarrow> va list \<Rightarrow> (va list \<times> string) option" where
  "number_arg_text flags w precision q base args =
    do { (n, args') \<leftarrow> va_int args; Some (args', number_text (int_value q flags n) base w precision flags) }"

definition convert_text :: "u8 \<Rightarrow> int \<Rightarrow> int \<Rightarrow> char option \<Rightarrow> char \<Rightarrow> va list \<Rightarrow> (va list \<times> string) option" where
  "convert_text flags w precision q c args =
    (if c = CHR ''c'' then do { (n, args') \<leftarrow> va_int args; Some (args', char_text flags w n) }
     else if c = CHR ''s'' then do { (arg, args') \<leftarrow> va_str args; Some (args', string_text flags w precision arg) }
     else if c = CHR ''p''
     then do { (n, args') \<leftarrow> va_int args;
               Some (args', if w = - 1 then number_text n 16 8 precision (flags OR F_ZEROPAD)
                 else number_text n 16 w precision flags) }
     else if c = CHR ''%'' then Some (args, ''%'')
     else if c = CHR ''o'' then number_arg_text flags w precision q 8 args
     else if c = CHR ''X'' then number_arg_text (flags OR F_LARGE) w precision q 16 args
     else if c = CHR ''x'' then number_arg_text flags w precision q 16 args
     else if c = CHR ''d'' \<or> c = CHR ''i'' then number_arg_text (flags OR F_SIGN) w precision q 10 args
     else if c = CHR ''u'' then number_arg_text flags w precision q 10 args
     else Some (args, CHR ''%'' # [c]))"

lemma vs_number_text:
  "vs_number en flags w p q base args s =
   map_option (\<lambda>(a, t). (a, put_string en t s)) (number_arg_text flags w p q base args)"
  by (cases "va_int args") (auto simp: vs_number_def number_arg_text_def print_number_text)

lemma vs_convert_text:
  "vs_convert en flags w p q c args s =
   map_option (\<lambda>(a, t). (a, put_string en t s)) (convert_text flags w p q c args)"
  unfolding vs_convert_def convert_text_def
  by (cases "va_int args"; cases "va_str args")
    (simp_all add: vs_number_text conv_char_text conv_string_text print_number_text split: prod.split)

definition directive_text :: "string \<Rightarrow> va list \<Rightarrow> (string \<times> va list \<times> string) option" where
  "directive_text fmt args =
    (let (flags, fmt1) = flags_loop 0 fmt
     in do { (w, flags2, fmt2, args2) \<leftarrow> field_width flags fmt1 args;
             (precision, fmt3, args3) \<leftarrow> field_precision fmt2 args2;
             let (q, fmt4) = qualifier fmt3
             in case fmt4 of [] \<Rightarrow> Some ([], args3, ''%'')
                | c # rest \<Rightarrow> map_option (Pair rest) (convert_text flags2 w precision q c args3) })"

lemma vs_directive_text:
  "vs_directive en fmt args s =
   map_option (\<lambda>(f, a, t). (f, a, put_string en t s)) (directive_text fmt args)"
proof -
  obtain fl f1 where 1: "flags_loop 0 fmt = (fl, f1)" by (cases "flags_loop 0 fmt")
  show ?thesis
  proof (cases "field_width fl f1 args")
    case None
    then show ?thesis by (simp add: vs_directive_def directive_text_def 1)
  next
    case (Some r)
    obtain w fl2 f2 a2 where 2: "field_width fl f1 args = Some (w, fl2, f2, a2)" using Some by (cases r) auto
    show ?thesis
    proof (cases "field_precision f2 a2")
      case None
      then show ?thesis by (simp add: vs_directive_def directive_text_def 1 2)
    next
      case (Some r)
      obtain p f3 a3 where 3: "field_precision f2 a2 = Some (p, f3, a3)" using Some by (cases r) auto
      obtain q f4 where 4: "qualifier f3 = (q, f4)" by (cases "qualifier f3")
      show ?thesis
        by (cases f4)
          (simp_all add: vs_directive_def directive_text_def 1 2 3 4 vs_convert_text option.map_comp comp_def
            split_def)
    qed
  qed
qed

lemma directive_text_length: "directive_text f a = Some (f', a', t) \<Longrightarrow> length f' \<le> length f"
  using vs_directive_length [of 0 f a undefined f' a' "put_string 0 t undefined"]
  by (simp add: vs_directive_text)

text \<open>The text of a whole format.\<close>

function format_text :: "string \<Rightarrow> va list \<Rightarrow> string option" where
  "format_text [] args = Some []"
| "format_text (c # fmt) args =
    (if c \<noteq> CHR ''%'' then map_option (Cons c) (format_text fmt args)
     else case directive_text fmt args of None \<Rightarrow> None
       | Some (fmt', args', t) \<Rightarrow> map_option (append t) (format_text fmt' args'))"
  by pat_completeness auto
termination by (relation "measure (\<lambda>(f, a). length f)") (auto dest: directive_text_length)

lemma vs_loop_text: "vs_loop en fmt args s = map_option (\<lambda>t. put_string en t s) (format_text fmt args)"
proof (induction fmt args arbitrary: s rule: format_text.induct)
  case (2 c fmt args)
  show ?case
  proof (cases "c = CHR ''%''")
    case True
    show ?thesis
    proof (cases "directive_text fmt args")
      case None
      then show ?thesis using True by (simp add: vs_directive_text)
    next
      case (Some r)
      then obtain f a t where d: "directive_text fmt args = Some (f, a, t)" by (cases r) auto
      have "vs_loop en f a s' = map_option (\<lambda>t. put_string en t s') (format_text f a)" for s'
        by (rule 2(2)) (use True d in simp_all)
      then show ?thesis using True d
        by (simp add: vs_directive_text option.map_comp comp_def put_string_append)
    qed
  next
    case False
    then show ?thesis using 2(1) by (simp add: option.map_comp comp_def)
  qed
qed simp

section \<open>The buffer\<close>

lemma put_field_snoc: "put_field m p (xs @ [b]) = (put_field m p xs)(p + length xs := b)"
  by (simp add: put_field_append put_field_Cons)

lemma vsnprintf_text:
  assumes "buf + sz < 2 ^ 32" "format_text fmt args = Some t"
  shows "rt_vsnprintf m buf sz fmt args =
    Some (length t, if sz = 0 then m else put_field m buf (map of_char (take (sz - 1) t) @ [0]))"
proof -
  let ?m1 = "put_field m buf (map of_char (take sz t))"
  have v: "vs_loop (buf + sz) fmt args (m, buf) = Some (?m1, buf + length t)"
    using assms(2) by (simp add: vs_loop_text put_string_mem)
  have r: "rt_vsnprintf m buf sz fmt args = Some (length t,
      if sz > 0 then (if buf + length t < buf + sz then ?m1(buf + length t := 0) else ?m1(buf + sz - 1 := 0)) else ?m1)"
    using assms(1) v by (simp add: rt_vsnprintf_def)
  show ?thesis
  proof (cases "sz = 0")
    case True
    then show ?thesis using r by simp
  next
    case False
    have "(if length t < sz then ?m1(buf + length t := 0) else ?m1(buf + sz - 1 := 0))
        = put_field m buf (map of_char (take (sz - 1) t) @ [0])"
    proof (cases "length t < sz")
      case True
      then show ?thesis by (simp add: put_field_snoc)
    next
      case f: False
      then have t: "take sz t = take (sz - 1) t @ [t ! (sz - 1)]"
        using False take_Suc_conv_app_nth [of "sz - 1" t] by simp
      have l: "length (take (sz - 1) t) = sz - 1" using f False by simp
      show ?thesis using f False unfolding t by (simp add: put_field_snoc)
    qed
    then show ?thesis using r False by simp
  qed
qed

lemma vsnprintf_none:
  "format_text fmt args = None \<Longrightarrow> rt_vsnprintf m buf sz fmt args = None"
  by (simp add: rt_vsnprintf_def vs_loop_text Let_def)

section \<open>Defects\<close>

text \<open>\<open>divide\<close> knows the bases 10 and 16 only: \<open>%o\<close> prints hexadecimal digits.\<close>

lemma octal_prints_hex: "number_text n 8 w p flags = number_text n 16 w p flags"
proof -
  have "number_digits ds 8 k = number_digits ds 16 k" for ds k
  proof (induction "unat k" arbitrary: k rule: less_induct)
    case less
    show ?case
    proof (cases "k = 0")
      case True
      then show ?thesis by (subst (1 2) number_digits.simps) simp
    next
      case False
      obtain d m where m: "divide k 8 = (d, m)" by (cases "divide k 8")
      then have m16: "divide k 16 = (d, m)" by (simp add: divide_def)
      have "unat m < unat k" using m False by (auto simp: divide_def unat_div unat_gt_0)
      from less [OF this] show ?thesis using m m16
        by (subst (1 2) number_digits.simps) simp
    qed
  qed
  then show ?thesis by (simp only: number_text_def)
qed

text \<open>With the precision 0 no digit is printed, whatever the number.\<close>

lemma precision_0_prints_nothing:
  "number_text n 10 (- 1) 0 0 = []"
proof -
  have "\<not> has 0 f" for f by (simp add: has_def)
  then show ?thesis by (simp add: number_text_def number_sign_def)
qed

text \<open>The buffer of \<open>rt_kprintf\<close> is given to \<open>rt_vsnprintf\<close> with one byte less, but the length is cut
  to that size: a longer text reaches the console with the zero byte at its end.\<close>

lemma read_put_field:
  assumes "n \<le> length bs"
  shows "map (\<lambda>i. put_field m d bs (d + i)) [0..<n] = take n bs"
proof (rule nth_equalityI)
  show "length (map (\<lambda>i. put_field m d bs (d + i)) [0..<n]) = length (take n bs)" using assms by simp
  fix i
  assume "i < length (map (\<lambda>i. put_field m d bs (d + i)) [0..<n])"
  then have "i < n" by (simp del: upt_Suc)
  then show "map (\<lambda>i. put_field m d bs (d + i)) [0..<n] ! i = take n bs ! i"
    using assms by (simp add: put_field_def del: upt_Suc)
qed

lemma kprintf_text_stored:
  fixes t :: string
  assumes "log_buf + 255 < 2 ^ 32" "format_text fmt args = Some t" "n = min (length t) 255"
  shows "\<exists>m1. kprintf_text m log_buf fmt args = Some (take n (map of_char (take 254 t) @ [0]), m1)"
proof -
  let ?bs = "map of_char (take 254 t) @ [0]"
  have v: "rt_vsnprintf m log_buf 255 fmt args = Some (length t, put_field m log_buf ?bs)"
    using vsnprintf_text [OF assms(1,2), of m] by simp
  have len: "(if length t > 255 then 255 else length t) = n" using assms(3) by simp
  have "n \<le> length ?bs" using assms(3) by simp
  note rd = read_put_field [OF this, of m log_buf]
  have "kprintf_text m log_buf fmt args = Some (map (\<lambda>i. put_field m log_buf ?bs (log_buf + i)) [0..<n],
      put_field m log_buf ?bs)"
    unfolding kprintf_text_def Let_def using v len by (auto simp del: upt_Suc)
  then show ?thesis unfolding rd by blast
qed

lemma kprintf_text_short:
  assumes "log_buf + 255 < 2 ^ 32" "format_text fmt args = Some t" "length t < 255"
  shows "\<exists>m1. kprintf_text m log_buf fmt args = Some (map of_char t, m1)"
  using kprintf_text_stored [OF assms(1,2) refl, of m] assms(3) by simp

lemma kprintf_text_long:
  assumes "log_buf + 255 < 2 ^ 32" "format_text fmt args = Some t" "255 \<le> length t"
  shows "\<exists>m1. kprintf_text m log_buf fmt args = Some (map of_char (take 254 t) @ [0], m1)"
  using kprintf_text_stored [OF assms(1,2) refl, of m] assms(3) by simp

section \<open>The property of the printing functions\<close>



end
