(* ===== verification/Spec2Isabelle.thy ===== *)
theory Spec2Isabelle
  imports Ringbuffer Device Gpio Alarm Door Auto_Control App_System Blink Tcp_Control Ipc_Locks Ipc_Event Ipc_Messagequeue
    Heap_Client Printf_Text
begin

text \<open>
  A verification of the firmware of a building controller: an STM32F407 board that runs RT-Thread
  and the application under \<open>src/smart-building-mcu/applications\<close>. The application measures
  temperature, humidity, brightness and smoke, compares them with limits, and switches an alarm
  (a blinking lamp and a buzzer driven by a hardware timer), an escape door (a servo driven by
  PWM), a relay and an emergency light. It shows the measurements on a display, reports them to
  an MQTT server, keeps them in two text files and takes commands over TCP.

  \<^bold>\<open>Parts and theories.\<close> Paths are relative to \<open>src/smart-building-mcu\<close>.

  \<^item> \<open>Mcu_Prelude\<close>: C integers of fixed width, error codes, byte segments and the generic lemmas.
  \<^item> \<open>Ringbuffer\<close>: \<open>rt-thread/components/drivers/src/ringbuffer.c\<close>. The locale \<open>byte_fifo\<close> states the contract
    of a bounded queue of bytes, interpreted on the code's operations.
  \<^item> \<open>Device\<close>: \<open>rt-thread/src/device.c\<close>, with the locale of stand-alone drivers that \<open>Hwtimer\<close>
    interprets.
  \<^item> \<open>Hal_Gpio\<close>, \<open>Gpio\<close>: the GPIO functions of the vendor library at register level,
    \<open>drivers/drv_gpio.c\<close> and \<open>rt-thread/components/drivers/misc/pin.c\<close>.
  \<^item> \<open>Softfloat\<close>, \<open>Hal_Tim\<close>, \<open>Timeout\<close>, \<open>Hwtimer\<close>, \<open>Drv_Hwtimer\<close>: rounding of IEEE numbers on rationals, the
    timer registers, \<open>rt-thread/components/drivers/hwtimer/hwtimer.c\<close> and \<open>drivers/drv_hwtimer.c\<close>.
  \<^item> \<open>Pwm\<close>: \<open>rt-thread/components/drivers/misc/rt_drv_pwm.c\<close> and \<open>drivers/drv_pwm.c\<close>.
  \<^item> \<open>Adc\<close>: \<open>rt-thread/components/drivers/misc/adc.c\<close> and \<open>drivers/drv_adc.c\<close>.
  \<^item> \<open>App_State\<close>: the record \<open>app\<close> of all module variables, devices and recorded calls, and
    \<open>applications/src/my_data_upload.c\<close>.
  \<^item> \<open>Alarm\<close>: \<open>my_hwtimer.c\<close> and \<open>my_multiThread.c\<close>. \<open>Door\<close>: \<open>my_pwm_ctrl_door.c\<close> and \<open>my_pwm.c\<close>.
  \<^item> \<open>Cstring\<close>: the functions of the C library the application uses on text, with arrays of bounded
    size: decimal printing and reading, \<open>strcpy\<close>, \<open>strtok\<close>, \<open>fgets\<close>.
  \<^item> \<open>Sensors\<close>: \<open>my_oled.c\<close>, \<open>my_adc.c\<close> and \<open>my_dht11.c\<close>. \<open>Auto_Control\<close>: \<open>my_auto_control.c\<close>.
  \<^item> \<open>App_System\<close>, \<open>Blink\<close>: \<open>main.c\<close> and the running system.
  \<^item> \<open>Tcp_Send\<close>, \<open>Tcp_Control\<close>: \<open>my_TCP.c\<close>. \<open>File_Log\<close>: \<open>my_file.c\<close>.

  \<^item> \<open>Kernel_Sched\<close>: the scheduler of the kernel (\<open>rt-thread/src/scheduler.c\<close> and the search for the first set bit
    of \<open>kservice.c\<close>). \<open>Kernel_Thread\<close>: threads, timers and the clock (\<open>thread.c\<close>, \<open>timer.c\<close>, \<open>clock.c\<close>, \<open>irq.c\<close>,
    \<open>idle.c\<close>) and the start of the system (\<open>components.c\<close>). \<open>Kernel_Timer\<close> and \<open>Kernel_Calls\<close> hold their
    invariants, the effect of each call, and the step relation of all calls.
  \<^item> \<open>Ipc\<close>: semaphores, mutexes and events of \<open>rt-thread/src/ipc.c\<close>; \<open>Ipc_Mailbox\<close> and \<open>Ipc_Messagequeue\<close>: its mailboxes and message
    queues. \<open>Ipc_Wait\<close> holds what they share: the lists of waiting threads, and the locale \<open>ipc_object\<close>, whose laws say that
    the calls on an object follow an abstract automaton; it is interpreted for semaphores and mutexes in \<open>Ipc_Locks\<close>, for events in
    \<open>Ipc_Event\<close>, and for the queues in their own theories.

  \<^bold>\<open>How the code is represented.\<close> A structure is a record and an operation a function that returns
  the new record. \<open>None\<close> is a failed assertion (the thread does not go on); an error of C that has no
  defined result (a buffer that overflows, memory used after it was freed) is a value of \<open>c_error\<close>.
  Integers are words of the width of the code, or natural numbers with the reduction written out.
  Floating-point expressions are rationals rounded after every operation. The body of an endless
  thread loop is one function per turn, and the running system is the step relation \<open>app_step\<close>: any
  thread turn, a timer interrupt or a remote command. A turn is atomic: interleaving inside a
  turn is not modelled. What comes from outside is an argument: sampled values, results of
  \<open>malloc\<close>, \<open>send\<close>, \<open>recv\<close> and \<open>fopen\<close>, and what uninitialised local arrays hold.

  \<^bold>\<open>What is shown.\<close>

  \<^item> The ring buffer is a bounded FIFO under every sequence of block puts and gets; the forced byte
    put drops exactly the oldest byte; the forced block put can lose the block it stores.
  \<^item> A pin reads the level last written to it, the interrupt controller is enabled for the lines of the
    driver's mask, an attached handler is called, and pin numbers are truncated to 8 bits.
  \<^item> A stand-alone timer device is open at most once; the split of a timeout terminates and is as exact
    as single precision allows; 100 ms become two overflows; the callback runs once per timeout.
  \<^item> PWM registers are never out of range, the configuration can be read back, and above 51 ms the
    32-bit product of the read-back wraps.
  \<^item> The alarm's period stays within its limits, the servo pulse within 0.51 to 2.49 ms, the door at
    0, 90 or 180 degrees; the recorded door state can differ from the position. The pulse of the
    breathing lamp is a triangle wave.
  \<^item> Readings are stored and shown as they were delivered, within the ranges of the sensors.
  \<^item> A turn of the control thread refines the abstract controller of \<open>Auto_Control\<close>; the controller
    does not chatter; it responds to a fire and to its end; an alarm that is on blinks every 100 ms.
  \<^item> In every state the running system reaches the recorded states agree with the hardware and no
    thread stops at an assertion.
  \<^item> A TCP session frees its buffer and closes its socket exactly once as long as \<open>send\<close> succeeds, and
    twice otherwise; the value commands set their limits; long messages and every temperature
    record overflow an array; a lamp command is not recorded.
  \<^item> The light log round-trips in loads of 25 records with one record lost between loads; temperature
    records are read back as long as the number of digits stays the same.

  \<^item> The scheduler runs the ready thread of the highest priority that has waited longest; the table search
    for the first set bit agrees with the instruction; the start of the system reaches the main thread; a sleep
    lasts exactly its ticks, across the wrap of the tick counter; after any sequence of permitted
    kernel calls the lists of threads and timers are consistent and the next permitted call returns.
  \<^item> Under any sequence of calls on the object, other kernel calls and clock ticks, a semaphore is a counter, a mutex a lock
    with one owner, an event object a set of flags with no lost wake-up, a mailbox a bounded queue and a message queue a bounded
    queue with urgent messages; a limited wait ends after its ticks; the owner of a mutex inherits the priority of
    waiting threads and gets its own back; deleting or resetting an object wakes every thread that waits for it.

  \<^bold>\<open>Bounds.\<close> The model uses no fuel. The search for a timer split terminates for timeouts below 15
  seconds at 1 MHz, which covers the alarm's 5 seconds; beyond that single precision no longer
  separates neighbouring splits, and the search is a partial function with the value \<open>None\<close>. The loop that empties
  a message queue is bounded by the number of its slots, which \<open>mq_reset_ok\<close> shows to be enough; waking all threads of
  a list is a partial function that \<open>resume_all_ok\<close> shows to return.

  \<^bold>\<open>Not modelled.\<close> Memory management of the kernel (a later extension); the turns of the application are atomic, so that
  its steps are not connected to the scheduler's; a kernel call is atomic too, also where it enables interrupts for a
  moment (the copying of a message); the network stack, file system and shell (their
  calls are arguments); the MQTT module, whose source is not in the repository, and the
  \<open>pahomqtt\<close> and \<open>cJSON\<close> packages behind it; the \<open>ssd1306\<close> and \<open>dht11\<close> packages, also absent (calls
  are recorded, results are arguments); bus drivers the application does not call; the other parts
  of the vendor library; printing to the console.
\<close>

end
